(* ===== verification/Prelude.thy ===== *)
theory Prelude
  imports Main "HOL-Library.Word" "HOL-Library.Char_ord" "HOL-Library.List_Lexorder"
begin

text \<open>
  Shared ground of the development: names for the machine types of the C++ code, the
  conversions between \<^verbatim>\<open>std::string\<close> (a \<^typ>\<open>string\<close>, one \<^typ>\<open>char\<close> per byte) and
  \<^verbatim>\<open>std::vector<uint8_t>\<close> (a list of 8-bit words), little-endian images of words, the
  character classes of \<^verbatim>\<open><cctype>\<close>, substring search (\<^verbatim>\<open>std::string::find\<close>), decimal
  printing (\<^verbatim>\<open>std::to_string\<close>) and \<^verbatim>\<open>std::map\<close> as a sorted association list. The
  collections \<open>codec\<close> and \<open>text_simps\<close> carry the facts that the component proofs share.
\<close>

unbundle bit_operations_syntax

named_theorems codec \<open>lengths and inverses of byte encodings\<close>
named_theorems text_simps \<open>facts about strings, searching and printing\<close>

type_synonym u8 = "8 word"
type_synonym u16 = "16 word"
type_synonym u32 = "32 word"
type_synonym u64 = "64 word"
type_synonym bytes = "u8 list"


section \<open>Bytes and characters\<close>

definition byte_of_char :: "char \<Rightarrow> u8" where
  "byte_of_char c = word_of_nat (of_char c)"

definition char_of_byte :: "u8 \<Rightarrow> char" where
  "char_of_byte b = char_of (unat b)"

definition bytes_of_string :: "string \<Rightarrow> bytes" where
  "bytes_of_string s = map byte_of_char s"

definition string_of_bytes :: "bytes \<Rightarrow> string" where
  "string_of_bytes bs = map char_of_byte bs"

lemma unat_byte_of_char [codec, simp]: "unat (byte_of_char c) = of_char c"
  by (simp add: byte_of_char_def unat_of_nat)

lemma char_of_byte_of_char [codec, simp]: "char_of_byte (byte_of_char c) = c"
  by (simp add: char_of_byte_def)

lemma byte_of_char_of_byte [codec, simp]: "byte_of_char (char_of_byte b) = b"
proof -
  have "unat b < 2 ^ LENGTH(8)" by (rule unsigned_less)
  then have "unat b mod 256 = unat b" by simp
  then show ?thesis
    by (simp add: byte_of_char_def char_of_byte_def of_char_of)
qed

lemma string_of_bytes_of_string [codec, simp]: "string_of_bytes (bytes_of_string s) = s"
  by (simp add: string_of_bytes_def bytes_of_string_def o_def)

lemma bytes_of_string_of_bytes [codec, simp]: "bytes_of_string (string_of_bytes b) = b"
  by (simp add: string_of_bytes_def bytes_of_string_def o_def)

lemma length_bytes_of_string [codec, simp]: "length (bytes_of_string s) = length s"
  by (simp add: bytes_of_string_def)

lemma length_string_of_bytes [codec, simp]: "length (string_of_bytes s) = length s"
  by (simp add: string_of_bytes_def)

lemma byte_of_char_inject [simp]: "byte_of_char c = byte_of_char d \<longleftrightarrow> c = d"
  by (metis char_of_byte_of_char)

lemma byte_of_char_eq_0_iff [simp]: "byte_of_char c = 0 \<longleftrightarrow> c = CHR 0x00"
proof -
  have "byte_of_char (CHR 0x00) = 0" by (simp add: byte_of_char_def)
  then show ?thesis by (metis byte_of_char_inject)
qed


section \<open>Little-endian images of words\<close>

text \<open>
  The container structs are packed and written with \<^verbatim>\<open>reinterpret_cast\<close> on a little-endian
  target, so a field of \<open>n\<close> bytes is its bytes from the least significant one.
\<close>

fun le_bytes :: "nat \<Rightarrow> 'a::len word \<Rightarrow> bytes" where
  "le_bytes 0 w = []"
| "le_bytes (Suc n) w = ucast w # le_bytes n (drop_bit 8 w)"

fun le_word :: "bytes \<Rightarrow> 'a::len word" where
  "le_word [] = 0"
| "le_word (b # bs) = ucast b OR push_bit 8 (le_word bs)"

lemma length_le_bytes [codec, simp]: "length (le_bytes n w) = n"
  by (induction n arbitrary: w) auto

lemma take_bit_split_8:
  "take_bit (8 + n) (w :: 'a::len word) = take_bit 8 w OR push_bit 8 (take_bit n (drop_bit 8 w))"
  by (rule bit_word_eqI) (auto simp: bit_simps)

lemma ucast_u8_take_bit:
  "(ucast (ucast (w :: 'a::len word) :: u8) :: 'a word) = take_bit 8 w"
  by (rule bit_word_eqI) (auto simp: bit_simps)

lemma le_word_le_bytes_take_bit:
  "(le_word (le_bytes n w) :: 'a::len word) = take_bit (8 * n) w"
proof (induction n arbitrary: w)
  case 0
  then show ?case by simp
next
  case (Suc n)
  then show ?case
    by (simp add: ucast_u8_take_bit take_bit_split_8)
qed

lemma le_word_le_bytes [codec, simp]:
  "LENGTH('a) \<le> 8 * n \<Longrightarrow> (le_word (le_bytes n w) :: 'a::len word) = w"
  by (simp add: le_word_le_bytes_take_bit take_bit_word_eq_self)

lemma le_word_le_bytes_u32 [codec, simp]: "le_word (le_bytes 4 (w :: u32)) = w"
  by (rule le_word_le_bytes) simp

lemma le_word_le_bytes_u64 [codec, simp]: "le_word (le_bytes 8 (w :: u64)) = w"
  by (rule le_word_le_bytes) simp

lemma take_bit_le_word [codec]:
  "8 * length bs \<le> n \<Longrightarrow> take_bit n (le_word bs :: 'a::len word) = le_word bs"
proof (induction bs arbitrary: n)
  case Nil
  then show ?case by simp
next
  case (Cons b bs)
  define m where "m = n - 8"
  with Cons.prems have n: "n = 8 + m" and m: "8 * length bs \<le> m" by auto
  have byte: "take_bit n (ucast b :: 'a word) = ucast b"
    by (rule bit_word_eqI) (auto simp: bit_simps n dest: bit_imp_le_length)
  have "take_bit n (push_bit 8 (le_word bs :: 'a word)) = push_bit 8 (take_bit m (le_word bs))"
    by (simp add: n take_bit_push_bit)
  with byte Cons.IH [OF m] show ?case by simp
qed

lemma drop_push_bit_word:
  assumes "take_bit (LENGTH('a) - k) w = (w :: 'a::len word)"
  shows "drop_bit k (push_bit k w) = w"
proof (rule bit_word_eqI)
  fix n assume "n < LENGTH('a)"
  have "bit w n \<Longrightarrow> n < LENGTH('a) - k"
    using assms by (metis bit_take_bit_iff)
  then show "bit (drop_bit k (push_bit k w)) n = bit w n"
    by (auto simp: bit_simps)
qed

lemma word_xor_eq_0_iff [simp]: "(x :: 'a::len word) XOR y = 0 \<longleftrightarrow> x = y"
  by (metis xor.left_neutral xor.assoc xor_self_eq)

lemma word_xor_cancel [simp]: "(x :: 'a::len word) XOR z = y XOR z \<longleftrightarrow> x = y"
  by (metis xor.assoc xor_self_eq xor.right_neutral)

text \<open>Reading a field back out of a concatenation of fields.\<close>

definition slice :: "nat \<Rightarrow> nat \<Rightarrow> 'a list \<Rightarrow> 'a list" where
  "slice off n xs = take n (drop off xs)"

lemma length_slice [codec, simp]: "length (slice off n xs) = min n (length xs - off)"
  by (simp add: slice_def)

lemma slice_append_right [codec]:
  "length xs \<le> off \<Longrightarrow> slice off n (xs @ ys) = slice (off - length xs) n ys"
  by (simp add: slice_def)

lemma slice_append_left [codec]:
  "off + n \<le> length xs \<Longrightarrow> slice off n (xs @ ys) = slice off n xs"
  by (simp add: slice_def)

lemma slice_exact [codec, simp]: "n = length xs \<Longrightarrow> slice 0 n (xs @ ys) = xs"
  by (simp add: slice_def)

lemma slice_all [codec, simp]: "n = length xs \<Longrightarrow> slice 0 n xs = xs"
  by (simp add: slice_def)

lemma slice_middle [codec]:
  "off = length xs \<Longrightarrow> n = length ys \<Longrightarrow> slice off n (xs @ ys @ zs) = ys"
  by (simp add: slice_def)


section \<open>Character classes\<close>

text \<open>\<^verbatim>\<open>std::isspace\<close>, \<^verbatim>\<open>std::isdigit\<close>, \<^verbatim>\<open>std::isxdigit\<close> and \<^verbatim>\<open>std::tolower\<close> in the C locale.\<close>

definition isspace :: "char \<Rightarrow> bool" where
  "isspace c \<longleftrightarrow> c \<in> {CHR '' '', CHR 0x09, CHR 0x0A, CHR 0x0B, CHR 0x0C, CHR 0x0D}"

definition isdigit :: "char \<Rightarrow> bool" where
  "isdigit c \<longleftrightarrow> 48 \<le> (of_char c :: nat) \<and> (of_char c :: nat) \<le> 57"

definition isxdigit :: "char \<Rightarrow> bool" where
  "isxdigit c \<longleftrightarrow> isdigit c \<or> (97 \<le> (of_char c :: nat) \<and> (of_char c :: nat) \<le> 102)
     \<or> (65 \<le> (of_char c :: nat) \<and> (of_char c :: nat) \<le> 70)"

definition hex_digit_value :: "char \<Rightarrow> nat" where
  "hex_digit_value c =
     (let n = of_char c in
      if isdigit c then n - 48 else if 97 \<le> n then n - 87 else n - 55)"

definition hex_value :: "string \<Rightarrow> nat" where
  "hex_value s = foldl (\<lambda>a c. 16 * a + hex_digit_value c) 0 s"

definition tolower :: "char \<Rightarrow> char" where
  "tolower c =
     (let n = of_char c in if 65 \<le> n \<and> n \<le> 90 then char_of (n + 32 :: nat) else c)"

text \<open>The lower-case hexadecimal digits that \<^verbatim>\<open>%x\<close> prints.\<close>

definition hex_char :: "nat \<Rightarrow> char" where
  "hex_char d = (if d < 10 then char_of (48 + d) else char_of (87 + d))"


section \<open>Substring search\<close>

text \<open>
  \<open>find_sub pat s\<close> is \<^verbatim>\<open>s.find(pat)\<close>: the least index at which \<open>pat\<close> occurs, \<open>None\<close> for
  \<^verbatim>\<open>npos\<close>; \<open>find_sub_from pat s pos\<close> is \<^verbatim>\<open>s.find(pat, pos)\<close>, which is \<^verbatim>\<open>npos\<close> when
  \<open>pos\<close> lies beyond the end.
\<close>

fun starts_with :: "'a list \<Rightarrow> 'a list \<Rightarrow> bool" where
  "starts_with s [] = True"
| "starts_with [] (p # ps) = False"
| "starts_with (c # s) (p # ps) = (c = p \<and> starts_with s ps)"

lemma starts_with_iff [text_simps]: "starts_with s p \<longleftrightarrow> (\<exists>r. s = p @ r)"
  by (induction s p rule: starts_with.induct) auto

lemma starts_with_take: "starts_with s p \<longleftrightarrow> take (length p) s = p"
  by (induction s p rule: starts_with.induct) auto

lemma starts_with_append [simp]: "starts_with (p @ r) p"
  by (auto simp: starts_with_iff)

fun find_sub :: "'a list \<Rightarrow> 'a list \<Rightarrow> nat option" where
  "find_sub pat [] = (if pat = [] then Some 0 else None)"
| "find_sub pat (c # s) =
     (if starts_with (c # s) pat then Some 0 else map_option Suc (find_sub pat s))"

definition find_sub_from :: "'a list \<Rightarrow> 'a list \<Rightarrow> nat \<Rightarrow> nat option" where
  "find_sub_from pat s pos =
     (if length s < pos then None else map_option ((+) pos) (find_sub pat (drop pos s)))"

definition contains :: "'a list \<Rightarrow> 'a list \<Rightarrow> bool" where
  "contains s pat \<longleftrightarrow> find_sub pat s \<noteq> None"

lemma find_sub_Some_D [text_simps]:
  "find_sub pat s = Some i \<Longrightarrow> i + length pat \<le> length s \<and> starts_with (drop i s) pat"
proof (induction s arbitrary: i)
  case Nil
  then show ?case by (auto split: if_splits)
next
  case (Cons c s)
  show ?case
  proof (cases "starts_with (c # s) pat")
    case True
    then have "length pat \<le> length (c # s)" by (auto simp: starts_with_iff dest: arg_cong [where f = length])
    with True Cons.prems show ?thesis by simp
  next
    case False
    with Cons.prems obtain j where j: "find_sub pat s = Some j" and "i = Suc j" by auto
    with Cons.IH [OF j] show ?thesis by simp
  qed
qed

lemma find_sub_least:
  "find_sub pat s = Some i \<Longrightarrow> j < i \<Longrightarrow> \<not> starts_with (drop j s) pat"
proof (induction s arbitrary: i j)
  case Nil
  then show ?case by (auto split: if_splits)
next
  case (Cons c s)
  then show ?case by (cases j) (auto split: if_splits)
qed

lemma find_sub_None_iff:
  "find_sub pat s = None \<longleftrightarrow> (\<forall>i \<le> length s. \<not> starts_with (drop i s) pat)"
proof (induction s)
  case Nil
  then show ?case by (cases pat) auto
next
  case (Cons c s)
  have "(\<forall>i \<le> length (c # s). \<not> starts_with (drop i (c # s)) pat) \<longleftrightarrow>
      \<not> starts_with (c # s) pat \<and> (\<forall>i \<le> length s. \<not> starts_with (drop i s) pat)"
    by (simp add: All_less_Suc2 flip: less_Suc_eq_le)
  with Cons.IH show ?case by auto
qed

lemma contains_iff [text_simps]: "contains s pat \<longleftrightarrow> (\<exists>u v. s = u @ pat @ v)"
proof
  assume "contains s pat"
  then obtain i where i: "find_sub pat s = Some i" by (auto simp: contains_def)
  then obtain v where "drop i s = pat @ v"
    using find_sub_Some_D starts_with_iff by blast
  then have "s = take i s @ pat @ v" by (metis append_take_drop_id)
  then show "\<exists>u v. s = u @ pat @ v" by blast
next
  assume "\<exists>u v. s = u @ pat @ v"
  then obtain u v where s: "s = u @ pat @ v" by blast
  then have "starts_with (drop (length u) s) pat" and "length u \<le> length s" by auto
  then show "contains s pat" by (auto simp: contains_def find_sub_None_iff)
qed


section \<open>Decimal printing\<close>

fun nat_digits :: "nat \<Rightarrow> string" where
  "nat_digits n =
     (if n < 10 then [char_of (48 + n)]
      else nat_digits (n div 10) @ [char_of (48 + n mod 10)])"

declare nat_digits.simps [simp del]

lemma isdigit_char_of [simp]: "d < (10 :: nat) \<Longrightarrow> isdigit (char_of (48 + d))"
  by (simp add: isdigit_def of_char_of)

lemma nat_digits_digits: "nat_digits n \<noteq> [] \<and> list_all isdigit (nat_digits n)"
proof (induction n rule: nat_digits.induct)
  case (1 n)
  then show ?case
    by (subst (1 2) nat_digits.simps) auto
qed

text \<open>\<^verbatim>\<open>std::to_string\<close> on unsigned and on signed integers.\<close>

definition to_string :: "nat \<Rightarrow> string" where
  "to_string n = nat_digits n"

definition to_string_int :: "int \<Rightarrow> string" where
  "to_string_int i = (if i < 0 then CHR ''-'' # nat_digits (nat (- i)) else nat_digits (nat i))"


section \<open>Ordered maps\<close>

text \<open>
  \<^verbatim>\<open>std::map<std::string, T>\<close> iterates in key order, so it is an association list with
  strictly increasing keys; \<open>map_put\<close> is \<^verbatim>\<open>m[k] = v\<close>. Strings compare bytewise, as
  \<^verbatim>\<open>std::char_traits<char>::compare\<close> does.
\<close>

fun map_put :: "'k::linorder \<Rightarrow> 'v \<Rightarrow> ('k \<times> 'v) list \<Rightarrow> ('k \<times> 'v) list" where
  "map_put k v [] = [(k, v)]"
| "map_put k v ((k', v') # m) =
     (if k < k' then (k, v) # (k', v') # m
      else if k = k' then (k, v) # m
      else (k', v') # map_put k v m)"

definition map_ok :: "('k::linorder \<times> 'v) list \<Rightarrow> bool" where
  "map_ok m \<longleftrightarrow> sorted_wrt (<) (map fst m)"

lemma set_map_put_keys: "fst ` set (map_put k v m) = insert k (fst ` set m)"
  by (induction k v m rule: map_put.induct) auto

lemma map_ok_map_put [simp]: "map_ok m \<Longrightarrow> map_ok (map_put k v m)"
proof (induction k v m rule: map_put.induct)
  case (2 k v k' v' m)
  then show ?case
    using set_map_put_keys [of k v m] by (force simp: map_ok_def)
qed (simp add: map_ok_def)

lemma map_of_map_put [simp]: "map_ok m \<Longrightarrow> map_of (map_put k v m) = (map_of m)(k \<mapsto> v)"
proof (induction k v m rule: map_put.induct)
  case (2 k v k' v' m)
  then show ?case by (auto simp: map_ok_def fun_eq_iff)
qed simp

lemma map_put_append:
  "(\<And>k'. k' \<in> fst ` set m \<Longrightarrow> k' < k) \<Longrightarrow> map_put k v m = m @ [(k, v)]"
proof (induction k v m rule: map_put.induct)
  case (2 k v k' v' m)
  from 2(2) [of k'] have "k' < k" by simp
  moreover from 2 have "\<not> k < k' \<Longrightarrow> k \<noteq> k' \<Longrightarrow> map_put k v m = m @ [(k, v)]" by simp
  ultimately show ?case by (simp add: less_imp_neq less_not_sym)
qed simp

end
