(* ===== verification/Container.thy ===== *)
theory Container
  imports Prelude
begin

text \<open>
  \<^verbatim>\<open>src/artifact/container.h\<close>: the packed structs of a \<^verbatim>\<open>.xinfer\<close> file as records, and their
  byte images (64 bytes for the header, 128 for a section entry, 16 for the footer). The
  codec lemmas state the image lengths and that decoding inverts encoding.
\<close>

definition MAGIC_BYTES :: bytes where
  "MAGIC_BYTES = bytes_of_string ''XINFER'' @ [0, 0]"

definition FOOTER_MAGIC_BYTES :: bytes where
  "FOOTER_MAGIC_BYTES = bytes_of_string ''XINFFOOT''"

definition CURRENT_FORMAT_VERSION :: u32 where
  "CURRENT_FORMAT_VERSION = 1"

abbreviation SECTION_ALIGNMENT :: nat where
  "SECTION_ALIGNMENT \<equiv> 64"

abbreviation MAX_SECTION_NAME_LEN :: nat where
  "MAX_SECTION_NAME_LEN \<equiv> 96"

datatype section_type =
    RawBlob | MetadataJson | TokenizerData | TensorWeights | TensorScales | ChatTemplate | Custom

fun section_tag :: "section_type \<Rightarrow> u32" where
  "section_tag RawBlob = 0x0000"
| "section_tag MetadataJson = 0x0001"
| "section_tag TokenizerData = 0x0002"
| "section_tag TensorWeights = 0x0003"
| "section_tag TensorScales = 0x0004"
| "section_tag ChatTemplate = 0x0005"
| "section_tag Custom = 0x00FF"

record file_header =
  magic :: bytes
  format_version :: u32
  header_size :: u32
  header_flags :: u32
  section_count :: u32
  metadata_offset :: u64
  metadata_size :: u64
  section_table_offset :: u64
  section_table_size :: u64
  total_file_size :: u64

record section_entry =
  entry_name :: bytes
  type_tag :: u32
  entry_flags :: u32
  entry_offset :: u64
  entry_size :: u64
  entry_checksum :: u64

record file_footer =
  file_checksum :: u64
  footer_magic :: bytes

abbreviation HEADER_SIZE :: nat where "HEADER_SIZE \<equiv> 64"
abbreviation ENTRY_SIZE :: nat where "ENTRY_SIZE \<equiv> 128"
abbreviation FOOTER_SIZE :: nat where "FOOTER_SIZE \<equiv> 16"

text \<open>The zeroed structs of the value-initialised members and of \<^verbatim>\<open>std::memset\<close>.\<close>

definition zero_header :: file_header where
  "zero_header = \<lparr>magic = replicate 8 0, format_version = 0, header_size = 0, header_flags = 0,
     section_count = 0, metadata_offset = 0, metadata_size = 0, section_table_offset = 0,
     section_table_size = 0, total_file_size = 0\<rparr>"

definition zero_footer :: file_footer where
  "zero_footer = \<lparr>file_checksum = 0, footer_magic = replicate 8 0\<rparr>"


section \<open>Byte images\<close>

definition header_bytes :: "file_header \<Rightarrow> bytes" where
  "header_bytes h =
     magic h @ le_bytes 4 (format_version h) @ le_bytes 4 (header_size h)
     @ le_bytes 4 (header_flags h) @ le_bytes 4 (section_count h)
     @ le_bytes 8 (metadata_offset h) @ le_bytes 8 (metadata_size h)
     @ le_bytes 8 (section_table_offset h) @ le_bytes 8 (section_table_size h)
     @ le_bytes 8 (total_file_size h)"

definition header_of_bytes :: "bytes \<Rightarrow> file_header" where
  "header_of_bytes b =
     \<lparr>magic = slice 0 8 b, format_version = le_word (slice 8 4 b),
      header_size = le_word (slice 12 4 b), header_flags = le_word (slice 16 4 b),
      section_count = le_word (slice 20 4 b), metadata_offset = le_word (slice 24 8 b),
      metadata_size = le_word (slice 32 8 b), section_table_offset = le_word (slice 40 8 b),
      section_table_size = le_word (slice 48 8 b), total_file_size = le_word (slice 56 8 b)\<rparr>"

definition entry_bytes :: "section_entry \<Rightarrow> bytes" where
  "entry_bytes e =
     entry_name e @ le_bytes 4 (type_tag e) @ le_bytes 4 (entry_flags e)
     @ le_bytes 8 (entry_offset e) @ le_bytes 8 (entry_size e) @ le_bytes 8 (entry_checksum e)"

definition entry_of_bytes :: "bytes \<Rightarrow> section_entry" where
  "entry_of_bytes b =
     \<lparr>entry_name = slice 0 96 b, type_tag = le_word (slice 96 4 b),
      entry_flags = le_word (slice 100 4 b), entry_offset = le_word (slice 104 8 b),
      entry_size = le_word (slice 112 8 b), entry_checksum = le_word (slice 120 8 b)\<rparr>"

definition footer_bytes :: "file_footer \<Rightarrow> bytes" where
  "footer_bytes f = le_bytes 8 (file_checksum f) @ footer_magic f"

definition footer_of_bytes :: "bytes \<Rightarrow> file_footer" where
  "footer_of_bytes b = \<lparr>file_checksum = le_word (slice 0 8 b), footer_magic = slice 8 8 b\<rparr>"

text \<open>The section table is an array of entries, read with one \<^verbatim>\<open>read\<close> into a vector.\<close>

fun entries_of_bytes :: "nat \<Rightarrow> bytes \<Rightarrow> section_entry list" where
  "entries_of_bytes 0 b = []"
| "entries_of_bytes (Suc n) b =
     entry_of_bytes (take ENTRY_SIZE b) # entries_of_bytes n (drop ENTRY_SIZE b)"


section \<open>Codec laws\<close>

lemma length_magics [codec, simp]:
  "length MAGIC_BYTES = 8" "length FOOTER_MAGIC_BYTES = 8"
  by (simp_all add: MAGIC_BYTES_def FOOTER_MAGIC_BYTES_def)

lemma length_header_bytes [codec, simp]: "length (magic h) = 8 \<Longrightarrow> length (header_bytes h) = 64"
  by (simp add: header_bytes_def)

lemma length_entry_bytes [codec, simp]:
  "length (entry_name e) = 96 \<Longrightarrow> length (entry_bytes e) = 128"
  by (simp add: entry_bytes_def)

lemma length_footer_bytes [codec, simp]:
  "length (footer_magic f) = 8 \<Longrightarrow> length (footer_bytes f) = 16"
  by (simp add: footer_bytes_def)

text \<open>
  A struct whose fields are laid out one after the other, each with a codec of fixed width,
  is decoded field by field. The locale states what a fixed-width codec promises; the
  lemmas derived from it serve the tables of any such record.
\<close>

locale fixed_codec =
  fixes enc :: "'r \<Rightarrow> bytes"
    and dec :: "bytes \<Rightarrow> 'r"
    and width :: nat
    and ok :: "'r \<Rightarrow> bool"
  assumes enc_length: "ok r \<Longrightarrow> length (enc r) = width"
    and dec_enc: "ok r \<Longrightarrow> dec (enc r) = r"
begin

lemma dec_prefix: "ok r \<Longrightarrow> dec (take width (enc r @ rest)) = r"
  by (simp add: enc_length dec_enc)

lemma dec_slice: "ok r \<Longrightarrow> dec (slice (length pre) width (pre @ enc r @ rest)) = r"
  by (simp add: slice_def enc_length dec_enc)

lemma length_table: "list_all ok rs \<Longrightarrow> length (concat (map enc rs)) = width * length rs"
  by (induction rs) (auto simp: enc_length)

lemma enc_inject: "ok r \<Longrightarrow> ok r' \<Longrightarrow> enc r = enc r' \<longleftrightarrow> r = r'"
  by (metis dec_enc)

end

lemma header_of_header_bytes: "length (magic h) = 8 \<Longrightarrow> header_of_bytes (header_bytes h) = h"
  by (simp add: header_of_bytes_def header_bytes_def slice_append_right slice_append_left)

lemma entry_of_entry_bytes: "length (entry_name e) = 96 \<Longrightarrow> entry_of_bytes (entry_bytes e) = e"
  by (simp add: entry_of_bytes_def entry_bytes_def slice_append_right slice_append_left)

lemma footer_of_footer_bytes: "length (footer_magic f) = 8 \<Longrightarrow> footer_of_bytes (footer_bytes f) = f"
  by (simp add: footer_of_bytes_def footer_bytes_def slice_append_right slice_append_left)

interpretation header_codec: fixed_codec header_bytes header_of_bytes 64 "\<lambda>h. length (magic h) = 8"
  by unfold_locales (simp_all add: header_of_header_bytes)

interpretation entry_codec: fixed_codec entry_bytes entry_of_bytes 128
    "\<lambda>e. length (entry_name e) = 96"
  by unfold_locales (simp_all add: entry_of_entry_bytes)

interpretation footer_codec: fixed_codec footer_bytes footer_of_bytes 16
    "\<lambda>f. length (footer_magic f) = 8"
  by unfold_locales (simp_all add: footer_of_footer_bytes)

lemma entries_of_bytes_concat [codec]:
  "list_all (\<lambda>e. length (entry_name e) = 96) es \<Longrightarrow> n = length es \<Longrightarrow>
     entries_of_bytes n (concat (map entry_bytes es) @ rest) = es"
  by (induction es arbitrary: n) (auto simp: entry_of_entry_bytes)

end
