(* ===== verification/Checksum.thy ===== *)
theory Checksum
  imports Prelude
begin

text \<open>
  \<^verbatim>\<open>src/artifact/checksum.cpp\<close>: the table-driven reflected CRC-64/ECMA-182, and the
  checksum exports of \<^verbatim>\<open>src/artifact/c_api.cpp\<close>. The lemmas show that the 256-entry table
  computes eight steps of the bitwise shift register, that the running value does not
  depend on how the data is cut into chunks, and that the register is injective, which
  gives detection of every corruption confined to eight consecutive bytes.
\<close>

unbundle bit_operations_syntax

definition POLY64_ECMA :: u64 where
  "POLY64_ECMA = 0xC96C5795D7870F42"

text \<open>One round of the inner loop of \<^verbatim>\<open>generate_crc64_table\<close>.\<close>

definition crc_shift :: "u64 \<Rightarrow> u64" where
  "crc_shift crc =
     (if crc AND 1 \<noteq> 0 then drop_bit 1 crc XOR POLY64_ECMA else drop_bit 1 crc)"

definition generate_crc64_table :: "u64 list" where
  "generate_crc64_table = map (\<lambda>b. (crc_shift ^^ 8) (word_of_nat b)) [0..<256]"

definition CRC_TABLE :: "u64 list" where
  "CRC_TABLE = generate_crc64_table"

record crc64 =
  crc_reg :: u64

definition Crc64 :: crc64 where
  "Crc64 = \<lparr>crc_reg = 0xFFFFFFFFFFFFFFFF\<rparr>"

definition crc_reset :: "crc64 \<Rightarrow> crc64" where
  "crc_reset c = c\<lparr>crc_reg := 0xFFFFFFFFFFFFFFFF\<rparr>"

definition crc_step :: "u64 \<Rightarrow> u8 \<Rightarrow> u64" where
  "crc_step crc b =
     (let index = (ucast (crc XOR ucast b) :: u8)
      in drop_bit 8 crc XOR CRC_TABLE ! unat index)"

definition crc_update :: "crc64 \<Rightarrow> bytes \<Rightarrow> crc64" where
  "crc_update c data = c\<lparr>crc_reg := foldl crc_step (crc_reg c) data\<rparr>"

definition crc_digest :: "crc64 \<Rightarrow> u64" where
  "crc_digest c = crc_reg c XOR 0xFFFFFFFFFFFFFFFF"

definition crc_calculate :: "bytes \<Rightarrow> u64" where
  "crc_calculate data = crc_digest (crc_update Crc64 data)"


section \<open>Reading a file in chunks\<close>

text \<open>
  The loop that \<^verbatim>\<open>xinfer_crc64_file\<close>, \<^verbatim>\<open>ArtifactWriter::write_to_file\<close> and
  \<^verbatim>\<open>ArtifactReader::validate_checksum\<close> share: read up to \<open>buf\<close> bytes at a time from the
  bytes left in the stream until \<open>n\<close> bytes are consumed or a read returns nothing. The
  result is the count still missing and the running checksum.
\<close>

function crc_chunks :: "nat \<Rightarrow> nat \<Rightarrow> bytes \<Rightarrow> crc64 \<Rightarrow> nat \<times> crc64" where
  "crc_chunks buf n stream c =
     (if n = 0 then (0, c)
      else let got = take (min n buf) stream in
        if got = [] then (n, c)
        else crc_chunks buf (n - length got) (drop (length got) stream) (crc_update c got))"
  by pat_completeness auto
termination
  by (relation "measure (\<lambda>(buf, n, stream, c). n)") (auto simp: Let_def)

declare crc_chunks.simps [simp del]

text \<open>\<^verbatim>\<open>xinfer_crc64\<close>: a null pointer is \<open>None\<close>.\<close>

definition xinfer_crc64 :: "bytes option \<Rightarrow> u64" where
  "xinfer_crc64 data =
     (case data of None \<Rightarrow> 0 | Some bs \<Rightarrow> if bs = [] then 0 else crc_calculate bs)"

text \<open>
  \<^verbatim>\<open>xinfer_crc64_file\<close>: the file is \<open>None\<close> when the path is null or cannot be opened.
\<close>

definition xinfer_crc64_file :: "bytes option \<Rightarrow> u64 \<Rightarrow> u64" where
  "xinfer_crc64_file file max_bytes =
     (case file of
        None \<Rightarrow> 0
      | Some bs \<Rightarrow>
          let file_len = length bs;
              bytes_to_read =
                (if 0 < max_bytes \<and> unat max_bytes < file_len then unat max_bytes else file_len)
          in crc_digest (snd (crc_chunks (4 * 1024 * 1024) bytes_to_read bs Crc64)))"


section \<open>The shift register\<close>

lemma crc_shift_alt: "crc_shift x = drop_bit 1 x XOR (if bit x 0 then POLY64_ECMA else 0)"
  by (simp add: crc_shift_def and_one_eq bit_0 odd_iff_mod_2_eq_one)

lemma crc_shift_0 [simp]: "crc_shift 0 = 0"
  by (simp add: crc_shift_def)

lemma crc_shift_xor: "crc_shift (x XOR y) = crc_shift x XOR crc_shift y"
proof -
  have "drop_bit 1 (x XOR y) = drop_bit 1 x XOR drop_bit 1 y"
    by (rule drop_bit_xor)
  moreover have "bit (x XOR y) 0 \<longleftrightarrow> (bit x 0 \<noteq> bit y 0)"
    by (simp add: bit_xor_iff)
  ultimately show ?thesis
    by (auto simp: crc_shift_alt ac_simps)
qed

lemma POLY64_top_bit: "bit POLY64_ECMA 63"
  unfolding POLY64_ECMA_def by code_simp

lemma crc_shift_eq_0: "crc_shift x = 0 \<Longrightarrow> x = 0"
proof (cases "bit x 0")
  case True
  assume "crc_shift x = 0"
  with True have "drop_bit 1 x = POLY64_ECMA"
    by (simp add: crc_shift_alt)
  with POLY64_top_bit have "bit (drop_bit 1 x) 63" by simp
  then have "bit x 64" by (simp add: bit_drop_bit_eq)
  then show ?thesis using bit_imp_le_length [of x 64] by simp
next
  case False
  assume "crc_shift x = 0"
  with False have "drop_bit 1 x = 0" by (simp add: crc_shift_alt)
  then have "\<not> bit (drop_bit 1 x) n" for n by simp
  then have "\<not> bit x (Suc n)" for n by (simp add: bit_drop_bit_eq)
  with False have "\<not> bit x n" for n by (cases n) auto
  then show ?thesis by (simp add: bit_eq_iff)
qed

lemma crc_shifts_0 [simp]: "(crc_shift ^^ n) 0 = 0"
  by (induction n) auto

lemma crc_shifts_xor:
  "(crc_shift ^^ n) (x XOR y) = (crc_shift ^^ n) x XOR (crc_shift ^^ n) y"
  by (induction n) (auto simp: crc_shift_xor)

lemma crc_shifts_inject: "(crc_shift ^^ n) x = (crc_shift ^^ n) y \<longleftrightarrow> x = y"
proof -
  have "(crc_shift ^^ n) z = 0 \<Longrightarrow> z = 0" for z
    by (induction n) (auto dest: crc_shift_eq_0)
  from this [of "x XOR y"] show ?thesis
    by (simp add: crc_shifts_xor) blast
qed

lemma crc_shifts_drop: "take_bit n x = 0 \<Longrightarrow> (crc_shift ^^ n) x = drop_bit n x"
proof (induction n arbitrary: x)
  case 0
  then show ?case by simp
next
  case (Suc n)
  from Suc.prems have low: "\<not> bit x k" if "k \<le> n" for k
    using that by (metis bit_0_eq bit_take_bit_iff bot_apply bot_bool_def le_imp_less_Suc)
  then have "crc_shift x = drop_bit 1 x" by (simp add: crc_shift_alt)
  moreover have "take_bit n (drop_bit 1 x) = 0"
    using low by (auto simp: bit_eq_iff bit_take_bit_iff bit_drop_bit_eq)
  ultimately show ?case
    using Suc.IH [of "drop_bit 1 x"] by (simp add: funpow_swap1)
qed

lemma crc_shifts_push:
  assumes "take_bit 56 w = w"
  shows "(crc_shift ^^ 8) (push_bit 8 w) = w"
proof -
  have "take_bit 8 (push_bit 8 w) = 0" by (simp add: take_bit_push_bit)
  then have "(crc_shift ^^ 8) (push_bit 8 w) = drop_bit 8 (push_bit 8 w)"
    by (rule crc_shifts_drop)
  also have "\<dots> = w" using assms by (intro drop_push_bit_word) simp
  finally show ?thesis .
qed

text \<open>The table step is eight rounds of the register on the byte mixed into the low end.\<close>

lemma crc_step_shifts: "crc_step crc b = (crc_shift ^^ 8) (crc XOR ucast b)"
proof -
  let ?y = "crc XOR ucast b"
  let ?lo = "take_bit 8 ?y"
  let ?hi = "push_bit 8 (drop_bit 8 ?y)"
  have split: "?y = ?lo XOR ?hi"
  proof (rule bit_word_eqI)
    fix n assume "n < LENGTH(64)"
    then show "bit ?y n = bit (?lo XOR ?hi) n"
      by (cases "n < 8") (auto simp: bit_simps)
  qed
  have "(crc_shift ^^ 8) ?hi = drop_bit 8 ?y"
    by (rule crc_shifts_push) (rule bit_word_eqI, auto simp: bit_simps dest: bit_imp_le_length)
  also have "\<dots> = drop_bit 8 crc"
    by (rule bit_word_eqI) (auto simp: bit_simps dest: bit_imp_le_length)
  finally have hi: "(crc_shift ^^ 8) ?hi = drop_bit 8 crc" .
  have "unat (ucast ?y :: u8) < 2 ^ LENGTH(8)" by (rule unsigned_less)
  then have "CRC_TABLE ! unat (ucast ?y :: u8)
      = (crc_shift ^^ 8) (word_of_nat (unat (ucast ?y :: u8)))"
    by (simp add: CRC_TABLE_def generate_crc64_table_def)
  also have "word_of_nat (unat (ucast ?y :: u8)) = (ucast (ucast ?y :: u8) :: u64)"
    by simp
  also have "\<dots> = ?lo" by (rule ucast_u8_take_bit)
  finally have lo: "CRC_TABLE ! unat (ucast ?y :: u8) = (crc_shift ^^ 8) ?lo" .
  have "(crc_shift ^^ 8) ?y = (crc_shift ^^ 8) ?lo XOR (crc_shift ^^ 8) ?hi"
    by (subst split) (rule crc_shifts_xor)
  with lo hi show ?thesis by (simp add: crc_step_def Let_def ac_simps)
qed


text \<open>
  The running value depends on the bytes only, not on where they are cut; the chunk loop
  therefore computes the checksum of the prefix it read.
\<close>

lemma crc_update_Nil [simp]: "crc_update c [] = c"
  by (simp add: crc_update_def)

lemma crc_update_append: "crc_update c (xs @ ys) = crc_update (crc_update c xs) ys"
  by (simp add: crc_update_def)

lemma crc_chunks_eq:
  assumes "0 < buf"
  shows "crc_chunks buf n stream c = (n - length stream, crc_update c (take n stream))"
  using assms
proof (induction buf n stream c rule: crc_chunks.induct)
  case (1 buf n stream c)
  let ?got = "take (min n buf) stream"
  show ?case
  proof (cases "n = 0 \<or> ?got = []")
    case True
    with "1.prems" show ?thesis by (subst crc_chunks.simps) auto
  next
    case False
    then have n: "n \<noteq> 0" and got: "?got \<noteq> []" by auto
    from "1.IH" [OF n refl got "1.prems"]
    have "crc_chunks buf n stream c =
        (n - length ?got - length (drop (length ?got) stream),
         crc_update (crc_update c ?got) (take (n - length ?got) (drop (length ?got) stream)))"
      using n got by (subst crc_chunks.simps) (simp only: Let_def if_False)
    moreover have "?got @ take (n - length ?got) (drop (length ?got) stream) = take n stream"
    proof -
      have "?got = take (length ?got) stream" and "length ?got \<le> n" by (auto simp: min_def)
      then show ?thesis by (metis take_add le_add_diff_inverse)
    qed
    ultimately show ?thesis by (simp flip: crc_update_append) 
  qed
qed

section \<open>Error detection\<close>

lemma crc_steps_shifts:
  "length bs \<le> 8 \<Longrightarrow> foldl crc_step s bs = (crc_shift ^^ (8 * length bs)) (s XOR le_word bs)"
proof (induction bs arbitrary: s)
  case Nil
  then show ?case by simp
next
  case (Cons b bs)
  let ?w = "le_word bs :: u64"
  from Cons.prems have "take_bit 56 ?w = ?w" by (intro take_bit_le_word) simp
  then have drop: "(crc_shift ^^ 8) (push_bit 8 ?w) = ?w"
    by (rule crc_shifts_push)
  have merge: "s XOR le_word (b # bs) = (s XOR ucast b) XOR push_bit 8 ?w"
    by (rule bit_word_eqI) (auto simp: bit_simps dest: bit_imp_le_length)
  have "foldl crc_step s (b # bs) = (crc_shift ^^ (8 * length bs)) (crc_step s b XOR ?w)"
    using Cons by simp
  also have "crc_step s b XOR ?w = (crc_shift ^^ 8) (s XOR le_word (b # bs))"
    by (simp only: crc_step_shifts merge crc_shifts_xor drop)
  finally show ?case by (simp only: funpow_add o_def length_Cons mult_Suc_right
      add.commute [of 8])
qed

lemma le_word_inject:
  "length xs = length ys \<Longrightarrow> length xs \<le> 8 \<Longrightarrow>
     (le_word xs :: u64) = le_word ys \<longleftrightarrow> xs = ys"
proof (induction xs ys rule: list_induct2)
  case Nil
  then show ?case by simp
next
  case (Cons x xs y ys)
  have low: "ucast (le_word (b # bs) :: u64) = b" for b :: u8 and bs
    by (rule bit_word_eqI) (auto simp: bit_simps)
  have high: "drop_bit 8 (le_word (b # bs) :: u64) = le_word bs" if "length bs \<le> 7" for b :: u8 and bs
  proof -
    have "take_bit 56 (le_word bs :: u64) = le_word bs" using that by (intro take_bit_le_word) simp
    then have "drop_bit 8 (push_bit 8 (le_word bs :: u64)) = le_word bs"
      by (intro drop_push_bit_word) simp
    moreover have "drop_bit 8 (ucast b :: u64) = 0"
      by (rule bit_word_eqI) (auto simp: bit_simps dest: bit_imp_le_length)
    ultimately show ?thesis by simp
  qed
  show ?case
  proof
    assume eq: "(le_word (x # xs) :: u64) = le_word (y # ys)"
    from arg_cong [OF eq, of "ucast :: u64 \<Rightarrow> u8"] have "x = y" by (simp only: low)
    moreover from arg_cong [OF eq, of "drop_bit 8"] have "(le_word xs :: u64) = le_word ys"
      using Cons.hyps Cons.prems by (simp only: high length_Cons)
    ultimately show "x # xs = y # ys" using Cons.IH Cons.prems by simp
  qed simp
qed

lemma crc_steps_inject_state: "foldl crc_step s bs = foldl crc_step t bs \<longleftrightarrow> s = t"
proof (induction bs arbitrary: s t)
  case (Cons b bs)
  have "crc_step s b = crc_step t b \<longleftrightarrow> s = t"
    by (simp only: crc_step_shifts crc_shifts_inject word_xor_cancel)
  with Cons show ?case by simp
qed simp

lemma crc_calculate_inject_state:
  "crc_calculate xs = crc_calculate ys \<longleftrightarrow>
     foldl crc_step 0xFFFFFFFFFFFFFFFF xs = foldl crc_step 0xFFFFFFFFFFFFFFFF ys"
  by (simp add: crc_calculate_def crc_digest_def crc_update_def Crc64_def)


lemma crc_steps_burst:
  assumes "length xs = length ys" and "length xs \<le> 8"
  shows "foldl crc_step s (p @ xs @ q) = foldl crc_step s (p @ ys @ q) \<longleftrightarrow> xs = ys"
proof -
  have "(t XOR le_word xs = t XOR le_word ys) = (xs = ys)" for t :: u64
    using le_word_inject [OF assms] by (simp add: xor.commute [of t])
  with assms show ?thesis
    by (simp add: crc_steps_inject_state crc_steps_shifts crc_shifts_inject)
qed

text \<open>
  The specification the table-driven code implements: the 64-bit register of the reflected
  polynomial, shifted once for each bit of the message, least significant bit first.
\<close>

definition crc_reference :: "bytes \<Rightarrow> u64" where
  "crc_reference data =
     foldl (\<lambda>s b. (crc_shift ^^ 8) (s XOR ucast b)) 0xFFFFFFFFFFFFFFFF data
       XOR 0xFFFFFFFFFFFFFFFF"

text \<open>
  C38. The table-driven \<^verbatim>\<open>Crc64\<close> computes the bitwise CRC-64/ECMA-182 of its input, and
  reading a file through a buffer of any positive size, as \<^verbatim>\<open>xinfer_crc64_file\<close>,
  \<^verbatim>\<open>write_to_file\<close> and \<^verbatim>\<open>validate_checksum\<close> do, gives the same value: the loop
  returns, consumes everything, and its digest is that of the whole prefix.
\<close>

theorem crc_chunked_is_reference:
  assumes "0 < buf" and "n \<le> length stream"
  shows "crc_calculate stream = crc_reference stream
    \<and> fst (crc_chunks buf n stream Crc64) = 0
    \<and> crc_digest (snd (crc_chunks buf n stream Crc64)) = crc_reference (take n stream)"
proof -
  have ref: "crc_calculate bs = crc_reference bs" for bs
  proof -
    have "crc_step = (\<lambda>s b. (crc_shift ^^ 8) (s XOR ucast b))"
      by (simp add: fun_eq_iff crc_step_shifts)
    then show ?thesis
      by (simp add: crc_calculate_def crc_digest_def crc_update_def Crc64_def crc_reference_def)
  qed
  show ?thesis
    using assms ref [of stream] ref [of "take n stream"]
    by (simp add: crc_chunks_eq crc_calculate_def)
qed

theorem crc_chunked_is_reference_witness:
  "crc_calculate [0x58, 0x49, 0x4E] = crc_reference [0x58, 0x49, 0x4E]
   \<and> crc_digest (snd (crc_chunks 2 3 [0x58, 0x49, 0x4E] Crc64))
       = crc_reference [0x58, 0x49, 0x4E]"
  using crc_chunked_is_reference [of 2 3 "[0x58, 0x49, 0x4E]"] by simp

text \<open>
  C37. Corruption detection: if two payloads of the same length differ only inside a window
  of at most eight consecutive bytes, their checksums differ. So a reader that compares
  the stored CRC-64 rejects every such corruption (in particular any flipped bit, byte or
  aligned 64-bit word), not merely most of them.
\<close>

theorem crc_detects_burst:
  assumes "length xs = length ys" and "length xs \<le> 8" and "xs \<noteq> ys"
  shows "crc_calculate (p @ xs @ q) \<noteq> crc_calculate (p @ ys @ q)"
  using assms crc_steps_burst [of xs ys] by (simp add: crc_calculate_inject_state)

theorem crc_detects_burst_witness:
  "crc_calculate ([1, 2] @ [3, 4] @ [5]) \<noteq> crc_calculate ([1, 2] @ [3, 5] @ [5])"
  by (rule crc_detects_burst) simp_all

end
