(* ===== verification/Json_Text.thy ===== *)
theory Json_Text
  imports Prelude
begin

text \<open>
  The JSON string syntax that \<^verbatim>\<open>src/artifact/metadata.cpp\<close> and \<^verbatim>\<open>src/serve/protocol.cpp\<close>
  both print: \<open>escape_json_string\<close> and the UTF-8 image of a code point. The lemmas give
  the inverse of the four-digit escapes, which the round trips of both components use.
\<close>

unbundle bit_operations_syntax

abbreviation QUOTE :: char where "QUOTE \<equiv> CHR 0x22"
abbreviation BACKSLASH :: char where "BACKSLASH \<equiv> CHR 0x5C"
abbreviation NEWLINE :: char where "NEWLINE \<equiv> CHR 0x0A"

text \<open>\<^verbatim>\<open>snprintf(buf, sizeof(buf), "\u%04x", ...)\<close> for a value below \<open>0x10000\<close>.\<close>

definition unicode4 :: "nat \<Rightarrow> string" where
  "unicode4 n =
     [BACKSLASH, CHR ''u'', hex_char (n div 4096 mod 16), hex_char (n div 256 mod 16),
      hex_char (n div 16 mod 16), hex_char (n mod 16)]"

text \<open>The switch of \<^verbatim>\<open>escape_json_string\<close>, one character.\<close>

definition escape_char :: "char \<Rightarrow> string" where
  "escape_char c =
     (if c = QUOTE then [BACKSLASH, QUOTE]
      else if c = BACKSLASH then [BACKSLASH, BACKSLASH]
      else if c = CHR 0x08 then [BACKSLASH, CHR ''b'']
      else if c = CHR 0x0C then [BACKSLASH, CHR ''f'']
      else if c = NEWLINE then [BACKSLASH, CHR ''n'']
      else if c = CHR 0x0D then [BACKSLASH, CHR ''r'']
      else if c = CHR 0x09 then [BACKSLASH, CHR ''t'']
      else if (of_char c :: nat) < 0x20 then unicode4 (of_char c)
      else [c])"

definition escape_json_string :: "string \<Rightarrow> string" where
  "escape_json_string s = [QUOTE] @ concat (map escape_char s) @ [QUOTE]"

text \<open>
  The code point branches at the end of the \<^verbatim>\<open>\u\<close> case: one to four bytes, \<open>None\<close> for a
  value above \<open>0x10FFFF\<close>.
\<close>

definition utf8_of_cp :: "u32 \<Rightarrow> string option" where
  "utf8_of_cp cp =
     (if cp < 0x80 then Some [char_of_byte (ucast cp)]
      else if cp < 0x800 then
        Some [char_of_byte (ucast (0xC0 OR drop_bit 6 cp)),
              char_of_byte (ucast (0x80 OR (cp AND 0x3F)))]
      else if cp < 0x10000 then
        Some [char_of_byte (ucast (0xE0 OR drop_bit 12 cp)),
              char_of_byte (ucast (0x80 OR (drop_bit 6 cp AND 0x3F))),
              char_of_byte (ucast (0x80 OR (cp AND 0x3F)))]
      else if cp \<le> 0x10FFFF then
        Some [char_of_byte (ucast (0xF0 OR drop_bit 18 cp)),
              char_of_byte (ucast (0x80 OR (drop_bit 12 cp AND 0x3F))),
              char_of_byte (ucast (0x80 OR (drop_bit 6 cp AND 0x3F))),
              char_of_byte (ucast (0x80 OR (cp AND 0x3F)))]
      else None)"


section \<open>Hexadecimal digits\<close>

lemma hex_char_cases:
  assumes "d < 16"
  shows "isxdigit (hex_char d) \<and> hex_digit_value (hex_char d) = d"
  using assms
  by (auto simp: hex_char_def isxdigit_def isdigit_def hex_digit_value_def Let_def of_char_of)

lemma isxdigit_hex_char [simp]: "isxdigit (hex_char (n mod 16))"
  using hex_char_cases [of "n mod 16"] by simp

lemma hex_digit_value_hex_char [simp]: "hex_digit_value (hex_char (n mod 16)) = n mod 16"
  using hex_char_cases [of "n mod 16"] by simp

lemma hex_value_4:
  "hex_value [a, b, c, d] =
     4096 * hex_digit_value a + 256 * hex_digit_value b + 16 * hex_digit_value c + hex_digit_value d"
  by (simp add: hex_value_def)

lemma hex_value_unicode4:
  assumes "n < 65536"
  shows "hex_value [hex_char (n div 4096 mod 16), hex_char (n div 256 mod 16),
      hex_char (n div 16 mod 16), hex_char (n mod 16)] = n"
proof -
  have "n = 16 * (n div 16) + n mod 16" by simp
  moreover have "n div 16 = 16 * (n div 256) + n div 16 mod 16"
    using div_mult_mod_eq [of "n div 16" 16] by (simp add: div_mult2_eq [of n 16 16, simplified])
  moreover have "n div 256 = 16 * (n div 4096) + n div 256 mod 16"
    using div_mult_mod_eq [of "n div 256" 16] by (simp add: div_mult2_eq [of n 256 16, simplified])
  moreover have "n div 4096 mod 16 = n div 4096" using assms by simp
  ultimately have "4096 * (n div 4096 mod 16) + 256 * (n div 256 mod 16)
      + 16 * (n div 16 mod 16) + n mod 16 = n"
    by linarith
  then show ?thesis by (simp only: hex_value_4 hex_digit_value_hex_char)
qed

lemma hex_digit_value_less [simp]: "isxdigit c \<Longrightarrow> hex_digit_value c < 16"
  by (auto simp: isxdigit_def isdigit_def hex_digit_value_def Let_def)

lemma hex_value_4_less:
  "isxdigit a \<Longrightarrow> isxdigit b \<Longrightarrow> isxdigit c \<Longrightarrow> isxdigit d \<Longrightarrow> hex_value [a, b, c, d] < 65536"
  unfolding hex_value_4
  by (drule hex_digit_value_less)+ linarith

lemma utf8_of_cp_ascii:
  assumes "n < 128"
  shows "utf8_of_cp (word_of_nat n) = Some [char_of n]"
proof -
  have "unat (word_of_nat n :: u32) = n" using assms by (simp add: unat_of_nat)
  moreover have "unat (ucast (word_of_nat n :: u32) :: u8) = n"
    using assms by (simp add: unat_of_nat unsigned_ucast_eq take_bit_eq_mod)
  ultimately show ?thesis
    using assms by (simp add: utf8_of_cp_def word_less_nat_alt char_of_byte_def)
qed

lemma unicode4_hex:
  assumes "n < 65536"
  obtains hs where "unicode4 n = BACKSLASH # CHR ''u'' # hs" and "length hs = 4"
    and "list_all isxdigit hs" and "hex_value hs = n"
proof
  show "unicode4 n = BACKSLASH # CHR ''u'' # drop 2 (unicode4 n)"
    and "length (drop 2 (unicode4 n)) = 4"
    by (simp_all add: unicode4_def)
  show "list_all isxdigit (drop 2 (unicode4 n))"
    by (simp add: unicode4_def)
  show "hex_value (drop 2 (unicode4 n)) = n"
    using hex_value_unicode4 [OF assms] by (simp add: unicode4_def)
qed

end
