(* ===== verification/Metadata.thy ===== *)
theory Metadata
  imports Json_Text
begin

text \<open>
  \<^verbatim>\<open>src/artifact/metadata.cpp\<close>: the metadata block of a container, its JSON printer and the
  hand-written \<^verbatim>\<open>JsonParser\<close>. The parser's state \<^verbatim>\<open>(input_, pos_)\<close> is the unread suffix of the
  input; \<^verbatim>\<open>return false\<close> is \<open>None\<close>. The main result is that parsing what was printed
  gives the metadata back, for arbitrary bytes in every field.
\<close>

record artifact_metadata =
  model_name :: string
  quant_scheme :: string
  tokenizer_type :: string
  properties :: "(string \<times> string) list"

definition empty_metadata :: artifact_metadata where
  "empty_metadata = \<lparr>model_name = [], quant_scheme = [], tokenizer_type = [], properties = []\<rparr>"

definition metadata_ok :: "artifact_metadata \<Rightarrow> bool" where
  "metadata_ok m \<longleftrightarrow> map_ok (properties m)"


section \<open>Printing\<close>

text \<open>The body of the loop over \<^verbatim>\<open>properties\<close>, with its \<^verbatim>\<open>first\<close> flag.\<close>

fun properties_json :: "bool \<Rightarrow> (string \<times> string) list \<Rightarrow> string" where
  "properties_json first [] = []"
| "properties_json first ((k, v) # ps) =
     (if first then [] else [CHR '','', NEWLINE]) @ ''    '' @ escape_json_string k @ '': ''
       @ escape_json_string v @ properties_json False ps"

definition to_json :: "artifact_metadata \<Rightarrow> string" where
  "to_json m =
     ''{'' @ [NEWLINE]
     @ ''  '' @ [QUOTE] @ ''model_name'' @ [QUOTE] @ '': '' @ escape_json_string (model_name m)
     @ [CHR '','', NEWLINE] @ ''  '' @ [QUOTE] @ ''quant_scheme'' @ [QUOTE] @ '': ''
     @ escape_json_string (quant_scheme m)
     @ [CHR '','', NEWLINE] @ ''  '' @ [QUOTE] @ ''tokenizer_type'' @ [QUOTE] @ '': ''
     @ escape_json_string (tokenizer_type m)
     @ [CHR '','', NEWLINE] @ ''  '' @ [QUOTE] @ ''properties'' @ [QUOTE] @ '': {'' @ [NEWLINE]
     @ properties_json True (properties m)
     @ [NEWLINE] @ ''  }'' @ [NEWLINE] @ ''}''"


section \<open>Parsing\<close>

definition peek :: "string \<Rightarrow> char" where
  "peek s = (case s of [] \<Rightarrow> CHR 0x00 | c # _ \<Rightarrow> c)"

definition consume :: "char \<Rightarrow> string \<Rightarrow> string option" where
  "consume e s = (if peek s = e then Some (drop 1 s) else None)"

definition skip_whitespace :: "string \<Rightarrow> string" where
  "skip_whitespace s = dropWhile isspace s"

text \<open>
  The \<^verbatim>\<open>\u\<close> case of \<^verbatim>\<open>parse_string\<close>: four hexadecimal digits, with a surrogate pair when the
  value is a high surrogate. The result is the UTF-8 bytes pushed and the unread suffix.
\<close>

definition unicode_escape :: "string \<Rightarrow> (string \<times> string) option" where
  "unicode_escape s =
     (if length s < 4 \<or> \<not> list_all isxdigit (take 4 s) then None
      else
        let cp = (word_of_nat (hex_value (take 4 s)) :: u32); s4 = drop 4 s in
        if 0xD800 \<le> cp \<and> cp \<le> 0xDBFF then
          (if 6 \<le> length s4 \<and> s4 ! 0 = BACKSLASH \<and> s4 ! 1 = CHR ''u'' then
             let low_hex = take 4 (drop 2 s4) in
             if \<not> list_all isxdigit low_hex then None
             else let low = (word_of_nat (hex_value low_hex) :: u32) in
               if 0xDC00 \<le> low \<and> low \<le> 0xDFFF then
                 map_option (\<lambda>u. (u, drop 6 s4))
                   (utf8_of_cp (0x10000 + push_bit 10 (cp - 0xD800) + (low - 0xDC00)))
               else None
           else None)
        else if 0xDC00 \<le> cp \<and> cp \<le> 0xDFFF then None
        else map_option (\<lambda>u. (u, s4)) (utf8_of_cp cp))"

lemma unicode_escape_length: "unicode_escape s = Some (u, r) \<Longrightarrow> length r < length s"
  by (auto simp: unicode_escape_def Let_def split: if_splits)

text \<open>The escapes of one letter; \<open>None\<close> is the \<^verbatim>\<open>default: return false\<close> branch.\<close>

definition simple_escape :: "char \<Rightarrow> char option" where
  "simple_escape e =
     (if e = QUOTE then Some QUOTE
      else if e = BACKSLASH then Some BACKSLASH
      else if e = CHR ''/'' then Some (CHR ''/'')
      else if e = CHR ''b'' then Some (CHR 0x08)
      else if e = CHR ''f'' then Some (CHR 0x0C)
      else if e = CHR ''n'' then Some NEWLINE
      else if e = CHR ''r'' then Some (CHR 0x0D)
      else if e = CHR ''t'' then Some (CHR 0x09)
      else None)"

text \<open>The loop of \<^verbatim>\<open>parse_string\<close> after the opening quote.\<close>

function string_body :: "string \<Rightarrow> (string \<times> string) option" where
  "string_body [] = None"
| "string_body (c # s) =
     (if c = QUOTE then Some ([], s)
      else if c = BACKSLASH then
        (case s of
           [] \<Rightarrow> None
         | e # s' \<Rightarrow>
             if e = CHR ''u'' then
               (case unicode_escape s' of
                  None \<Rightarrow> None
                | Some (u, r) \<Rightarrow> map_option (apfst ((@) u)) (string_body r))
             else
               (case simple_escape e of
                  None \<Rightarrow> None
                | Some d \<Rightarrow> map_option (apfst ((#) d)) (string_body s')))
      else map_option (apfst ((#) c)) (string_body s))"
  by pat_completeness auto
termination
  by (relation "measure length") (auto dest: unicode_escape_length)

lemma string_body_length: "string_body s = Some (t, r) \<Longrightarrow> length r < length s"
proof (induction s arbitrary: t r rule: string_body.induct)
  case (2 c s)
  then show ?case
    by (auto split: if_splits list.splits option.splits dest!: unicode_escape_length) fastforce+
qed simp

definition parse_string :: "string \<Rightarrow> (string \<times> string) option" where
  "parse_string s = (case consume QUOTE s of None \<Rightarrow> None | Some s' \<Rightarrow> string_body s')"

lemma parse_string_length: "parse_string s = Some (t, r) \<Longrightarrow> length r < length s"
  by (cases s) (auto simp: parse_string_def consume_def peek_def split: if_splits
    dest: string_body_length)

text \<open>The two depth-counting loops of \<^verbatim>\<open>skip_value\<close>, for the bracket pair \<open>opn\<close>, \<open>cls\<close>.\<close>

function skip_nested :: "char \<Rightarrow> char \<Rightarrow> nat \<Rightarrow> string \<Rightarrow> string option" where
  "skip_nested opn cls depth s =
     (if depth = 0 then Some s
      else case s of
        [] \<Rightarrow> None
      | ch # s' \<Rightarrow>
          if ch = opn then skip_nested opn cls (depth + 1) s'
          else if ch = cls then skip_nested opn cls (depth - 1) s'
          else if ch = QUOTE then
            (case parse_string s of None \<Rightarrow> None | Some (_, r) \<Rightarrow> skip_nested opn cls depth r)
          else skip_nested opn cls depth s')"
  by pat_completeness auto
termination
  by (relation "measure (\<lambda>(opn, cls, depth, s). length s)") (auto dest: parse_string_length)

declare skip_nested.simps [simp del]

definition skip_value :: "string \<Rightarrow> string option" where
  "skip_value s0 =
     (let s = skip_whitespace s0; c = peek s in
      if c = QUOTE then map_option snd (parse_string s)
      else if c = CHR ''{'' then skip_nested (CHR ''{'') (CHR ''}'') 1 (drop 1 s)
      else if c = CHR ''['' then skip_nested (CHR ''['') (CHR '']'') 1 (drop 1 s)
      else Some (dropWhile
        (\<lambda>ch. ch \<noteq> CHR '','' \<and> ch \<noteq> CHR ''}'' \<and> ch \<noteq> CHR '']'' \<and> \<not> isspace ch) s))"

lemma length_skip_whitespace: "length (skip_whitespace s) \<le> length s"
  by (simp add: skip_whitespace_def length_dropWhile_le)

lemma skip_nested_length: "skip_nested opn cls d s = Some r \<Longrightarrow> length r \<le> length s"
proof (induction "length s" arbitrary: d s rule: less_induct)
  case less
  have IH: "length r \<le> length s'"
    if "skip_nested opn cls d' s' = Some r" and "length s' < length s" for d' s'
    using less(1) that by blast
  from less(2) show ?case
    by (subst (asm) skip_nested.simps)
      (auto split: if_splits list.splits option.splits dest!: IH parse_string_length)
qed

lemma skip_value_length: "skip_value s = Some r \<Longrightarrow> length r \<le> length s"
  using length_skip_whitespace [of s]
  by (auto simp: skip_value_def Let_def split: if_splits
      dest!: parse_string_length skip_nested_length
      intro: order_trans [OF length_dropWhile_le])

lemma consume_length: "consume c s = Some r \<Longrightarrow> length r \<le> length s"
  by (auto simp: consume_def split: if_splits)

lemma key_progress:
  assumes "parse_string (skip_whitespace s0) = Some (k, s2)"
    and "consume c (skip_whitespace s2) = Some s3"
  shows "length (skip_whitespace s3) < length s0"
  using parse_string_length [OF assms(1)] consume_length [OF assms(2)]
    length_skip_whitespace [of s0] length_skip_whitespace [of s2] length_skip_whitespace [of s3]
  by linarith

lemma drop_skip_length: "length (drop 1 (skip_whitespace s)) \<le> length s"
  using length_skip_whitespace [of s] by simp

text \<open>The member loop of \<^verbatim>\<open>parse_properties\<close>, after its opening brace.\<close>

function properties_loop ::
    "string \<Rightarrow> (string \<times> string) list \<Rightarrow> ((string \<times> string) list \<times> string) option" where
  "properties_loop s0 props =
     (let s1 = skip_whitespace s0 in
      if peek s1 = CHR ''}'' then Some (props, drop 1 s1)
      else case parse_string s1 of
        None \<Rightarrow> None
      | Some (k, s2) \<Rightarrow>
          (case consume (CHR '':'') (skip_whitespace s2) of
             None \<Rightarrow> None
           | Some s3 \<Rightarrow>
               (case parse_string (skip_whitespace s3) of
                  None \<Rightarrow> None
                | Some (v, s4) \<Rightarrow>
                    let s5 = skip_whitespace s4; props' = map_put k v props in
                    if peek s5 = CHR '','' then properties_loop (drop 1 s5) props'
                    else if peek s5 = CHR ''}'' then Some (props', drop 1 s5)
                    else None)))"
  by pat_completeness auto
termination
proof (relation "measure (\<lambda>(s, props). length s)", goal_cases)
  case (2 s0 props s1 kv k s2 s3 vs v s4 s5 props')
  then show ?case
    using key_progress [of s0 k s2] parse_string_length [of "skip_whitespace s3" v s4]
      drop_skip_length [of s4]
    by fastforce
qed simp

declare properties_loop.simps [simp del]


definition parse_properties ::
    "string \<Rightarrow> (string \<times> string) list \<Rightarrow> ((string \<times> string) list \<times> string) option" where
  "parse_properties s props =
     (case consume (CHR ''{'') (skip_whitespace s) of
        None \<Rightarrow> None
      | Some s' \<Rightarrow> properties_loop s' props)"

text \<open>The dispatch on the key in \<^verbatim>\<open>parse\<close>.\<close>

definition parse_member ::
    "string \<Rightarrow> string \<Rightarrow> artifact_metadata \<Rightarrow> (artifact_metadata \<times> string) option" where
  "parse_member key s out =
     (if key = ''model_name'' then
        map_option (apfst (\<lambda>v. out\<lparr>model_name := v\<rparr>)) (parse_string s)
      else if key = ''quant_scheme'' then
        map_option (apfst (\<lambda>v. out\<lparr>quant_scheme := v\<rparr>)) (parse_string s)
      else if key = ''tokenizer_type'' then
        map_option (apfst (\<lambda>v. out\<lparr>tokenizer_type := v\<rparr>)) (parse_string s)
      else if key = ''properties'' then
        map_option (apfst (\<lambda>v. out\<lparr>properties := v\<rparr>)) (parse_properties s (properties out))
      else map_option (Pair out) (skip_value s))"

lemma properties_loop_length:
  "properties_loop s props = Some (ps, r) \<Longrightarrow> length r \<le> length s"
proof (induction "length s" arbitrary: s props rule: less_induct)
  case less
  have IH: "length r \<le> length s'"
    if "properties_loop s' props' = Some (ps, r)" and "length s' < length s" for s' props'
    using less(1) that by blast
  have step: "length (skip_whitespace s4) - Suc 0 < length s"
    if "parse_string (skip_whitespace s) = Some (k, s2)"
      and "consume (CHR '':'') (skip_whitespace s2) = Some s3"
      and "parse_string (skip_whitespace s3) = Some (v, s4)" for k s2 s3 v s4
    using key_progress [OF that(1,2)] parse_string_length [OF that(3)] length_skip_whitespace [of s4]
    by linarith
  from less(2) drop_skip_length [of s] show ?case
    by (subst (asm) properties_loop.simps)
      (auto simp: Let_def split: if_splits option.splits, (frule (2) step, fastforce dest: IH)+)
qed

lemma parse_member_length: "parse_member key s out = Some (out', r) \<Longrightarrow> length r \<le> length s"
  using length_skip_whitespace [of s]
  by (auto simp: parse_member_def parse_properties_def split: if_splits option.splits
      dest!: parse_string_length skip_value_length properties_loop_length consume_length)

text \<open>The member loop of \<^verbatim>\<open>JsonParser::parse\<close>.\<close>

function parse_loop :: "string \<Rightarrow> artifact_metadata \<Rightarrow> (artifact_metadata \<times> string) option" where
  "parse_loop s0 out =
     (let s1 = skip_whitespace s0 in
      if peek s1 = CHR ''}'' then Some (out, drop 1 s1)
      else case parse_string s1 of
        None \<Rightarrow> None
      | Some (key, s2) \<Rightarrow>
          (case consume (CHR '':'') (skip_whitespace s2) of
             None \<Rightarrow> None
           | Some s3 \<Rightarrow>
               (case parse_member key (skip_whitespace s3) out of
                  None \<Rightarrow> None
                | Some (out', s4) \<Rightarrow>
                    let s5 = skip_whitespace s4 in
                    if peek s5 = CHR '','' then parse_loop (drop 1 s5) out'
                    else if peek s5 = CHR ''}'' then Some (out', drop 1 s5)
                    else None)))"
  by pat_completeness auto
termination
proof (relation "measure (\<lambda>(s, out). length s)", goal_cases)
  case (2 s0 out s1 kv k s2 s3 vs out' s4 s5)
  then show ?case
    using key_progress [of s0 k s2] parse_member_length [of k "skip_whitespace s3" out out' s4]
      drop_skip_length [of s4]
    by fastforce
qed simp

declare parse_loop.simps [simp del]

definition from_json :: "string \<Rightarrow> artifact_metadata option" where
  "from_json json =
     (case consume (CHR ''{'') (skip_whitespace json) of
        None \<Rightarrow> None
      | Some s \<Rightarrow> map_option fst (parse_loop s empty_metadata))"


section \<open>Parsing printed strings\<close>

lemma string_body_plain:
  "c \<noteq> QUOTE \<Longrightarrow> c \<noteq> BACKSLASH \<Longrightarrow> string_body (c # s) = map_option (apfst ((#) c)) (string_body s)"
  by simp

lemma string_body_unicode4:
  assumes "n < 0x20"
  shows "string_body (unicode4 n @ s) = map_option (apfst ((#) (char_of n))) (string_body s)"
proof -
  from assms have "n < 65536" by simp
  then obtain hs where hs: "unicode4 n = BACKSLASH # CHR ''u'' # hs" "length hs = 4"
      "list_all isxdigit hs" "hex_value hs = n"
    by (rule unicode4_hex)
  let ?w = "word_of_nat n :: u32"
  have "unat ?w = n" using assms by (simp add: unat_of_nat)
  with assms have "\<not> 0xD800 \<le> ?w" and "\<not> 0xDC00 \<le> ?w"
    by (simp_all add: word_le_nat_alt)
  with assms hs(2,3,4) have "unicode_escape (hs @ s) = Some ([char_of n], s)"
    by (simp add: unicode_escape_def Let_def utf8_of_cp_ascii)
  moreover have "(@) [char_of n] = (#) (char_of n :: char)" by (simp add: fun_eq_iff)
  ultimately show ?thesis by (simp add: hs(1))
qed

lemma string_body_escape_char:
  "string_body (escape_char c @ s) = map_option (apfst ((#) c)) (string_body s)"
proof (cases "c \<in> {QUOTE, BACKSLASH, CHR 0x08, CHR 0x0C, NEWLINE, CHR 0x0D, CHR 0x09}")
  case True
  then show ?thesis by (auto simp: escape_char_def simple_escape_def)
next
  case False
  then show ?thesis
    by (auto simp: escape_char_def string_body_unicode4)
qed

lemma string_body_escaped:
  "string_body (concat (map escape_char t) @ QUOTE # s) = Some (t, s)"
  by (induction t) (simp_all add: string_body_escape_char)

lemma parse_string_escape_json_string [simp]:
  "parse_string (escape_json_string t @ s) = Some (t, s)"
  by (simp add: parse_string_def consume_def peek_def escape_json_string_def string_body_escaped)


lemma skip_whitespace_space [simp]: "isspace c \<Longrightarrow> skip_whitespace (c # s) = skip_whitespace s"
  by (simp add: skip_whitespace_def)

lemma skip_whitespace_stop [simp]: "\<not> isspace c \<Longrightarrow> skip_whitespace (c # s) = c # s"
  by (simp add: skip_whitespace_def)

lemma isspace_simps [simp]:
  "isspace (CHR '' '')" "isspace NEWLINE" "\<not> isspace QUOTE" "\<not> isspace (CHR '','')"
  "\<not> isspace (CHR '':'')" "\<not> isspace (CHR ''{'')" "\<not> isspace (CHR ''}'')"
  by (simp_all add: isspace_def)

lemma skip_whitespace_escaped [simp]:
  "skip_whitespace (escape_json_string t @ s) = escape_json_string t @ s"
  by (simp add: escape_json_string_def)

lemma parse_string_peek: "parse_string s = Some x \<Longrightarrow> peek s = QUOTE"
  by (auto simp: parse_string_def consume_def split: if_splits)

lemma consume_Cons [simp]: "consume c (c # s) = Some s"
  by (simp add: consume_def peek_def)

lemma peek_Cons [simp]: "peek (c # s) = c"
  by (simp add: peek_def)

lemma properties_loop_skip: "isspace c \<Longrightarrow> properties_loop (c # s) props = properties_loop s props"
  by (subst (1 2) properties_loop.simps) simp

lemma properties_loop_member:
  assumes "parse_string (skip_whitespace s0) = Some (k, CHR '':'' # s3)"
    and "parse_string (skip_whitespace s3) = Some (v, s4)"
    and "skip_whitespace s4 = c # s5"
  shows "properties_loop s0 props =
    (if c = CHR '','' then properties_loop s5 (map_put k v props)
     else if c = CHR ''}'' then Some (map_put k v props, s5) else None)"
  using assms parse_string_peek [OF assms(1)]
  by (subst properties_loop.simps) (simp add: Let_def)

lemma properties_loop_pair:
  assumes "skip_whitespace rest = c # s5"
  shows "properties_loop (escape_json_string k @ '': '' @ escape_json_string v @ rest) props =
    (if c = CHR '','' then properties_loop s5 (map_put k v props)
     else if c = CHR ''}'' then Some (map_put k v props, s5) else None)"
  using assms
  by (intro properties_loop_member [where ?s3.0 = "CHR '' '' # escape_json_string v @ rest"
        and ?s4.0 = rest]) simp_all

lemma properties_loop_json:
  assumes "map_ok (acc @ ps)" and "ps \<noteq> []"
  shows "properties_loop (properties_json True ps @ NEWLINE # ''  }'' @ r) acc = Some (acc @ ps, r)"
  using assms
proof (induction ps arbitrary: acc)
  case Nil
  then show ?case by simp
next
  case (Cons kv qs)
  obtain k v where kv: "kv = (k, v)" by force
  let ?tail = "NEWLINE # ''  }'' @ r"
  have put: "map_put k v acc = acc @ [(k, v)]"
    using Cons.prems(1) by (intro map_put_append) (auto simp: map_ok_def sorted_wrt_append kv)
  have head: "properties_loop (properties_json True (kv # qs) @ ?tail) acc =
      properties_loop (escape_json_string k @ '': '' @ escape_json_string v
        @ properties_json False qs @ ?tail) acc"
    by (simp add: kv properties_loop_skip)
  show ?case
  proof (cases qs)
    case Nil
    then show ?thesis
      unfolding head by (subst properties_loop_pair [where c = "CHR ''}''" and ?s5.0 = r])
        (simp_all add: kv put)
  next
    case (Cons kv' qs')
    then have "properties_json False qs = CHR '','' # NEWLINE # properties_json True qs"
      by (cases kv') simp
    then have "properties_loop (properties_json True (kv # qs) @ ?tail) acc
        = properties_loop (properties_json True qs @ ?tail) (acc @ [(k, v)])"
      unfolding head
      by (subst properties_loop_pair [where c = "CHR '',''"
          and ?s5.0 = "NEWLINE # properties_json True qs @ ?tail"])
        (simp_all add: put properties_loop_skip)
    also have "\<dots> = Some ((acc @ [(k, v)]) @ qs, r)"
      using Cons.IH [of "acc @ [(k, v)]"] Cons.prems(1) Cons by (simp add: kv)
    finally show ?thesis by (simp add: kv)
  qed
qed

lemma parse_properties_json:
  assumes "map_ok ps"
  shows "parse_properties (CHR ''{'' # NEWLINE # properties_json True ps @ NEWLINE # ''  }'' @ r) []
    = Some (ps, r)"
proof (cases "ps = []")
  case True
  then show ?thesis
    by (simp add: parse_properties_def properties_loop_skip)
      (subst properties_loop.simps, simp)
next
  case False
  with assms properties_loop_json [of "[]" ps r] show ?thesis
    by (simp add: parse_properties_def properties_loop_skip)
qed

lemma parse_loop_skip: "isspace c \<Longrightarrow> parse_loop (c # s) out = parse_loop s out"
  by (subst (1 2) parse_loop.simps) simp

lemma parse_loop_member:
  assumes "parse_string (skip_whitespace s0) = Some (key, CHR '':'' # s3)"
    and "parse_member key (skip_whitespace s3) out = Some (out', s4)"
    and "skip_whitespace s4 = c # s5"
  shows "parse_loop s0 out =
    (if c = CHR '','' then parse_loop s5 out'
     else if c = CHR ''}'' then Some (out', s5) else None)"
  using assms parse_string_peek [OF assms(1)]
  by (subst parse_loop.simps) (simp add: Let_def)

lemma key_literals:
  "[QUOTE] @ ''model_name'' @ [QUOTE] = escape_json_string ''model_name''"
  "[QUOTE] @ ''quant_scheme'' @ [QUOTE] = escape_json_string ''quant_scheme''"
  "[QUOTE] @ ''tokenizer_type'' @ [QUOTE] = escape_json_string ''tokenizer_type''"
  "[QUOTE] @ ''properties'' @ [QUOTE] = escape_json_string ''properties''"
  by (simp_all add: escape_json_string_def escape_char_def)


lemma parse_loop_pair:
  assumes "parse_member key (skip_whitespace val) out = Some (out', rest)"
    and "skip_whitespace rest = c # s5"
  shows "parse_loop (escape_json_string key @ '': '' @ val) out =
    (if c = CHR '','' then parse_loop s5 out'
     else if c = CHR ''}'' then Some (out', s5) else None)"
  using assms
  by (intro parse_loop_member [where ?s3.0 = "CHR '' '' # val" and ?s4.0 = rest]) simp_all

lemma parse_loop_string:
  assumes "\<And>r. parse_member key (escape_json_string v @ r) out = Some (out', r)"
  shows "parse_loop (escape_json_string key @ '': '' @ escape_json_string v
      @ CHR '','' # NEWLINE # ''  '' @ rest) out = parse_loop rest out'"
  using assms
  by (subst parse_loop_pair [where rest = "CHR '','' # NEWLINE # ''  '' @ rest" and c = "CHR '',''"
        and ?s5.0 = "NEWLINE # ''  '' @ rest" and out' = out']) (simp_all add: parse_loop_skip)

lemma from_json_to_json:
  assumes "metadata_ok m"
  shows "from_json (to_json m) = Some m"
proof -
  let ?m1 = "empty_metadata\<lparr>model_name := model_name m\<rparr>"
  let ?m2 = "?m1\<lparr>quant_scheme := quant_scheme m\<rparr>"
  let ?m3 = "?m2\<lparr>tokenizer_type := tokenizer_type m\<rparr>"
  let ?fin = "NEWLINE # ''  }'' @ NEWLINE # ''}''"
  let ?t4 = "escape_json_string ''properties'' @ '': '' @
      CHR ''{'' # NEWLINE # properties_json True (properties m) @ ?fin"
  let ?t3 = "escape_json_string ''tokenizer_type'' @ '': '' @ escape_json_string (tokenizer_type m)
      @ CHR '','' # NEWLINE # ''  '' @ ?t4"
  let ?t2 = "escape_json_string ''quant_scheme'' @ '': '' @ escape_json_string (quant_scheme m)
      @ CHR '','' # NEWLINE # ''  '' @ ?t3"
  let ?t1 = "escape_json_string ''model_name'' @ '': '' @ escape_json_string (model_name m)
      @ CHR '','' # NEWLINE # ''  '' @ ?t2"
  have printed: "to_json m = CHR ''{'' # NEWLINE # ''  '' @ ?t1"
    by (simp add: to_json_def flip: key_literals)
  have "parse_loop ?t1 empty_metadata = parse_loop ?t2 ?m1"
    by (rule parse_loop_string) (simp add: parse_member_def)
  also have "\<dots> = parse_loop ?t3 ?m2"
    by (rule parse_loop_string) (simp add: parse_member_def)
  also have "\<dots> = parse_loop ?t4 ?m3"
    by (rule parse_loop_string) (simp add: parse_member_def)
  also have "\<dots> = Some (m, [])"
    using assms parse_properties_json [of "properties m" "NEWLINE # ''}''"]
    by (subst parse_loop_pair [where rest = "NEWLINE # ''}''" and c = "CHR ''}''" and out' = m
          and ?s5.0 = "[]"])
      (simp_all add: parse_member_def metadata_ok_def empty_metadata_def)
  finally show ?thesis
    by (simp add: printed from_json_def parse_loop_skip)
qed

text \<open>
  C35. Metadata round trip: for every metadata value with well-formed properties (any bytes
  at all in the names and values, quotes, control characters and NUL included),
  \<^verbatim>\<open>from_json(to_json())\<close> succeeds and returns that value.
\<close>

theorem metadata_roundtrip:
  assumes "metadata_ok m"
  shows "from_json (to_json m) = Some m"
  using assms by (rule from_json_to_json)

theorem metadata_roundtrip_witness:
  "from_json (to_json \<lparr>model_name = ''Qwen'', quant_scheme = [CHR 0x00, QUOTE, CHR 0xFF],
     tokenizer_type = [], properties = [(''a'', ''1''), (''b'', [NEWLINE])]\<rparr>)
   = Some \<lparr>model_name = ''Qwen'', quant_scheme = [CHR 0x00, QUOTE, CHR 0xFF],
     tokenizer_type = [], properties = [(''a'', ''1''), (''b'', [NEWLINE])]\<rparr>"
  by (rule metadata_roundtrip) (simp add: metadata_ok_def map_ok_def)

end
