(* ===== verification/Writer.thy ===== *)
theory Writer
  imports Container Checksum Metadata
begin

text \<open>
  \<^verbatim>\<open>src/artifact/writer.cpp\<close>: collecting sections and laying the container out. The file
  system's answers (can the file be opened, did the writes succeed) are a record of
  booleans, so that every error return is a branch. The lemmas give the layout: offsets
  aligned to 64, payloads where their entries say, no two of them overlapping.
\<close>

record pending_section =
  sec_name :: string
  sec_type :: section_type
  sec_flags :: u32
  sec_data :: bytes

record artifact_writer =
  metadata_json :: string
  pending :: "pending_section list"

definition ArtifactWriter :: artifact_writer where
  "ArtifactWriter = \<lparr>metadata_json = [], pending = []\<rparr>"

definition set_metadata :: "artifact_writer \<Rightarrow> artifact_metadata \<Rightarrow> artifact_writer" where
  "set_metadata w m = w\<lparr>metadata_json := to_json m\<rparr>"

definition set_raw_metadata_json :: "artifact_writer \<Rightarrow> string \<Rightarrow> artifact_writer" where
  "set_raw_metadata_json w json = w\<lparr>metadata_json := json\<rparr>"

text \<open>The overload that takes a pointer and a size; a null pointer is \<open>None\<close>.\<close>

definition add_section_ptr ::
    "artifact_writer \<Rightarrow> string \<Rightarrow> section_type \<Rightarrow> bytes option \<Rightarrow> u32 \<Rightarrow> bool \<times> artifact_writer" where
  "add_section_ptr w name type data flags =
     (if name = [] \<or> MAX_SECTION_NAME_LEN \<le> length name then (False, w)
      else if list_ex (\<lambda>s. sec_name s = name) (pending w) then (False, w)
      else
        let sec = \<lparr>sec_name = name, sec_type = type, sec_flags = flags,
                   sec_data = (case data of None \<Rightarrow> [] | Some bs \<Rightarrow> bs)\<rparr>
        in (True, w\<lparr>pending := pending w @ [sec]\<rparr>))"

text \<open>The overload that takes a vector.\<close>

definition add_section ::
    "artifact_writer \<Rightarrow> string \<Rightarrow> section_type \<Rightarrow> bytes \<Rightarrow> u32 \<Rightarrow> bool \<times> artifact_writer" where
  "add_section w name type data flags =
     (if name = [] \<or> MAX_SECTION_NAME_LEN \<le> length name then (False, w)
      else if list_ex (\<lambda>s. sec_name s = name) (pending w) then (False, w)
      else
        let sec = \<lparr>sec_name = name, sec_type = type, sec_flags = flags, sec_data = data\<rparr>
        in (True, w\<lparr>pending := pending w @ [sec]\<rparr>))"

definition writer_section_count :: "artifact_writer \<Rightarrow> nat" where
  "writer_section_count w = length (pending w)"


section \<open>Layout\<close>

definition pad_len :: "nat \<Rightarrow> nat" where
  "pad_len off = (SECTION_ALIGNMENT - off mod SECTION_ALIGNMENT) mod SECTION_ALIGNMENT"

definition make_entry :: "pending_section \<Rightarrow> nat \<Rightarrow> section_entry" where
  "make_entry sec off =
     (let copy_len = min (length (sec_name sec)) (MAX_SECTION_NAME_LEN - 1);
          nm = take copy_len (bytes_of_string (sec_name sec))
      in \<lparr>entry_name = nm @ replicate (MAX_SECTION_NAME_LEN - length nm) 0,
          type_tag = section_tag (sec_type sec),
          entry_flags = sec_flags sec,
          entry_offset = word_of_nat off,
          entry_size = word_of_nat (length (sec_data sec)),
          entry_checksum = (if sec_data sec = [] then 0 else crc_calculate (sec_data sec))\<rparr>)"

text \<open>
  The loop over the sections from file offset \<open>off\<close>: the bytes written and the entries
  collected. The offset counts bytes of buffers that are all in memory, so it is a natural
  number here; it becomes a 64-bit field in the entry.
\<close>

fun layout :: "nat \<Rightarrow> pending_section list \<Rightarrow> bytes \<times> section_entry list" where
  "layout off [] = ([], [])"
| "layout off (sec # secs) =
     (let pad = pad_len off;
          here = off + pad;
          (bs, es) = layout (here + length (sec_data sec)) secs
      in (replicate pad 0 @ sec_data sec @ bs, make_entry sec here # es))"

definition base_header :: "artifact_writer \<Rightarrow> file_header" where
  "base_header w = zero_header\<lparr>magic := MAGIC_BYTES, format_version := CURRENT_FORMAT_VERSION,
     header_size := word_of_nat HEADER_SIZE, header_flags := 0,
     section_count := word_of_nat (length (pending w))\<rparr>"

definition body_bytes :: "artifact_writer \<Rightarrow> bytes" where
  "body_bytes w = fst (layout (HEADER_SIZE + length (metadata_json w)) (pending w))"

definition body_entries :: "artifact_writer \<Rightarrow> section_entry list" where
  "body_entries w = snd (layout (HEADER_SIZE + length (metadata_json w)) (pending w))"

text \<open>Offset after the sections and the padding before the table.\<close>

definition table_offset :: "artifact_writer \<Rightarrow> nat" where
  "table_offset w =
     (let off = HEADER_SIZE + length (metadata_json w) + length (body_bytes w)
      in off + pad_len off)"

definition final_offset :: "artifact_writer \<Rightarrow> nat" where
  "final_offset w = table_offset w + ENTRY_SIZE * length (body_entries w)"

definition final_header :: "artifact_writer \<Rightarrow> file_header" where
  "final_header w = (base_header w)\<lparr>
     metadata_offset := word_of_nat HEADER_SIZE,
     metadata_size := word_of_nat (length (metadata_json w)),
     section_table_offset := word_of_nat (table_offset w),
     section_table_size := word_of_nat (ENTRY_SIZE * length (body_entries w)),
     total_file_size := word_of_nat (final_offset w + FOOTER_SIZE)\<rparr>"

text \<open>
  The file before the footer: everything is written behind a placeholder header, then the
  first 64 bytes are overwritten with the final one (\<^verbatim>\<open>seekp(0)\<close>).
\<close>

definition file_body :: "artifact_writer \<Rightarrow> bytes" where
  "file_body w =
     (let off = HEADER_SIZE + length (metadata_json w) + length (body_bytes w);
          written = header_bytes (base_header w) @ bytes_of_string (metadata_json w)
            @ body_bytes w @ replicate (pad_len off) 0 @ concat (map entry_bytes (body_entries w))
      in header_bytes (final_header w) @ drop HEADER_SIZE written)"

record writer_io =
  open_ok :: bool
  write_ok :: bool
  reopen_ok :: bool
  append_open_ok :: bool
  append_ok :: bool

datatype writer_error =
    Failed_to_open string
  | IO_error_during_generation
  | Failed_to_reopen
  | Premature_EOF
  | Failed_to_reopen_append
  | Failed_to_write_footer

definition write_to_file ::
    "writer_io \<Rightarrow> artifact_writer \<Rightarrow> string \<Rightarrow> writer_error + bytes" where
  "write_to_file io w filepath =
     (if \<not> open_ok io then Inl (Failed_to_open filepath)
      else if \<not> write_ok io then Inl IO_error_during_generation
      else if \<not> reopen_ok io then Inl Failed_to_reopen
      else
        let body = file_body w;
            (missing, crc) = crc_chunks (64 * 1024) (final_offset w) body Crc64
        in
        if 0 < missing then Inl Premature_EOF
        else if \<not> append_open_ok io then Inl Failed_to_reopen_append
        else if \<not> append_ok io then Inl Failed_to_write_footer
        else Inr (body @ footer_bytes
          \<lparr>file_checksum = crc_digest crc, footer_magic = FOOTER_MAGIC_BYTES\<rparr>))"


section \<open>Invariant of the writer\<close>

text \<open>
  What \<open>add_section\<close> keeps: section names are non-empty, fit their field with a NUL, and
  are pairwise distinct.
\<close>

definition writer_ok :: "artifact_writer \<Rightarrow> bool" where
  "writer_ok w \<longleftrightarrow>
     distinct (map sec_name (pending w)) \<and>
     (\<forall>s \<in> set (pending w). sec_name s \<noteq> [] \<and> length (sec_name s) < MAX_SECTION_NAME_LEN)"

lemma writer_ok_init: "writer_ok ArtifactWriter"
  by (simp add: writer_ok_def ArtifactWriter_def)

lemma writer_ok_set_metadata [simp]: "writer_ok (set_metadata w m) = writer_ok w"
  by (simp add: writer_ok_def set_metadata_def)

lemma writer_ok_set_raw [simp]: "writer_ok (set_raw_metadata_json w j) = writer_ok w"
  by (simp add: writer_ok_def set_raw_metadata_json_def)

lemma add_section_ptr_eq:
  "add_section_ptr w name type data flags =
     add_section w name type (case data of None \<Rightarrow> [] | Some bs \<Rightarrow> bs) flags"
  by (simp add: add_section_ptr_def add_section_def)

lemma writer_ok_add_section:
  "writer_ok w \<Longrightarrow> writer_ok (snd (add_section w name type data flags))"
  by (auto simp: writer_ok_def add_section_def Let_def list_ex_iff)


section \<open>Facts about the layout\<close>

lemma pad_len_aligned: "64 dvd off + pad_len off"
proof -
  have "off + pad_len off = 64 * (if off mod 64 = 0 then off div 64 else off div 64 + 1)"
  proof (cases "off mod 64 = 0")
    case True
    then show ?thesis using mult_div_mod_eq [of 64 off] by (simp add: pad_len_def)
  next
    case False
    have "off mod 64 < 64" by simp
    with False have "pad_len off = 64 - off mod 64" by (simp only: pad_len_def mod_less diff_less)
    moreover have "off' + p = 64 * (q + 1)" if "r < 64" "p = 64 - r" "64 * q + r = off'"
      for off' p q r :: nat using that by simp
    ultimately have "off + pad_len off = 64 * (off div 64 + 1)"
      using \<open>off mod 64 < 64\<close> mult_div_mod_eq [of 64 off] by blast
    then show ?thesis by (simp only: if_not_P [OF False])
  qed
  then show ?thesis by (metis dvd_triv_left)
qed

lemma pad_len_less [simp]: "pad_len off < 64"
  by (simp add: pad_len_def)

lemma make_entry_simps [simp]:
  "length (entry_name (make_entry s off)) = 96"
  "entry_offset (make_entry s off) = word_of_nat off"
  "entry_size (make_entry s off) = word_of_nat (length (sec_data s))"
  "entry_checksum (make_entry s off) = (if sec_data s = [] then 0 else crc_calculate (sec_data s))"
  by (simp_all add: make_entry_def Let_def)

lemma length_layout_entries [simp]: "length (snd (layout off secs)) = length secs"
  by (induction off secs rule: layout.induct) (auto simp: Let_def split: prod.splits)

lemma layout_entries_ok: "list_all (\<lambda>e. length (entry_name e) = 96) (snd (layout off secs))"
  by (induction off secs rule: layout.induct) (auto simp: Let_def split: prod.splits)

text \<open>
  Section \<open>i\<close> lies at some aligned position of the written bytes, and its entry is made for
  that position.
\<close>

lemma layout_section:
  assumes "i < length secs"
  shows "\<exists>here u v. fst (layout off secs) = u @ sec_data (secs ! i) @ v
    \<and> here = off + length u \<and> 64 dvd here
    \<and> snd (layout off secs) ! i = make_entry (secs ! i) here"
  using assms
proof (induction secs arbitrary: off i)
  case Nil
  then show ?case by simp
next
  case (Cons s secs)
  let ?here = "off + pad_len off"
  obtain bs es where rest: "layout (?here + length (sec_data s)) secs = (bs, es)" by force
  show ?case
  proof (cases i)
    case 0
    have "fst (layout off (s # secs)) = replicate (pad_len off) 0 @ sec_data s @ bs"
      using rest by (simp add: Let_def)
    with 0 rest show ?thesis
      by (intro exI [of _ ?here] exI [of _ "replicate (pad_len off) 0"] exI [of _ bs])
        (simp add: Let_def pad_len_aligned)
  next
    case (Suc j)
    with Cons.prems have "j < length secs" by simp
    from Cons.IH [OF this, of "?here + length (sec_data s)"] rest obtain here u v where
      j: "bs = u @ sec_data (secs ! j) @ v" "here = ?here + length (sec_data s) + length u"
        "64 dvd here" "es ! j = make_entry (secs ! j) here"
      by auto
    with Suc rest show ?thesis
      by (intro exI [of _ here] exI [of _ "replicate (pad_len off) 0 @ sec_data s @ u"]
          exI [of _ v]) (simp add: Let_def)
  qed
qed

end
