(* ===== verification/Reader.thy ===== *)
theory Reader
  imports Writer
begin

text \<open>
  \<^verbatim>\<open>src/artifact/reader.cpp\<close>: opening a container, looking sections up, reading them and
  validating the whole-file checksum. The file is the list of its bytes; the offset
  arithmetic of the bounds checks is on 64-bit words and wraps as the code's does.
  Allocations (\<^verbatim>\<open>resize\<close>) succeed up to a limit \<open>max_alloc\<close> of the environment and throw
  beyond it. The main results are the round trip with the writer and the safety of a
  successful read.
\<close>

record artifact_reader =
  reader_path :: string
  stream :: "bytes option"
  stream_good :: bool
  is_open :: bool
  header :: file_header
  footer :: file_footer
  raw_metadata_json :: string
  metadata :: artifact_metadata
  sections :: "section_entry list"
  section_index :: "string \<rightharpoonup> nat"

datatype reader_error =
    Could_not_open string
  | File_too_small
  | Invalid_magic
  | Unsupported_version u32
  | Corrupted_header_size u32
  | File_size_mismatch u64 nat
  | Invalid_footer_magic
  | Metadata_out_of_bounds
  | Failed_reading_metadata
  | Section_table_size_mismatch
  | Section_table_out_of_bounds
  | Failed_reading_section_table
  | Section_out_of_bounds string
  | Reader_not_open
  | Section_not_found string
  | Buffer_too_small string
  | IO_error_section string
  | Section_checksum_mismatch string u64 u64
  | Premature_EOF_validating
  | File_checksum_mismatch u64 u64

text \<open>
  How a call ends: with a value, with \<^verbatim>\<open>return false\<close> and a message, with an exception from a
  failed allocation, or with a read past the end of a name field that has no NUL in it.
\<close>

datatype 'a outcome = Done 'a | Error reader_error | Throws_alloc | Overread

definition reader_init :: artifact_reader where
  "reader_init = \<lparr>reader_path = [], stream = None, stream_good = True, is_open = False,
     header = zero_header, footer = zero_footer, raw_metadata_json = [],
     metadata = empty_metadata, sections = [], section_index = Map.empty\<rparr>"

definition close :: "artifact_reader \<Rightarrow> artifact_reader" where
  "close r = r\<lparr>stream := None, is_open := False, reader_path := [], raw_metadata_json := [],
     metadata := empty_metadata, sections := [], section_index := Map.empty,
     header := zero_header, footer := zero_footer\<rparr>"

text \<open>
  \<^verbatim>\<open>seekg\<close> to an offset (a 64-bit value cast to the signed \<^verbatim>\<open>streamoff\<close>: negative from
  \<open>2\<^sup>6\<^sup>3\<close> on, and the seek fails), then \<^verbatim>\<open>read\<close> of \<open>n\<close> bytes: \<open>None\<close> when the stream is not
  \<^verbatim>\<open>good()\<close> afterwards.
\<close>

definition stream_read :: "bytes \<Rightarrow> u64 \<Rightarrow> nat \<Rightarrow> bytes option" where
  "stream_read file off n =
     (if unat off < 2 ^ 63 \<and> unat off + n \<le> length file then Some (slice (unat off) n file)
      else None)"

text \<open>\<^verbatim>\<open>std::string name(entry.name)\<close>: up to the NUL; \<open>None\<close> if there is none in the field.\<close>

definition c_string :: "bytes \<Rightarrow> string option" where
  "c_string bs =
     (if 0 \<in> set bs then Some (string_of_bytes (takeWhile (\<lambda>b. b \<noteq> 0) bs)) else None)"

text \<open>Step 1 and 2 of \<^verbatim>\<open>open\<close>: the header and footer checks.\<close>

definition check_header :: "file_header \<Rightarrow> nat \<Rightarrow> reader_error option" where
  "check_header h actual_file_size =
     (if magic h \<noteq> MAGIC_BYTES then Some Invalid_magic
      else if format_version h \<noteq> CURRENT_FORMAT_VERSION then
        Some (Unsupported_version (format_version h))
      else if header_size h \<noteq> word_of_nat HEADER_SIZE then
        Some (Corrupted_header_size (header_size h))
      else if total_file_size h \<noteq> word_of_nat actual_file_size then
        Some (File_size_mismatch (total_file_size h) actual_file_size)
      else None)"

text \<open>Step 3: the metadata block; unparsable JSON leaves the metadata empty.\<close>

definition read_metadata ::
    "nat \<Rightarrow> bytes \<Rightarrow> file_header \<Rightarrow> (string \<times> artifact_metadata) outcome" where
  "read_metadata max_alloc file h =
     (if metadata_size h = 0 then Done ([], empty_metadata)
      else if word_of_nat (length file) < metadata_offset h + metadata_size h then
        Error Metadata_out_of_bounds
      else if max_alloc < unat (metadata_size h) then Throws_alloc
      else
        case stream_read file (metadata_offset h) (unat (metadata_size h)) of
          None \<Rightarrow> Error Failed_reading_metadata
        | Some bs \<Rightarrow>
            let raw = string_of_bytes bs in
            Done (raw, case from_json raw of None \<Rightarrow> empty_metadata | Some m \<Rightarrow> m))"

text \<open>Step 4: the loop that checks each entry and indexes it by name.\<close>

fun index_sections ::
    "nat \<Rightarrow> nat \<Rightarrow> section_entry list \<Rightarrow> (string \<rightharpoonup> nat) \<Rightarrow> (string \<rightharpoonup> nat) outcome" where
  "index_sections file_size i [] m = Done m"
| "index_sections file_size i (e # es) m =
     (case c_string (entry_name e) of
        None \<Rightarrow> Overread
      | Some name \<Rightarrow>
          if word_of_nat file_size < entry_offset e + entry_size e then
            Error (Section_out_of_bounds name)
          else index_sections file_size (Suc i) es (m(name \<mapsto> i)))"

definition read_sections ::
    "nat \<Rightarrow> bytes \<Rightarrow> file_header \<Rightarrow> (section_entry list \<times> (string \<rightharpoonup> nat)) outcome" where
  "read_sections max_alloc file h =
     (if section_count h = 0 then Done ([], Map.empty)
      else
        let expected_table_size = (ucast (section_count h) * 128 :: u64) in
        if section_table_size h \<noteq> expected_table_size then Error Section_table_size_mismatch
        else if word_of_nat (length file) < section_table_offset h + section_table_size h then
          Error Section_table_out_of_bounds
        else if max_alloc < unat expected_table_size then Throws_alloc
        else
          case stream_read file (section_table_offset h) (unat expected_table_size) of
            None \<Rightarrow> Error Failed_reading_section_table
          | Some bs \<Rightarrow>
              let es = entries_of_bytes (unat (section_count h)) bs in
              (case index_sections (length file) 0 es Map.empty of
                 Done m \<Rightarrow> Done (es, m)
               | Error e \<Rightarrow> Error e
               | Throws_alloc \<Rightarrow> Throws_alloc
               | Overread \<Rightarrow> Overread))"

text \<open>
  \<^verbatim>\<open>ArtifactReader::open\<close> on a file system \<open>fs\<close>. The reader returned with an error is the
  closed one, except that a file that cannot be opened leaves its path behind, as the code
  does; an exception leaves whatever was read so far, which no later call may rely on.
\<close>

definition open_artifact ::
    "nat \<Rightarrow> (string \<rightharpoonup> bytes) \<Rightarrow> artifact_reader \<Rightarrow> string \<Rightarrow> unit outcome \<times> artifact_reader" where
  "open_artifact max_alloc fs r0 filepath =
     (let r = (close r0)\<lparr>reader_path := filepath\<rparr> in
      case fs filepath of
        None \<Rightarrow> (Error (Could_not_open filepath), r)
      | Some file \<Rightarrow>
          if length file < HEADER_SIZE + FOOTER_SIZE then (Error File_too_small, close r)
          else
            let h = header_of_bytes (slice 0 HEADER_SIZE file);
                f = footer_of_bytes (slice (length file - FOOTER_SIZE) FOOTER_SIZE file);
                r1 = r\<lparr>stream := Some file, stream_good := True, header := h\<rparr> in
            (case check_header h (length file) of
               Some e \<Rightarrow> (Error e, close r1)
             | None \<Rightarrow>
                 if footer_magic f \<noteq> FOOTER_MAGIC_BYTES then (Error Invalid_footer_magic, close r1)
                 else
                   let r2 = r1\<lparr>footer := f\<rparr> in
                   (case read_metadata max_alloc file h of
                      Error e \<Rightarrow> (Error e, close r2)
                    | Throws_alloc \<Rightarrow> (Throws_alloc, r2)
                    | Overread \<Rightarrow> (Overread, r2)
                    | Done (raw, meta) \<Rightarrow>
                        let r3 = r2\<lparr>raw_metadata_json := raw, metadata := meta\<rparr> in
                        (case read_sections max_alloc file h of
                           Error e \<Rightarrow> (Error e, close r3)
                         | Throws_alloc \<Rightarrow> (Throws_alloc, r3)
                         | Overread \<Rightarrow> (Overread, r3)
                         | Done (es, m) \<Rightarrow>
                             (Done (), r3\<lparr>sections := es, section_index := m, is_open := True\<rparr>)))))"


section \<open>Looking up and reading sections\<close>

definition list_sections :: "artifact_reader \<Rightarrow> string option list" where
  "list_sections r = map (\<lambda>e. c_string (entry_name e)) (sections r)"

definition has_section :: "artifact_reader \<Rightarrow> string \<Rightarrow> bool" where
  "has_section r name \<longleftrightarrow> section_index r name \<noteq> None"

definition get_section_info :: "artifact_reader \<Rightarrow> string \<Rightarrow> section_entry option" where
  "get_section_info r name =
     (case section_index r name of None \<Rightarrow> None | Some i \<Rightarrow> Some (sections r ! i))"

text \<open>
  The overload that reads into a caller's buffer of \<open>buffer_size\<close> bytes. A read that fails
  leaves the stream's fail bit set.
\<close>

definition read_section_into ::
    "artifact_reader \<Rightarrow> string \<Rightarrow> nat \<Rightarrow> bytes outcome \<times> artifact_reader" where
  "read_section_into r name buffer_size =
     (if \<not> is_open r then (Error Reader_not_open, r)
      else case get_section_info r name of
        None \<Rightarrow> (Error (Section_not_found name), r)
      | Some info \<Rightarrow>
          if buffer_size < unat (entry_size info) then (Error (Buffer_too_small name), r)
          else if entry_size info = 0 then (Done [], r)
          else
            (case (if stream_good r then
                     Option.bind (stream r)
                       (\<lambda>file. stream_read file (entry_offset info) (unat (entry_size info)))
                   else None) of
               None \<Rightarrow> (Error (IO_error_section name), r\<lparr>stream_good := False\<rparr>)
             | Some bs \<Rightarrow>
                 let computed_crc = crc_calculate bs in
                 if computed_crc \<noteq> entry_checksum info then
                   (Error (Section_checksum_mismatch name (entry_checksum info) computed_crc), r)
                 else (Done bs, r)))"

text \<open>The overload that resizes a vector to the section's size first.\<close>

definition read_section ::
    "nat \<Rightarrow> artifact_reader \<Rightarrow> string \<Rightarrow> bytes outcome \<times> artifact_reader" where
  "read_section max_alloc r name =
     (case get_section_info r name of
        None \<Rightarrow> (Error (Section_not_found name), r)
      | Some info \<Rightarrow>
          if max_alloc < unat (entry_size info) then (Throws_alloc, r)
          else if entry_size info = 0 then (Done [], r)
          else read_section_into r name (unat (entry_size info)))"

definition validate_checksum ::
    "artifact_reader \<Rightarrow> nat \<Rightarrow> unit outcome \<times> artifact_reader" where
  "validate_checksum r buffer_size0 =
     (if \<not> is_open r then (Error Reader_not_open, r)
      else
        let buffer_size = (if buffer_size0 = 0 then 4 * 1024 * 1024 else buffer_size0);
            bytes_to_read = unat (total_file_size (header r) - 16);
            file = (case stream r of None \<Rightarrow> [] | Some bs \<Rightarrow> bs);
            (missing, crc) = crc_chunks buffer_size bytes_to_read file Crc64;
            r' = r\<lparr>stream_good := True\<rparr>
        in
        if 0 < missing then (Error Premature_EOF_validating, r')
        else if crc_digest crc \<noteq> file_checksum (footer r) then
          (Error (File_checksum_mismatch (file_checksum (footer r)) (crc_digest crc)), r')
        else (Done (), r'))"


section \<open>What the writer produces\<close>

text \<open>A file of the writer, as the reader sees it: the body and a footer with its checksum.\<close>

definition written_file :: "artifact_writer \<Rightarrow> bytes" where
  "written_file w = file_body w @ footer_bytes
     \<lparr>file_checksum = crc_calculate (file_body w), footer_magic = FOOTER_MAGIC_BYTES\<rparr>"

definition io_all_ok :: "writer_io \<Rightarrow> bool" where
  "io_all_ok io \<longleftrightarrow> open_ok io \<and> write_ok io \<and> reopen_ok io \<and> append_open_ok io \<and> append_ok io"

text \<open>
  The sizes for which the round trip holds: names without NUL, a section count that fits
  its 32-bit field, a file of less than \<open>2\<^sup>6\<^sup>3\<close> bytes that the reader can allocate.
\<close>

definition writable :: "nat \<Rightarrow> artifact_writer \<Rightarrow> bool" where
  "writable max_alloc w \<longleftrightarrow> writer_ok w \<and>
     (\<forall>s \<in> set (pending w). CHR 0x00 \<notin> set (sec_name s)) \<and>
     length (pending w) < 2 ^ 32 \<and> final_offset w + FOOTER_SIZE < 2 ^ 63 \<and>
     final_offset w + FOOTER_SIZE \<le> max_alloc"

lemma final_header_simps [simp]:
  "magic (final_header w) = MAGIC_BYTES"
  "format_version (final_header w) = CURRENT_FORMAT_VERSION"
  "header_size (final_header w) = 64"
  "section_count (final_header w) = word_of_nat (length (pending w))"
  "metadata_offset (final_header w) = 64"
  "metadata_size (final_header w) = word_of_nat (length (metadata_json w))"
  "section_table_offset (final_header w) = word_of_nat (table_offset w)"
  "section_table_size (final_header w) = word_of_nat (128 * length (pending w))"
  "total_file_size (final_header w) = word_of_nat (final_offset w + 16)"
  by (simp_all add: final_header_def base_header_def body_entries_def)

lemma length_body_entries [simp]: "length (body_entries w) = length (pending w)"
  by (simp add: body_entries_def)

lemma body_entries_ok: "list_all (\<lambda>e. length (entry_name e) = 96) (body_entries w)"
  by (simp add: body_entries_def layout_entries_ok)

lemma length_entry_table [simp]:
  "length (concat (map entry_bytes (body_entries w))) = 128 * length (pending w)"
  using entry_codec.length_table [OF body_entries_ok] by simp

definition pad_before_table :: "artifact_writer \<Rightarrow> bytes" where
  "pad_before_table w =
     replicate (pad_len (HEADER_SIZE + length (metadata_json w) + length (body_bytes w))) 0"

lemma table_offset_eq:
  "table_offset w = 64 + length (metadata_json w) + length (body_bytes w)
     + length (pad_before_table w)"
  by (simp add: table_offset_def pad_before_table_def Let_def)

lemma file_body_eq:
  "file_body w = header_bytes (final_header w) @ bytes_of_string (metadata_json w) @ body_bytes w
     @ pad_before_table w @ concat (map entry_bytes (body_entries w))"
  by (simp add: file_body_def pad_before_table_def base_header_def Let_def)

lemma length_file_body [simp]: "length (file_body w) = final_offset w"
  by (simp add: file_body_eq final_offset_def table_offset_eq)

lemma length_written_file [simp]: "length (written_file w) = final_offset w + 16"
  by (simp add: written_file_def)

lemma write_to_file_eq:
  "io_all_ok io \<Longrightarrow> write_to_file io w path = Inr (written_file w)"
  by (simp add: write_to_file_def io_all_ok_def written_file_def crc_chunks_eq Let_def
      crc_calculate_def)


section \<open>Reading the parts of a written file back\<close>

lemma stream_read_middle:
  "file = u @ mid @ v \<Longrightarrow> unat off = length u \<Longrightarrow> length u < 2 ^ 63 \<Longrightarrow> n = length mid \<Longrightarrow>
     stream_read file off n = Some mid"
  by (simp add: stream_read_def slice_def)

lemma unat_of_small [simp]: "n < 2 ^ 63 \<Longrightarrow> unat (word_of_nat n :: u64) = n"
  by (simp add: unat_of_nat)

lemma of_nat_add_not_less:
  assumes "a + b \<le> n" "n < 2 ^ 63"
  shows "\<not> (word_of_nat n :: u64) < word_of_nat a + word_of_nat b"
proof -
  have "a + b < 2 ^ 63" using assms by (rule le_less_trans)
  with assms have "(word_of_nat (a + b) :: u64) \<le> word_of_nat n"
    by (simp only: word_le_nat_alt unat_of_small)
  then show ?thesis by (simp add: not_less)
qed

lemma c_string_make_entry:
  assumes "length (sec_name s) < 96" "CHR 0x00 \<notin> set (sec_name s)"
  shows "c_string (entry_name (make_entry s off)) = Some (sec_name s)"
proof -
  let ?n = "bytes_of_string (sec_name s)"
  have nm: "entry_name (make_entry s off) = ?n @ replicate (96 - length (sec_name s)) 0"
    using assms(1) by (simp add: make_entry_def)
  have "0 \<notin> set ?n" using assms(2) by (auto simp: bytes_of_string_def)
  then have "takeWhile (\<lambda>b. b \<noteq> 0) (?n @ replicate (96 - length (sec_name s)) 0) = ?n"
    by (subst takeWhile_append2) (auto simp: takeWhile_replicate)
  with assms(1) show ?thesis by (simp add: c_string_def nm)
qed

text \<open>The index of a table: the last entry of a name wins.\<close>

lemma index_sections_Done:
  assumes "list_all2 (\<lambda>e n. c_string (entry_name e) = Some n
      \<and> \<not> word_of_nat n_file < entry_offset e + entry_size e) es names"
  shows "index_sections n_file i es m = Done (m ++ map_of (rev (zip names [i..<i + length es])))"
  using assms
proof (induction es names arbitrary: i m rule: list_all2_induct)
  case Nil
  then show ?case by simp
next
  case (Cons e es n names)
  have "[i..<i + length (e # es)] = i # [Suc i..<Suc i + length es]"
    by (simp add: upt_rec)
  with Cons show ?case by (simp add: map_add_def fun_eq_iff split: option.splits)
qed

lemma map_of_rev_zip_nth:
  assumes "distinct names" "i < length names"
  shows "map_of (rev (zip names [0..<length names])) (names ! i) = Some i"
proof (rule map_of_is_SomeI)
  show "distinct (map fst (rev (zip names [0..<length names])))"
    using assms(1) by (simp add: rev_map [symmetric])
  show "(names ! i, i) \<in> set (rev (zip names [0..<length names]))"
    using assms(2) by (auto simp: set_zip)
qed


lemma body_section:
  assumes "i < length (pending w)"
  obtains u v where "written_file w = u @ sec_data (pending w ! i) @ v"
    "body_entries w ! i = make_entry (pending w ! i) (length u)"
proof -
  let ?off = "64 + length (metadata_json w)"
  obtain u v where
    uv: "body_bytes w = u @ sec_data (pending w ! i) @ v"
      "body_entries w ! i = make_entry (pending w ! i) (?off + length u)"
    using layout_section [OF assms, of ?off] unfolding body_bytes_def body_entries_def by blast
  let ?u = "header_bytes (final_header w) @ bytes_of_string (metadata_json w) @ u"
  show ?thesis
    by (rule that [of ?u]) (simp_all add: uv written_file_def file_body_eq ac_simps)
qed

lemma check_written_header:
  "check_header (final_header w) (length (written_file w)) = None"
  by (simp add: check_header_def)

lemma read_written_metadata:
  assumes "writable max_alloc w"
  shows "read_metadata max_alloc (written_file w) (final_header w) =
    Done (metadata_json w, if metadata_json w = [] then empty_metadata else
      case from_json (metadata_json w) of None \<Rightarrow> empty_metadata | Some m \<Rightarrow> m)"
proof -
  let ?l = "length (metadata_json w)"
  have len: "64 + ?l \<le> final_offset w + 16" by (simp add: final_offset_def table_offset_eq)
  have small: "?l < 2 ^ 63" "?l \<le> max_alloc" "final_offset w + 16 < 2 ^ 63"
    using assms len by (auto simp: writable_def)
  have l0: "(word_of_nat ?l :: u64) = 0 \<longleftrightarrow> ?l = 0"
    using small(1) by (simp only: unat_eq_zero [symmetric] unat_of_small)
  have "stream_read (written_file w) 64 ?l = Some (bytes_of_string (metadata_json w))"
    by (rule stream_read_middle [where u = "header_bytes (final_header w)"])
      (simp_all add: written_file_def file_body_eq)
  moreover have "\<not> (word_of_nat (final_offset w + 16) :: u64) < word_of_nat 64 + word_of_nat ?l"
    by (rule of_nat_add_not_less [OF len small(3)])
  ultimately show ?thesis
    using small l0 by (simp add: read_metadata_def Let_def)
qed


lemma section_count_word:
  assumes "n < 2 ^ 32"
  shows "unat (word_of_nat n :: u32) = n" "(word_of_nat n :: u32) = 0 \<longleftrightarrow> n = 0"
    "(ucast (word_of_nat n :: u32) :: u64) * 128 = word_of_nat (128 * n)"
proof -
  show n: "unat (word_of_nat n :: u32) = n" using assms by (simp add: unat_of_nat)
  show "(word_of_nat n :: u32) = 0 \<longleftrightarrow> n = 0" by (simp only: unat_eq_zero [symmetric] n)
  have "(ucast (word_of_nat n :: u32) :: u64) = word_of_nat n"
    using assms by (simp add: unsigned_of_nat take_bit_nat_eq_self)
  then show "(ucast (word_of_nat n :: u32) :: u64) * 128 = word_of_nat (128 * n)" by simp
qed

lemma written_entries:
  assumes "writable max_alloc w"
  shows "list_all2 (\<lambda>e n. c_string (entry_name e) = Some n
      \<and> \<not> word_of_nat (final_offset w + 16) < entry_offset e + entry_size e)
    (body_entries w) (map sec_name (pending w))"
proof (rule list_all2_all_nthI)
  fix i assume "i < length (body_entries w)"
  then have i: "i < length (pending w)" by simp
  then obtain u v where wf: "written_file w = u @ sec_data (pending w ! i) @ v"
    and e: "body_entries w ! i = make_entry (pending w ! i) (length u)"
    by (rule body_section)
  have "length u + length (sec_data (pending w ! i)) \<le> final_offset w + 16"
    using arg_cong [OF wf, of length] by simp
  moreover have "final_offset w + 16 < 2 ^ 63" using assms by (simp add: writable_def)
  ultimately have "\<not> (word_of_nat (final_offset w + 16) :: u64)
      < word_of_nat (length u) + word_of_nat (length (sec_data (pending w ! i)))"
    by (rule of_nat_add_not_less)
  moreover have "pending w ! i \<in> set (pending w)" using i by simp
  ultimately show "c_string (entry_name (body_entries w ! i)) = Some (map sec_name (pending w) ! i)
      \<and> \<not> word_of_nat (final_offset w + 16)
          < entry_offset (body_entries w ! i) + entry_size (body_entries w ! i)"
    using assms i c_string_make_entry [of "pending w ! i" "length u"]
    by (simp add: e writable_def writer_ok_def)
qed simp

lemma read_written_sections:
  assumes "writable max_alloc w"
  shows "read_sections max_alloc (written_file w) (final_header w) =
    Done (body_entries w, map_of (rev (zip (map sec_name (pending w)) [0..<length (pending w)])))"
proof -
  let ?n = "length (pending w)"
  have n: "?n < 2 ^ 32" using assms by (simp add: writable_def)
  have tab: "table_offset w + 128 * ?n \<le> final_offset w + 16" by (simp add: final_offset_def)
  have fo: "final_offset w + 16 < 2 ^ 63" "final_offset w + 16 \<le> max_alloc"
    using assms by (auto simp: writable_def)
  have u: "unat (word_of_nat (128 * ?n) :: u64) = 128 * ?n"
    "unat (word_of_nat (table_offset w) :: u64) = table_offset w"
    using tab fo by (intro unat_of_small; linarith)+
  have read: "stream_read (written_file w) (word_of_nat (table_offset w)) (128 * ?n)
      = Some (concat (map entry_bytes (body_entries w)))"
    by (rule stream_read_middle [where u = "header_bytes (final_header w)
        @ bytes_of_string (metadata_json w) @ body_bytes w @ pad_before_table w"])
      (use tab fo u in \<open>simp_all add: written_file_def file_body_eq table_offset_eq\<close>)
  have es: "entries_of_bytes ?n (concat (map entry_bytes (body_entries w))) = body_entries w"
    using entries_of_bytes_concat [OF body_entries_ok, of ?n w "[]"] by simp
  have lim: "\<not> max_alloc < 128 * ?n" using tab fo by linarith
  have zero: "body_entries w = []" if "pending w = []"
    using that by (simp add: body_entries_def)
  note count = section_count_word [OF n]
  show ?thesis
    using index_sections_Done [OF written_entries [OF assms], of 0 Map.empty] zero
      of_nat_add_not_less [OF tab fo(1)]
    by (simp add: read_sections_def Let_def count u read es lim del: of_nat_mult of_nat_add)
qed


lemma to_json_nonempty [simp]: "to_json m \<noteq> []"
  by (simp add: to_json_def)

definition opened_reader :: "artifact_writer \<Rightarrow> artifact_metadata \<Rightarrow> string \<Rightarrow> artifact_reader" where
  "opened_reader w m path = \<lparr>reader_path = path, stream = Some (written_file w),
     stream_good = True, is_open = True, header = final_header w,
     footer = \<lparr>file_checksum = crc_calculate (file_body w), footer_magic = FOOTER_MAGIC_BYTES\<rparr>,
     raw_metadata_json = metadata_json w, metadata = m, sections = body_entries w,
     section_index = map_of (rev (zip (map sec_name (pending w)) [0..<length (pending w)]))\<rparr>"

lemma open_written_file:
  assumes "writable max_alloc w" "metadata_json w = to_json m" "metadata_ok m"
    "fs path = Some (written_file w)"
  shows "open_artifact max_alloc fs r0 path = (Done (), opened_reader w m path)"
proof -
  have h: "header_of_bytes (slice 0 64 (written_file w)) = final_header w"
    by (simp add: written_file_def file_body_eq header_of_header_bytes)
  have f: "footer_of_bytes (slice (final_offset w) 16 (written_file w)) =
      \<lparr>file_checksum = crc_calculate (file_body w), footer_magic = FOOTER_MAGIC_BYTES\<rparr>"
    by (simp add: written_file_def slice_append_right footer_of_footer_bytes)
  have len: "\<not> final_offset w + 16 < 64 + 16" by (simp add: final_offset_def table_offset_eq)
  show ?thesis
    using assms len check_written_header [of w] from_json_to_json [of m]
    by (simp add: open_artifact_def close_def h f read_written_metadata read_written_sections
        opened_reader_def Let_def)
qed

lemma opened_reader_section:
  assumes "writable max_alloc w" "i < length (pending w)"
  shows "read_section max_alloc (opened_reader w m path) (sec_name (pending w ! i)) =
    (Done (sec_data (pending w ! i)), opened_reader w m path)"
proof -
  obtain u v where wf: "written_file w = u @ sec_data (pending w ! i) @ v"
    and e: "body_entries w ! i = make_entry (pending w ! i) (length u)"
    using assms(2) by (rule body_section)
  let ?d = "sec_data (pending w ! i)"
  have "length u + length ?d \<le> final_offset w + 16"
    using arg_cong [OF wf, of length] by simp
  with assms(1) have small: "length u < 2 ^ 63" "length ?d < 2 ^ 63" "length ?d \<le> max_alloc"
    by (auto simp: writable_def)
  have size0: "(word_of_nat (length ?d) :: u64) = 0 \<longleftrightarrow> ?d = []"
    using small(2) by (simp only: unat_eq_zero [symmetric] unat_of_small length_0_conv)
  have "get_section_info (opened_reader w m path) (sec_name (pending w ! i))
      = Some (make_entry (pending w ! i) (length u))"
    using assms map_of_rev_zip_nth [of "map sec_name (pending w)" i]
    by (simp add: get_section_info_def opened_reader_def e writable_def writer_ok_def)
  moreover have "stream_read (written_file w) (word_of_nat (length u)) (length ?d) = Some ?d"
    by (rule stream_read_middle [OF wf]) (use small in simp_all)
  ultimately show ?thesis
    using small size0
    by (simp add: read_section_def read_section_into_def) (simp add: opened_reader_def)
qed

lemma validate_written_checksum:
  assumes "writable max_alloc w"
  shows "validate_checksum (opened_reader w m path) buf = (Done (), opened_reader w m path)"
proof -
  have "(word_of_nat (final_offset w + 16) - 16 :: u64) = word_of_nat (final_offset w)" by simp
  moreover have "final_offset w < 2 ^ 63" using assms by (simp add: writable_def)
  ultimately have "unat (total_file_size (final_header w) - 16) = final_offset w"
    by (simp only: final_header_simps unat_of_small)
  moreover have "take (final_offset w) (written_file w) = file_body w"
    by (simp add: written_file_def)
  ultimately show ?thesis
    by (simp add: validate_checksum_def opened_reader_def crc_chunks_eq Let_def crc_calculate_def
        split: if_splits)
qed


text \<open>
  C1. Container round trip: a file that \<^verbatim>\<open>ArtifactWriter::write_to_file\<close> produced, with no I/O
  error, opens in \<^verbatim>\<open>ArtifactReader\<close> (from any earlier reader state); the reader has exactly
  the metadata that was set and the section names in order, \<^verbatim>\<open>read_section\<close> of every name
  returns exactly the bytes that were added, and \<^verbatim>\<open>validate_checksum\<close> accepts the file with
  any buffer size. It needs names without NUL bytes, fewer than \<open>2\<^sup>3\<^sup>2\<close> sections and a file
  below \<open>2\<^sup>6\<^sup>3\<close> bytes that can be allocated.
\<close>

theorem artifact_roundtrip:
  assumes "writable max_alloc w" "metadata_json w = to_json m" "metadata_ok m" "io_all_ok io"
  shows "\<exists>file r. write_to_file io w path = Inr file
    \<and> (\<forall>r0. open_artifact max_alloc [path \<mapsto> file] r0 path = (Done (), r))
    \<and> metadata r = m
    \<and> list_sections r = map (Some \<circ> sec_name) (pending w)
    \<and> list_all (\<lambda>s. read_section max_alloc r (sec_name s) = (Done (sec_data s), r)) (pending w)
    \<and> validate_checksum r buf = (Done (), r)"
proof (intro exI [of _ "written_file w"] exI [of _ "opened_reader w m path"] conjI allI)
  show "write_to_file io w path = Inr (written_file w)" by (rule write_to_file_eq [OF assms(4)])
  show "open_artifact max_alloc [path \<mapsto> written_file w] r0 path
      = (Done (), opened_reader w m path)" for r0
    using assms by (simp add: open_written_file)
  show "metadata (opened_reader w m path) = m" by (simp add: opened_reader_def)
  show "list_sections (opened_reader w m path) = map (Some \<circ> sec_name) (pending w)"
    using written_entries [OF assms(1)]
    by (auto simp: list_sections_def opened_reader_def list_all2_conv_all_nth
        intro!: nth_equalityI)
  show "list_all (\<lambda>s. read_section max_alloc (opened_reader w m path) (sec_name s)
      = (Done (sec_data s), opened_reader w m path)) (pending w)"
    using opened_reader_section [OF assms(1)] by (simp add: list_all_length)
  show "validate_checksum (opened_reader w m path) buf = (Done (), opened_reader w m path)"
    by (rule validate_written_checksum [OF assms(1)])
qed

abbreviation sample_writer :: artifact_writer where
  "sample_writer \<equiv> \<lparr>metadata_json = to_json empty_metadata,
     pending = [\<lparr>sec_name = ''w'', sec_type = TensorWeights, sec_flags = 0, sec_data = [1, 2, 3]\<rparr>,
                \<lparr>sec_name = ''e'', sec_type = RawBlob, sec_flags = 7, sec_data = []\<rparr>]\<rparr>"

lemma sample_writer_writable: "writable 4096 sample_writer"
proof -
  have l: "length (to_json empty_metadata) = 92"
    by code_simp
  have "final_offset sample_writer = 512"
    by (simp add: final_offset_def table_offset_def body_bytes_def l pad_len_def Let_def)
  then show ?thesis by (simp add: writable_def writer_ok_def)
qed

theorem artifact_roundtrip_witness:
  "\<exists>file r. write_to_file \<lparr>open_ok = True, write_ok = True, reopen_ok = True,
      append_open_ok = True, append_ok = True\<rparr> sample_writer ''p'' = Inr file
    \<and> (\<forall>r0. open_artifact 4096 [''p'' \<mapsto> file] r0 ''p'' = (Done (), r))
    \<and> metadata r = empty_metadata
    \<and> list_sections r = [Some ''w'', Some ''e'']
    \<and> list_all (\<lambda>s. read_section 4096 r (sec_name s) = (Done (sec_data s), r))
        (pending sample_writer)
    \<and> validate_checksum r 0 = (Done (), r)"
  using artifact_roundtrip [OF sample_writer_writable, of empty_metadata
      "\<lparr>open_ok = True, write_ok = True, reopen_ok = True, append_open_ok = True, append_ok = True\<rparr>"
      "''p''" 0]
  by (simp add: io_all_ok_def metadata_ok_def empty_metadata_def map_ok_def)



section \<open>Safety on arbitrary files\<close>

lemma open_artifact_DoneD:
  assumes "open_artifact max_alloc fs r0 path = (Done (), r)" "fs path = Some file"
  shows "stream r = Some file" "stream_good r" "is_open r"
    "read_sections max_alloc file (header r) = Done (sections r, section_index r)"
    "check_header (header r) (length file) = None"
  using assms
  by (auto simp: open_artifact_def Let_def split: option.splits if_splits outcome.splits)

lemma index_sections_DoneD:
  assumes "index_sections n_file i es m = Done m'" "m' name = Some k"
  shows "m name = Some k \<or> i \<le> k \<and> k < i + length es
    \<and> c_string (entry_name (es ! (k - i))) = Some name"
  using assms
proof (induction es arbitrary: i m)
  case Nil
  then show ?case by simp
next
  case (Cons e es)
  from Cons.prems(1) obtain n where n: "c_string (entry_name e) = Some n"
    and rest: "index_sections n_file (Suc i) es (m(n \<mapsto> i)) = Done m'"
    by (auto split: option.splits if_splits)
  from Cons.IH [OF rest Cons.prems(2)] n show ?case
    by (auto split: if_splits simp: nth_Cons')
qed

lemma read_sections_index:
  assumes "read_sections max_alloc file h = Done (es, m)" "m name = Some k"
  shows "k < length es" "c_string (entry_name (es ! k)) = Some name"
  using assms index_sections_DoneD [of "length file" 0 es Map.empty m name k]
  by (auto simp: read_sections_def Let_def split: if_splits option.splits outcome.splits)

text \<open>
  C2. Safety of reading: whatever the bytes of the file are (truncated, corrupted, with
  offsets chosen so that the 64-bit bounds checks wrap around), a \<^verbatim>\<open>read_section\<close> that
  reports success on an opened file returns exactly as many bytes as the entry of that name
  says, they are bytes that really are in the file at the entry's offset, and their CRC-64
  is the stored one.
\<close>

theorem read_section_safe:
  assumes "open_artifact max_alloc fs r0 path = (Done (), r)" "fs path = Some file"
    "read_section max_alloc r name = (Done bs, r')"
  shows "r' = r \<and> (\<exists>e \<in> set (sections r). c_string (entry_name e) = Some name
    \<and> length bs = unat (entry_size e)
    \<and> (bs = [] \<or> unat (entry_offset e) + unat (entry_size e) \<le> length file
         \<and> bs = slice (unat (entry_offset e)) (unat (entry_size e)) file
         \<and> crc_calculate bs = entry_checksum e))"
proof -
  note opened = open_artifact_DoneD [OF assms(1,2)]
  from assms(3) obtain k where k: "section_index r name = Some k"
    by (auto simp: read_section_def get_section_info_def split: option.splits)
  note e = read_sections_index [OF opened(4) k]
  have "r' = r \<and> length bs = unat (entry_size (sections r ! k))
    \<and> (bs = [] \<or> unat (entry_offset (sections r ! k)) + unat (entry_size (sections r ! k)) \<le> length file
         \<and> bs = slice (unat (entry_offset (sections r ! k))) (unat (entry_size (sections r ! k))) file
         \<and> crc_calculate bs = entry_checksum (sections r ! k))"
    using assms(3) opened k
    by (auto simp: read_section_def read_section_into_def get_section_info_def stream_read_def
        Let_def slice_def split: if_splits option.splits)
  with e show ?thesis by (metis nth_mem)
qed

theorem read_section_safe_witness:
  "\<exists>e \<in> set (sections (opened_reader sample_writer empty_metadata ''p'')).
     c_string (entry_name e) = Some ''w'' \<and> length [1, 2, 3 :: u8] = unat (entry_size e)"
proof -
  let ?r = "opened_reader sample_writer empty_metadata ''p''"
  have "metadata_ok empty_metadata" by (simp add: metadata_ok_def empty_metadata_def map_ok_def)
  then have "open_artifact 4096 [''p'' \<mapsto> written_file sample_writer] reader_init ''p'' = (Done (), ?r)"
    by (intro open_written_file sample_writer_writable) simp_all
  moreover have "read_section 4096 ?r ''w'' = (Done [1, 2, 3], ?r)"
    using opened_reader_section [OF sample_writer_writable, of 0 empty_metadata "''p''"] by simp
  ultimately show ?thesis
    using read_section_safe [of 4096 "[''p'' \<mapsto> written_file sample_writer]" reader_init "''p''" ?r
        "written_file sample_writer" "''w''" "[1, 2, 3]" ?r]
    by auto
qed

text \<open>
  The bounds checks of \<^verbatim>\<open>open\<close> add two 64-bit fields and wrap around: there is an 80-byte
  file (a well-formed header and footer) whose metadata size is \<open>2\<^sup>6\<^sup>4 - 1\<close> and whose
  metadata offset is 1, so that \<^verbatim>\<open>metadata_offset + metadata_size > actual_file_size\<close> is
  false and \<^verbatim>\<open>resize\<close> throws: \<^verbatim>\<open>open\<close> does not return false with an error message.
\<close>

theorem open_bounds_check_wraps:
  "\<exists>file. length file = 80 \<and>
     (\<forall>r0 max_alloc. unat (- 1 :: u64) \<le> max_alloc \<or>
        fst (open_artifact max_alloc [path \<mapsto> file] r0 path) = Throws_alloc)"
proof -
  let ?h = "zero_header\<lparr>magic := MAGIC_BYTES, format_version := CURRENT_FORMAT_VERSION,
    header_size := 64, metadata_offset := 1, metadata_size := - 1, total_file_size := 80\<rparr>"
  let ?f = "\<lparr>file_checksum = 0, footer_magic = FOOTER_MAGIC_BYTES\<rparr>"
  define fl where "fl = header_bytes ?h @ footer_bytes ?f"
  have len: "length fl = 80" by (simp add: fl_def)
  have h: "header_of_bytes (slice 0 64 fl) = ?h"
    by (simp add: fl_def header_of_header_bytes)
  have f: "footer_of_bytes (slice 64 16 fl) = ?f"
    by (simp add: fl_def slice_append_right footer_of_footer_bytes)
  have "check_header ?h 80 = None" by (simp add: check_header_def)
  moreover have "read_metadata max_alloc fl ?h = Throws_alloc"
    if "\<not> unat (- 1 :: u64) \<le> max_alloc" for max_alloc
    using that by (simp add: read_metadata_def len)
  ultimately have "fst (open_artifact max_alloc [path \<mapsto> fl] r0 path) = Throws_alloc"
    if "\<not> unat (- 1 :: u64) \<le> max_alloc" for r0 max_alloc
    using that by (simp add: open_artifact_def Let_def len h f)
  with len show ?thesis by blast
qed

end
