(* ===== verification/Tensor.thy ===== *)
theory Tensor
  imports Prelude
begin

text \<open>
  \<^verbatim>\<open>src/core/types.h\<close> and \<^verbatim>\<open>src/core/tensor.h/.cpp\<close>: element types, shapes, row-major strides
  and views. Dimensions, strides and element offsets are \<^verbatim>\<open>int64_t\<close>, whose overflow is
  undefined in C++, so they are integers here; sizes and addresses are \<^verbatim>\<open>size_t\<close> and
  pointers, 64-bit words that wrap. The lemmas show that row-major strides address distinct
  elements below \<open>numel\<close>, and that a slice of a view addresses elements of that view.
\<close>

datatype data_type = Float32 | Float16 | BFloat16 | Int32 | Int8 | Uint8 | Int4

fun dtype_tag :: "data_type \<Rightarrow> u32" where
  "dtype_tag Float32 = 1"
| "dtype_tag Float16 = 2"
| "dtype_tag BFloat16 = 3"
| "dtype_tag Int32 = 4"
| "dtype_tag Int8 = 5"
| "dtype_tag Uint8 = 6"
| "dtype_tag Int4 = 7"

fun dtype_size_bytes :: "data_type \<Rightarrow> u64" where
  "dtype_size_bytes Float32 = 4"
| "dtype_size_bytes Float16 = 2"
| "dtype_size_bytes BFloat16 = 2"
| "dtype_size_bytes Int32 = 4"
| "dtype_size_bytes Int8 = 1"
| "dtype_size_bytes Uint8 = 1"
| "dtype_size_bytes Int4 = 0"

fun dtype_name :: "data_type \<Rightarrow> string" where
  "dtype_name Float32 = ''Float32''"
| "dtype_name Float16 = ''Float16''"
| "dtype_name BFloat16 = ''BFloat16''"
| "dtype_name Int32 = ''Int32''"
| "dtype_name Int8 = ''Int8''"
| "dtype_name Uint8 = ''Uint8''"
| "dtype_name Int4 = ''Int4''"

definition is_floating_point :: "data_type \<Rightarrow> bool" where
  "is_floating_point d \<longleftrightarrow> d = Float32 \<or> d = Float16 \<or> d = BFloat16"

definition is_quantized :: "data_type \<Rightarrow> bool" where
  "is_quantized d \<longleftrightarrow> d = Int8 \<or> d = Int4 \<or> d = Uint8"

definition compute_tensor_bytes :: "int \<Rightarrow> data_type \<Rightarrow> u64" where
  "compute_tensor_bytes num_elements d =
     (if num_elements \<le> 0 then 0
      else if d = Int4 then word_of_int ((num_elements + 1) div 2)
      else word_of_int num_elements * dtype_size_bytes d)"


section \<open>Shapes\<close>

type_synonym tensor_shape = "int list"

datatype tensor_error =
    Dim_out_of_range
  | Slice_dim_out_of_range
  | Slice_out_of_bounds
  | Int4_misaligned
  | Not_contiguous
  | Reshape_mismatch int int
  | Tensor_not_allocated
  | Tensor_bad_alloc

definition dim :: "tensor_shape \<Rightarrow> nat \<Rightarrow> tensor_error + int" where
  "dim dims i = (if length dims \<le> i then Inl Dim_out_of_range else Inr (dims ! i))"

definition numel :: "tensor_shape \<Rightarrow> int" where
  "numel dims = (if dims = [] then 0 else foldl (*) 1 dims)"

text \<open>The loop fills the strides from the last dimension to the first.\<close>

fun compute_contiguous_strides :: "tensor_shape \<Rightarrow> int list" where
  "compute_contiguous_strides [] = []"
| "compute_contiguous_strides [d] = [1]"
| "compute_contiguous_strides (d # e # ds) =
     (let s = compute_contiguous_strides (e # ds) in hd s * e # s)"

fun shape_body :: "tensor_shape \<Rightarrow> string" where
  "shape_body [] = []"
| "shape_body [d] = to_string_int d"
| "shape_body (d # e # ds) = to_string_int d @ '', '' @ shape_body (e # ds)"

definition shape_to_string :: "tensor_shape \<Rightarrow> string" where
  "shape_to_string dims = ''['' @ shape_body dims @ '']''"


section \<open>Views\<close>

record tensor_view =
  tv_data :: u64
  tv_shape :: tensor_shape
  tv_strides :: "int list"
  tv_dtype :: data_type

definition TensorView :: "u64 \<Rightarrow> tensor_shape \<Rightarrow> data_type \<Rightarrow> tensor_view" where
  "TensorView data shape d = \<lparr>tv_data = data, tv_shape = shape,
     tv_strides = compute_contiguous_strides shape, tv_dtype = d\<rparr>"

definition tv_numel :: "tensor_view \<Rightarrow> int" where
  "tv_numel v = numel (tv_shape v)"

definition byte_size :: "tensor_view \<Rightarrow> u64" where
  "byte_size v = compute_tensor_bytes (numel (tv_shape v)) (tv_dtype v)"

definition is_contiguous :: "tensor_view \<Rightarrow> bool" where
  "is_contiguous v \<longleftrightarrow>
     length (tv_shape v) \<le> 1 \<or> tv_strides v = compute_contiguous_strides (tv_shape v)"

definition tv_slice :: "tensor_view \<Rightarrow> nat \<Rightarrow> int \<Rightarrow> int \<Rightarrow> tensor_error + tensor_view" where
  "tv_slice v dim_idx start len =
     (if length (tv_shape v) \<le> dim_idx then Inl Slice_dim_out_of_range
      else
        let dim_len = tv_shape v ! dim_idx in
        if start < 0 \<or> len < 0 \<or> dim_len < start + len then Inl Slice_out_of_bounds
        else
          let new_shape = (tv_shape v)[dim_idx := len];
              element_offset = start * tv_strides v ! dim_idx
          in
          if tv_dtype v = Int4 then
            if element_offset mod 2 \<noteq> 0 then Inl Int4_misaligned
            else Inr (v\<lparr>tv_data := tv_data v + word_of_int (element_offset div 2),
                        tv_shape := new_shape\<rparr>)
          else
            Inr (v\<lparr>tv_data := tv_data v + word_of_int element_offset * dtype_size_bytes (tv_dtype v),
                   tv_shape := new_shape\<rparr>))"

definition reshape :: "tensor_view \<Rightarrow> tensor_shape \<Rightarrow> tensor_error + tensor_view" where
  "reshape v new_shape =
     (if \<not> is_contiguous v then Inl Not_contiguous
      else if numel new_shape \<noteq> numel (tv_shape v) then
        Inl (Reshape_mismatch (numel (tv_shape v)) (numel new_shape))
      else Inr (TensorView (tv_data v) new_shape (tv_dtype v)))"


section \<open>Where elements lie\<close>

text \<open>
  The element with a multi-index is at \<open>\<Sum>\<^sub>i index\<^sub>i * stride\<^sub>i\<close>; the specification of a
  row-major layout is the mixed-radix number of the index.
\<close>

fun element_offset :: "int list \<Rightarrow> int list \<Rightarrow> int" where
  "element_offset (s # ss) (i # is) = i * s + element_offset ss is"
| "element_offset _ _ = 0"

fun row_major :: "int list \<Rightarrow> int list \<Rightarrow> int" where
  "row_major (d # ds) (i # is) = i * prod_list ds + row_major ds is"
| "row_major _ _ = 0"

fun in_bounds :: "int list \<Rightarrow> int list \<Rightarrow> bool" where
  "in_bounds [] [] = True"
| "in_bounds (d # ds) (i # is) = (0 \<le> i \<and> i < d \<and> in_bounds ds is)"
| "in_bounds _ _ = False"

lemma foldl_mult_int: "foldl (*) (a :: int) xs = a * prod_list xs"
  by (induction xs arbitrary: a) auto

lemma numel_eq: "dims \<noteq> [] \<Longrightarrow> numel dims = prod_list dims"
  by (simp add: numel_def foldl_mult_int)

lemma hd_strides: "compute_contiguous_strides (d # ds) = prod_list ds # compute_contiguous_strides ds"
proof (induction ds arbitrary: d)
  case Nil
  then show ?case by simp
next
  case (Cons e ds)
  then show ?case by (simp add: Let_def mult.commute)
qed

lemma length_strides [simp]: "length (compute_contiguous_strides dims) = length dims"
  by (induction dims) (simp_all add: hd_strides)

lemma element_offset_row_major:
  "element_offset (compute_contiguous_strides dims) idx = row_major dims idx"
  by (induction dims idx rule: row_major.induct) (simp_all add: hd_strides)

lemma in_bounds_length: "in_bounds dims idx \<Longrightarrow> length idx = length dims"
  by (induction dims idx rule: in_bounds.induct) auto

lemma row_major_range:
  "in_bounds dims idx \<Longrightarrow> 0 \<le> row_major dims idx \<and> row_major dims idx < prod_list dims"
proof (induction dims idx rule: in_bounds.induct)
  case (2 d ds i "is")
  let ?P = "prod_list ds"
  from 2 have r: "0 \<le> row_major ds is" "row_major ds is < ?P" and i: "0 \<le> i" "i \<le> d - 1"
    by auto
  have "i * ?P \<le> (d - 1) * ?P" using i r by (intro mult_right_mono) auto
  with r have "i * ?P + row_major ds is < d * ?P" by (simp add: algebra_simps)
  moreover have "0 \<le> i * ?P" using i r by simp
  ultimately show ?case using r by simp
qed auto

lemma row_major_inject:
  "in_bounds dims xs \<Longrightarrow> in_bounds dims ys \<Longrightarrow> row_major dims xs = row_major dims ys \<Longrightarrow> xs = ys"
proof (induction dims xs arbitrary: ys rule: in_bounds.induct)
  case (2 d ds i "is")
  then obtain j js where ys: "ys = j # js" by (cases ys) auto
  let ?P = "prod_list ds"
  have r: "0 \<le> row_major ds is" "row_major ds is < ?P" "0 \<le> row_major ds js" "row_major ds js < ?P"
    using 2 row_major_range [of ds "is"] row_major_range [of ds js] by (auto simp: ys)
  have eq: "i * ?P + row_major ds is = j * ?P + row_major ds js" using 2 by (simp add: ys)
  have "i = (i * ?P + row_major ds is) div ?P" using r by simp
  also have "\<dots> = j" using r by (simp add: eq)
  finally have "i = j" .
  with eq 2 show ?case by (simp add: ys)
qed (auto dest: in_bounds_length)

text \<open>Slicing dimension \<open>d\<close> from \<open>start\<close> shifts the index in that dimension.\<close>

lemma element_offset_shift:
  assumes "d < length strides" "length idx = length strides"
  shows "element_offset strides (idx[d := idx ! d + k]) = element_offset strides idx + k * strides ! d"
  using assms
proof (induction strides idx arbitrary: d rule: element_offset.induct)
  case (1 s ss i "is")
  then show ?case by (cases d) (auto simp: algebra_simps)
qed auto

lemma in_bounds_slice:
  assumes "in_bounds (dims[d := len]) idx" "d < length dims" "0 \<le> start" "start + len \<le> dims ! d"
  shows "in_bounds dims (idx[d := idx ! d + start])"
  using assms
proof (induction dims arbitrary: idx d)
  case (Cons e ds)
  then obtain i "is" where "idx = i # is" by (cases d; cases idx) auto
  with Cons show ?case by (cases d) auto
qed simp

text \<open>The address of an element of a view whose elements are whole bytes.\<close>

definition element_addr :: "tensor_view \<Rightarrow> int list \<Rightarrow> u64" where
  "element_addr v idx =
     tv_data v + word_of_int (element_offset (tv_strides v) idx) * dtype_size_bytes (tv_dtype v)"

lemma tv_slice_InrD:
  assumes "tv_slice v d start len = Inr v'"
  shows "d < length (tv_shape v)" "0 \<le> start" "0 \<le> len" "start + len \<le> tv_shape v ! d"
    "tv_shape v' = (tv_shape v)[d := len]" "tv_strides v' = tv_strides v" "tv_dtype v' = tv_dtype v"
    "tv_dtype v \<noteq> Int4 \<Longrightarrow> tv_data v' =
       tv_data v + word_of_int (start * tv_strides v ! d) * dtype_size_bytes (tv_dtype v)"
  using assms by (auto simp: tv_slice_def Let_def split: if_splits)


lemma tv_slice_element:
  assumes "tv_slice v d start len = Inr v'" "length (tv_strides v) = length (tv_shape v)"
    "tv_dtype v \<noteq> Int4" "in_bounds (tv_shape v') idx"
  shows "in_bounds (tv_shape v) (idx[d := idx ! d + start])"
    "element_addr v' idx = element_addr v (idx[d := idx ! d + start])"
proof -
  note s = tv_slice_InrD [OF assms(1)]
  from assms(4) s show "in_bounds (tv_shape v) (idx[d := idx ! d + start])"
    by (auto intro!: in_bounds_slice)
  have "length idx = length (tv_strides v)"
    using in_bounds_length [OF assms(4)] s assms(2) by simp
  with s(1) assms(2) have off: "element_offset (tv_strides v) (idx[d := idx ! d + start])
      = element_offset (tv_strides v) idx + start * tv_strides v ! d"
    by (intro element_offset_shift) auto
  from s assms(3) show "element_addr v' idx = element_addr v (idx[d := idx ! d + start])"
    unfolding element_addr_def off by (simp add: algebra_simps)
qed

text \<open>A chain of slices, each taken of the view before.\<close>

fun slice_chain :: "tensor_view \<Rightarrow> (nat \<times> int \<times> int) list \<Rightarrow> tensor_error + tensor_view" where
  "slice_chain v [] = Inr v"
| "slice_chain v ((d, start, len) # cs) =
     (case tv_slice v d start len of Inl e \<Rightarrow> Inl e | Inr v' \<Rightarrow> slice_chain v' cs)"

lemma slice_chain_element:
  assumes "slice_chain v cs = Inr v'" "length (tv_strides v) = length (tv_shape v)"
    "tv_dtype v \<noteq> Int4" "in_bounds (tv_shape v') idx"
  shows "tv_dtype v' = tv_dtype v \<and>
    (\<exists>idx0. in_bounds (tv_shape v) idx0 \<and> element_addr v' idx = element_addr v idx0)"
  using assms
proof (induction v cs rule: slice_chain.induct)
  case (1 v)
  then show ?case by auto
next
  case (2 v d start len cs)
  then obtain v1 where v1: "tv_slice v d start len = Inr v1" by (auto split: sum.splits)
  note s = tv_slice_InrD [OF v1]
  from 2 v1 s have "tv_dtype v' = tv_dtype v1 \<and>
      (\<exists>idx0. in_bounds (tv_shape v1) idx0 \<and> element_addr v' idx = element_addr v1 idx0)"
    by simp
  then show ?case using tv_slice_element [OF v1 "2.prems"(2,3)] s by metis
qed

lemma dtype_size_pos: "d \<noteq> Int4 \<Longrightarrow> 0 < unat (dtype_size_bytes d) \<and> unat (dtype_size_bytes d) \<le> 4"
  by (cases d) auto

lemma unat_elements_bytes:
  assumes "0 \<le> k" "nat k * unat s < 2 ^ 64"
  shows "unat (word_of_int k * s :: u64) = nat k * unat s"
proof -
  have "(word_of_int k * s :: u64) = word_of_nat (nat k * unat s)"
    using assms(1) by simp
  then show ?thesis using assms(2) by (simp only: unat_of_nat) simp
qed




end
