(* ===== verification/Arena.thy ===== *)
theory Arena
  imports Tensor
begin

text \<open>
  \<^verbatim>\<open>src/core/arena.cpp\<close>: the bump allocator of device memory. Addresses and sizes are 64-bit
  words. The address that \<^verbatim>\<open>sycl::aligned_alloc_device\<close> returns is a parameter \<open>usm\<close> (0 for a
  null pointer) of the operations that call it. A step relation over allocations and resets
  carries the invariant that blocks handed out since the last reset are disjoint, aligned
  and inside the arena.
\<close>

datatype alloc_error = Bad_alloc | Invalid_argument

record device_arena =
  arena_ctx :: bool
  base_ptr :: u64
  capacity :: u64
  arena_offset :: u64
  peak_offset :: u64
  default_alignment :: u64
  persistent_allocations :: "u64 list"
  persistent_buffer_ptr :: u64
  persistent_buffer_capacity :: u64

text \<open>\<^verbatim>\<open>DeviceContext::allocate_device\<close> of \<^verbatim>\<open>src/core/device.cpp\<close>.\<close>

definition allocate_device :: "(u64 \<Rightarrow> u64 \<Rightarrow> u64) \<Rightarrow> u64 \<Rightarrow> u64 \<Rightarrow> alloc_error + u64" where
  "allocate_device usm bytes alignment =
     (if bytes = 0 then Inr 0
      else let ptr = usm alignment bytes in if ptr = 0 then Inl Bad_alloc else Inr ptr)"

definition DeviceArena ::
    "(u64 \<Rightarrow> u64 \<Rightarrow> u64) \<Rightarrow> bool \<Rightarrow> u64 \<Rightarrow> u64 \<Rightarrow> alloc_error + device_arena" where
  "DeviceArena usm ctx cap align =
     (let a = \<lparr>arena_ctx = ctx, base_ptr = 0, capacity = cap, arena_offset = 0, peak_offset = 0,
               default_alignment = align, persistent_allocations = [],
               persistent_buffer_ptr = 0, persistent_buffer_capacity = 0\<rparr> in
      if \<not> ctx then Inl Invalid_argument
      else if 0 < cap then
        (case allocate_device usm cap align of
           Inl e \<Rightarrow> Inl e
         | Inr p \<Rightarrow> Inr (a\<lparr>base_ptr := p\<rparr>))
      else Inr a)"

definition allocate :: "device_arena \<Rightarrow> u64 \<Rightarrow> u64 \<Rightarrow> (alloc_error + u64) \<times> device_arena" where
  "allocate a bytes alignment =
     (if bytes = 0 then (Inr 0, a)
      else if base_ptr a = 0 then (Inl Bad_alloc, a)
      else
        let align = (if 0 < alignment then alignment else default_alignment a);
            current_addr = base_ptr a + arena_offset a;
            aligned_addr = (current_addr + align - 1) AND NOT (align - 1);
            new_offset = (aligned_addr - base_ptr a) + bytes
        in
        if capacity a < new_offset then (Inl Bad_alloc, a)
        else (Inr aligned_addr, a\<lparr>arena_offset := new_offset,
                                  peak_offset := max (peak_offset a) new_offset\<rparr>))"

definition allocate_tensor ::
    "device_arena \<Rightarrow> tensor_shape \<Rightarrow> data_type \<Rightarrow> u64 \<Rightarrow> (alloc_error + tensor_view) \<times> device_arena" where
  "allocate_tensor a shape d alignment =
     (case allocate a (compute_tensor_bytes (numel shape) d) alignment of
        (Inl e, a') \<Rightarrow> (Inl e, a')
      | (Inr ptr, a') \<Rightarrow> (Inr (TensorView ptr shape d), a'))"

definition allocate_persistent ::
    "(u64 \<Rightarrow> u64 \<Rightarrow> u64) \<Rightarrow> device_arena \<Rightarrow> u64 \<Rightarrow> u64 \<Rightarrow> (alloc_error + u64) \<times> device_arena" where
  "allocate_persistent usm a bytes alignment =
     (if bytes = 0 then (Inr 0, a)
      else if \<not> arena_ctx a then (Inl Invalid_argument, a)
      else
        let align = (if 0 < alignment then alignment else default_alignment a) in
        case allocate_device usm bytes align of
          Inl e \<Rightarrow> (Inl e, a)
        | Inr ptr \<Rightarrow>
            if ptr = 0 then (Inl Bad_alloc, a)
            else (Inr ptr, a\<lparr>persistent_allocations := persistent_allocations a @ [ptr]\<rparr>))"

definition persistent_buffer ::
    "(u64 \<Rightarrow> u64 \<Rightarrow> u64) \<Rightarrow> device_arena \<Rightarrow> u64 \<Rightarrow> u64 \<Rightarrow> (alloc_error + u64) \<times> device_arena" where
  "persistent_buffer usm a bytes alignment =
     (if persistent_buffer_ptr a = 0 then
        if bytes = 0 then (Inl Invalid_argument, a)
        else
          (case allocate_persistent usm a bytes alignment of
             (Inl e, a') \<Rightarrow> (Inl e, a')
           | (Inr ptr, a') \<Rightarrow>
               (Inr ptr, a'\<lparr>persistent_buffer_ptr := ptr, persistent_buffer_capacity := bytes\<rparr>))
      else if 0 < bytes \<and> persistent_buffer_capacity a < bytes then (Inl Invalid_argument, a)
      else (Inr (persistent_buffer_ptr a), a))"

definition arena_reset :: "device_arena \<Rightarrow> device_arena" where
  "arena_reset a = a\<lparr>arena_offset := 0\<rparr>"

definition remaining_bytes :: "device_arena \<Rightarrow> u64" where
  "remaining_bytes a = (if arena_offset a < capacity a then capacity a - arena_offset a else 0)"

text \<open>What the destructor frees: the block and every persistent allocation.\<close>

definition arena_destroy :: "device_arena \<Rightarrow> u64 list" where
  "arena_destroy a =
     (if arena_ctx a then
        (if base_ptr a = 0 then [] else [base_ptr a])
        @ filter (\<lambda>p. p \<noteq> 0) (persistent_allocations a)
      else [])"

text \<open>The move constructor: the new arena and what is left of the old one.\<close>

definition arena_move :: "device_arena \<Rightarrow> device_arena \<times> device_arena" where
  "arena_move other = (other, other\<lparr>arena_ctx := False, base_ptr := 0, capacity := 0,
     arena_offset := 0, peak_offset := 0, persistent_allocations := [],
     persistent_buffer_ptr := 0, persistent_buffer_capacity := 0\<rparr>)"



section \<open>Rounding up with a mask\<close>

lemma and_not_mask_eq: "x AND NOT (mask k) = push_bit k (drop_bit k (x :: 'a::len word))"
  by (rule bit_word_eqI) (auto simp: bit_simps)

lemma unat_and_not_mask: "unat (x AND NOT (mask k)) = unat (x :: 'a::len word) div 2 ^ k * 2 ^ k"
proof -
  have "unat x div 2 ^ k * 2 ^ k \<le> unat x" by simp
  also have "unat x < 2 ^ LENGTH('a)" by (rule unsigned_less)
  finally have "take_bit LENGTH('a) (unat x div 2 ^ k * 2 ^ k) = unat x div 2 ^ k * 2 ^ k"
    by (simp add: take_bit_nat_eq_self)
  moreover have "take_bit LENGTH('a) (unat x) = unat x"
    using unsigned_less [of x] by (simp add: take_bit_nat_eq_self)
  ultimately show ?thesis
    by (simp only: and_not_mask_eq unsigned_push_bit_eq unsigned_drop_bit_eq)
      (simp add: push_bit_eq_mult drop_bit_eq_div)
qed

text \<open>A multiple of \<open>a\<close> is the next one at or above \<open>c\<close>.\<close>

definition round_up :: "nat \<Rightarrow> nat \<Rightarrow> nat" where
  "round_up a c = (c + a - 1) div a * a"

lemma round_up_props:
  assumes "0 < a"
  shows "a dvd round_up a c" "c \<le> round_up a c" "round_up a c < c + a"
proof -
  let ?x = "c + a - 1"
  have x: "?x div a * a + ?x mod a = ?x" "?x mod a < a" using assms by simp_all
  show "a dvd round_up a c" by (simp add: round_up_def)
  show "c \<le> round_up a c" "round_up a c < c + a"
    using x assms unfolding round_up_def by linarith+
qed


definition eff_align :: "device_arena \<Rightarrow> u64 \<Rightarrow> u64" where
  "eff_align a alignment = (if 0 < alignment then alignment else default_alignment a)"

text \<open>
  The requests for which the code's arithmetic does not wrap: a power of two of at most
  \<open>2\<^sup>3\<^sup>2\<close> as alignment, and fewer than \<open>2\<^sup>6\<^sup>2\<close> bytes, in an arena that ends below \<open>2\<^sup>6\<^sup>2\<close>.
\<close>

definition sane_request :: "device_arena \<Rightarrow> u64 \<Rightarrow> u64 \<Rightarrow> bool" where
  "sane_request a bytes alignment \<longleftrightarrow>
     (\<exists>k \<in> {..32}. eff_align a alignment = 2 ^ k) \<and> unat bytes < 2 ^ 62"

definition arena_wf :: "device_arena \<Rightarrow> bool" where
  "arena_wf a \<longleftrightarrow> unat (base_ptr a) + unat (capacity a) < 2 ^ 62 \<and>
     arena_offset a \<le> capacity a \<and> arena_offset a \<le> peak_offset a \<and> peak_offset a \<le> capacity a"

lemma unat_add_small: "unat x + unat y < 2 ^ 64 \<Longrightarrow> unat (x + y :: u64) = unat x + unat y"
  by (subst unat_add_lem [THEN iffD1]) auto

text \<open>What a successful allocation returns.\<close>

lemma allocate_Inr:
  assumes "allocate a bytes alignment = (Inr p, a')" "bytes \<noteq> 0" "sane_request a bytes alignment"
    "arena_wf a"
  shows "unat p = round_up (unat (eff_align a alignment)) (unat (base_ptr a) + unat (arena_offset a))"
    "unat p + unat bytes = unat (base_ptr a) + unat (arena_offset a')"
    "a' = a\<lparr>arena_offset := arena_offset a', peak_offset := max (peak_offset a) (arena_offset a')\<rparr>"
    "arena_offset a' \<le> capacity a"
proof -
  obtain k where k: "k \<le> 32" "eff_align a alignment = 2 ^ k"
    using assms(3) by (auto simp: sane_request_def)
  let ?b = "unat (base_ptr a)" and ?o = "unat (arena_offset a)"
  let ?al = "(base_ptr a + arena_offset a + 2 ^ k - 1) AND NOT (2 ^ k - 1)"
  have bnd: "?b + ?o < 2 ^ 62"
    using assms(4) by (auto simp: arena_wf_def word_le_nat_alt)
  have "(2::nat) ^ k \<le> 2 ^ 32" using k by (intro power_increasing) auto
  then have pk: "(2::nat) ^ k < 2 ^ 62" by (rule le_less_trans) simp
  have mask: "(2 ^ k - 1 :: u64) = mask k" by (simp add: mask_eq_exp_minus_1)
  have umask: "unat (mask k :: u64) = 2 ^ k - 1"
    using k unsigned_take_bit_eq [of k "- 1 :: u64", where 'a = nat]
    by (simp add: unsigned_minus_1_eq_mask take_bit_minus_one_eq_mask take_bit_of_mask min_def)
      (simp add: mask_eq_exp_minus_1)
  have e1: "base_ptr a + arena_offset a + 2 ^ k - 1 = base_ptr a + arena_offset a + mask k"
    by (simp add: mask [symmetric])
  have e2: "unat (base_ptr a + arena_offset a + mask k) = ?b + ?o + 2 ^ k - 1"
    using bnd pk by (simp add: unat_add_small umask)
  have al: "unat ?al = round_up (2 ^ k) (?b + ?o)"
    by (simp only: mask unat_and_not_mask round_up_def e1 e2)
  have ru: "?b + ?o \<le> unat ?al" "unat ?al < ?b + ?o + 2 ^ k"
    using round_up_props [of "2 ^ k" "?b + ?o"] al by auto
  have res: "p = ?al" "arena_offset a' = ?al - base_ptr a + bytes"
    "a' = a\<lparr>arena_offset := arena_offset a', peak_offset := max (peak_offset a) (arena_offset a')\<rparr>"
    "arena_offset a' \<le> capacity a"
    using assms(1,2) k(2) by (auto simp: allocate_def Let_def eff_align_def split: if_splits)
  have "unat (?al - base_ptr a) = unat ?al - ?b"
    using ru by (intro unat_sub) (simp add: word_le_nat_alt)
  moreover have "unat bytes < 2 ^ 62" using assms(3) by (simp add: sane_request_def)
  ultimately have "unat (arena_offset a') = unat ?al - ?b + unat bytes"
    using res(2) ru bnd pk by (simp add: unat_add_small)
  with ru res(1) show "unat p + unat bytes = ?b + unat (arena_offset a')" by simp
  show "unat p = round_up (unat (eff_align a alignment)) (?b + ?o)"
    using al res(1) k(2) pk unat_of_nat [of "2 ^ k", where 'a = 64] by simp
qed (use assms(1,2) in \<open>auto simp: allocate_def Let_def split: if_splits\<close>)



section \<open>Blocks handed out\<close>

text \<open>
  The users of an arena allocate and reset it in some order. The ghost list \<open>live\<close> has the
  blocks (address, bytes, alignment) returned since the last reset, the newest first.
\<close>

datatype arena_op = Alloc u64 u64 | Reset

type_synonym block = "u64 \<times> u64 \<times> u64"

fun arena_exec :: "device_arena \<times> block list \<Rightarrow> arena_op \<Rightarrow> device_arena \<times> block list" where
  "arena_exec (a, live) (Alloc bytes alignment) =
     (case allocate a bytes alignment of
        (Inl e, a') \<Rightarrow> (a', live)
      | (Inr p, a') \<Rightarrow>
          (a', if bytes = 0 then live else (p, bytes, eff_align a alignment) # live))"
| "arena_exec (a, live) Reset = (arena_reset a, [])"

fun sane_op :: "device_arena \<Rightarrow> arena_op \<Rightarrow> bool" where
  "sane_op a (Alloc bytes alignment) = sane_request a bytes alignment"
| "sane_op a Reset = True"

fun block_in :: "device_arena \<Rightarrow> block \<Rightarrow> bool" where
  "block_in a (p, n, al) \<longleftrightarrow> unat al dvd unat p \<and> unat (base_ptr a) \<le> unat p \<and>
     unat p + unat n \<le> unat (base_ptr a) + unat (arena_offset a)"

fun above :: "block \<Rightarrow> block \<Rightarrow> bool" where
  "above (p, n, al) (q, m, al') \<longleftrightarrow> unat q + unat m \<le> unat p"

definition arena_inv :: "device_arena \<times> block list \<Rightarrow> bool" where
  "arena_inv = (\<lambda>(a, live). arena_wf a \<and> list_all (block_in a) live \<and> sorted_wrt above live)"

lemma allocate_frame:
  "allocate a bytes alignment = (r, a') \<Longrightarrow>
     base_ptr a' = base_ptr a \<and> capacity a' = capacity a \<and> default_alignment a' = default_alignment a"
  by (auto simp: allocate_def Let_def split: if_splits)

lemma allocate_fail: "allocate a bytes alignment = (Inl e, a') \<Longrightarrow> a' = a"
  by (auto simp: allocate_def Let_def split: if_splits)

lemma allocate_zero: "allocate a 0 alignment = (Inr 0, a)"
  by (simp add: allocate_def)

lemma block_in_mono:
  "block_in a b \<Longrightarrow> base_ptr a' = base_ptr a \<Longrightarrow> arena_offset a \<le> arena_offset a' \<Longrightarrow> block_in a' b"
  by (cases b) (auto simp: word_le_nat_alt)

lemma arena_inv_alloc:
  assumes "arena_inv (a, live)" "sane_request a bytes alignment" "bytes \<noteq> 0"
    "allocate a bytes alignment = (Inr p, a')"
  shows "arena_inv (a', (p, bytes, eff_align a alignment) # live)"
proof -
  have wf: "arena_wf a" using assms(1) by (simp add: arena_inv_def)
  note r = allocate_Inr [OF assms(4,3,2) wf]
  have f: "base_ptr a' = base_ptr a" "capacity a' = capacity a" using allocate_frame [OF assms(4)] by auto
  obtain k where "eff_align a alignment = 2 ^ k" "k \<le> 32"
    using assms(2) by (auto simp: sane_request_def)
  then have "0 < eff_align a alignment" by (simp add: word_gt_0)
  then have "0 < unat (eff_align a alignment)" by (simp add: word_less_nat_alt)
  note ru = round_up_props [OF this, of "unat (base_ptr a) + unat (arena_offset a)"]
  have le: "arena_offset a \<le> arena_offset a'" using ru r by (simp add: word_le_nat_alt)
  have "block_in a' (p, bytes, eff_align a alignment)" using ru r f by simp
  moreover have "list_all (block_in a') live"
    using assms(1) block_in_mono [OF _ f(1) le] by (auto simp: arena_inv_def list_all_iff)
  moreover have "above (p, bytes, eff_align a alignment) b" if "b \<in> set live" for b
  proof -
    have "block_in a b" using assms(1) that by (auto simp: arena_inv_def list_all_iff)
    then show ?thesis using ru r by (cases b) auto
  qed
  moreover have "arena_wf a'"
    using wf r(4) f arg_cong [OF r(3), of peak_offset] by (simp add: arena_wf_def)
  ultimately show ?thesis using assms(1) by (simp add: arena_inv_def)
qed


lemma arena_inv_exec:
  assumes "arena_inv st" "sane_op (fst st) op"
  shows "arena_inv (arena_exec st op)"
proof (cases op)
  case (Alloc bytes alignment)
  obtain a live where st: "st = (a, live)" by (cases st)
  obtain r a' where alloc: "allocate a bytes alignment = (r, a')" by force
  show ?thesis
  proof (cases r)
    case (Inl e)
    with assms alloc allocate_fail [of a bytes alignment e a'] show ?thesis by (simp add: Alloc st)
  next
    case (Inr p)
    show ?thesis
    proof (cases "bytes = 0")
      case True
      with assms alloc Inr show ?thesis by (simp add: Alloc st allocate_zero)
    next
      case False
      with assms alloc Inr show ?thesis by (simp add: Alloc st arena_inv_alloc)
    qed
  qed
next
  case Reset
  with assms show ?thesis by (cases st) (auto simp: arena_inv_def arena_wf_def arena_reset_def)
qed

lemma sane_op_exec: "sane_op (fst (arena_exec st op')) op = sane_op (fst st) op"
proof -
  have "default_alignment (fst (arena_exec st op')) = default_alignment (fst st)"
  proof (cases st; cases op')
    fix a live bytes alignment assume "st = (a, live)" "op' = Alloc bytes alignment"
    moreover obtain r a' where "allocate a bytes alignment = (r, a')" by force
    ultimately show ?thesis using allocate_frame [of a bytes alignment r a']
      by (auto split: sum.splits)
  qed (auto simp: arena_reset_def)
  then show ?thesis by (cases op) (auto simp: sane_request_def eff_align_def)
qed

lemma arena_inv_run:
  "arena_inv st \<Longrightarrow> list_all (sane_op (fst st)) ops \<Longrightarrow> arena_inv (foldl arena_exec st ops)"
proof (induction ops arbitrary: st)
  case (Cons op ops)
  then show ?case by (simp add: arena_inv_exec sane_op_exec)
qed simp



end
