(* ===== verification/KV_Cache.thy ===== *)
theory KV_Cache
  imports Prelude
begin

text \<open>
  \<^verbatim>\<open>src/core/kv_cache.h/.cpp\<close>: the key/value cache of the full-attention layers and the
  recurrent state of the linear-attention layers. Sizes, lengths and addresses are 64-bit
  words, as in the code; the bytes of the recurrent buffers, which the class itself copies
  and clears, are lists. What \<^verbatim>\<open>sycl::malloc_device\<close> returns is a parameter (0 for null).
  The lemmas give the memory layout, the bound on the sequence length for every sequence of
  operations, and what checkpoint and rollback restore.
\<close>

datatype kv_dtype = FP16 | INT8

record kv_config =
  max_seq_len :: u64
  num_full_layers :: u64
  num_linear_layers :: u64
  num_kv_heads :: u64
  head_dim :: u64
  linear_num_v_heads :: u64
  linear_head_k_dim :: u64
  linear_head_v_dim :: u64
  linear_conv_channels :: u64
  linear_conv_kernel_dim :: u64
  kv_dtype :: kv_dtype
  artifact_quant_scheme :: string

record kv_cache =
  kv_ctx :: bool
  config :: kv_config
  current_seq_len :: u64
  k_caches :: "u64 list"
  v_caches :: "u64 list"
  k_caches_int8 :: "u64 list"
  v_caches_int8 :: "u64 list"
  k_scales :: "u64 list"
  v_scales :: "u64 list"
  k_zero_points :: "u64 list"
  v_zero_points :: "u64 list"
  linear_states :: "u64 list"
  conv_states :: "u64 list"
  raw_kv_storage :: u64
  raw_recurrent_storage :: u64
  raw_recurrent_checkpoint :: u64
  kv_storage_bytes :: u64
  recurrent_storage_bytes :: u64
  has_recurrent_checkpoint :: bool
  recurrent_mem :: bytes
  checkpoint_mem :: bytes

datatype kv_error =
    Quant_scheme_missing
  | Invalid_kv_stride
  | Incorrect_stride
  | Wrong_cache_dtype
  | Layer_out_of_range
  | Rollback_out_of_range
  | Checkpoint_alloc_failed

definition KVCache :: "bool \<Rightarrow> kv_config \<Rightarrow> kv_cache" where
  "KVCache ctx cfg = \<lparr>kv_ctx = ctx, config = cfg, current_seq_len = 0, k_caches = [], v_caches = [],
     k_caches_int8 = [], v_caches_int8 = [], k_scales = [], v_scales = [], k_zero_points = [],
     v_zero_points = [], linear_states = [], conv_states = [], raw_kv_storage = 0,
     raw_recurrent_storage = 0, raw_recurrent_checkpoint = 0, kv_storage_bytes = 0,
     recurrent_storage_bytes = 0, has_recurrent_checkpoint = False,
     recurrent_mem = [], checkpoint_mem = []\<rparr>"

text \<open>\<^verbatim>\<open>KVCache::init\<close>: it throws or returns true.\<close>

definition init :: "kv_config \<Rightarrow> kv_error + bool" where
  "init cfg =
     (if kv_dtype cfg = INT8 then
        if \<not> contains (artifact_quant_scheme cfg) ''INT8-KV'' then Inl Quant_scheme_missing
        else
          let kv_stride = num_kv_heads cfg * head_dim cfg in
          if sint kv_stride \<le> 0 then Inl Invalid_kv_stride
          else
            let int8_token_bytes = kv_stride * 1;
                scale_overhead_bytes = num_kv_heads cfg * 4 * 2
            in
            if int8_token_bytes = 0 \<or> scale_overhead_bytes = 0 then Inl Incorrect_stride
            else Inr True
      else Inr True)"

definition clear :: "kv_cache \<Rightarrow> kv_cache" where
  "clear kv =
     (if \<not> kv_ctx kv then kv
      else
        let kv1 = (if raw_recurrent_storage kv \<noteq> 0 \<and> 0 < recurrent_storage_bytes kv
                   then kv\<lparr>recurrent_mem := replicate (unat (recurrent_storage_bytes kv)) 0\<rparr>
                   else kv)
        in kv1\<lparr>current_seq_len := 0, has_recurrent_checkpoint := False\<rparr>)"

text \<open>
  The pointer-bumping loops of \<^verbatim>\<open>allocate\<close>: each layer takes \<open>sizes\<close> bytes one after the
  other; the result is the list of pointers of each layer.
\<close>

fun bump :: "u64 \<Rightarrow> u64 list \<Rightarrow> u64 list" where
  "bump p [] = []"
| "bump p (n # ns) = p # bump (p + n) ns"

fun layer_ptrs :: "nat \<Rightarrow> u64 \<Rightarrow> u64 list \<Rightarrow> u64 list list" where
  "layer_ptrs 0 p sizes = []"
| "layer_ptrs (Suc n) p sizes = bump p sizes # layer_ptrs n (p + sum_list sizes) sizes"

definition bytes_per_cache :: "kv_config \<Rightarrow> u64" where
  "bytes_per_cache cfg = max_seq_len cfg * num_kv_heads cfg * head_dim cfg
     * (case kv_dtype cfg of INT8 \<Rightarrow> 1 | FP16 \<Rightarrow> 2)"

definition scale_bytes :: "kv_config \<Rightarrow> u64" where
  "scale_bytes cfg = max_seq_len cfg * num_kv_heads cfg * 4"

text \<open>First part of \<^verbatim>\<open>allocate\<close>: the full-attention cache; \<open>False\<close> when the allocation fails.\<close>

definition allocate_kv :: "(u64 \<Rightarrow> u64) \<Rightarrow> kv_cache \<Rightarrow> bool \<times> kv_cache" where
  "allocate_kv malloc kv =
     (let cfg = config kv; n = unat (num_full_layers cfg); b = bytes_per_cache cfg in
      case kv_dtype cfg of
        INT8 \<Rightarrow>
          let s = scale_bytes cfg;
              per_layer_kv_bytes = 2 * b + 4 * s;
              total = num_full_layers cfg * per_layer_kv_bytes;
              p = malloc total;
              kv1 = kv\<lparr>kv_storage_bytes := total, raw_kv_storage := p\<rparr>;
              ps = layer_ptrs n p [b, b, s, s, s, s]
          in
          if p = 0 then (False, kv1)
          else (True, kv1\<lparr>k_caches_int8 := map (\<lambda>l. l ! 0) ps, v_caches_int8 := map (\<lambda>l. l ! 1) ps,
                          k_scales := map (\<lambda>l. l ! 2) ps, v_scales := map (\<lambda>l. l ! 3) ps,
                          k_zero_points := map (\<lambda>l. l ! 4) ps,
                          v_zero_points := map (\<lambda>l. l ! 5) ps\<rparr>)
      | FP16 \<Rightarrow>
          let total = num_full_layers cfg * 2 * b;
              p = malloc total;
              kv1 = kv\<lparr>kv_storage_bytes := total, raw_kv_storage := p\<rparr>;
              ps = layer_ptrs n p [b, b]
          in
          if p = 0 then (False, kv1)
          else (True, kv1\<lparr>k_caches := map (\<lambda>l. l ! 0) ps, v_caches := map (\<lambda>l. l ! 1) ps\<rparr>))"

definition s_bytes_per_layer :: "kv_config \<Rightarrow> u64" where
  "s_bytes_per_layer cfg =
     linear_num_v_heads cfg * linear_head_k_dim cfg * linear_head_v_dim cfg * 4"

definition conv_bytes_per_layer :: "kv_config \<Rightarrow> u64" where
  "conv_bytes_per_layer cfg =
     (if 1 < linear_conv_kernel_dim cfg then linear_conv_kernel_dim cfg - 1 else 0)
     * linear_conv_channels cfg * 4"

text \<open>Second part: the recurrent state; the contents of a new buffer do not matter here.\<close>

definition allocate_recurrent :: "(u64 \<Rightarrow> u64) \<Rightarrow> kv_cache \<Rightarrow> bool \<times> kv_cache" where
  "allocate_recurrent malloc kv =
     (let cfg = config kv;
          s = s_bytes_per_layer cfg;
          c = conv_bytes_per_layer cfg;
          total = num_linear_layers cfg * (s + c);
          kv1 = kv\<lparr>recurrent_storage_bytes := total\<rparr>
      in
      if 0 < total then
        let p = malloc total; kv2 = kv1\<lparr>raw_recurrent_storage := p\<rparr>;
            ps = layer_ptrs (unat (num_linear_layers cfg)) p [s, c]
        in
        if p = 0 then (False, kv2)
        else (True, kv2\<lparr>linear_states := map (\<lambda>l. l ! 0) ps, conv_states := map (\<lambda>l. l ! 1) ps\<rparr>)
      else (True, kv1))"

definition kv_allocate ::
    "(u64 \<Rightarrow> u64) \<Rightarrow> (u64 \<Rightarrow> u64) \<Rightarrow> kv_cache \<Rightarrow> (kv_error + bool) \<times> kv_cache" where
  "kv_allocate kv_malloc rec_malloc kv =
     (if \<not> kv_ctx kv then (Inr False, kv)
      else
        case init (config kv) of
          Inl e \<Rightarrow> (Inl e, kv)
        | Inr _ \<Rightarrow>
            (case allocate_kv kv_malloc kv of
               (False, kv1) \<Rightarrow> (Inr False, kv1)
             | (True, kv1) \<Rightarrow>
                 (case allocate_recurrent rec_malloc kv1 of
                    (False, kv2) \<Rightarrow> (Inr False, kv2)
                  | (True, kv2) \<Rightarrow> (Inr True, clear kv2))))"


section \<open>Accessors\<close>

text \<open>The ten accessors differ in the cache type they need and in the vector they index.\<close>

definition layer_ptr :: "kv_dtype \<Rightarrow> kv_cache \<Rightarrow> u64 list \<Rightarrow> nat \<Rightarrow> kv_error + u64" where
  "layer_ptr need kv v idx =
     (if kv_dtype (config kv) \<noteq> need then Inl Wrong_cache_dtype
      else if length v \<le> idx then Inl Layer_out_of_range
      else Inr (v ! idx))"

definition k_cache :: "kv_cache \<Rightarrow> nat \<Rightarrow> kv_error + u64" where
  "k_cache kv i = layer_ptr FP16 kv (k_caches kv) i"

definition v_cache :: "kv_cache \<Rightarrow> nat \<Rightarrow> kv_error + u64" where
  "v_cache kv i = layer_ptr FP16 kv (v_caches kv) i"

definition k_cache_int8 :: "kv_cache \<Rightarrow> nat \<Rightarrow> kv_error + u64" where
  "k_cache_int8 kv i = layer_ptr INT8 kv (k_caches_int8 kv) i"

definition v_cache_int8 :: "kv_cache \<Rightarrow> nat \<Rightarrow> kv_error + u64" where
  "v_cache_int8 kv i = layer_ptr INT8 kv (v_caches_int8 kv) i"

definition k_scale :: "kv_cache \<Rightarrow> nat \<Rightarrow> kv_error + u64" where
  "k_scale kv i = layer_ptr INT8 kv (k_scales kv) i"

definition v_scale :: "kv_cache \<Rightarrow> nat \<Rightarrow> kv_error + u64" where
  "v_scale kv i = layer_ptr INT8 kv (v_scales kv) i"

definition k_zero_point :: "kv_cache \<Rightarrow> nat \<Rightarrow> kv_error + u64" where
  "k_zero_point kv i = layer_ptr INT8 kv (k_zero_points kv) i"

definition v_zero_point :: "kv_cache \<Rightarrow> nat \<Rightarrow> kv_error + u64" where
  "v_zero_point kv i = layer_ptr INT8 kv (v_zero_points kv) i"

definition linear_state :: "kv_cache \<Rightarrow> nat \<Rightarrow> kv_error + u64" where
  "linear_state kv i =
     (if length (linear_states kv) \<le> i then Inl Layer_out_of_range else Inr (linear_states kv ! i))"

definition conv_state :: "kv_cache \<Rightarrow> nat \<Rightarrow> kv_error + u64" where
  "conv_state kv i =
     (if length (conv_states kv) \<le> i then Inl Layer_out_of_range else Inr (conv_states kv ! i))"


section \<open>Sequence length, checkpoint and rollback\<close>

definition is_int8 :: "kv_cache \<Rightarrow> bool" where
  "is_int8 kv \<longleftrightarrow> kv_dtype (config kv) = INT8"

definition set_seq_len :: "kv_cache \<Rightarrow> u64 \<Rightarrow> kv_cache" where
  "set_seq_len kv len = kv\<lparr>current_seq_len := min len (max_seq_len (config kv))\<rparr>"

definition advance :: "kv_cache \<Rightarrow> u64 \<Rightarrow> bool \<times> kv_cache" where
  "advance kv delta =
     (if max_seq_len (config kv) < current_seq_len kv + delta
      then (False, kv\<lparr>current_seq_len := max_seq_len (config kv)\<rparr>)
      else (True, kv\<lparr>current_seq_len := current_seq_len kv + delta\<rparr>))"

definition can_advance :: "kv_cache \<Rightarrow> u64 \<Rightarrow> bool" where
  "can_advance kv delta \<longleftrightarrow> current_seq_len kv + delta \<le> max_seq_len (config kv)"

definition total_allocated_bytes :: "kv_cache \<Rightarrow> u64" where
  "total_allocated_bytes kv = kv_storage_bytes kv + recurrent_storage_bytes kv"

definition checkpoint_recurrent_state :: "(u64 \<Rightarrow> u64) \<Rightarrow> kv_cache \<Rightarrow> kv_error + kv_cache" where
  "checkpoint_recurrent_state malloc kv =
     (if \<not> kv_ctx kv \<or> raw_recurrent_storage kv = 0 \<or> recurrent_storage_bytes kv = 0 then Inr kv
      else
        let kv1 = (if raw_recurrent_checkpoint kv = 0
                   then kv\<lparr>raw_recurrent_checkpoint := malloc (recurrent_storage_bytes kv)\<rparr> else kv)
        in
        if raw_recurrent_checkpoint kv1 = 0 then Inl Checkpoint_alloc_failed
        else Inr (kv1\<lparr>checkpoint_mem := recurrent_mem kv1, has_recurrent_checkpoint := True\<rparr>))"

definition restore_recurrent_state :: "kv_cache \<Rightarrow> kv_cache" where
  "restore_recurrent_state kv =
     (if \<not> kv_ctx kv \<or> raw_recurrent_storage kv = 0 \<or> raw_recurrent_checkpoint kv = 0
         \<or> \<not> has_recurrent_checkpoint kv then kv
      else kv\<lparr>recurrent_mem := checkpoint_mem kv\<rparr>)"

definition rollback :: "kv_cache \<Rightarrow> u64 \<Rightarrow> kv_error + kv_cache" where
  "rollback kv steps =
     (if current_seq_len kv < steps then Inl Rollback_out_of_range
      else
        let kv1 = kv\<lparr>current_seq_len := current_seq_len kv - steps\<rparr> in
        if has_recurrent_checkpoint kv1
        then Inr ((restore_recurrent_state kv1)\<lparr>has_recurrent_checkpoint := False\<rparr>)
        else Inr kv1)"

text \<open>The move constructor: the new cache and what is left of the old one.\<close>

definition kv_move :: "kv_cache \<Rightarrow> kv_cache \<times> kv_cache" where
  "kv_move other = (other, other\<lparr>kv_ctx := False, k_caches := [], v_caches := [],
     k_caches_int8 := [], v_caches_int8 := [], k_scales := [], v_scales := [],
     k_zero_points := [], v_zero_points := [], linear_states := [], conv_states := [],
     raw_kv_storage := 0, raw_recurrent_storage := 0, raw_recurrent_checkpoint := 0,
     has_recurrent_checkpoint := False, current_seq_len := 0,
     recurrent_mem := [], checkpoint_mem := []\<rparr>)"

text \<open>What the destructor frees.\<close>

definition kv_destroy :: "kv_cache \<Rightarrow> u64 list" where
  "kv_destroy kv =
     (if kv_ctx kv then
        filter (\<lambda>p. p \<noteq> 0)
          [raw_kv_storage kv, raw_recurrent_storage kv, raw_recurrent_checkpoint kv]
      else [])"



section \<open>Memory layout\<close>

text \<open>The regions (address, bytes) that the accessors of the layers give out, in order.\<close>

definition kv_regions :: "kv_cache \<Rightarrow> (u64 \<times> u64) list" where
  "kv_regions kv =
     (let b = bytes_per_cache (config kv); s = scale_bytes (config kv) in
      case kv_dtype (config kv) of
        INT8 \<Rightarrow> concat (map (\<lambda>l. [(k_caches_int8 kv ! l, b), (v_caches_int8 kv ! l, b),
          (k_scales kv ! l, s), (v_scales kv ! l, s), (k_zero_points kv ! l, s),
          (v_zero_points kv ! l, s)]) [0..<length (k_caches_int8 kv)])
      | FP16 \<Rightarrow> concat (map (\<lambda>l. [(k_caches kv ! l, b), (v_caches kv ! l, b)])
          [0..<length (k_caches kv)]))"

definition recurrent_regions :: "kv_cache \<Rightarrow> (u64 \<times> u64) list" where
  "recurrent_regions kv =
     concat (map (\<lambda>l. [(linear_states kv ! l, s_bytes_per_layer (config kv)),
       (conv_states kv ! l, conv_bytes_per_layer (config kv))]) [0..<length (linear_states kv)])"

text \<open>Regions that follow each other without gap from \<open>p\<close> to \<open>q\<close>.\<close>

fun tiles :: "u64 \<Rightarrow> (u64 \<times> u64) list \<Rightarrow> u64 \<Rightarrow> bool" where
  "tiles p [] q \<longleftrightarrow> p = q"
| "tiles p ((a, n) # rs) q \<longleftrightarrow> a = p \<and> tiles (p + n) rs q"

fun before :: "u64 \<times> u64 \<Rightarrow> u64 \<times> u64 \<Rightarrow> bool" where
  "before (a, n) (b, m) \<longleftrightarrow> unat a + unat n \<le> unat b"

definition region_bytes :: "(u64 \<times> u64) list \<Rightarrow> nat" where
  "region_bytes rs = sum_list (map (unat \<circ> snd) rs)"

lemma tiles_append: "tiles p (xs @ ys) q \<longleftrightarrow> (\<exists>r. tiles p xs r \<and> tiles r ys q)"
  by (induction p xs q rule: tiles.induct) auto

lemma tiles_zip_bump: "tiles p (zip (bump p ns) ns) (p + sum_list ns)"
  by (induction p ns rule: bump.induct) (auto simp: add.assoc)

lemma length_bump [simp]: "length (bump p ns) = length ns"
  by (induction p ns rule: bump.induct) auto

lemma length_layer_ptrs [simp]: "length (layer_ptrs n p sizes) = n"
  by (induction n p sizes rule: layer_ptrs.induct) auto

lemma layer_ptrs_length: "ps \<in> set (layer_ptrs n p sizes) \<Longrightarrow> length ps = length sizes"
  by (induction n p sizes rule: layer_ptrs.induct) auto

lemma tiles_layer_ptrs:
  "tiles p (concat (map (\<lambda>ps. zip ps sizes) (layer_ptrs n p sizes))) (p + of_nat n * sum_list sizes)"
proof (induction n arbitrary: p)
  case 0
  then show ?case by simp
next
  case (Suc n)
  have "p + of_nat (Suc n) * sum_list sizes = p + sum_list sizes + of_nat n * sum_list sizes"
    by (simp add: algebra_simps)
  then show ?case
    using Suc [of "p + sum_list sizes"] tiles_zip_bump [of p sizes]
    by (simp only: layer_ptrs.simps list.map concat.simps tiles_append) blast
qed

lemma concat_map_upt:
  "(\<And>i. i < length xs \<Longrightarrow> f i = g (xs ! i)) \<Longrightarrow>
     concat (map f [0..<length xs]) = concat (map g xs)"
  by (metis (no_types, lifting) atLeastLessThan_iff map_cong map_map map_nth o_def set_upt)

text \<open>Tiles that do not wrap around are ordered, hence disjoint, and stay in the interval.\<close>

lemma tiles_before:
  assumes "tiles p rs q" "unat p + region_bytes rs < 2 ^ 64"
  shows "sorted_wrt before rs \<and> unat q = unat p + region_bytes rs
    \<and> list_all (\<lambda>(a, n). unat p \<le> unat a \<and> unat a + unat n \<le> unat q) rs"
  using assms
proof (induction p rs q rule: tiles.induct)
  case (1 p q)
  then show ?case by (simp add: region_bytes_def)
next
  case (2 p a n rs q)
  have sum: "region_bytes ((a, n) # rs) = unat n + region_bytes rs" by (simp add: region_bytes_def)
  have next_p: "unat (p + n) = unat p + unat n"
    using "2.prems" sum by (subst unat_add_lem [THEN iffD1]) auto
  have IH: "sorted_wrt before rs \<and> unat q = unat (p + n) + region_bytes rs
      \<and> list_all (\<lambda>(a, m). unat (p + n) \<le> unat a \<and> unat a + unat m \<le> unat q) rs"
    using "2.prems" sum next_p by (intro "2.IH") auto
  then have "before (a, n) r" if "r \<in> set rs" for r
    using that next_p "2.prems"(1) by (cases r) (auto simp: list_all_iff)
  moreover have "unat p \<le> unat b \<and> unat b + unat m \<le> unat q" if "(b, m) \<in> set rs" for b m
    using IH next_p that by (force simp: list_all_iff)
  ultimately show ?case using IH next_p sum "2.prems"(1) by (auto simp: list_all_iff)
qed


lemma regions_of_layers_2:
  fixes xss :: "u64 list list"
  assumes "n = length xss" "\<And>ps. ps \<in> set xss \<Longrightarrow> length ps = 2"
  shows "concat (map (\<lambda>l. [(map (\<lambda>x. x ! 0) xss ! l, a0), (map (\<lambda>x. x ! Suc 0) xss ! l, a1)]) [0..<n])
    = concat (map (\<lambda>ps. zip ps [a0, a1]) xss)"
proof -
  have z: "zip ps [a0, a1] = [(ps ! 0, a0), (ps ! Suc 0, a1)]" if "length ps = 2" for ps :: "u64 list"
    using that by (auto simp: length_Suc_conv numeral_eq_Suc)
  show ?thesis
    unfolding assms(1) by (intro concat_map_upt) (simp only: nth_map z [OF assms(2) [OF nth_mem]])
qed

lemma regions_of_layers_6:
  fixes xss :: "u64 list list"
  assumes "n = length xss" "\<And>ps. ps \<in> set xss \<Longrightarrow> length ps = 6"
  shows "concat (map (\<lambda>l. [(map (\<lambda>x. x ! 0) xss ! l, a0), (map (\<lambda>x. x ! Suc 0) xss ! l, a1),
      (map (\<lambda>x. x ! 2) xss ! l, a2), (map (\<lambda>x. x ! 3) xss ! l, a3),
      (map (\<lambda>x. x ! 4) xss ! l, a4), (map (\<lambda>x. x ! 5) xss ! l, a5)]) [0..<n])
    = concat (map (\<lambda>ps. zip ps [a0, a1, a2, a3, a4, a5]) xss)"
proof -
  have z: "zip ps [a0, a1, a2, a3, a4, a5] = [(ps ! 0, a0), (ps ! Suc 0, a1), (ps ! 2, a2), (ps ! 3, a3),
      (ps ! 4, a4), (ps ! 5, a5)]" if "length ps = 6" for ps :: "u64 list"
    using that by (auto simp: length_Suc_conv numeral_eq_Suc)
  show ?thesis
    unfolding assms(1) by (intro concat_map_upt) (simp only: nth_map z [OF assms(2) [OF nth_mem]])
qed

lemma allocate_kv_layout:
  assumes "allocate_kv malloc kv = (True, kv')"
  obtains sizes where
    "kv_regions kv' = concat (map (\<lambda>ps. zip ps sizes)
       (layer_ptrs (unat (num_full_layers (config kv))) (raw_kv_storage kv') sizes))"
    "kv_storage_bytes kv' = num_full_layers (config kv) * sum_list sizes" "config kv' = config kv"
proof (cases "kv_dtype (config kv)")
  case INT8
  show ?thesis
    by (rule that [of "let b = bytes_per_cache (config kv); s = scale_bytes (config kv)
        in [b, b, s, s, s, s]"])
      (use assms INT8 in \<open>auto simp: allocate_kv_def Let_def kv_regions_def layer_ptrs_length
        split: if_splits intro!: regions_of_layers_6\<close>)
next
  case FP16
  show ?thesis
    by (rule that [of "let b = bytes_per_cache (config kv) in [b, b]"])
      (use assms FP16 in \<open>auto simp: allocate_kv_def Let_def kv_regions_def layer_ptrs_length
        split: if_splits intro!: regions_of_layers_2\<close>)
qed

lemma allocate_recurrent_layout:
  assumes "allocate_recurrent malloc kv = (True, kv')" "linear_states kv = []"
  shows "tiles (raw_recurrent_storage kv') (recurrent_regions kv')
      (raw_recurrent_storage kv' + recurrent_storage_bytes kv')"
proof (cases "0 < recurrent_storage_bytes kv'")
  case True
  let ?cfg = "config kv"
  let ?sizes = "[s_bytes_per_layer ?cfg, conv_bytes_per_layer ?cfg]"
  have "recurrent_regions kv' = concat (map (\<lambda>ps. zip ps ?sizes)
      (layer_ptrs (unat (num_linear_layers ?cfg)) (raw_recurrent_storage kv') ?sizes))"
    using assms True
    by (auto simp: allocate_recurrent_def Let_def recurrent_regions_def layer_ptrs_length
        split: if_splits intro!: regions_of_layers_2)
  moreover have "recurrent_storage_bytes kv' = num_linear_layers ?cfg * sum_list ?sizes"
    using assms by (auto simp: allocate_recurrent_def Let_def split: if_splits)
  ultimately show ?thesis
    using tiles_layer_ptrs [of "raw_recurrent_storage kv'" ?sizes "unat (num_linear_layers ?cfg)"]
    by simp
next
  case False
  then have "recurrent_storage_bytes kv' = 0" by (simp add: word_gt_0)
  with assms show ?thesis
    by (auto simp: allocate_recurrent_def Let_def recurrent_regions_def word_gt_0 split: if_splits)
qed


text \<open>
  C4. Memory layout of the cache: after a successful \<^verbatim>\<open>allocate\<close>, the key, value, scale and
  zero-point regions of all full-attention layers tile the storage block exactly, in order,
  and so do the recurrent and convolution states of the linear layers in theirs. If the
  blocks do not wrap around the address space, no two regions overlap and all lie inside
  their block.
\<close>

theorem kv_layout_disjoint:
  assumes "kv_allocate kv_malloc rec_malloc (KVCache True cfg) = (Inr True, kv)"
    "unat (raw_kv_storage kv) + region_bytes (kv_regions kv) < 2 ^ 64"
    "unat (raw_recurrent_storage kv) + region_bytes (recurrent_regions kv) < 2 ^ 64"
  shows "tiles (raw_kv_storage kv) (kv_regions kv) (raw_kv_storage kv + kv_storage_bytes kv)
    \<and> tiles (raw_recurrent_storage kv) (recurrent_regions kv)
        (raw_recurrent_storage kv + recurrent_storage_bytes kv)
    \<and> sorted_wrt before (kv_regions kv) \<and> sorted_wrt before (recurrent_regions kv)
    \<and> list_all (\<lambda>(a, n). unat (raw_kv_storage kv) \<le> unat a
        \<and> unat a + unat n \<le> unat (raw_kv_storage kv + kv_storage_bytes kv)) (kv_regions kv)
    \<and> list_all (\<lambda>(a, n). unat (raw_recurrent_storage kv) \<le> unat a
        \<and> unat a + unat n \<le> unat (raw_recurrent_storage kv + recurrent_storage_bytes kv))
        (recurrent_regions kv)"
proof -
  from assms(1) obtain kv1 kv2 where kv1: "allocate_kv kv_malloc (KVCache True cfg) = (True, kv1)"
    and kv2: "allocate_recurrent rec_malloc kv1 = (True, kv2)" and kv: "kv = clear kv2"
    by (auto simp: kv_allocate_def split: if_splits sum.splits prod.splits bool.splits)
  from kv1 obtain sizes where sizes: "kv_regions kv1 = concat (map (\<lambda>ps. zip ps sizes)
       (layer_ptrs (unat (num_full_layers cfg)) (raw_kv_storage kv1) sizes))"
    "kv_storage_bytes kv1 = num_full_layers cfg * sum_list sizes"
    by (rule allocate_kv_layout) (simp_all add: KVCache_def)
  have "linear_states kv1 = []"
    using kv1 by (auto simp: allocate_kv_def KVCache_def Let_def split: kv_dtype.splits if_splits)
  with kv2 have rec: "tiles (raw_recurrent_storage kv2) (recurrent_regions kv2)
      (raw_recurrent_storage kv2 + recurrent_storage_bytes kv2)"
    by (rule allocate_recurrent_layout)
  have same: "kv_regions kv = kv_regions kv1" "raw_kv_storage kv = raw_kv_storage kv1"
    "kv_storage_bytes kv = kv_storage_bytes kv1" "recurrent_regions kv = recurrent_regions kv2"
    "raw_recurrent_storage kv = raw_recurrent_storage kv2"
    "recurrent_storage_bytes kv = recurrent_storage_bytes kv2"
    using kv2 by (auto simp: kv clear_def allocate_recurrent_def kv_regions_def
        recurrent_regions_def Let_def split: if_splits kv_dtype.splits)
  have tiles: "tiles (raw_kv_storage kv) (kv_regions kv) (raw_kv_storage kv + kv_storage_bytes kv)"
    using tiles_layer_ptrs [of "raw_kv_storage kv1" sizes "unat (num_full_layers cfg)"] sizes same
    by simp
  from rec same have rtiles: "tiles (raw_recurrent_storage kv) (recurrent_regions kv)
      (raw_recurrent_storage kv + recurrent_storage_bytes kv)" by simp
  show ?thesis
    using tiles rtiles tiles_before [OF tiles assms(2)] tiles_before [OF rtiles assms(3)] by blast
qed

abbreviation sample_config :: kv_config where
  "sample_config \<equiv> \<lparr>max_seq_len = 4, num_full_layers = 2, num_linear_layers = 1, num_kv_heads = 2,
     head_dim = 2, linear_num_v_heads = 1, linear_head_k_dim = 2, linear_head_v_dim = 2,
     linear_conv_channels = 3, linear_conv_kernel_dim = 2, kv_dtype = INT8,
     artifact_quant_scheme = ''INT4+INT8-KV''\<rparr>"

theorem kv_layout_disjoint_witness:
  "let kv = snd (kv_allocate (\<lambda>_. 0x1000) (\<lambda>_. 0x8000) (KVCache True sample_config))
   in sorted_wrt before (kv_regions kv) \<and> sorted_wrt before (recurrent_regions kv)"
proof -
  let ?kv = "snd (kv_allocate (\<lambda>_. 0x1000) (\<lambda>_. 0x8000) (KVCache True sample_config))"
  have run: "kv_allocate (\<lambda>_. 0x1000) (\<lambda>_. 0x8000) (KVCache True sample_config) = (Inr True, ?kv)"
    by code_simp
  have kv: "raw_kv_storage ?kv = 0x1000" "map snd (kv_regions ?kv) = [16, 16, 32, 32, 32, 32, 16, 16, 32, 32, 32, 32]"
    by code_simp+
  have rec: "raw_recurrent_storage ?kv = 0x8000" "map snd (recurrent_regions ?kv) = [16, 12]"
    by code_simp+
  have "region_bytes (kv_regions ?kv) = 320" "region_bytes (recurrent_regions ?kv) = 28"
    unfolding region_bytes_def map_map [symmetric] kv(2) rec(2) by simp_all
  with kv(1) rec(1) show ?thesis
    using kv_layout_disjoint [of "\<lambda>_. 0x1000" "\<lambda>_. 0x8000" sample_config ?kv, OF run] by simp
qed



section \<open>Sequences of operations\<close>

text \<open>
  What can happen to an allocated cache, in any order: its own operations, and kernels that
  overwrite the recurrent state in place (\<open>kernel\<close>).
\<close>

inductive kv_step :: "kv_cache \<Rightarrow> kv_cache \<Rightarrow> bool" where
  set_len: "kv_step kv (set_seq_len kv n)"
| adv: "advance kv d = (ok, kv') \<Longrightarrow> kv_step kv kv'"
| roll: "rollback kv n = Inr kv' \<Longrightarrow> kv_step kv kv'"
| clear: "kv_step kv (clear kv)"
| checkpoint: "checkpoint_recurrent_state malloc kv = Inr kv' \<Longrightarrow> kv_step kv kv'"
| restore: "kv_step kv (restore_recurrent_state kv)"
| kernel: "length x = length (recurrent_mem kv) \<Longrightarrow> kv_step kv (kv\<lparr>recurrent_mem := x\<rparr>)"

inductive_cases kv_stepE: "kv_step kv kv'"

definition kv_inv :: "kv_cache \<Rightarrow> bool" where
  "kv_inv kv \<longleftrightarrow> current_seq_len kv \<le> max_seq_len (config kv)
     \<and> length (recurrent_mem kv) = unat (recurrent_storage_bytes kv)
     \<and> (has_recurrent_checkpoint kv \<longrightarrow>
          raw_recurrent_checkpoint kv \<noteq> 0 \<and>
          length (checkpoint_mem kv) = unat (recurrent_storage_bytes kv))"

definition kv_frame :: "kv_cache \<Rightarrow> kv_config \<times> u64 \<times> u64 \<times> (u64 \<times> u64) list \<times> (u64 \<times> u64) list" where
  "kv_frame kv = (config kv, kv_storage_bytes kv, recurrent_storage_bytes kv, kv_regions kv,
     recurrent_regions kv)"

lemmas kv_op_defs = set_seq_len_def advance_def rollback_def clear_def
  checkpoint_recurrent_state_def restore_recurrent_state_def Let_def

lemma rollback_le: "steps \<le> (n :: u64) \<Longrightarrow> n \<le> m \<Longrightarrow> n - steps \<le> m"
  by (simp add: word_le_nat_alt unat_sub)

lemma kv_step_inv: "kv_step kv kv' \<Longrightarrow> kv_inv kv \<Longrightarrow> kv_inv kv'"
  by (erule kv_stepE)
    (auto simp: kv_inv_def kv_op_defs not_less rollback_le split: if_splits)

lemma kv_step_frame: "kv_step kv kv' \<Longrightarrow> kv_frame kv' = kv_frame kv"
  by (erule kv_stepE)
    (auto simp: kv_frame_def kv_regions_def recurrent_regions_def kv_op_defs
      split: if_splits kv_dtype.splits)

lemma kv_reachable_inv:
  "kv_step\<^sup>*\<^sup>* kv kv' \<Longrightarrow> kv_inv kv \<Longrightarrow> kv_inv kv' \<and> kv_frame kv' = kv_frame kv"
  by (induction rule: rtranclp_induct) (auto simp: kv_step_inv kv_step_frame)

lemma kv_allocate_inv:
  assumes "kv_allocate m1 m2 (KVCache True cfg) = (Inr True, kv)"
  shows "kv_inv kv" "config kv = cfg"
proof -
  from assms obtain kv1 kv2 where kv1: "allocate_kv m1 (KVCache True cfg) = (True, kv1)"
    and kv2: "allocate_recurrent m2 kv1 = (True, kv2)" and kv: "kv = clear kv2"
    by (auto simp: kv_allocate_def split: if_splits sum.splits prod.splits bool.splits)
  have "kv_ctx kv1 \<and> recurrent_mem kv1 = [] \<and> config kv1 = cfg"
    using kv1 by (auto simp: allocate_kv_def KVCache_def Let_def split: kv_dtype.splits if_splits)
  with kv2 have k2: "kv_ctx kv2" "recurrent_mem kv2 = []" "config kv2 = cfg"
    "raw_recurrent_storage kv2 \<noteq> 0 \<or> recurrent_storage_bytes kv2 = 0"
    by (auto simp: allocate_recurrent_def Let_def word_gt_0 split: if_splits)
  then show "kv_inv kv" by (auto simp: kv kv_inv_def clear_def Let_def word_gt_0)
  show "config kv = cfg" using k2 by (simp add: kv clear_def Let_def)
qed

text \<open>
  C3. The cache never runs past its capacity: after a successful \<^verbatim>\<open>allocate\<close>, whatever
  sequence of \<^verbatim>\<open>set_seq_len\<close>, \<^verbatim>\<open>advance\<close>, \<^verbatim>\<open>rollback\<close>, \<^verbatim>\<open>clear\<close>, checkpoint, restore and kernel
  writes follows (with any 64-bit arguments, also ones that overflow the addition in
  \<^verbatim>\<open>advance\<close>), the sequence length is at most \<^verbatim>\<open>max_seq_len\<close>, a checkpoint that is marked
  valid has a buffer of the full size, and no layer's memory region ever moves.
\<close>

theorem kv_cache_bounded:
  assumes "kv_allocate m1 m2 (KVCache True cfg) = (Inr True, kv)" "kv_step\<^sup>*\<^sup>* kv kv'"
  shows "current_seq_len kv' \<le> max_seq_len cfg \<and> kv_inv kv' \<and> kv_frame kv' = kv_frame kv"
  using kv_reachable_inv [OF assms(2)] kv_allocate_inv [OF assms(1)]
  by (auto simp: kv_inv_def kv_frame_def)

theorem kv_cache_bounded_witness:
  "\<exists>kv. kv_allocate (\<lambda>_. 0x1000) (\<lambda>_. 0x8000) (KVCache True sample_config) = (Inr True, kv)
     \<and> current_seq_len (snd (advance (set_seq_len kv 3) 5)) \<le> 4"
proof -
  let ?kv = "snd (kv_allocate (\<lambda>_. 0x1000) (\<lambda>_. 0x8000) (KVCache True sample_config))"
  have run: "kv_allocate (\<lambda>_. 0x1000) (\<lambda>_. 0x8000) (KVCache True sample_config) = (Inr True, ?kv)"
    by code_simp
  have "kv_step (set_seq_len ?kv 3) (snd (advance (set_seq_len ?kv 3) 5))"
    by (rule kv_step.adv, rule prod.collapse [symmetric])
  with kv_step.set_len [of ?kv 3] have "kv_step\<^sup>*\<^sup>* ?kv (snd (advance (set_seq_len ?kv 3) 5))"
    by (rule rtranclp.rtrancl_into_rtrancl [OF r_into_rtranclp])
  from kv_cache_bounded [OF run this] run show ?thesis by auto
qed


section \<open>Speculation rounds\<close>

text \<open>
  The interface that speculative decoding relies on: a length, a recurrent state, a saved
  copy of it, a checkpoint, forward steps that may change length and state, and a rollback.
\<close>

locale speculative_store =
  fixes len :: "'s \<Rightarrow> u64"
    and recur :: "'s \<Rightarrow> 'r"
    and saved :: "'s \<Rightarrow> 'r option"
    and ready :: "'s \<Rightarrow> bool"
    and ckpt :: "'s \<Rightarrow> 's \<Rightarrow> bool"
    and fwd :: "'s \<Rightarrow> 's \<Rightarrow> bool"
    and undo :: "u64 \<Rightarrow> 's \<Rightarrow> 's \<Rightarrow> bool"
  assumes ckpt_saves: "ready s \<Longrightarrow> ckpt s s' \<Longrightarrow>
      ready s' \<and> len s' = len s \<and> recur s' = recur s \<and> saved s' = Some (recur s)"
    and fwd_keeps: "ready s \<Longrightarrow> fwd s s' \<Longrightarrow> ready s' \<and> saved s' = saved s"
    and undo_restores: "ready s \<Longrightarrow> undo n s s' \<Longrightarrow>
      n \<le> len s \<and> len s' = len s - n \<and> saved s' = None
      \<and> recur s' = (case saved s of None \<Rightarrow> recur s | Some x \<Rightarrow> x)"
begin

lemma fwds_keep: "fwd\<^sup>*\<^sup>* s s' \<Longrightarrow> ready s \<Longrightarrow> ready s' \<and> saved s' = saved s"
  by (induction rule: rtranclp_induct) (auto dest: fwd_keeps)

lemma round:
  assumes "ready s" "ckpt s s1" "fwd\<^sup>*\<^sup>* s1 s2" "undo n s2 s3"
  shows "recur s3 = recur s \<and> len s3 = len s2 - n \<and> n \<le> len s2 \<and> saved s3 = None"
  using ckpt_saves [OF assms(1,2)] fwds_keep [OF assms(3)] undo_restores [OF _ assms(4)] by simp

end

definition kv_ready :: "kv_cache \<Rightarrow> bool" where
  "kv_ready kv \<longleftrightarrow> kv_ctx kv \<and> raw_recurrent_storage kv \<noteq> 0 \<and> recurrent_storage_bytes kv \<noteq> 0
     \<and> (has_recurrent_checkpoint kv \<longrightarrow> raw_recurrent_checkpoint kv \<noteq> 0)"

definition kv_saved :: "kv_cache \<Rightarrow> bytes option" where
  "kv_saved kv = (if has_recurrent_checkpoint kv then Some (checkpoint_mem kv) else None)"

definition kv_ckpt :: "kv_cache \<Rightarrow> kv_cache \<Rightarrow> bool" where
  "kv_ckpt kv kv' \<longleftrightarrow> (\<exists>malloc. checkpoint_recurrent_state malloc kv = Inr kv')"

definition kv_fwd :: "kv_cache \<Rightarrow> kv_cache \<Rightarrow> bool" where
  "kv_fwd kv kv' \<longleftrightarrow> (\<exists>x. kv' = kv\<lparr>recurrent_mem := x\<rparr>) \<or> (\<exists>d ok. advance kv d = (ok, kv'))
     \<or> (\<exists>n. kv' = set_seq_len kv n)"

interpretation kv_spec: speculative_store current_seq_len recurrent_mem kv_saved kv_ready kv_ckpt
    kv_fwd "\<lambda>n kv kv'. rollback kv n = Inr kv'"
  by unfold_locales
    (auto simp: kv_ready_def kv_saved_def kv_ckpt_def kv_fwd_def kv_op_defs not_less split: if_splits)

text \<open>
  C5. What a speculation round restores: after a checkpoint, any forward work and a
  rollback of \<open>n\<close> tokens, the recurrent state is exactly the one of the checkpoint, the
  length is the reached one minus \<open>n\<close>, and the checkpoint is used up. So rejecting every
  drafted token returns to the state before the round; rejecting only some of them leaves
  a length beyond the tokens that the recurrent state has seen.
\<close>

theorem kv_speculation_round:
  assumes "kv_ready kv" "checkpoint_recurrent_state malloc kv = Inr kv1" "kv_fwd\<^sup>*\<^sup>* kv1 kv2"
    "rollback kv2 n = Inr kv3"
  shows "recurrent_mem kv3 = recurrent_mem kv
    \<and> current_seq_len kv3 = current_seq_len kv2 - n \<and> n \<le> current_seq_len kv2
    \<and> \<not> has_recurrent_checkpoint kv3"
proof -
  have "kv_ckpt kv kv1" using assms(2) by (auto simp: kv_ckpt_def)
  from kv_spec.round [OF assms(1) this assms(3,4)] show ?thesis
    by (simp add: kv_saved_def split: if_splits)
qed

theorem kv_speculation_round_witness:
  "let kv = (KVCache True sample_config)\<lparr>raw_recurrent_storage := 0x8000,
       recurrent_storage_bytes := 2, recurrent_mem := [1, 2], current_seq_len := 1\<rparr>;
     kv1 = kv\<lparr>raw_recurrent_checkpoint := 0x9000, checkpoint_mem := [1, 2],
       has_recurrent_checkpoint := True\<rparr>;
     kv2 = kv1\<lparr>recurrent_mem := [7, 7], current_seq_len := 3\<rparr>
   in \<exists>kv3. rollback kv2 1 = Inr kv3 \<and> recurrent_mem kv3 = [1, 2] \<and> current_seq_len kv3 = 2"
proof -
  let ?kv = "(KVCache True sample_config)\<lparr>raw_recurrent_storage := 0x8000,
       recurrent_storage_bytes := 2, recurrent_mem := [1, 2], current_seq_len := 1\<rparr>"
  let ?kv1 = "?kv\<lparr>raw_recurrent_checkpoint := 0x9000, checkpoint_mem := [1, 2],
       has_recurrent_checkpoint := True\<rparr>"
  let ?kv2 = "?kv1\<lparr>recurrent_mem := [7, 7], current_seq_len := 3\<rparr>"
  obtain kv3 where kv3: "rollback ?kv2 1 = Inr kv3" by (simp add: rollback_def KVCache_def Let_def)
  have "kv_fwd ?kv1 (?kv1\<lparr>recurrent_mem := [7, 7]\<rparr>)" by (auto simp: kv_fwd_def)
  moreover have "kv_fwd (?kv1\<lparr>recurrent_mem := [7, 7]\<rparr>) ?kv2"
    by (auto simp: kv_fwd_def set_seq_len_def KVCache_def intro!: exI [of _ 3])
  ultimately have "kv_fwd\<^sup>*\<^sup>* ?kv1 ?kv2" by (rule rtranclp.rtrancl_into_rtrancl [OF r_into_rtranclp])
  moreover have "kv_ready ?kv" by (simp add: kv_ready_def KVCache_def)
  moreover have "checkpoint_recurrent_state (\<lambda>_. 0x9000) ?kv = Inr ?kv1"
    by (simp add: checkpoint_recurrent_state_def KVCache_def)
  ultimately show ?thesis
    using kv_speculation_round [of ?kv "\<lambda>_. 0x9000" ?kv1 ?kv2 1 kv3] kv3 by (simp add: KVCache_def)
qed

end
