(* ===== verification/Command_List.thy ===== *)
theory Command_List
  imports Prelude
begin

text \<open>
  \<^verbatim>\<open>src/core/command_list.cpp\<close>: the recorded command list of Level Zero. The result codes of
  the driver's functions are arguments of the operations (0 is success); the commands that
  the driver's list holds and the submissions made so far are part of the state. The lemmas
  show the record-once, replay-many discipline.
\<close>

datatype command = Memory_copy u64 u64 u64 | Barrier

record command_list =
  is_closed :: bool
  recorded :: "command list"
  submitted :: "command list list"

datatype command_error = Append_to_closed | L0_error u32

type_synonym cl_result = "(command_error + unit) \<times> command_list"

text \<open>The end of \<^verbatim>\<open>init\<close>: an open list without commands.\<close>

definition cl_init :: command_list where
  "cl_init = \<lparr>is_closed = False, recorded = [], submitted = []\<rparr>"

definition append_memory_copy :: "u32 \<Rightarrow> command_list \<Rightarrow> u64 \<Rightarrow> u64 \<Rightarrow> u64 \<Rightarrow> cl_result" where
  "append_memory_copy res cl dst src n =
     (if is_closed cl then (Inl Append_to_closed, cl)
      else if res \<noteq> 0 then (Inl (L0_error res), cl)
      else (Inr (), cl\<lparr>recorded := recorded cl @ [Memory_copy dst src n]\<rparr>))"

definition append_barrier :: "u32 \<Rightarrow> command_list \<Rightarrow> cl_result" where
  "append_barrier res cl =
     (if is_closed cl then (Inl Append_to_closed, cl)
      else if res \<noteq> 0 then (Inl (L0_error res), cl)
      else (Inr (), cl\<lparr>recorded := recorded cl @ [Barrier]\<rparr>))"

definition cl_close :: "u32 \<Rightarrow> command_list \<Rightarrow> cl_result" where
  "cl_close res cl =
     (if \<not> is_closed cl then
        if res \<noteq> 0 then (Inl (L0_error res), cl) else (Inr (), cl\<lparr>is_closed := True\<rparr>)
      else (Inr (), cl))"

definition cl_reset :: "u32 \<Rightarrow> command_list \<Rightarrow> cl_result" where
  "cl_reset res cl =
     (if is_closed cl then
        if res \<noteq> 0 then (Inl (L0_error res), cl)
        else (Inr (), cl\<lparr>is_closed := False, recorded := []\<rparr>)
      else (Inr (), cl))"

definition execute :: "u32 \<Rightarrow> u32 \<Rightarrow> command_list \<Rightarrow> cl_result" where
  "execute close_res exec_res cl =
     (case (if \<not> is_closed cl then cl_close close_res cl else (Inr (), cl)) of
        (Inl e, cl') \<Rightarrow> (Inl e, cl')
      | (Inr _, cl') \<Rightarrow>
          if exec_res \<noteq> 0 then (Inl (L0_error exec_res), cl')
          else (Inr (), cl'\<lparr>submitted := submitted cl' @ [recorded cl']\<rparr>))"

definition cl_synchronize :: "u32 \<Rightarrow> command_list \<Rightarrow> cl_result" where
  "cl_synchronize res cl = (if res \<noteq> 0 then Inl (L0_error res) else Inr (), cl)"


section \<open>Record once, replay many times\<close>

text \<open>
  Steps of a client, whatever the driver answers. \<open>base\<close> is the number of submissions that
  had been made when the list was last reset successfully.
\<close>

inductive cl_step :: "nat \<times> command_list \<Rightarrow> nat \<times> command_list \<Rightarrow> bool" where
  copy: "append_memory_copy res cl d s n = (r, cl') \<Longrightarrow> cl_step (base, cl) (base, cl')"
| barrier: "append_barrier res cl = (r, cl') \<Longrightarrow> cl_step (base, cl) (base, cl')"
| close: "cl_close res cl = (r, cl') \<Longrightarrow> cl_step (base, cl) (base, cl')"
| reset: "cl_reset res cl = (r, cl') \<Longrightarrow>
    cl_step (base, cl) (if is_closed cl \<and> \<not> is_closed cl' then length (submitted cl) else base, cl')"
| exec: "execute res1 res2 cl = (r, cl') \<Longrightarrow> cl_step (base, cl) (base, cl')"
| sync: "cl_synchronize res cl = (r, cl') \<Longrightarrow> cl_step (base, cl) (base, cl')"

inductive_cases cl_stepE: "cl_step (base, cl) (base', cl')"

definition cl_inv :: "nat \<times> command_list \<Rightarrow> bool" where
  "cl_inv = (\<lambda>(base, cl). base \<le> length (submitted cl)
     \<and> (\<forall>b \<in> set (drop base (submitted cl)). b = recorded cl)
     \<and> (base < length (submitted cl) \<longrightarrow> is_closed cl))"

lemmas cl_op_defs = append_memory_copy_def append_barrier_def cl_close_def cl_reset_def
  execute_def cl_synchronize_def

lemma cl_step_inv:
  assumes "cl_step st st'" "cl_inv st"
  shows "cl_inv st'"
proof -
  obtain base cl base' cl' where st: "st = (base, cl)" "st' = (base', cl')" by (cases st; cases st')
  from assms show ?thesis unfolding st
    by (elim cl_stepE) (auto simp: cl_inv_def cl_op_defs split: if_splits prod.splits sum.splits)
qed

text \<open>
  C40. Record once, replay many: whatever sequence of appends, closes, resets, executions
  and synchronisations is made, and whatever result codes the driver returns, all
  submissions since the last reset submitted exactly the commands the list holds now; once
  something was submitted the list stays closed (appending throws) until a reset.
\<close>

theorem command_list_replays:
  assumes "cl_step\<^sup>*\<^sup>* (0, cl_init) (base, cl)"
  shows "base \<le> length (submitted cl)
    \<and> drop base (submitted cl) = replicate (length (submitted cl) - base) (recorded cl)
    \<and> (base = length (submitted cl) \<or>
        append_barrier res cl = (Inl Append_to_closed, cl)
        \<and> append_memory_copy res cl d s n = (Inl Append_to_closed, cl))"
proof -
  have "cl_inv (0, cl_init)" by (simp add: cl_inv_def cl_init_def)
  with assms have inv: "cl_inv (base, cl)"
    by (induction rule: rtranclp_induct) (blast intro: cl_step_inv)+
  then have "drop base (submitted cl) = replicate (length (drop base (submitted cl))) (recorded cl)"
    by (intro replicate_length_same [symmetric]) (auto simp: cl_inv_def)
  with inv show ?thesis
    by (auto simp: cl_inv_def append_barrier_def append_memory_copy_def)
qed

theorem command_list_replays_witness:
  "\<exists>cl. cl_step\<^sup>*\<^sup>* (0, cl_init) (0, cl) \<and> submitted cl = [[Barrier], [Barrier]]
    \<and> append_barrier 0 cl = (Inl Append_to_closed, cl)"
proof -
  let ?c1 = "snd (append_barrier 0 cl_init)"
  let ?c2 = "snd (execute 0 0 ?c1)"
  let ?c3 = "snd (execute 0 0 ?c2)"
  have "cl_step (0, cl_init) (0, ?c1)" by (rule cl_step.barrier [OF prod.collapse [symmetric]])
  moreover have "cl_step (0, ?c1) (0, ?c2)" "cl_step (0, ?c2) (0, ?c3)"
    by (rule cl_step.exec [OF prod.collapse [symmetric]])+
  ultimately have run: "cl_step\<^sup>*\<^sup>* (0, cl_init) (0, ?c3)" by simp
  have "submitted ?c3 = [[Barrier], [Barrier]]"
    by (simp add: cl_init_def append_barrier_def execute_def cl_close_def)
  with run command_list_replays [OF run, of 0 0 0 0] show ?thesis
    by (intro exI [of _ ?c3]) auto
qed

end
