(* ===== verification/Image_Header.thy ===== *)
theory Image_Header
  imports Complex_Main Prelude
begin

text \<open>
  \<^verbatim>\<open>parse_image_dimensions\<close> and \<^verbatim>\<open>validate_image_dimensions\<close> of \<^verbatim>\<open>src/core/device.cpp\<close>. Every
  read of the buffer is bounds-checked in the model: a read outside the buffer is the
  outcome \<open>Over_read\<close>, so that the absence of such reads is a theorem and not an assumption.
\<close>

record image_dimensions =
  width :: int
  height :: int
  channels :: int

definition default_dims :: image_dimensions where
  "default_dims = \<lparr>width = 0, height = 0, channels = 3\<rparr>"

datatype image_result = Parsed image_dimensions | Unrecognized | Empty_buffer | Over_read

definition be32 :: "bytes \<Rightarrow> nat \<Rightarrow> u32" where
  "be32 d i = push_bit 24 (ucast (d ! i)) OR push_bit 16 (ucast (d ! (i + 1)))
     OR push_bit 8 (ucast (d ! (i + 2))) OR ucast (d ! (i + 3))"

definition le32 :: "bytes \<Rightarrow> nat \<Rightarrow> u32" where
  "le32 d i = ucast (d ! i) OR push_bit 8 (ucast (d ! (i + 1)))
     OR push_bit 16 (ucast (d ! (i + 2))) OR push_bit 24 (ucast (d ! (i + 3)))"

definition be16 :: "bytes \<Rightarrow> nat \<Rightarrow> u16" where
  "be16 d i = push_bit 8 (ucast (d ! i)) OR ucast (d ! (i + 1))"

definition PNG_SIGNATURE :: bytes where
  "PNG_SIGNATURE = [0x89, 0x50, 0x4E, 0x47, 0x0D, 0x0A, 0x1A, 0x0A]"

definition parse_png :: "bytes \<Rightarrow> image_dimensions option" where
  "parse_png data =
     (if 24 \<le> length data \<and> take 8 data = PNG_SIGNATURE
         \<and> slice 12 4 data = bytes_of_string ''IHDR''
      then Some \<lparr>width = uint (be32 data 16), height = uint (be32 data 20), channels = 3\<rparr>
      else None)"

text \<open>\<^verbatim>\<open>std::abs\<close> of a 32-bit \<^verbatim>\<open>int\<close>; the absolute value of the least one wraps to itself.\<close>

definition abs32 :: "u32 \<Rightarrow> int" where
  "abs32 w = sint (if sint w < 0 then - w else w)"

definition parse_bmp :: "bytes \<Rightarrow> image_dimensions option" where
  "parse_bmp data =
     (if 26 \<le> length data \<and> take 2 data = bytes_of_string ''BM''
      then Some \<lparr>width = abs32 (le32 data 18), height = abs32 (le32 data 22), channels = 3\<rparr>
      else None)"

definition is_sof :: "u8 \<Rightarrow> bool" where
  "is_sof m \<longleftrightarrow> 0xC0 \<le> m \<and> m \<le> 0xCF \<and> m \<noteq> 0xC4 \<and> m \<noteq> 0xC8 \<and> m \<noteq> 0xCC"

text \<open>
  The marker loop of the JPEG branch. \<open>None\<close> is leaving the loop without dimensions. The
  condition \<^verbatim>\<open>pos + 4 <= size\<close> holds inside, so the reads up to \<open>pos + 3\<close> are in the buffer;
  the read of \<open>data[pos + 9]\<close> under \<^verbatim>\<open>pos + 9 <= size\<close> may not be.
\<close>

function jpeg_loop :: "bytes \<Rightarrow> nat \<Rightarrow> image_result option" where
  "jpeg_loop data pos =
     (if \<not> pos + 4 \<le> length data then None
      else if data ! pos \<noteq> 0xFF then jpeg_loop data (pos + 1)
      else
        let marker = data ! (pos + 1) in
        if marker = 0xD9 \<or> marker = 0xDA then None
        else if marker = 0xD8 \<or> marker = 0x01 \<or> (0xD0 \<le> marker \<and> marker \<le> 0xD7) then
          jpeg_loop data (pos + 2)
        else
          let seg_len = be16 data (pos + 2) in
          if is_sof marker \<and> pos + 9 \<le> length data then
            if length data \<le> pos + 9 then Some Over_read
            else
              let comps = data ! (pos + 9) in
              Some (Parsed \<lparr>width = uint (be16 data (pos + 7)), height = uint (be16 data (pos + 5)),
                            channels = (if 0 < comps then uint comps else 3)\<rparr>)
          else jpeg_loop data (pos + 2 + unat seg_len))"
  by pat_completeness auto
termination
  by (relation "measure (\<lambda>(data, pos). length data - pos)") auto

definition parse_jpeg :: "bytes \<Rightarrow> image_result option" where
  "parse_jpeg data =
     (if 4 \<le> length data \<and> take 2 data = [0xFF, 0xD8] then jpeg_loop data 2 else None)"

text \<open>A null pointer is \<open>None\<close>; \<open>out_dims\<close> is the value the caller left in the out parameter.\<close>

definition parse_image_dimensions :: "bytes option \<Rightarrow> image_dimensions \<Rightarrow> image_result" where
  "parse_image_dimensions data_ptr out_dims =
     (case data_ptr of
        None \<Rightarrow> Empty_buffer
      | Some data \<Rightarrow>
          if data = [] then Empty_buffer
          else
            (case parse_png data of
               Some d \<Rightarrow> Parsed d
             | None \<Rightarrow>
                 (case parse_bmp data of
                    Some d \<Rightarrow> Parsed d
                  | None \<Rightarrow>
                      (case parse_jpeg data of
                         Some r \<Rightarrow> r
                       | None \<Rightarrow>
                           if 0 < width out_dims \<and> 0 < height out_dims then Parsed out_dims
                           else Unrecognized))))"

datatype image_invalid =
    Not_positive
  | Resolution_exceeded int int int
  | Aspect_ratio_exceeded rat

text \<open>
  The aspect ratio is a quotient of \<^verbatim>\<open>float\<close>s; \<open>rnd\<close> is the rounding of a rational to single
  precision, a parameter.
\<close>

definition validate_image_dimensions ::
    "(rat \<Rightarrow> rat) \<Rightarrow> int \<Rightarrow> int \<Rightarrow> int \<Rightarrow> rat \<Rightarrow> image_invalid + unit" where
  "validate_image_dimensions rnd w h max_resolution max_aspect_ratio =
     (if w \<le> 0 \<or> h \<le> 0 then Inl Not_positive
      else if max_resolution < w \<or> max_resolution < h then
        Inl (Resolution_exceeded w h max_resolution)
      else
        let aspect_ratio =
          (if h \<le> w then rnd (rnd (of_int w) / rnd (of_int h))
           else rnd (rnd (of_int h) / rnd (of_int w)))
        in
        if max_aspect_ratio < aspect_ratio then Inl (Aspect_ratio_exceeded aspect_ratio)
        else Inr ())"



section \<open>Where reads may leave the buffer\<close>

declare jpeg_loop.simps [simp del]

lemma jpeg_loop_Over_read_step:
  assumes "jpeg_loop data pos = Some Over_read"
  shows "pos + 4 \<le> length data \<and>
    ((data ! pos = 0xFF \<and> is_sof (data ! (pos + 1)) \<and> pos + 9 = length data) \<or>
     jpeg_loop data (pos + 1) = Some Over_read \<or> jpeg_loop data (pos + 2) = Some Over_read \<or>
     jpeg_loop data (pos + 2 + unat (be16 data (pos + 2))) = Some Over_read)"
  using assms by (subst (asm) jpeg_loop.simps) (auto simp: Let_def split: if_splits)

lemma jpeg_loop_Over_read:
  "jpeg_loop data pos = Some Over_read \<Longrightarrow>
     \<exists>p. pos \<le> p \<and> p + 9 = length data \<and> data ! p = 0xFF \<and> is_sof (data ! (p + 1))"
proof (induction "length data - pos" arbitrary: pos rule: less_induct)
  case less
  have IH: "\<exists>p. pos \<le> p \<and> p + 9 = length data \<and> data ! p = 0xFF \<and> is_sof (data ! (p + 1))"
    if "jpeg_loop data pos' = Some Over_read" "pos < pos'" for pos'
  proof -
    have "pos' + 4 \<le> length data" using jpeg_loop_Over_read_step [OF that(1)] by blast
    with that(2) have "length data - pos' < length data - pos" by linarith
    from less.hyps [OF this that(1)] obtain p where
      "pos' \<le> p" "p + 9 = length data" "data ! p = 0xFF" "is_sof (data ! (p + 1))" by blast
    with that(2) show ?thesis by (intro exI [of _ p]) simp
  qed
  consider "data ! pos = 0xFF \<and> is_sof (data ! (pos + 1)) \<and> pos + 9 = length data"
    | pos' where "jpeg_loop data pos' = Some Over_read" "pos < pos'"
    using jpeg_loop_Over_read_step [OF less.prems]
    by (metis add_less_cancel_left add.right_neutral less_add_one pos2 trans_less_add1)
  then show ?case
  proof cases
    case 1
    then show ?thesis by (intro exI [of _ pos]) simp
  next
    case 2
    then show ?thesis by (rule IH)
  qed
qed

lemma be32_bytes: "be32 (xs @ [ucast (drop_bit 24 w), ucast (drop_bit 16 w), ucast (drop_bit 8 w),
    ucast w] @ ys) (length xs) = (w :: u32)"
  by (rule bit_word_eqI) (auto simp: be32_def nth_append bit_simps; rule ccontr; simp)


text \<open>A PNG file with the given dimensions: signature, length and type of \<^verbatim>\<open>IHDR\<close>, dimensions.\<close>

definition be_bytes32 :: "u32 \<Rightarrow> bytes" where
  "be_bytes32 w = [ucast (drop_bit 24 w), ucast (drop_bit 16 w), ucast (drop_bit 8 w), ucast w]"

definition png_file :: "bytes \<Rightarrow> u32 \<Rightarrow> u32 \<Rightarrow> bytes \<Rightarrow> bytes" where
  "png_file len w h rest =
     PNG_SIGNATURE @ len @ bytes_of_string ''IHDR'' @ be_bytes32 w @ be_bytes32 h @ rest"

lemma parse_png_file:
  assumes "length len = 4"
  shows "parse_png (png_file len w h rest)
    = Some \<lparr>width = uint w, height = uint h, channels = 3\<rparr>"
proof -
  let ?pre = "PNG_SIGNATURE @ len @ bytes_of_string ''IHDR''"
  have l: "length ?pre = 16" using assms by (simp add: PNG_SIGNATURE_def)
  have w: "be32 (png_file len w h rest) 16 = w"
    using be32_bytes [of ?pre w "be_bytes32 h @ rest"] l by (simp add: png_file_def be_bytes32_def)
  have h: "be32 (png_file len w h rest) 20 = h"
    using be32_bytes [of "?pre @ be_bytes32 w" h rest] l by (simp add: png_file_def be_bytes32_def)
  have "take 8 (png_file len w h rest) = PNG_SIGNATURE"
    "slice 12 4 (png_file len w h rest) = bytes_of_string ''IHDR''"
    using assms by (simp_all add: png_file_def PNG_SIGNATURE_def slice_append_right slice_def)
  moreover have "24 \<le> length (png_file len w h rest)"
    using assms by (simp add: png_file_def PNG_SIGNATURE_def be_bytes32_def)
  ultimately show ?thesis by (simp add: parse_png_def w h)
qed

lemma parse_Over_read:
  assumes "parse_image_dimensions (Some data) d0 = Over_read"
  shows "\<exists>p. p + 9 = length data \<and> data ! p = 0xFF \<and> is_sof (data ! (p + 1))"
  using assms jpeg_loop_Over_read [of data 2]
  by (auto simp: parse_image_dimensions_def parse_jpeg_def split: option.splits if_splits)

text \<open>
  Image header parsing: every PNG file (any chunk length bytes, any dimensions, any
  rest) is parsed to exactly its dimensions; and whatever the buffer holds, the parser reads
  outside it only if a JPEG start-of-frame marker is exactly nine bytes from the end.
\<close>

theorem parse_image_dimensions_correct:
  assumes "length len = 4"
  shows "parse_image_dimensions (Some (png_file len w h rest)) d0
      = Parsed \<lparr>width = uint w, height = uint h, channels = 3\<rparr>
    \<and> (parse_image_dimensions (Some data) d0 \<noteq> Over_read \<or>
        (\<exists>p. p + 9 = length data \<and> data ! p = 0xFF \<and> is_sof (data ! (p + 1))))"
  using parse_png_file [OF assms, of w h rest] parse_Over_read [of data d0]
  by (auto simp: parse_image_dimensions_def png_file_def PNG_SIGNATURE_def)

theorem parse_image_dimensions_correct_witness:
  "parse_image_dimensions (Some (png_file [0, 0, 0, 13] 640 480 [8])) default_dims
     = Parsed \<lparr>width = 640, height = 480, channels = 3\<rparr>"
  using parse_image_dimensions_correct [of "[0, 0, 0, 13]" 640 480 "[8]" default_dims "[]"] by simp

text \<open>
  Off-by-one in the JPEG branch: the check \<^verbatim>\<open>pos + 9 <= size\<close> admits reading
  \<^verbatim>\<open>data[pos + 9]\<close> one byte past the end. An 11-byte buffer with a start-of-frame marker does it.
\<close>

theorem jpeg_header_over_read:
  "parse_image_dimensions (Some [0xFF, 0xD8, 0xFF, 0xC0, 0, 8, 8, 0, 16, 0, 16]) default_dims
     = Over_read"
  by code_simp

end
