(* ===== verification/Json_Value.thy ===== *)
theory Json_Value
  imports Complex_Main Metadata
begin

text \<open>
  The JSON DOM and parser of \<^verbatim>\<open>src/serve/protocol.cpp\<close> (\<^verbatim>\<open>JsonValue\<close>, the class \<^verbatim>\<open>Parser\<close>,
  \<^verbatim>\<open>parse_json\<close>). The parser works on the unread suffix of the input; every error message is
  a constructor. A number is the rational value of its \<^verbatim>\<open>double\<close>; the conversion \<^verbatim>\<open>std::stod\<close>
  (with its rounding and range errors) is the parameter \<open>stod\<close>. The mutual recursion of
  values, members and elements takes fuel, and \<open>2 * length + 2\<close> is shown to be enough. The
  printer \<open>render\<close> has the compact syntax that the server emits; parsing inverts it.
\<close>

datatype json =
    JNull
  | JBool bool
  | JNumber rat
  | JString string
  | JArray "json list"
  | JObject "(string \<times> json) list"

datatype json_error =
    Empty_JSON_input
  | Trailing_characters
  | Unexpected_character char
  | Expected_string_key
  | Expected_colon
  | Expected_comma_or_brace
  | Expected_comma_or_bracket
  | Expected_quote
  | EOF_in_escape
  | Invalid_unicode_escape
  | Invalid_hex_digit
  | Invalid_hex_low
  | Invalid_low_surrogate
  | Expected_low_surrogate
  | Unpaired_low_surrogate
  | Code_point_out_of_range
  | Unterminated_string
  | Invalid_number_format
  | Failed_number_conversion string
  | Invalid_boolean
  | Invalid_null
  | Out_of_fuel

type_synonym 'a parse_result = "json_error + 'a \<times> string"


section \<open>Accessors\<close>

definition json_find :: "json \<Rightarrow> string \<Rightarrow> json option" where
  "json_find j key = (case j of JObject kvs \<Rightarrow> map_of kvs key | _ \<Rightarrow> None)"

definition get_string :: "json \<Rightarrow> string \<Rightarrow> string \<Rightarrow> string" where
  "get_string j key def = (case json_find j key of Some (JString s) \<Rightarrow> s | _ \<Rightarrow> def)"

text \<open>\<^verbatim>\<open>static_cast<int64_t>\<close> truncates towards zero.\<close>

definition trunc :: "rat \<Rightarrow> int" where
  "trunc q = (if q < 0 then \<lceil>q\<rceil> else \<lfloor>q\<rfloor>)"

definition get_int :: "json \<Rightarrow> string \<Rightarrow> int \<Rightarrow> int" where
  "get_int j key def = (case json_find j key of Some (JNumber n) \<Rightarrow> trunc n | _ \<Rightarrow> def)"

definition get_double :: "json \<Rightarrow> string \<Rightarrow> rat \<Rightarrow> rat" where
  "get_double j key def = (case json_find j key of Some (JNumber n) \<Rightarrow> n | _ \<Rightarrow> def)"

definition get_bool :: "json \<Rightarrow> string \<Rightarrow> bool \<Rightarrow> bool" where
  "get_bool j key def = (case json_find j key of Some (JBool b) \<Rightarrow> b | _ \<Rightarrow> def)"


section \<open>The parser\<close>

definition is_json_space :: "char \<Rightarrow> bool" where
  "is_json_space c \<longleftrightarrow> c = CHR '' '' \<or> c = CHR 0x09 \<or> c = NEWLINE \<or> c = CHR 0x0D"

definition skip_ws :: "string \<Rightarrow> string" where
  "skip_ws s = dropWhile is_json_space s"

text \<open>\<^verbatim>\<open>consume\<close> skips whitespace first; the suffix after the skip is kept when it fails.\<close>

definition consume_ws :: "char \<Rightarrow> string \<Rightarrow> string option" where
  "consume_ws e s = (let s' = skip_ws s in if peek s' = e then Some (drop 1 s') else None)"

text \<open>The \<^verbatim>\<open>\u\<close> case of \<^verbatim>\<open>parse_string\<close>.\<close>

definition json_unicode_escape :: "string \<Rightarrow> string parse_result" where
  "json_unicode_escape s =
     (if length s < 4 then Inl Invalid_unicode_escape
      else if \<not> list_all isxdigit (take 4 s) then Inl Invalid_hex_digit
      else
        let cp = (word_of_nat (hex_value (take 4 s)) :: u32); s4 = drop 4 s;
            emit = (\<lambda>cp r. case utf8_of_cp cp of
                       None \<Rightarrow> Inl Code_point_out_of_range | Some u \<Rightarrow> Inr (u, r)) in
        if 0xD800 \<le> cp \<and> cp \<le> 0xDBFF then
          (if 6 \<le> length s4 \<and> s4 ! 0 = BACKSLASH \<and> s4 ! 1 = CHR ''u'' then
             let low_hex = take 4 (drop 2 s4) in
             if \<not> list_all isxdigit low_hex then Inl Invalid_hex_low
             else let low = (word_of_nat (hex_value low_hex) :: u32) in
               if 0xDC00 \<le> low \<and> low \<le> 0xDFFF then
                 emit (0x10000 + push_bit 10 (cp - 0xD800) + (low - 0xDC00)) (drop 6 s4)
               else Inl Invalid_low_surrogate
           else Inl Expected_low_surrogate)
        else if 0xDC00 \<le> cp \<and> cp \<le> 0xDFFF then Inl Unpaired_low_surrogate
        else emit cp s4)"

lemma json_unicode_escape_length: "json_unicode_escape s = Inr (u, r) \<Longrightarrow> length r < length s"
  by (auto simp: json_unicode_escape_def Let_def split: if_splits option.splits)

text \<open>The one-letter escapes; any other escaped character stands for itself.\<close>

definition json_escape :: "char \<Rightarrow> char" where
  "json_escape e =
     (if e = QUOTE then QUOTE
      else if e = BACKSLASH then BACKSLASH
      else if e = CHR ''/'' then CHR ''/''
      else if e = CHR ''b'' then CHR 0x08
      else if e = CHR ''f'' then CHR 0x0C
      else if e = CHR ''n'' then NEWLINE
      else if e = CHR ''r'' then CHR 0x0D
      else if e = CHR ''t'' then CHR 0x09
      else e)"

definition push_front :: "string \<Rightarrow> string parse_result \<Rightarrow> string parse_result" where
  "push_front u r = (case r of Inl e \<Rightarrow> Inl e | Inr (t, s) \<Rightarrow> Inr (u @ t, s))"

lemma push_front_simps [simp]:
  "push_front u (Inl e) = Inl e" "push_front u (Inr (t, s)) = Inr (u @ t, s)"
  "push_front u r = Inr (t', s') \<longleftrightarrow> (\<exists>t. r = Inr (t, s') \<and> t' = u @ t)"
  by (auto simp: push_front_def split: sum.splits)

function json_string_body :: "string \<Rightarrow> string parse_result" where
  "json_string_body [] = Inl Unterminated_string"
| "json_string_body (c # s) =
     (if c = QUOTE then Inr ([], s)
      else if c = BACKSLASH then
        (case s of
           [] \<Rightarrow> Inl EOF_in_escape
         | e # s' \<Rightarrow>
             if e = CHR ''u'' then
               (case json_unicode_escape s' of
                  Inl err \<Rightarrow> Inl err
                | Inr (u, r) \<Rightarrow> push_front u (json_string_body r))
             else push_front [json_escape e] (json_string_body s'))
      else push_front [c] (json_string_body s))"
  by pat_completeness auto
termination
  by (relation "measure length") (auto dest: json_unicode_escape_length)

definition json_parse_string :: "string \<Rightarrow> string parse_result" where
  "json_parse_string s =
     (case s of c # s' \<Rightarrow> if c = QUOTE then json_string_body s' else Inl Expected_quote
      | [] \<Rightarrow> Inl Expected_quote)"

text \<open>
  The extent of a number: optional sign, digits, optional fraction and exponent (whose
  digits may be missing). \<open>None\<close> if there is no digit after the sign.
\<close>

definition digits_span :: "string \<Rightarrow> string \<times> string" where
  "digits_span s = (takeWhile isdigit s, dropWhile isdigit s)"

definition frac_span :: "string \<Rightarrow> string \<times> string" where
  "frac_span s =
     (if s \<noteq> [] \<and> hd s = CHR ''.'' then apfst ((#) (CHR ''.'')) (digits_span (tl s)) else ([], s))"

definition expo_span :: "string \<Rightarrow> string \<times> string" where
  "expo_span s =
     (if s \<noteq> [] \<and> (hd s = CHR ''e'' \<or> hd s = CHR ''E'') then
        let t = tl s in
        if t \<noteq> [] \<and> (hd t = CHR ''+'' \<or> hd t = CHR ''-'')
        then apfst ((@) [hd s, hd t]) (digits_span (tl t))
        else apfst ((@) [hd s]) (digits_span t)
      else ([], s))"

definition number_span :: "string \<Rightarrow> (string \<times> string) option" where
  "number_span s =
     (let sign = (if peek s = CHR ''-'' then [CHR ''-''] else []);
          s1 = drop (length sign) s
      in
      if s1 = [] \<or> \<not> isdigit (hd s1) then None
      else
        let (int_part, s2) = digits_span s1;
            (frac, s3) = frac_span s2;
            (expo, s4) = expo_span s3
        in Some (sign @ int_part @ frac @ expo, s4))"

definition parse_number :: "(string \<Rightarrow> rat option) \<Rightarrow> string \<Rightarrow> rat parse_result" where
  "parse_number stod s =
     (case number_span s of
        None \<Rightarrow> Inl Invalid_number_format
      | Some (num_str, r) \<Rightarrow>
          (case stod num_str of
             None \<Rightarrow> Inl (Failed_number_conversion num_str)
           | Some q \<Rightarrow> Inr (q, r)))"

definition parse_bool :: "string \<Rightarrow> bool parse_result" where
  "parse_bool s =
     (if starts_with s ''true'' then Inr (True, drop 4 s)
      else if starts_with s ''false'' then Inr (False, drop 5 s)
      else Inl Invalid_boolean)"

definition parse_null :: "string \<Rightarrow> unit parse_result" where
  "parse_null s = (if starts_with s ''null'' then Inr ((), drop 4 s) else Inl Invalid_null)"

definition map_result :: "('a \<Rightarrow> 'b) \<Rightarrow> 'a parse_result \<Rightarrow> 'b parse_result" where
  "map_result f r = (case r of Inl e \<Rightarrow> Inl e | Inr (a, s) \<Rightarrow> Inr (f a, s))"

text \<open>
  \<^verbatim>\<open>parse_value\<close> with the loops of \<^verbatim>\<open>parse_object\<close> and \<^verbatim>\<open>parse_array\<close>, which collect members
  and elements.
\<close>

fun parse_value :: "(string \<Rightarrow> rat option) \<Rightarrow> nat \<Rightarrow> string \<Rightarrow> json parse_result"
  and object_loop ::
    "(string \<Rightarrow> rat option) \<Rightarrow> nat \<Rightarrow> string \<Rightarrow> (string \<times> json) list \<Rightarrow> json parse_result"
  and array_loop ::
    "(string \<Rightarrow> rat option) \<Rightarrow> nat \<Rightarrow> string \<Rightarrow> json list \<Rightarrow> json parse_result"
where
  "parse_value stod 0 s0 = Inl Out_of_fuel"
| "parse_value stod (Suc fuel) s0 =
     (let s = skip_ws s0; c = peek s in
      if c = CHR ''{'' then
        (let s1 = drop 1 s in
         case consume_ws (CHR ''}'') s1 of
           Some r \<Rightarrow> Inr (JObject [], r)
         | None \<Rightarrow> object_loop stod fuel s1 [])
      else if c = CHR ''['' then
        (let s1 = drop 1 s in
         case consume_ws (CHR '']'') s1 of
           Some r \<Rightarrow> Inr (JArray [], r)
         | None \<Rightarrow> array_loop stod fuel s1 [])
      else if c = QUOTE then map_result JString (json_parse_string s)
      else if c = CHR ''t'' \<or> c = CHR ''f'' then map_result JBool (parse_bool s)
      else if c = CHR ''n'' then map_result (\<lambda>_. JNull) (parse_null s)
      else if c = CHR ''-'' \<or> isdigit c then map_result JNumber (parse_number stod s)
      else Inl (Unexpected_character c))"
| "object_loop stod 0 s0 acc = Inl Out_of_fuel"
| "object_loop stod (Suc fuel) s0 acc =
     (let s = skip_ws s0 in
      if peek s \<noteq> QUOTE then Inl Expected_string_key
      else case json_parse_string s of
        Inl e \<Rightarrow> Inl e
      | Inr (key, s1) \<Rightarrow>
          (case consume_ws (CHR '':'') s1 of
             None \<Rightarrow> Inl Expected_colon
           | Some s2 \<Rightarrow>
               (case parse_value stod fuel s2 of
                  Inl e \<Rightarrow> Inl e
                | Inr (val, s3) \<Rightarrow>
                    let acc' = acc @ [(key, val)] in
                    (case consume_ws (CHR ''}'') s3 of
                       Some r \<Rightarrow> Inr (JObject acc', r)
                     | None \<Rightarrow>
                         (case consume_ws (CHR '','') s3 of
                            None \<Rightarrow> Inl Expected_comma_or_brace
                          | Some s4 \<Rightarrow> object_loop stod fuel s4 acc')))))"
| "array_loop stod 0 s0 acc = Inl Out_of_fuel"
| "array_loop stod (Suc fuel) s0 acc =
     (case parse_value stod fuel s0 of
        Inl e \<Rightarrow> Inl e
      | Inr (val, s1) \<Rightarrow>
          let acc' = acc @ [val] in
          (case consume_ws (CHR '']'') s1 of
             Some r \<Rightarrow> Inr (JArray acc', r)
           | None \<Rightarrow>
               (case consume_ws (CHR '','') s1 of
                  None \<Rightarrow> Inl Expected_comma_or_bracket
                | Some s2 \<Rightarrow> array_loop stod fuel s2 acc')))"

declare parse_value.simps [simp del] object_loop.simps [simp del] array_loop.simps [simp del]

definition json_fuel :: "string \<Rightarrow> nat" where
  "json_fuel s = 2 * length s + 2"

definition parse_json :: "(string \<Rightarrow> rat option) \<Rightarrow> string \<Rightarrow> json_error + json" where
  "parse_json stod input =
     (let s = skip_ws input in
      if s = [] then Inl Empty_JSON_input
      else case parse_value stod (json_fuel s) s of
        Inl e \<Rightarrow> Inl e
      | Inr (j, r) \<Rightarrow> if skip_ws r \<noteq> [] then Inl Trailing_characters else Inr j)"



section \<open>Progress and fuel\<close>

lemma skip_ws_length: "length (skip_ws s) \<le> length s"
  by (simp add: skip_ws_def length_dropWhile_le)

lemma consume_ws_length:
  assumes "consume_ws c s = Some r" "c \<noteq> CHR 0x00"
  shows "length r < length s"
  using assms skip_ws_length [of s]
  by (cases "skip_ws s") (auto simp: consume_ws_def peek_def Let_def split: if_splits)

lemma json_string_body_length: "json_string_body s = Inr (t, r) \<Longrightarrow> length r < length s"
proof (induction s arbitrary: t r rule: json_string_body.induct)
  case (2 c s)
  then show ?case
    by (auto split: if_splits list.splits sum.splits dest!: json_unicode_escape_length) fastforce+
qed simp

lemma json_parse_string_length: "json_parse_string s = Inr (t, r) \<Longrightarrow> length r < length s"
  by (auto simp: json_parse_string_def split: list.splits if_splits dest: json_string_body_length)

lemma span_lengths:
  "digits_span s = (x, r) \<Longrightarrow> length r \<le> length s"
  "frac_span s = (x, r) \<Longrightarrow> length r \<le> length s"
  "expo_span s = (x, r) \<Longrightarrow> length r \<le> length s"
proof -
  have le: "length (dropWhile isdigit x) \<le> length x" for x :: string
    by (rule length_dropWhile_le)
  have tl_le: "length (dropWhile isdigit (tl x)) \<le> length x"
    "length (dropWhile isdigit (tl (tl x))) \<le> length x" for x :: string
    using le [of "tl x"] le [of "tl (tl x)"] by (auto intro: order_trans)
  show "digits_span s = (x, r) \<Longrightarrow> length r \<le> length s"
    "frac_span s = (x, r) \<Longrightarrow> length r \<le> length s"
    "expo_span s = (x, r) \<Longrightarrow> length r \<le> length s"
    using le tl_le
    by (auto simp: digits_span_def frac_span_def expo_span_def Let_def split: if_splits)
qed

lemma number_span_length:
  assumes "number_span s = Some (x, r)"
  shows "length r < length s"
proof -
  define s1 where "s1 = drop (length (if peek s = CHR ''-'' then [CHR ''-''] else [])) s"
  obtain a s2 where a: "digits_span s1 = (a, s2)" by force
  obtain b s3 where b: "frac_span s2 = (b, s3)" by force
  obtain c s4 where c: "expo_span s3 = (c, s4)" by force
  have "number_span s = (if s1 = [] \<or> \<not> isdigit (hd s1) then None
      else Some ((if peek s = CHR ''-'' then [CHR ''-''] else []) @ a @ b @ c, s4))"
    unfolding number_span_def Let_def s1_def [symmetric] by (simp add: a b c)
  with assms have d: "s1 \<noteq> []" "isdigit (hd s1)" "r = s4" by (auto split: if_splits)
  have "s2 = dropWhile isdigit (tl s1)" using a d(1,2) by (cases s1) (auto simp: digits_span_def)
  then have "length s2 \<le> length (tl s1)" by (simp only: length_dropWhile_le)
  moreover have "length (tl s1) < length s1" using d(1) by (cases s1) auto
  moreover have "length s1 \<le> length s" by (simp add: s1_def)
  ultimately show ?thesis using span_lengths(2) [OF b] span_lengths(3) [OF c] unfolding d(3) by linarith
qed

lemma parse_number_length: "parse_number stod s = Inr (q, r) \<Longrightarrow> length r < length s"
  by (auto simp: parse_number_def split: option.splits dest: number_span_length)

lemma map_result_Inr [simp]:
  "map_result f r = Inr (x, s) \<longleftrightarrow> (\<exists>a. r = Inr (a, s) \<and> x = f a)"
  by (auto simp: map_result_def split: sum.splits)

lemma map_result_Inl [simp]: "map_result f r = Inl e \<longleftrightarrow> r = Inl e"
  by (auto simp: map_result_def split: sum.splits)


lemma parse_bool_length: "parse_bool s = Inr (b, r) \<Longrightarrow> length r < length s"
  by (auto simp: parse_bool_def starts_with_iff split: if_splits)

lemma parse_null_length: "parse_null s = Inr (b, r) \<Longrightarrow> length r < length s"
  by (auto simp: parse_null_def starts_with_iff split: if_splits)

text \<open>Inversion rules of the two loops.\<close>

lemma object_loop_InrE:
  assumes "object_loop stod (Suc f) s kvs = Inr (j, r)"
  obtains key s1 s2 val s3 where "json_parse_string (skip_ws s) = Inr (key, s1)"
    "consume_ws (CHR '':'') s1 = Some s2" "parse_value stod f s2 = Inr (val, s3)"
    "consume_ws (CHR ''}'') s3 = Some r \<or>
     (\<exists>s4. consume_ws (CHR '','') s3 = Some s4 \<and>
        object_loop stod f s4 (kvs @ [(key, val)]) = Inr (j, r))"
  using assms
  by (auto simp: object_loop.simps Let_def split: if_splits option.splits sum.splits)

lemma array_loop_InrE:
  assumes "array_loop stod (Suc f) s xs = Inr (j, r)"
  obtains val s1 where "parse_value stod f s = Inr (val, s1)"
    "consume_ws (CHR '']'') s1 = Some r \<or>
     (\<exists>s2. consume_ws (CHR '','') s1 = Some s2 \<and> array_loop stod f s2 (xs @ [val]) = Inr (j, r))"
  using assms
  by (auto simp: array_loop.simps Let_def split: if_splits option.splits sum.splits)

lemma parse_value_InrD:
  assumes "parse_value stod (Suc f) s = Inr (j, r)"
  shows "\<exists>c t. skip_ws s = c # t \<and>
    (consume_ws (CHR ''}'') t = Some r \<or> object_loop stod f t [] = Inr (j, r) \<or>
     consume_ws (CHR '']'') t = Some r \<or> array_loop stod f t [] = Inr (j, r) \<or>
     (\<exists>x. json_parse_string (c # t) = Inr (x, r)) \<or> (\<exists>x. parse_bool (c # t) = Inr (x, r)) \<or>
     (\<exists>x. parse_null (c # t) = Inr (x, r)) \<or> (\<exists>x. parse_number stod (c # t) = Inr (x, r)))"
proof (cases "skip_ws s")
  case Nil
  with assms show ?thesis by (simp add: parse_value.simps peek_def isdigit_def)
next
  case (Cons c t)
  with assms show ?thesis
    by (simp add: parse_value.simps Let_def peek_def split: if_splits option.splits, blast+)
qed

lemma consume_length_simps:
  "consume_ws (CHR '':'') s = Some r \<Longrightarrow> length r < length s"
  "consume_ws (CHR '','') s = Some r \<Longrightarrow> length r < length s"
  "consume_ws (CHR ''}'') s = Some r \<Longrightarrow> length r < length s"
  "consume_ws (CHR '']'') s = Some r \<Longrightarrow> length r < length s"
  by (simp_all add: consume_ws_length)

text \<open>Every successful call consumes input.\<close>

lemma json_progress:
  "(parse_value stod f s = Inr (j, r) \<longrightarrow> length r < length s) \<and>
   (object_loop stod f s kvs = Inr (j, r) \<longrightarrow> length r < length s) \<and>
   (array_loop stod f s xs = Inr (j, r) \<longrightarrow> length r < length s)"
proof (induction f arbitrary: s j r kvs xs)
  case 0
  then show ?case by (simp add: parse_value.simps object_loop.simps array_loop.simps)
next
  case (Suc f)
  have IH: "parse_value stod f s = Inr (j, r) \<Longrightarrow> length r < length s"
    "object_loop stod f s kvs = Inr (j, r) \<Longrightarrow> length r < length s"
    "array_loop stod f s xs = Inr (j, r) \<Longrightarrow> length r < length s" for s j r kvs xs
    using Suc.IH by blast+
  have sk: "length x < length (skip_ws y) \<Longrightarrow> length x < length y" for x y
    using skip_ws_length [of y] by simp
  have "length r < length s" if "parse_value stod (Suc f) s = Inr (j, r)"
  proof -
    from parse_value_InrD [OF that] obtain c t where t: "skip_ws s = c # t" and
      alt: "consume_ws (CHR ''}'') t = Some r \<or> object_loop stod f t [] = Inr (j, r) \<or>
     consume_ws (CHR '']'') t = Some r \<or> array_loop stod f t [] = Inr (j, r) \<or>
     (\<exists>x. json_parse_string (c # t) = Inr (x, r)) \<or> (\<exists>x. parse_bool (c # t) = Inr (x, r)) \<or>
     (\<exists>x. parse_null (c # t) = Inr (x, r)) \<or> (\<exists>x. parse_number stod (c # t) = Inr (x, r))"
      by blast
    from alt have "length r < length (c # t)"
    proof (elim disjE)
      assume "consume_ws (CHR ''}'') t = Some r"
      from consume_length_simps(3) [OF this] show ?thesis by simp
    next
      assume "object_loop stod f t [] = Inr (j, r)"
      from IH(2) [OF this] show ?thesis by simp
    next
      assume "consume_ws (CHR '']'') t = Some r"
      from consume_length_simps(4) [OF this] show ?thesis by simp
    next
      assume "array_loop stod f t [] = Inr (j, r)"
      from IH(3) [OF this] show ?thesis by simp
    qed (elim exE, erule json_parse_string_length parse_bool_length parse_null_length
        parse_number_length)+
    then show ?thesis using sk [of r s] by (simp add: t)
  qed
  moreover have "length r < length s" if "object_loop stod (Suc f) s kvs = Inr (j, r)"
    using that
  proof (rule object_loop_InrE)
    fix key s1 s2 val s3
    assume a: "json_parse_string (skip_ws s) = Inr (key, s1)" "consume_ws (CHR '':'') s1 = Some s2"
      "parse_value stod f s2 = Inr (val, s3)"
      "consume_ws (CHR ''}'') s3 = Some r \<or> (\<exists>s4. consume_ws (CHR '','') s3 = Some s4 \<and>
        object_loop stod f s4 (kvs @ [(key, val)]) = Inr (j, r))"
    have "length s3 < length s"
      using sk [OF json_parse_string_length [OF a(1)]] consume_length_simps(1) [OF a(2)]
        IH(1) [OF a(3)] by linarith
    moreover have "length r < length s3"
      using a(4) by (auto dest!: consume_length_simps IH(2))
    ultimately show ?thesis by linarith
  qed
  moreover have "length r < length s" if "array_loop stod (Suc f) s xs = Inr (j, r)"
    using that
  proof (rule array_loop_InrE)
    fix val s1
    assume a: "parse_value stod f s = Inr (val, s1)"
      "consume_ws (CHR '']'') s1 = Some r \<or> (\<exists>s2. consume_ws (CHR '','') s1 = Some s2 \<and>
        array_loop stod f s2 (xs @ [val]) = Inr (j, r))"
    have "length r < length s1" using a(2) by (auto dest!: consume_length_simps IH(3))
    with IH(1) [OF a(1)] show ?thesis by linarith
  qed
  ultimately show ?case by blast
qed


lemma not_out_of_fuel [simp]:
  "json_unicode_escape s \<noteq> Inl Out_of_fuel" "parse_bool s \<noteq> Inl Out_of_fuel"
  "parse_null s \<noteq> Inl Out_of_fuel"
  by (auto simp: json_unicode_escape_def parse_bool_def parse_null_def Let_def split: option.splits)

lemma parse_number_fuel [simp]: "parse_number stod s \<noteq> Inl Out_of_fuel"
  by (auto simp: parse_number_def split: option.split)

lemma push_front_Inl [simp]: "push_front u r = Inl e \<longleftrightarrow> r = Inl e"
  by (auto simp: push_front_def split: sum.splits)

lemma json_string_body_fuel [simp]: "json_string_body s \<noteq> Inl Out_of_fuel"
proof (induction s rule: json_string_body.induct)
  case (2 c s)
  then show ?case
    using not_out_of_fuel(1) [of "tl s"] by (auto split: list.splits sum.splits)
qed simp

lemma json_parse_string_fuel [simp]: "json_parse_string s \<noteq> Inl Out_of_fuel"
  by (simp add: json_parse_string_def split: list.splits)

lemma parse_value_fuelD:
  assumes "parse_value stod (Suc f) s = Inl Out_of_fuel"
  shows "\<exists>c t. skip_ws s = c # t \<and>
    (object_loop stod f t [] = Inl Out_of_fuel \<or> array_loop stod f t [] = Inl Out_of_fuel)"
  using assms
  by (cases "skip_ws s")
    (simp_all add: parse_value.simps Let_def peek_def isdigit_def split: if_splits option.splits)

lemma object_loop_fuelD:
  assumes "object_loop stod (Suc f) s kvs = Inl Out_of_fuel"
  shows "\<exists>key s1 s2. json_parse_string (skip_ws s) = Inr (key, s1)
    \<and> consume_ws (CHR '':'') s1 = Some s2
    \<and> (parse_value stod f s2 = Inl Out_of_fuel
       \<or> (\<exists>val s3 s4. parse_value stod f s2 = Inr (val, s3) \<and> consume_ws (CHR '','') s3 = Some s4
            \<and> object_loop stod f s4 (kvs @ [(key, val)]) = Inl Out_of_fuel))"
  using assms
  by (auto simp: object_loop.simps Let_def split: if_splits option.splits sum.splits)

lemma array_loop_fuelD:
  assumes "array_loop stod (Suc f) s xs = Inl Out_of_fuel"
  shows "parse_value stod f s = Inl Out_of_fuel
    \<or> (\<exists>val s1 s2. parse_value stod f s = Inr (val, s1) \<and> consume_ws (CHR '','') s1 = Some s2
         \<and> array_loop stod f s2 (xs @ [val]) = Inl Out_of_fuel)"
  using assms by (auto simp: array_loop.simps Let_def split: option.splits sum.splits)

text \<open>Enough fuel for every input: twice its length.\<close>

lemma json_fuel_enough:
  "(2 * length s + 1 \<le> f \<longrightarrow> parse_value stod f s \<noteq> Inl Out_of_fuel) \<and>
   (2 * length s + 2 \<le> f \<longrightarrow> object_loop stod f s kvs \<noteq> Inl Out_of_fuel) \<and>
   (2 * length s + 2 \<le> f \<longrightarrow> array_loop stod f s xs \<noteq> Inl Out_of_fuel)"
proof (induction f arbitrary: s kvs xs)
  case 0
  then show ?case by simp
next
  case (Suc f)
  have IH: "parse_value stod f s = Inl Out_of_fuel \<Longrightarrow> f < 2 * length s + 1"
    "object_loop stod f s kvs = Inl Out_of_fuel \<Longrightarrow> f < 2 * length s + 2"
    "array_loop stod f s xs = Inl Out_of_fuel \<Longrightarrow> f < 2 * length s + 2" for s kvs xs
    using Suc.IH [of s kvs xs] by linarith+
  note prog = json_progress [THEN conjunct1, rule_format]
  have "Suc f < 2 * length s + 1" if "parse_value stod (Suc f) s = Inl Out_of_fuel"
  proof -
    from parse_value_fuelD [OF that] obtain c t where t: "skip_ws s = c # t"
      and "object_loop stod f t [] = Inl Out_of_fuel \<or> array_loop stod f t [] = Inl Out_of_fuel"
      by blast
    then have "f < 2 * length t + 2" using IH(2,3) by blast
    then show ?thesis using skip_ws_length [of s] t by simp
  qed
  moreover have "Suc f < 2 * length s + 2" if "object_loop stod (Suc f) s kvs = Inl Out_of_fuel"
  proof -
    from object_loop_fuelD [OF that] obtain key s1 s2 where
      k: "json_parse_string (skip_ws s) = Inr (key, s1)" "consume_ws (CHR '':'') s1 = Some s2" and
      alt: "parse_value stod f s2 = Inl Out_of_fuel
       \<or> (\<exists>val s3 s4. parse_value stod f s2 = Inr (val, s3) \<and> consume_ws (CHR '','') s3 = Some s4
            \<and> object_loop stod f s4 (kvs @ [(key, val)]) = Inl Out_of_fuel)"
      by blast
    have "length s2 + 2 \<le> length s"
      using json_parse_string_length [OF k(1)] consume_length_simps(1) [OF k(2)] skip_ws_length [of s]
      by linarith
    moreover have "f < 2 * length s2 + 2"
      using alt
    proof
      assume "parse_value stod f s2 = Inl Out_of_fuel"
      from IH(1) [OF this] show ?thesis by simp
    next
      assume "\<exists>val s3 s4. parse_value stod f s2 = Inr (val, s3) \<and> consume_ws (CHR '','') s3 = Some s4
            \<and> object_loop stod f s4 (kvs @ [(key, val)]) = Inl Out_of_fuel"
      then obtain val s3 s4 where v: "parse_value stod f s2 = Inr (val, s3)"
        "consume_ws (CHR '','') s3 = Some s4"
        "object_loop stod f s4 (kvs @ [(key, val)]) = Inl Out_of_fuel" by blast
      from prog [OF v(1)] consume_length_simps(2) [OF v(2)] IH(2) [OF v(3)] show ?thesis by linarith
    qed
    ultimately show ?thesis by linarith
  qed
  moreover have "Suc f < 2 * length s + 2" if "array_loop stod (Suc f) s xs = Inl Out_of_fuel"
    using array_loop_fuelD [OF that]
  proof
    assume "parse_value stod f s = Inl Out_of_fuel"
    from IH(1) [OF this] show ?thesis by simp
  next
    assume "\<exists>val s1 s2. parse_value stod f s = Inr (val, s1) \<and> consume_ws (CHR '','') s1 = Some s2
         \<and> array_loop stod f s2 (xs @ [val]) = Inl Out_of_fuel"
    then obtain val s1 s2 where v: "parse_value stod f s = Inr (val, s1)"
      "consume_ws (CHR '','') s1 = Some s2"
      "array_loop stod f s2 (xs @ [val]) = Inl Out_of_fuel" by blast
    from prog [OF v(1)] consume_length_simps(2) [OF v(2)] IH(3) [OF v(3)] show ?thesis by linarith
  qed
  ultimately show ?case by (meson not_less)
qed

lemma parse_json_total: "parse_json stod s \<noteq> Inl Out_of_fuel"
  using json_fuel_enough [of "skip_ws s" "json_fuel (skip_ws s)" stod]
  by (auto simp: parse_json_def json_fuel_def Let_def split: sum.splits)



section \<open>Printed values parse back\<close>

text \<open>
  The compact syntax of the server's responses. Numbers are integers printed by
  \<^verbatim>\<open>std::to_string\<close>.
\<close>

fun render :: "json \<Rightarrow> string"
  and render_elems :: "json list \<Rightarrow> string"
  and render_members :: "(string \<times> json) list \<Rightarrow> string"
where
  "render JNull = ''null''"
| "render (JBool b) = (if b then ''true'' else ''false'')"
| "render (JNumber q) = to_string_int \<lfloor>q\<rfloor>"
| "render (JString s) = escape_json_string s"
| "render (JArray xs) = CHR ''['' # render_elems xs @ '']''"
| "render (JObject kvs) = CHR ''{'' # render_members kvs @ ''}''"
| "render_elems [] = []"
| "render_elems (x # xs) = render x @ (if xs = [] then [] else CHR '','' # render_elems xs)"
| "render_members [] = []"
| "render_members ((k, v) # kvs) =
     escape_json_string k @ CHR '':'' # render v
     @ (if kvs = [] then [] else CHR '','' # render_members kvs)"

text \<open>Numbers that survive printing: integers on which \<open>stod\<close> inverts \<^verbatim>\<open>std::to_string\<close>.\<close>

fun printable :: "(string \<Rightarrow> rat option) \<Rightarrow> json \<Rightarrow> bool" where
  "printable stod (JNumber q) = (stod (to_string_int \<lfloor>q\<rfloor>) = Some q)"
| "printable stod (JArray xs) = list_all (printable stod) xs"
| "printable stod (JObject kvs) = list_all (\<lambda>kv. printable stod (snd kv)) kvs"
| "printable stod _ = True"

text \<open>What may follow a value: the end or a character that is not part of a number.\<close>

definition closes :: "string \<Rightarrow> bool" where
  "closes r \<longleftrightarrow> r = [] \<or> hd r \<in> {CHR '','', CHR '']'', CHR ''}''}"

lemma json_unicode_escape_of: "unicode_escape s = Some x \<Longrightarrow> json_unicode_escape s = Inr x"
  by (auto simp: unicode_escape_def json_unicode_escape_def Let_def split: if_splits)

lemma json_escape_of: "simple_escape e = Some d \<Longrightarrow> json_escape e = d"
  by (auto simp: simple_escape_def json_escape_def split: if_splits)

text \<open>The two string parsers agree wherever the stricter one succeeds.\<close>

lemma json_string_body_of: "string_body s = Some x \<Longrightarrow> json_string_body s = Inr x"
proof (induction s arbitrary: x rule: string_body.induct)
  case (2 c s)
  then show ?case
    by (auto simp: json_escape_of split: if_splits list.splits option.splits prod.splits
        dest!: json_unicode_escape_of)
qed simp

lemma json_parse_string_escaped [simp]:
  "json_parse_string (escape_json_string t @ r) = Inr (t, r)"
  by (simp add: json_parse_string_def escape_json_string_def
      json_string_body_of [OF string_body_escaped])

lemma skip_ws_Cons [simp]: "\<not> is_json_space c \<Longrightarrow> skip_ws (c # s) = c # s"
  by (simp add: skip_ws_def)

lemma consume_ws_Cons [simp]:
  "\<not> is_json_space c \<Longrightarrow> consume_ws e (c # s) = (if c = e then Some s else None)"
  by (simp add: consume_ws_def)

lemma not_json_space [simp]:
  "\<not> is_json_space QUOTE" "\<not> is_json_space (CHR ''{'')" "\<not> is_json_space (CHR ''}'')"
  "\<not> is_json_space (CHR ''['')" "\<not> is_json_space (CHR '']'')" "\<not> is_json_space (CHR '','')"
  "\<not> is_json_space (CHR '':'')" "\<not> is_json_space (CHR ''n'')" "\<not> is_json_space (CHR ''t'')"
  "\<not> is_json_space (CHR ''f'')" "\<not> is_json_space (CHR ''-'')"
  by (simp_all add: is_json_space_def)

lemma isdigit_not_space: "isdigit c \<Longrightarrow> \<not> is_json_space c"
  by (auto simp: isdigit_def is_json_space_def)

lemma escape_json_string_Cons: "\<exists>t. escape_json_string s = QUOTE # t"
  by (simp add: escape_json_string_def)

lemma digits_span_nat_digits:
  assumes "closes r"
  shows "digits_span (nat_digits n @ r) = (nat_digits n, r)"
proof -
  have all: "\<And>c. c \<in> set (nat_digits n) \<Longrightarrow> isdigit c"
    using nat_digits_digits [of n] by (simp add: list_all_iff)
  have "takeWhile isdigit r = [] \<and> dropWhile isdigit r = r"
    using assms by (cases r) (auto simp: closes_def isdigit_def)
  then show ?thesis using all by (simp add: digits_span_def takeWhile_append2 dropWhile_append2)
qed

lemma number_span_to_string:
  assumes "closes r"
  shows "number_span (to_string_int i @ r) = Some (to_string_int i, r)"
proof -
  have "frac_span r = ([], r)" "expo_span r = ([], r)"
    using assms by (cases r; auto simp: closes_def frac_span_def expo_span_def)+
  moreover have d: "isdigit (hd (nat_digits n))" "nat_digits n \<noteq> []" for n
    using nat_digits_digits [of n] by (cases "nat_digits n"; simp)+
  moreover have "peek (nat_digits n @ r) \<noteq> CHR ''-''" for n
    using d [of n] by (cases "nat_digits n") (auto simp: peek_def isdigit_def)
  ultimately show ?thesis
    using digits_span_nat_digits [OF assms]
    by (simp add: number_span_def to_string_int_def peek_def Let_def)
qed


lemma to_string_int_head: "\<exists>c t. to_string_int i = c # t \<and> (c = CHR ''-'' \<or> isdigit c)"
  using nat_digits_digits [of "nat i"]
  by (cases "nat_digits (nat i)") (auto simp: to_string_int_def)

lemma parse_value_number:
  assumes "closes r" "stod (to_string_int i) = Some q"
  shows "parse_value stod (Suc f) (to_string_int i @ r) = Inr (JNumber q, r)"
proof -
  obtain c t where ct: "to_string_int i = c # t" "c = CHR ''-'' \<or> isdigit c"
    using to_string_int_head by blast
  have "c \<noteq> CHR ''{''" "c \<noteq> CHR ''[''" "c \<noteq> QUOTE" "c \<noteq> CHR ''t''" "c \<noteq> CHR ''f''" "c \<noteq> CHR ''n''"
    "\<not> is_json_space c"
    using ct(2) by (auto simp: isdigit_def is_json_space_def)
  moreover have "parse_number stod (c # t @ r) = Inr (q, r)"
    using number_span_to_string [OF assms(1), of i] assms(2) by (simp add: parse_number_def ct(1))
  ultimately show ?thesis
    using ct by (auto simp: parse_value.simps Let_def peek_def map_result_def)
qed

lemma closes_simps [simp]:
  "closes []" "closes (CHR '','' # r)" "closes (CHR '']'' # r)" "closes (CHR ''}'' # r)"
  by (simp_all add: closes_def)

text \<open>A printed value does not start with whitespace or a closing bracket.\<close>

lemma render_head: "\<exists>c t. render j = c # t \<and> \<not> is_json_space c \<and> c \<noteq> CHR '']'' \<and> c \<noteq> CHR ''}''"
proof (cases j)
  case (JNumber q)
  obtain c t where "to_string_int \<lfloor>q\<rfloor> = c # t" "c = CHR ''-'' \<or> isdigit c"
    using to_string_int_head by blast
  then show ?thesis using JNumber by (auto simp: isdigit_not_space isdigit_def)
next
  case (JString s)
  then show ?thesis by (simp add: escape_json_string_def)
qed auto

lemma parse_render:
  "printable stod j \<Longrightarrow> closes r \<Longrightarrow> 2 * length (render j) + 1 \<le> f \<Longrightarrow>
     parse_value stod f (render j @ r) = Inr (j, r)"
  "list_all (printable stod) xs \<Longrightarrow> xs \<noteq> [] \<Longrightarrow> 2 * length (render_elems xs) + 2 \<le> f \<Longrightarrow>
     array_loop stod f (render_elems xs @ '']'' @ r) xacc = Inr (JArray (xacc @ xs), r)"
  "list_all (\<lambda>kv. printable stod (snd kv)) kvs \<Longrightarrow> kvs \<noteq> [] \<Longrightarrow>
     2 * length (render_members kvs) + 2 \<le> f \<Longrightarrow>
     object_loop stod f (render_members kvs @ ''}'' @ r) kacc = Inr (JObject (kacc @ kvs), r)"
proof (induction j and xs and kvs arbitrary: r f and r f xacc and r f kacc
    rule: render_render_elems_render_members.induct)
  case 1
  then obtain f' where "f = Suc f'" by (cases f) auto
  then show ?case by (simp add: parse_value.simps peek_def parse_null_def map_result_def)
next
  case (2 b)
  then obtain f' where "f = Suc f'" by (cases f) auto
  then show ?case by (simp add: parse_value.simps peek_def parse_bool_def map_result_def)
next
  case (3 q)
  then obtain f' where "f = Suc f'" by (cases f) auto
  with 3 show ?case by (simp add: parse_value_number)
next
  case (4 s)
  then obtain f' where "f = Suc f'" by (cases f) auto
  moreover obtain t where "escape_json_string s = QUOTE # t" using escape_json_string_Cons by blast
  ultimately show ?case
    using json_parse_string_escaped [of s r]
    by (simp add: parse_value.simps peek_def map_result_def)
next
  case (5 xs)
  then obtain f' where f: "f = Suc f'" by (cases f) auto
  show ?case
  proof (cases "xs = []")
    case True
    then show ?thesis by (simp add: f parse_value.simps peek_def)
  next
    case False
    then obtain c t where ct: "render_elems xs = c # t" "\<not> is_json_space c" "c \<noteq> CHR '']''"
      using render_head [of "hd xs"] by (cases xs) auto
    have "array_loop stod f' (render_elems xs @ '']'' @ r) [] = Inr (JArray ([] @ xs), r)"
      using 5 f False by (intro "5.IH") auto
    then show ?thesis using ct by (simp add: f parse_value.simps peek_def)
  qed
next
  case (6 kvs)
  then obtain f' where f: "f = Suc f'" by (cases f) auto
  show ?case
  proof (cases "kvs = []")
    case True
    then show ?thesis by (simp add: f parse_value.simps peek_def)
  next
    case False
    then obtain t where ct: "render_members kvs = QUOTE # t"
      by (cases kvs) (auto simp: escape_json_string_def)
    have "object_loop stod f' (render_members kvs @ ''}'' @ r) [] = Inr (JObject ([] @ kvs), r)"
      using 6 f False by (intro "6.IH") auto
    then show ?thesis using ct by (simp add: f parse_value.simps peek_def)
  qed
next
  case 7
  then show ?case by simp
next
  case (8 x xs)
  then obtain f' where f: "f = Suc f'" by (cases f) auto
  show ?case
  proof (cases "xs = []")
    case True
    have "parse_value stod f' (render x @ CHR '']'' # r) = Inr (x, CHR '']'' # r)"
      using 8 f True by (intro "8.IH"(1)) auto
    then show ?thesis by (simp add: f True array_loop.simps)
  next
    case False
    let ?rest = "CHR '','' # render_elems xs @ CHR '']'' # r"
    have "parse_value stod f' (render x @ ?rest) = Inr (x, ?rest)"
      using 8 f False by (intro "8.IH"(1)) auto
    moreover have "array_loop stod f' (render_elems xs @ '']'' @ r) (xacc @ [x])
        = Inr (JArray ((xacc @ [x]) @ xs), r)"
      using 8 f False by (intro "8.IH"(2)) auto
    ultimately show ?thesis by (simp add: f False array_loop.simps)
  qed
next
  case 9
  then show ?case by simp
next
  case (10 k v kvs)
  then obtain f' where f: "f = Suc f'" by (cases f) auto
  obtain t where k: "escape_json_string k = QUOTE # t" using escape_json_string_Cons by blast
  have key: "json_parse_string (QUOTE # t @ s) = Inr (k, s)" for s
    using json_parse_string_escaped [of k s] k by simp
  show ?case
  proof (cases "kvs = []")
    case True
    have "parse_value stod f' (render v @ CHR ''}'' # r) = Inr (v, CHR ''}'' # r)"
      using 10 f True by (intro "10.IH"(1)) auto
    then show ?thesis by (simp add: f True object_loop.simps k peek_def key)
  next
    case False
    let ?rest = "CHR '','' # render_members kvs @ CHR ''}'' # r"
    have "parse_value stod f' (render v @ ?rest) = Inr (v, ?rest)"
      using 10 f False by (intro "10.IH"(1)) auto
    moreover have "object_loop stod f' (render_members kvs @ ''}'' @ r) (kacc @ [(k, v)])
        = Inr (JObject ((kacc @ [(k, v)]) @ kvs), r)"
      using 10 f False by (intro "10.IH"(2)) auto
    ultimately show ?thesis by (simp add: f False object_loop.simps k peek_def key)
  qed
qed


lemma parse_json_render:
  assumes "printable stod j"
  shows "parse_json stod (render j) = Inr j"
proof -
  obtain c t where ct: "render j = c # t" "\<not> is_json_space c" using render_head by blast
  have "parse_value stod (json_fuel (render j)) (render j @ []) = Inr (j, [])"
    using assms by (intro parse_render) (auto simp: json_fuel_def)
  with ct show ?thesis by (simp add: parse_json_def skip_ws_def)
qed

text \<open>
  C23. The request parser is total and inverts the server's JSON syntax: on every input it
  ends with a value or one of its error messages (the recursion bound is never reached),
  and every value whose numbers are integers that \<^verbatim>\<open>std::stod\<close> reads back is parsed exactly
  from its compact text, with all strings (any bytes, control characters, quotes) intact.
\<close>

theorem parse_json_correct:
  assumes "printable stod j"
  shows "parse_json stod (render j) = Inr j \<and> parse_json stod s \<noteq> Inl Out_of_fuel"
  using parse_json_render [OF assms] parse_json_total by blast

theorem parse_json_correct_witness:
  "parse_json (\<lambda>s. if s = ''-12'' then Some (- 12) else None)
     (render (JObject [(''a'', JArray [JNumber (- 12), JNull, JBool True]), (''b'', JString [QUOTE, NEWLINE])]))
   = Inr (JObject [(''a'', JArray [JNumber (- 12), JNull, JBool True]), (''b'', JString [QUOTE, NEWLINE])])"
proof -
  have "to_string_int (- 12) = ''-12''" by code_simp
  then show ?thesis
    using parse_json_correct [of "\<lambda>s. if s = ''-12'' then Some (- 12) else None"
        "JObject [(''a'', JArray [JNumber (- 12), JNull, JBool True]), (''b'', JString [QUOTE, NEWLINE])]"
        "[]"]
    by simp
qed

end
