(* ===== verification/Base64.thy ===== *)
theory Base64
  imports Json_Value
begin

text \<open>
  The base64 decoder of \<^verbatim>\<open>src/serve/protocol.cpp\<close>: the lookup table, the bit buffer and the
  stripping of a data URI prefix. The specification is the encoder of RFC 4648; decoding
  inverts it, with or without prefix and wherever whitespace is inserted between groups.
\<close>

definition kBase64Table :: "int list" where
  "kBase64Table = [
    - 1, - 1, - 1, - 1, - 1, - 1, - 1, - 1, - 1, - 1, - 1, - 1, - 1, - 1, - 1, - 1,
    - 1, - 1, - 1, - 1, - 1, - 1, - 1, - 1, - 1, - 1, - 1, - 1, - 1, - 1, - 1, - 1,
    - 1, - 1, - 1, - 1, - 1, - 1, - 1, - 1, - 1, - 1, - 1, 62, - 1, - 1, - 1, 63,
    52, 53, 54, 55, 56, 57, 58, 59, 60, 61, - 1, - 1, - 1, - 1, - 1, - 1,
    - 1, 0, 1, 2, 3, 4, 5, 6, 7, 8, 9, 10, 11, 12, 13, 14,
    15, 16, 17, 18, 19, 20, 21, 22, 23, 24, 25, - 1, - 1, - 1, - 1, - 1,
    - 1, 26, 27, 28, 29, 30, 31, 32, 33, 34, 35, 36, 37, 38, 39, 40,
    41, 42, 43, 44, 45, 46, 47, 48, 49, 50, 51, - 1, - 1, - 1, - 1, - 1,
    - 1, - 1, - 1, - 1, - 1, - 1, - 1, - 1, - 1, - 1, - 1, - 1, - 1, - 1, - 1, - 1,
    - 1, - 1, - 1, - 1, - 1, - 1, - 1, - 1, - 1, - 1, - 1, - 1, - 1, - 1, - 1, - 1,
    - 1, - 1, - 1, - 1, - 1, - 1, - 1, - 1, - 1, - 1, - 1, - 1, - 1, - 1, - 1, - 1,
    - 1, - 1, - 1, - 1, - 1, - 1, - 1, - 1, - 1, - 1, - 1, - 1, - 1, - 1, - 1, - 1,
    - 1, - 1, - 1, - 1, - 1, - 1, - 1, - 1, - 1, - 1, - 1, - 1, - 1, - 1, - 1, - 1,
    - 1, - 1, - 1, - 1, - 1, - 1, - 1, - 1, - 1, - 1, - 1, - 1, - 1, - 1, - 1, - 1,
    - 1, - 1, - 1, - 1, - 1, - 1, - 1, - 1, - 1, - 1, - 1, - 1, - 1, - 1, - 1, - 1,
    - 1, - 1, - 1, - 1, - 1, - 1, - 1, - 1, - 1, - 1, - 1, - 1, - 1, - 1, - 1, - 1]"

datatype b64_error = Invalid_base64_character char nat

text \<open>
  The loop: index, 32-bit buffer (whose upper bits are left over from earlier characters),
  number of pending bits, and the bytes pushed so far.
\<close>

fun b64_loop :: "string \<Rightarrow> nat \<Rightarrow> u32 \<Rightarrow> nat \<Rightarrow> bytes \<Rightarrow> b64_error + bytes" where
  "b64_loop [] i buf bits acc = Inr acc"
| "b64_loop (c # s) i buf bits acc =
     (if isspace c then b64_loop s (Suc i) buf bits acc
      else if c = CHR ''='' then Inr acc
      else
        let val = kBase64Table ! of_char c in
        if val < 0 then Inl (Invalid_base64_character c i)
        else
          let buf' = push_bit 6 buf OR word_of_int val; bits' = bits + 6 in
          if 8 \<le> bits'
          then b64_loop s (Suc i) buf' (bits' - 8)
                 (acc @ [ucast (drop_bit (bits' - 8) buf' AND 0xFF)])
          else b64_loop s (Suc i) buf' bits' acc)"

definition strip_data_uri :: "string \<Rightarrow> string" where
  "strip_data_uri input =
     (case find_sub '','' input of
        Some comma_pos \<Rightarrow>
          if contains (take comma_pos input) ''base64'' then drop (comma_pos + 1) input else input
      | None \<Rightarrow> input)"

definition decode_base64_chunked :: "string \<Rightarrow> b64_error + bytes" where
  "decode_base64_chunked input = b64_loop (strip_data_uri input) 0 0 0 []"


section \<open>The encoder as specification\<close>

definition b64_alphabet :: string where
  "b64_alphabet = ''ABCDEFGHIJKLMNOPQRSTUVWXYZabcdefghijklmnopqrstuvwxyz0123456789+/''"

definition b64_char :: "u8 \<Rightarrow> char" where
  "b64_char v = b64_alphabet ! unat v"

text \<open>The four six-bit groups of three bytes.\<close>

definition b64_g1 :: "u8 \<Rightarrow> u8" where "b64_g1 a = drop_bit 2 a"
definition b64_g2 :: "u8 \<Rightarrow> u8 \<Rightarrow> u8" where "b64_g2 a b = push_bit 4 (a AND 0x03) OR drop_bit 4 b"
definition b64_g3 :: "u8 \<Rightarrow> u8 \<Rightarrow> u8" where "b64_g3 b c = push_bit 2 (b AND 0x0F) OR drop_bit 6 c"
definition b64_g4 :: "u8 \<Rightarrow> u8" where "b64_g4 c = c AND 0x3F"

fun b64_encode :: "bytes \<Rightarrow> string" where
  "b64_encode (a # b # c # bs) =
     [b64_char (b64_g1 a), b64_char (b64_g2 a b), b64_char (b64_g3 b c), b64_char (b64_g4 c)]
     @ b64_encode bs"
| "b64_encode [a, b] =
     [b64_char (b64_g1 a), b64_char (b64_g2 a b), b64_char (b64_g3 b 0), CHR ''='']"
| "b64_encode [a] = [b64_char (b64_g1 a), b64_char (b64_g2 a 0), CHR ''='', CHR ''='']"
| "b64_encode [] = []"

definition b64_char_ok :: "nat \<Rightarrow> bool" where
  "b64_char_ok v \<longleftrightarrow> (let c = b64_alphabet ! v in
     \<not> isspace c \<and> c \<noteq> CHR ''='' \<and> c \<noteq> CHR '','' \<and> kBase64Table ! of_char c = int v)"

lemma b64_table_inverts_alphabet: "list_all b64_char_ok [0..<64]"
  by code_simp

lemma b64_char_props:
  assumes "v < 64"
  shows "\<not> isspace (b64_char v)" "b64_char v \<noteq> CHR ''=''" "b64_char v \<noteq> CHR '',''"
    "kBase64Table ! of_char (b64_char v) = int (unat v)"
proof -
  have "unat v < 64" using assms by (simp add: word_less_nat_alt)
  then have "b64_char_ok (unat v)"
    using b64_table_inverts_alphabet by (simp add: list_all_iff)
  then show "\<not> isspace (b64_char v)" "b64_char v \<noteq> CHR ''=''" "b64_char v \<noteq> CHR '',''"
    "kBase64Table ! of_char (b64_char v) = int (unat v)"
    by (simp_all add: b64_char_ok_def b64_char_def Let_def)
qed

text \<open>Shifting a group into the buffer, and the byte above the pending bits.\<close>

definition b64_put :: "u32 \<Rightarrow> u8 \<Rightarrow> u32" where "b64_put buf v = push_bit 6 buf OR ucast v"
definition b64_byte :: "nat \<Rightarrow> u32 \<Rightarrow> u8" where "b64_byte k buf = ucast (drop_bit k buf AND 0xFF)"

lemma b64_loop_char:
  assumes "v < 64"
  shows "b64_loop (b64_char v # s) i buf bits acc =
    (if 2 \<le> bits
     then b64_loop s (Suc i) (b64_put buf v) (bits - 2) (acc @ [b64_byte (bits - 2) (b64_put buf v)])
     else b64_loop s (Suc i) (b64_put buf v) (bits + 6) acc)"
proof -
  have "(word_of_int (int (unat v)) :: u32) = ucast v" by simp
  then show ?thesis
    using b64_char_props [OF assms] by (simp add: Let_def b64_put_def b64_byte_def)
qed

lemma and_masks:
  "(x::u8) AND 3 = take_bit 2 x" "x AND 15 = take_bit 4 x" "x AND 63 = take_bit 6 x"
  "(y::u32) AND 255 = take_bit 8 y"
  by (simp_all add: take_bit_eq_mask mask_eq_exp_minus_1)

lemma word_small_iff: "(\<And>n. bit w n \<Longrightarrow> n < 6) \<Longrightarrow> (w :: u8) < 64"
proof -
  assume a: "\<And>n. bit w n \<Longrightarrow> n < 6"
  have "take_bit 6 w = w" by (rule bit_word_eqI) (use a in \<open>auto simp: bit_simps\<close>)
  then have "unat w = take_bit 6 (unat w)" by (metis unsigned_take_bit_eq)
  also have "\<dots> < 2 ^ 6" by (rule take_bit_nat_less_exp)
  finally show ?thesis by (simp add: word_less_nat_alt)
qed

lemma b64_groups_small [simp]:
  "b64_g1 a < 64" "b64_g2 a b < 64" "b64_g3 b c < 64" "b64_g4 c < 64"
  unfolding b64_g1_def b64_g2_def b64_g3_def b64_g4_def and_masks
  by (rule word_small_iff, auto simp: bit_simps dest!: bit_imp_le_length)+

lemma u8_eqI:
  assumes "bit x 0 = bit y 0" "bit x 1 = bit y 1" "bit x 2 = bit y 2" "bit x 3 = bit y 3"
    "bit x 4 = bit y 4" "bit x 5 = bit y 5" "bit x 6 = bit y 6" "bit x 7 = bit y 7"
  shows "x = (y :: u8)"
proof (rule bit_word_eqI)
  fix n assume "n < LENGTH(8)"
  then have "n = 0 \<or> n = 1 \<or> n = 2 \<or> n = 3 \<or> n = 4 \<or> n = 5 \<or> n = 6 \<or> n = 7" by auto
  then show "bit x n = bit y n" using assms by (elim disjE) simp_all
qed

lemma u8_high [simp]: "8 \<le> n \<Longrightarrow> \<not> bit (w :: u8) n"
  using bit_imp_le_length [of w n] by auto

lemma b64_groups_bytes [simp]:
  "b64_byte 4 (b64_put (b64_put buf (b64_g1 a)) (b64_g2 a b)) = a"
  "b64_byte 2 (b64_put (b64_put buf (b64_g2 a b)) (b64_g3 b c)) = b"
  "b64_byte 0 (b64_put (b64_put buf (b64_g3 b c)) (b64_g4 c)) = c"
  unfolding b64_g1_def b64_g2_def b64_g3_def b64_g4_def b64_put_def b64_byte_def
  by (rule u8_eqI; simp add: and_masks bit_simps)+

lemma b64_loop_encode: "b64_loop (b64_encode bs) i buf 0 acc = Inr (acc @ bs)"
proof (induction bs arbitrary: i buf acc rule: b64_encode.induct)
  case (1 a b c bs)
  then show ?case
    by (simp add: b64_loop_char del: b64_loop.simps(2))
next
  case (2 a b)
  then show ?case
    by (simp add: b64_loop_char del: b64_loop.simps(2))
      (simp add: isspace_def)
next
  case (3 a)
  then show ?case
    by (simp add: b64_loop_char del: b64_loop.simps(2))
      (simp add: isspace_def)
qed simp

text \<open>Whitespace anywhere in the text is ignored.\<close>

lemma b64_loop_spaces:
  "b64_loop (filter (\<lambda>c. \<not> isspace c) s) j buf bits acc = Inr r \<Longrightarrow>
     b64_loop s i buf bits acc = Inr r"
proof (induction s arbitrary: i j buf bits acc)
  case (Cons c s)
  then show ?case by (auto simp: Let_def split: if_splits)
qed simp

lemma b64_encode_chars: "CHR '','' \<notin> set (b64_encode bs)"
  by (induction bs rule: b64_encode.induct) (simp_all add: b64_char_props(3) [symmetric])

lemma find_comma: "CHR '','' \<notin> set u \<Longrightarrow> find_sub '','' (u @ CHR '','' # s) = Some (length u)"
  by (induction u) auto

lemma find_comma_None: "CHR '','' \<notin> set s \<Longrightarrow> find_sub '','' s = None"
  by (induction s) auto

text \<open>
  C26. Base64 decoding inverts the RFC 4648 encoder: for every byte string, the decoder
  returns exactly those bytes from its encoding, with any whitespace inserted anywhere,
  bare or behind a data URI prefix (any text without comma that mentions base64, then a
  comma).
\<close>

theorem decode_base64_inverts_encode:
  assumes "filter (\<lambda>c. \<not> isspace c) s = b64_encode bs"
    "CHR '','' \<notin> set u" "contains u ''base64''"
  shows "decode_base64_chunked s = Inr bs \<and> decode_base64_chunked (u @ CHR '','' # s) = Inr bs"
proof -
  have "b64_loop s 0 0 0 [] = Inr bs"
    using b64_loop_spaces [of s 0 0 0 "[]" bs] b64_loop_encode [of bs 0 0 "[]"] by (simp add: assms(1))
  moreover have "CHR '','' \<notin> set s"
  proof
    assume "CHR '','' \<in> set s"
    then have "CHR '','' \<in> set (filter (\<lambda>c. \<not> isspace c) s)" by (simp add: isspace_def)
    then show False using b64_encode_chars by (auto simp: assms(1))
  qed
  then have "strip_data_uri s = s" by (simp add: strip_data_uri_def find_comma_None)
  moreover have "strip_data_uri (u @ CHR '','' # s) = s"
    using assms(2,3) by (simp add: strip_data_uri_def find_comma)
  ultimately show ?thesis by (simp add: decode_base64_chunked_def)
qed

theorem decode_base64_inverts_encode_witness:
  "decode_base64_chunked ''aGk ='' = Inr [0x68, 0x69]
   \<and> decode_base64_chunked ''data:image/png;base64,aGk ='' = Inr [0x68, 0x69]"
proof -
  have "filter (\<lambda>c. \<not> isspace c) ''aGk ='' = b64_encode [0x68, 0x69]" by code_simp
  moreover have "contains ''data:image/png;base64'' ''base64''" by code_simp
  ultimately show ?thesis
    using decode_base64_inverts_encode [of "''aGk =''" "[0x68, 0x69]" "''data:image/png;base64''"]
    by simp
qed

end
