(* ===== verification/Multipart.thy ===== *)
theory Multipart
  imports Json_Text
begin

text \<open>
  The multipart/form-data parser of \<^verbatim>\<open>src/serve/protocol.cpp\<close>. Positions are indices into
  the body, as in the code; the delimiter loop terminates because each round starts at a
  later occurrence of the delimiter.
\<close>

record multipart_part =
  part_name :: string
  part_filename :: string
  part_content_type :: string
  part_data :: string

abbreviation empty_part :: multipart_part where
  "empty_part \<equiv> \<lparr>part_name = [], part_filename = [], part_content_type = [], part_data = []\<rparr>"

type_synonym multipart_form = "multipart_part list"

datatype multipart_error = Empty_boundary | Boundary_not_found

definition CRLF :: string where "CRLF = [CHR 0x0D, NEWLINE]"

definition find_part :: "multipart_form \<Rightarrow> string \<Rightarrow> multipart_part option" where
  "find_part form name = find (\<lambda>p. part_name p = name) form"

text \<open>\<^verbatim>\<open>std::getline\<close> until it fails: the pieces between newlines, without an empty last one.\<close>

function lines_of :: "string \<Rightarrow> string list" where
  "lines_of s =
     (if s = [] then []
      else case dropWhile (\<lambda>c. c \<noteq> NEWLINE) s of
        [] \<Rightarrow> [s]
      | _ # rest \<Rightarrow> takeWhile (\<lambda>c. c \<noteq> NEWLINE) s # lines_of rest)"
  by pat_completeness auto
termination
proof (relation "measure length", goal_cases)
  case (2 s c rest)
  have "length (c # rest) \<le> length s" using 2 by (metis length_dropWhile_le)
  then show ?case by simp
qed simp

declare lines_of.simps [simp del]

definition ends_with :: "string \<Rightarrow> string \<Rightarrow> bool" where
  "ends_with s suf \<longleftrightarrow> length suf \<le> length s \<and> drop (length s - length suf) s = suf"

text \<open>The quoted value after \<open>key\<close> (such as \<^verbatim>\<open>name="\<close>), if it is terminated by a quote.\<close>

definition quoted_after :: "string \<Rightarrow> string \<Rightarrow> string option" where
  "quoted_after key h_val =
     (case find_sub key h_val of
        None \<Rightarrow> None
      | Some p \<Rightarrow>
          let start = p + length key in
          (case find_sub_from [QUOTE] h_val start of
             None \<Rightarrow> None
           | Some e \<Rightarrow> Some (slice start (e - start) h_val)))"

definition header_line :: "multipart_part \<Rightarrow> string \<Rightarrow> multipart_part" where
  "header_line part line0 =
     (let line = (if line0 \<noteq> [] \<and> last line0 = CHR 0x0D then butlast line0 else line0) in
      case find_sub '':'' line of
        None \<Rightarrow> part
      | Some colon \<Rightarrow>
          let h_name = take colon line;
              h_val = dropWhile (\<lambda>c. c = CHR '' '' \<or> c = CHR 0x09) (drop (colon + 1) line);
              h_name_lower = map tolower h_name
          in
          if h_name_lower = ''content-disposition'' then
            let part1 = (case quoted_after (''name='' @ [QUOTE]) h_val of
                           Some v \<Rightarrow> part\<lparr>part_name := v\<rparr> | None \<Rightarrow> part)
            in (case quoted_after (''filename='' @ [QUOTE]) h_val of
                  Some v \<Rightarrow> part1\<lparr>part_filename := v\<rparr> | None \<Rightarrow> part1)
          else if h_name_lower = ''content-type'' then part\<lparr>part_content_type := h_val\<rparr>
          else part)"

definition trim_part_data :: "string \<Rightarrow> string" where
  "trim_part_data d =
     (if 2 \<le> length d \<and> ends_with d CRLF then take (length d - 2) d
      else if d \<noteq> [] \<and> last d = NEWLINE then butlast d
      else d)"

text \<open>One part: \<open>None\<close> when there is no blank line after the headers (the part is ignored).\<close>

definition parse_part :: "string \<Rightarrow> multipart_part option" where
  "parse_part part_raw =
     (case (case find_sub (CRLF @ CRLF) part_raw of
              Some e \<Rightarrow> Some (e, 4 :: nat)
            | None \<Rightarrow> map_option (\<lambda>e. (e, 2)) (find_sub [NEWLINE, NEWLINE] part_raw)) of
        None \<Rightarrow> None
      | Some (header_end, sep_len) \<Rightarrow>
          let header_section = take header_end part_raw;
              part = empty_part\<lparr>part_data := trim_part_data (drop (header_end + sep_len) part_raw)\<rparr>
          in Some (foldl header_line part (lines_of header_section)))"

lemma find_sub_from_D:
  "find_sub_from pat s pos = Some i \<Longrightarrow> pos \<le> i \<and> i + length pat \<le> length s"
  by (auto simp: find_sub_from_def split: if_splits dest!: find_sub_Some_D)

text \<open>The delimiter loop, from the position of a delimiter.\<close>

definition after_delim :: "string \<Rightarrow> string \<Rightarrow> nat \<Rightarrow> nat" where
  "after_delim body delim pos0 =
     (let pos = pos0 + length delim in
      if pos + 2 \<le> length body \<and> slice pos 2 body = CRLF then pos + 2
      else if pos + 1 \<le> length body \<and> body ! pos = NEWLINE then pos + 1
      else pos)"

function parts_loop :: "string \<Rightarrow> string \<Rightarrow> nat \<Rightarrow> multipart_form \<Rightarrow> multipart_form" where
  "parts_loop body delim pos0 parts =
     (if delim = [] then parts
      else if pos0 + length delim + 2 \<le> length body \<and> slice (pos0 + length delim) 2 body = ''--''
      then parts
      else
        let pos = after_delim body delim pos0 in
        case find_sub_from delim body pos of
          None \<Rightarrow> parts
        | Some next_delim \<Rightarrow>
            parts_loop body delim next_delim
              (case parse_part (slice pos (next_delim - pos) body) of
                 None \<Rightarrow> parts
               | Some part \<Rightarrow> parts @ [part]))"
  by pat_completeness auto
termination
proof (relation "measure (\<lambda>(body, delim, pos, parts). Suc (length body) - pos)", goal_cases)
  case (2 body delim pos0 parts pos nxt)
  have "pos0 + length delim \<le> pos" by (simp add: 2 after_delim_def Let_def)
  moreover have "pos \<le> nxt \<and> nxt + length delim \<le> length body"
    using find_sub_from_D [OF 2(4)] .
  moreover have "0 < length delim" using 2(1) by simp
  ultimately have "pos0 < nxt" "nxt \<le> length body" by linarith+
  then show ?case by simp
qed simp

declare parts_loop.simps [simp del]

definition parse_multipart_form_data :: "string \<Rightarrow> string \<Rightarrow> multipart_error + multipart_form" where
  "parse_multipart_form_data body boundary0 =
     (if boundary0 = [] then Inl Empty_boundary
      else
        let boundary =
              (if 2 \<le> length boundary0 \<and> hd boundary0 = QUOTE \<and> last boundary0 = QUOTE
               then slice 1 (length boundary0 - 2) boundary0 else boundary0);
            delim = ''--'' @ boundary
        in case find_sub delim body of
             None \<Rightarrow> Inl Boundary_not_found
           | Some pos \<Rightarrow> Inr (parts_loop body delim pos []))"

end
