(* ===== verification/Protocol.thy ===== *)
theory Protocol
  imports Base64 Multipart
begin

text \<open>
  The OpenAI-style request and response types of \<^verbatim>\<open>src/serve/protocol.h/.cpp\<close>: parsing a chat
  completion request from JSON or from a multipart form, and printing responses, stream
  events and errors. Parsing takes the conversions \<open>stod\<close> (\<^verbatim>\<open>std::stod\<close>) and \<open>f32\<close> (double to
  float) as parameters. The printers are shown to emit JSON that the parser reads back.
\<close>

record chat_message =
  role :: string
  content :: string
  reasoning_content :: string

record image_payload =
  raw_bytes :: bytes
  img_width :: int
  img_height :: int
  img_channels :: int
  img_format :: string

definition empty_image :: image_payload where
  "empty_image = \<lparr>raw_bytes = [], img_width = 0, img_height = 0, img_channels = 3, img_format = []\<rparr>"

record chat_completion_request =
  req_model :: string
  req_messages :: "chat_message list"
  req_images :: "image_payload list"
  req_max_tokens :: int
  req_temperature :: rat
  req_top_p :: rat
  req_stream :: bool

definition default_request :: chat_completion_request where
  "default_request = \<lparr>req_model = ''qwen3.8-27b'', req_messages = [], req_images = [],
     req_max_tokens = 256, req_temperature = 0, req_top_p = 1, req_stream = False\<rparr>"

record chat_choice =
  choice_index :: int
  choice_message :: chat_message
  choice_finish_reason :: string

record usage_info =
  prompt_tokens :: nat
  completion_tokens :: nat
  total_tokens :: nat

record chat_completion_response =
  resp_id :: string
  resp_created :: int
  resp_model :: string
  resp_choices :: "chat_choice list"
  resp_usage :: usage_info

record chunk_choice =
  chunk_index :: int
  delta_role :: "string option"
  delta_content :: "string option"
  delta_reasoning :: "string option"
  chunk_finish_reason :: "string option"

record chat_completion_chunk =
  chunk_id :: string
  chunk_created :: int
  chunk_model :: string
  chunk_choices :: "chunk_choice list"

record api_error =
  status_code :: int
  err_message :: string
  err_type :: string
  err_code :: string
  err_param :: string

definition default_error :: api_error where
  "default_error = \<lparr>status_code = 400, err_message = [], err_type = ''invalid_request_error'',
     err_code = ''bad_request'', err_param = []\<rparr>"

definition api_err :: "string \<Rightarrow> string \<Rightarrow> api_error" where
  "api_err code msg = default_error\<lparr>err_code := code, err_message := msg\<rparr>"


section \<open>Printing\<close>

definition completion_id :: "u64 \<Rightarrow> u64 \<Rightarrow> string" where
  "completion_id r1 r2 =
     ''chatcmpl-'' @ map (\<lambda>i. hex_char (unat r1 div 16 ^ i mod 16)) (rev [0..<16])
     @ map (\<lambda>i. hex_char (unat (r2 AND 0xFFFFFFFF) div 16 ^ i mod 16)) (rev [0..<8])"

abbreviation key_text :: "string \<Rightarrow> string" where
  "key_text k \<equiv> [QUOTE] @ k @ [QUOTE] @ '':''"

definition choice_to_json :: "chat_choice \<Rightarrow> string" where
  "choice_to_json c =
     ''{'' @ key_text ''index'' @ to_string_int (choice_index c)
     @ '','' @ key_text ''message'' @ ''{'' @ key_text ''role''
     @ escape_json_string (role (choice_message c))
     @ '','' @ key_text ''content'' @ escape_json_string (content (choice_message c))
     @ (if reasoning_content (choice_message c) = [] then []
        else '','' @ key_text ''reasoning_content''
          @ escape_json_string (reasoning_content (choice_message c)))
     @ ''}'' @ '','' @ key_text ''finish_reason'' @ escape_json_string (choice_finish_reason c) @ ''}''"

fun sep_by_comma :: "string list \<Rightarrow> string" where
  "sep_by_comma [] = []"
| "sep_by_comma (x # xs) = x @ (if xs = [] then [] else '','' @ sep_by_comma xs)"

definition response_to_json :: "chat_completion_response \<Rightarrow> string" where
  "response_to_json r =
     ''{'' @ key_text ''id'' @ escape_json_string (resp_id r)
     @ '','' @ key_text ''object'' @ [QUOTE] @ ''chat.completion'' @ [QUOTE]
     @ '','' @ key_text ''created'' @ to_string_int (resp_created r)
     @ '','' @ key_text ''model'' @ escape_json_string (resp_model r)
     @ '','' @ key_text ''choices'' @ ''['' @ sep_by_comma (map choice_to_json (resp_choices r)) @ '']''
     @ '','' @ key_text ''usage'' @ ''{''
     @ key_text ''prompt_tokens'' @ to_string (prompt_tokens (resp_usage r))
     @ '','' @ key_text ''completion_tokens'' @ to_string (completion_tokens (resp_usage r))
     @ '','' @ key_text ''total_tokens'' @ to_string (total_tokens (resp_usage r))
     @ ''}}''"

definition delta_fields :: "chunk_choice \<Rightarrow> string list" where
  "delta_fields c =
     (case delta_role c of None \<Rightarrow> [] | Some s \<Rightarrow> [key_text ''role'' @ escape_json_string s])
     @ (case delta_content c of None \<Rightarrow> [] | Some s \<Rightarrow> [key_text ''content'' @ escape_json_string s])
     @ (case delta_reasoning c of None \<Rightarrow> []
        | Some s \<Rightarrow> [key_text ''reasoning_content'' @ escape_json_string s])"

definition chunk_choice_to_json :: "chunk_choice \<Rightarrow> string" where
  "chunk_choice_to_json c =
     ''{'' @ key_text ''index'' @ to_string_int (chunk_index c)
     @ '','' @ key_text ''delta'' @ ''{'' @ sep_by_comma (delta_fields c) @ ''}''
     @ '','' @ key_text ''finish_reason''
     @ (case chunk_finish_reason c of None \<Rightarrow> ''null'' | Some s \<Rightarrow> escape_json_string s) @ ''}''"

definition to_sse_event :: "chat_completion_chunk \<Rightarrow> string" where
  "to_sse_event k =
     ''data: '' @
     (''{'' @ key_text ''id'' @ escape_json_string (chunk_id k)
     @ '','' @ key_text ''object'' @ [QUOTE] @ ''chat.completion.chunk'' @ [QUOTE]
     @ '','' @ key_text ''created'' @ to_string_int (chunk_created k)
     @ '','' @ key_text ''model'' @ escape_json_string (chunk_model k)
     @ '','' @ key_text ''choices'' @ ''['' @ sep_by_comma (map chunk_choice_to_json (chunk_choices k))
     @ '']}'') @ [NEWLINE, NEWLINE]"

definition error_to_json :: "api_error \<Rightarrow> string" where
  "error_to_json e =
     ''{'' @ key_text ''error'' @ ''{''
     @ key_text ''message'' @ escape_json_string (err_message e)
     @ '','' @ key_text ''type'' @ escape_json_string (err_type e)
     @ '','' @ key_text ''param''
     @ (if err_param e = [] then ''null'' else escape_json_string (err_param e))
     @ '','' @ key_text ''code'' @ escape_json_string (err_code e)
     @ ''}}''"

definition make_context_length_exceeded_error :: "nat \<Rightarrow> nat \<Rightarrow> int \<Rightarrow> api_error" where
  "make_context_length_exceeded_error max_seq_len prompt max_new =
     default_error\<lparr>err_code := ''context_length_exceeded'', err_param := ''messages'',
       err_message :=
         (if max_seq_len < prompt then
            ''This model'' @ [CHR 0x27] @ ''s maximum context length is '' @ to_string max_seq_len
            @ '' tokens. However, your messages resulted in '' @ to_string prompt
            @ '' tokens. Please reduce the length of the messages.''
          else
            let total_requested = unat ((word_of_nat prompt :: u64) + word_of_int (max 0 max_new)) in
            ''This model'' @ [CHR 0x27] @ ''s maximum context length is '' @ to_string max_seq_len
            @ '' tokens. However, you requested '' @ to_string total_requested
            @ '' tokens ('' @ to_string prompt @ '' in the messages, '' @ to_string_int max_new
            @ '' in the completion). Please reduce the length of the messages or completion.'')\<rparr>"



section \<open>Error texts\<close>

abbreviation APOS :: char where "APOS \<equiv> CHR 0x27"

fun json_error_text :: "json_error \<Rightarrow> string" where
  "json_error_text Empty_JSON_input = ''Empty JSON input''"
| "json_error_text Trailing_characters = ''Unexpected trailing characters after JSON''"
| "json_error_text (Unexpected_character c) =
     ''Unexpected character in JSON: '' @ [APOS, c, APOS]"
| "json_error_text Expected_string_key = ''Expected string key in object''"
| "json_error_text Expected_colon = ''Expected '' @ [APOS, CHR '':'', APOS] @ '' after object key''"
| "json_error_text Expected_comma_or_brace =
     ''Expected '' @ [APOS, CHR '','', APOS] @ '' or '' @ [APOS, CHR ''}'', APOS] @ '' in object''"
| "json_error_text Expected_comma_or_bracket =
     ''Expected '' @ [APOS, CHR '','', APOS] @ '' or '' @ [APOS, CHR '']'', APOS] @ '' in array''"
| "json_error_text Expected_quote = ''Expected '' @ [APOS, QUOTE, APOS]"
| "json_error_text EOF_in_escape = ''Unexpected EOF in string escape''"
| "json_error_text Invalid_unicode_escape = ''Invalid unicode escape''"
| "json_error_text Invalid_hex_digit = ''Invalid hex digit in unicode escape''"
| "json_error_text Invalid_hex_low = ''Invalid hex digit in low surrogate''"
| "json_error_text Invalid_low_surrogate = ''Invalid UTF-16 low surrogate in unicode escape''"
| "json_error_text Expected_low_surrogate = ''Expected UTF-16 low surrogate after high surrogate''"
| "json_error_text Unpaired_low_surrogate = ''Unpaired UTF-16 low surrogate in unicode escape''"
| "json_error_text Code_point_out_of_range = ''Unicode code point out of range''"
| "json_error_text Unterminated_string = ''Unterminated string in JSON''"
| "json_error_text Invalid_number_format = ''Invalid number format''"
| "json_error_text (Failed_number_conversion s) = ''Failed to convert number: '' @ s"
| "json_error_text Invalid_boolean = ''Invalid boolean literal''"
| "json_error_text Invalid_null = ''Invalid null literal''"
| "json_error_text Out_of_fuel = []"

fun b64_error_text :: "b64_error \<Rightarrow> string" where
  "b64_error_text (Invalid_base64_character c i) =
     ''Invalid base64 character '' @ [APOS, c, APOS] @ '' at position '' @ to_string i"

fun multipart_error_text :: "multipart_error \<Rightarrow> string" where
  "multipart_error_text Empty_boundary = ''Empty multipart boundary''"
| "multipart_error_text Boundary_not_found = ''Boundary delimiter not found in multipart body''"


section \<open>Chat completion requests\<close>

text \<open>
  Conversions of a double to \<^verbatim>\<open>int64_t\<close> and \<^verbatim>\<open>int\<close> truncate. Out of range they are undefined in
  C++; on x86-64 the result is the least integer, which is what the model has.
\<close>

definition cast_int64 :: "rat \<Rightarrow> int" where
  "cast_int64 q = (if - (2 ^ 63) \<le> trunc q \<and> trunc q < 2 ^ 63 then trunc q else - (2 ^ 63))"

definition cast_int32 :: "rat \<Rightarrow> int" where
  "cast_int32 q = (if - (2 ^ 31) \<le> trunc q \<and> trunc q < 2 ^ 31 then trunc q else - (2 ^ 31))"

text \<open>One element of a multimodal content array: text so far and images so far.\<close>

definition content_part ::
    "json \<Rightarrow> string \<times> image_payload list \<Rightarrow> api_error + string \<times> image_payload list" where
  "content_part part acc =
     (case acc of (text_accum, images) \<Rightarrow>
      case part of
        JObject kvs \<Rightarrow>
          let part_type = get_string part ''type'' [] in
          if part_type = ''text'' then Inr (text_accum @ get_string part ''text'' [], images)
          else if part_type = ''image_url'' then
            let url = (case json_find part ''image_url'' of
                         Some url_obj \<Rightarrow> get_string url_obj ''url'' []
                       | None \<Rightarrow> get_string part ''url'' [])
            in
            if url = [] then Inr acc
            else
              (case decode_base64_chunked url of
                 Inl e \<Rightarrow> Inl (api_err ''invalid_image_base64''
                           (''Failed to decode base64 image: '' @ b64_error_text e))
               | Inr bs \<Rightarrow>
                   Inr ((if text_accum \<noteq> [] \<and> last text_accum \<noteq> NEWLINE
                         then text_accum @ [NEWLINE] else text_accum) @ ''<image>'',
                        images @ [empty_image\<lparr>raw_bytes := bs\<rparr>]))
          else Inr acc
      | _ \<Rightarrow> Inr acc)"

fun content_parts ::
    "json list \<Rightarrow> string \<times> image_payload list \<Rightarrow> api_error + string \<times> image_payload list" where
  "content_parts [] acc = Inr acc"
| "content_parts (p # ps) acc =
     (case content_part p acc of Inl e \<Rightarrow> Inl e | Inr acc' \<Rightarrow> content_parts ps acc')"

text \<open>The loop over \<^verbatim>\<open>messages\<close> from index \<open>i\<close>.\<close>

fun parse_messages ::
    "nat \<Rightarrow> json list \<Rightarrow> chat_message list \<Rightarrow> image_payload list
     \<Rightarrow> api_error + chat_message list \<times> image_payload list" where
  "parse_messages i [] msgs images = Inr (msgs, images)"
| "parse_messages i (item # items) msgs images =
     (case item of
        JObject kvs \<Rightarrow>
          let r = get_string item ''role'' [] in
          (case (case json_find item ''content'' of
                   Some (JArray parts) \<Rightarrow> content_parts parts ([], images)
                 | _ \<Rightarrow> Inr (get_string item ''content'' [], images)) of
             Inl e \<Rightarrow> Inl e
           | Inr (txt, images') \<Rightarrow>
               if r = [] then
                 Inl (api_err ''missing_role'' (''Message at index '' @ to_string i
                        @ '' is missing required field '' @ [APOS] @ ''role'' @ [APOS]))
               else parse_messages (Suc i) items
                      (msgs @ [\<lparr>role = r, content = txt, reasoning_content = []\<rparr>]) images')
      | _ \<Rightarrow> Inl (api_err ''invalid_message''
                (''Each item in '' @ [APOS] @ ''messages'' @ [APOS] @ '' must be a JSON object'')))"

definition invalid_max_tokens :: api_error where
  "invalid_max_tokens = (api_err ''invalid_parameter''
     (''Invalid '' @ [APOS] @ ''max_tokens'' @ [APOS] @ '': must be greater than 0''))
     \<lparr>err_param := ''max_tokens''\<rparr>"

definition parse_chat_completion_request ::
    "(string \<Rightarrow> rat option) \<Rightarrow> (rat \<Rightarrow> rat) \<Rightarrow> string \<Rightarrow> chat_completion_request
     \<Rightarrow> api_error + chat_completion_request" where
  "parse_chat_completion_request stod f32 json_str req =
     (case parse_json stod json_str of
        Inl e \<Rightarrow> Inl (api_err ''parse_error''
                  (''Failed to parse JSON request body: '' @ json_error_text e))
      | Inr doc \<Rightarrow>
          (case doc of
             JObject kvs \<Rightarrow>
               let req1 = req\<lparr>req_model := get_string doc ''model'' ''qwen3.8-27b'',
                     req_temperature := f32 (get_double doc ''temperature'' 0),
                     req_top_p := f32 (get_double doc ''top_p'' 1),
                     req_stream := get_bool doc ''stream'' False\<rparr>
               in
               (case (case json_find doc ''max_tokens'' of
                        None \<Rightarrow> Inr 256
                      | Some (JNumber n) \<Rightarrow>
                          if cast_int64 n \<le> 0 then Inl invalid_max_tokens else Inr (cast_int32 n)
                      | Some _ \<Rightarrow> Inl invalid_max_tokens) of
                  Inl e \<Rightarrow> Inl e
                | Inr mt \<Rightarrow>
                    if mt \<le> 0 then Inl invalid_max_tokens
                    else
                      (case json_find doc ''messages'' of
                         Some (JArray (m # ms)) \<Rightarrow>
                           (case parse_messages 0 (m # ms) [] [] of
                              Inl e \<Rightarrow> Inl e
                            | Inr (msgs, images) \<Rightarrow>
                                Inr (req1\<lparr>req_max_tokens := mt, req_messages := msgs,
                                          req_images := images\<rparr>))
                       | _ \<Rightarrow> Inl (api_err ''missing_required_field''
                               (''Field '' @ [APOS] @ ''messages'' @ [APOS]
                                @ '' is required and must be a non-empty array''))))
           | _ \<Rightarrow> Inl (api_err ''bad_request'' ''Request body must be a JSON object'')))"


section \<open>Multipart requests\<close>

definition part_image :: "multipart_part \<Rightarrow> image_payload option" where
  "part_image p =
     (if part_name p = ''image'' \<or> part_name p = ''file''
         \<or> starts_with (part_content_type p) ''image/''
      then Some (empty_image\<lparr>raw_bytes := bytes_of_string (part_data p),
                             img_format := part_content_type p\<rparr>)
      else None)"

text \<open>Prefix the first user message with an image tag.\<close>

fun tag_first_user :: "chat_message list \<Rightarrow> chat_message list" where
  "tag_first_user [] = []"
| "tag_first_user (m # ms) =
     (if role m = ''user'' then m\<lparr>content := ''<image>'' @ [NEWLINE] @ content m\<rparr> # ms
      else m # tag_first_user ms)"

definition parse_multipart_chat_completion_request ::
    "(string \<Rightarrow> rat option) \<Rightarrow> (rat \<Rightarrow> rat) \<Rightarrow> string \<Rightarrow> string \<Rightarrow> chat_completion_request
     \<Rightarrow> api_error + chat_completion_request" where
  "parse_multipart_chat_completion_request stod f32 body boundary req =
     (case parse_multipart_form_data body boundary of
        Inl e \<Rightarrow> Inl (api_err ''multipart_parse_error''
                  (''Failed to parse multipart form-data: '' @ multipart_error_text e))
      | Inr form \<Rightarrow>
          let msg_part = (case find_part form ''messages'' of Some p \<Rightarrow> Some p
                | None \<Rightarrow> (case find_part form ''json'' of Some p \<Rightarrow> Some p
                   | None \<Rightarrow> find_part form ''request''))
          in
          (case (case msg_part of
                   Some p \<Rightarrow> parse_chat_completion_request stod f32 (part_data p) req
                 | None \<Rightarrow>
                     (case find_part form ''prompt'' of
                        Some p \<Rightarrow> Inr (req\<lparr>req_messages := req_messages req
                          @ [\<lparr>role = ''user'', content = part_data p, reasoning_content = []\<rparr>]\<rparr>)
                      | None \<Rightarrow> Inr req)) of
             Inl e \<Rightarrow> Inl e
           | Inr req1 \<Rightarrow>
               let req2 = req1\<lparr>req_images := req_images req1 @ List.map_filter part_image form\<rparr> in
               if req_messages req2 = [] then
                 Inl (api_err ''missing_required_field'' (''Multipart request must contain a ''
                   @ [APOS] @ ''messages'' @ [APOS] @ '' or '' @ [APOS] @ ''prompt'' @ [APOS]
                   @ '' field''))
               else if req_images req2 \<noteq> []
                  \<and> \<not> list_ex (\<lambda>m. contains (content m) ''<image>'') (req_messages req2) then
                 Inr (req2\<lparr>req_messages := tag_first_user (req_messages req2)\<rparr>)
               else Inr req2))"



section \<open>What the printers emit\<close>

definition choice_json :: "chat_choice \<Rightarrow> json" where
  "choice_json c = JObject [(''index'', JNumber (of_int (choice_index c))),
     (''message'', JObject ([(''role'', JString (role (choice_message c))),
        (''content'', JString (content (choice_message c)))]
        @ (if reasoning_content (choice_message c) = [] then []
           else [(''reasoning_content'', JString (reasoning_content (choice_message c)))]))),
     (''finish_reason'', JString (choice_finish_reason c))]"

definition response_json :: "chat_completion_response \<Rightarrow> json" where
  "response_json r = JObject [(''id'', JString (resp_id r)), (''object'', JString ''chat.completion''),
     (''created'', JNumber (of_int (resp_created r))), (''model'', JString (resp_model r)),
     (''choices'', JArray (map choice_json (resp_choices r))),
     (''usage'', JObject [(''prompt_tokens'', JNumber (of_nat (prompt_tokens (resp_usage r)))),
        (''completion_tokens'', JNumber (of_nat (completion_tokens (resp_usage r)))),
        (''total_tokens'', JNumber (of_nat (total_tokens (resp_usage r))))])]"

definition delta_json :: "chunk_choice \<Rightarrow> (string \<times> json) list" where
  "delta_json c =
     (case delta_role c of None \<Rightarrow> [] | Some s \<Rightarrow> [(''role'', JString s)])
     @ (case delta_content c of None \<Rightarrow> [] | Some s \<Rightarrow> [(''content'', JString s)])
     @ (case delta_reasoning c of None \<Rightarrow> [] | Some s \<Rightarrow> [(''reasoning_content'', JString s)])"

definition chunk_choice_json :: "chunk_choice \<Rightarrow> json" where
  "chunk_choice_json c = JObject [(''index'', JNumber (of_int (chunk_index c))),
     (''delta'', JObject (delta_json c)),
     (''finish_reason'', case chunk_finish_reason c of None \<Rightarrow> JNull | Some s \<Rightarrow> JString s)]"

definition chunk_json :: "chat_completion_chunk \<Rightarrow> json" where
  "chunk_json k = JObject [(''id'', JString (chunk_id k)),
     (''object'', JString ''chat.completion.chunk''),
     (''created'', JNumber (of_int (chunk_created k))), (''model'', JString (chunk_model k)),
     (''choices'', JArray (map chunk_choice_json (chunk_choices k)))]"

definition error_json :: "api_error \<Rightarrow> json" where
  "error_json e = JObject [(''error'', JObject [(''message'', JString (err_message e)),
     (''type'', JString (err_type e)),
     (''param'', if err_param e = [] then JNull else JString (err_param e)),
     (''code'', JString (err_code e))])]"

lemma plain_keys:
  "escape_json_string ''id'' = [QUOTE] @ ''id'' @ [QUOTE]"
  "escape_json_string ''object'' = [QUOTE] @ ''object'' @ [QUOTE]"
  "escape_json_string ''created'' = [QUOTE] @ ''created'' @ [QUOTE]"
  "escape_json_string ''model'' = [QUOTE] @ ''model'' @ [QUOTE]"
  "escape_json_string ''choices'' = [QUOTE] @ ''choices'' @ [QUOTE]"
  "escape_json_string ''usage'' = [QUOTE] @ ''usage'' @ [QUOTE]"
  "escape_json_string ''prompt_tokens'' = [QUOTE] @ ''prompt_tokens'' @ [QUOTE]"
  "escape_json_string ''completion_tokens'' = [QUOTE] @ ''completion_tokens'' @ [QUOTE]"
  "escape_json_string ''total_tokens'' = [QUOTE] @ ''total_tokens'' @ [QUOTE]"
  "escape_json_string ''index'' = [QUOTE] @ ''index'' @ [QUOTE]"
  "escape_json_string ''message'' = [QUOTE] @ ''message'' @ [QUOTE]"
  "escape_json_string ''role'' = [QUOTE] @ ''role'' @ [QUOTE]"
  "escape_json_string ''content'' = [QUOTE] @ ''content'' @ [QUOTE]"
  "escape_json_string ''reasoning_content'' = [QUOTE] @ ''reasoning_content'' @ [QUOTE]"
  "escape_json_string ''finish_reason'' = [QUOTE] @ ''finish_reason'' @ [QUOTE]"
  "escape_json_string ''delta'' = [QUOTE] @ ''delta'' @ [QUOTE]"
  "escape_json_string ''error'' = [QUOTE] @ ''error'' @ [QUOTE]"
  "escape_json_string ''type'' = [QUOTE] @ ''type'' @ [QUOTE]"
  "escape_json_string ''param'' = [QUOTE] @ ''param'' @ [QUOTE]"
  "escape_json_string ''code'' = [QUOTE] @ ''code'' @ [QUOTE]"
  "escape_json_string ''chat.completion'' = [QUOTE] @ ''chat.completion'' @ [QUOTE]"
  "escape_json_string ''chat.completion.chunk'' = [QUOTE] @ ''chat.completion.chunk'' @ [QUOTE]"
  by (simp_all add: escape_json_string_def escape_char_def)

lemma to_string_eq: "to_string n = to_string_int (int n)"
  by (simp add: to_string_def to_string_int_def)

lemma render_number_nat: "render (JNumber (of_nat n)) = to_string n"
  by (simp add: to_string_eq)

lemma sep_by_comma_elems:
  "(\<And>x. x \<in> set xs \<Longrightarrow> f x = render (g x)) \<Longrightarrow>
     sep_by_comma (map f xs) = render_elems (map g xs)"
  by (induction xs) auto

lemma choice_to_json_render: "choice_to_json c = render (choice_json c)"
  by (simp add: choice_to_json_def choice_json_def plain_keys)

lemma response_to_json_render: "response_to_json r = render (response_json r)"
  using sep_by_comma_elems [of "resp_choices r" choice_to_json choice_json]
  by (simp add: response_to_json_def response_json_def plain_keys choice_to_json_render to_string_eq)

lemma delta_fields_render: "sep_by_comma (delta_fields c) = render_members (delta_json c)"
  by (simp add: delta_fields_def delta_json_def plain_keys split: option.split)

lemma chunk_choice_render: "chunk_choice_to_json c = render (chunk_choice_json c)"
  by (simp add: chunk_choice_to_json_def chunk_choice_json_def plain_keys delta_fields_render
      split: option.split)

lemma to_sse_event_render:
  "to_sse_event k = ''data: '' @ render (chunk_json k) @ [NEWLINE, NEWLINE]"
  using sep_by_comma_elems [of "chunk_choices k" chunk_choice_to_json chunk_choice_json]
  by (simp add: to_sse_event_def chunk_json_def plain_keys chunk_choice_render)

lemma error_to_json_render: "error_to_json e = render (error_json e)"
  by (simp add: error_to_json_def error_json_def plain_keys)

text \<open>Printed JSON has no newline: control characters in strings are escaped.\<close>

lemma unicode4_no_newline: "NEWLINE \<notin> set (unicode4 n)"
proof -
  have "NEWLINE \<noteq> hex_char (m mod 16)" for m
  proof
    assume "NEWLINE = hex_char (m mod 16)"
    moreover have "\<not> isxdigit NEWLINE" by (simp add: isxdigit_def isdigit_def)
    ultimately show False using isxdigit_hex_char [of m] by simp
  qed
  then show ?thesis by (simp add: unicode4_def)
qed

lemma escape_char_no_newline: "NEWLINE \<notin> set (escape_char c)"
  using unicode4_no_newline by (simp add: escape_char_def)

lemma render_no_newline:
  "NEWLINE \<notin> set (render j)" "NEWLINE \<notin> set (render_elems xs)" "NEWLINE \<notin> set (render_members kvs)"
proof (induction j and xs and kvs rule: render_render_elems_render_members.induct)
  case (3 q)
  have "NEWLINE \<notin> set (nat_digits n)" for n
    using nat_digits_digits [of n] by (auto simp: list_all_iff isdigit_def)
  then show ?case by (simp add: to_string_int_def)
next
  case (4 s)
  then show ?case using escape_char_no_newline by (auto simp: escape_json_string_def)
next
  case (10 k v kvs)
  then show ?case using escape_char_no_newline by (auto simp: escape_json_string_def)
qed auto


text \<open>
  C24. Everything the server sends is well-formed JSON with exactly the intended fields: the
  bodies of responses and errors parse back to their field structure, and a stream event is
  one \<^verbatim>\<open>data:\<close> line (no newline inside, whatever the generated text contains) with such a
  body, ended by a blank line. The numbers printed must be ones that \<^verbatim>\<open>std::stod\<close> reads back.
\<close>

theorem server_output_is_json:
  assumes "printable stod (response_json r)" "printable stod (chunk_json k)"
  shows "parse_json stod (response_to_json r) = Inr (response_json r)
    \<and> parse_json stod (error_to_json e) = Inr (error_json e)
    \<and> (\<exists>body. to_sse_event k = ''data: '' @ body @ [NEWLINE, NEWLINE]
         \<and> NEWLINE \<notin> set body \<and> parse_json stod body = Inr (chunk_json k))"
proof -
  have "printable stod (error_json e)" by (simp add: error_json_def)
  then show ?thesis
    using assms render_no_newline(1) [of "chunk_json k"]
    by (simp add: response_to_json_render error_to_json_render to_sse_event_render parse_json_render)
qed

theorem server_output_is_json_witness:
  "parse_json (\<lambda>s. if s = ''0'' then Some 0 else None) (response_to_json \<lparr>resp_id = ''x'',
      resp_created = 0, resp_model = ''m'', resp_choices = [],
      resp_usage = \<lparr>prompt_tokens = 0, completion_tokens = 0, total_tokens = 0\<rparr>\<rparr>)
   = Inr (response_json \<lparr>resp_id = ''x'',
      resp_created = 0, resp_model = ''m'', resp_choices = [],
      resp_usage = \<lparr>prompt_tokens = 0, completion_tokens = 0, total_tokens = 0\<rparr>\<rparr>)"
proof -
  have "to_string_int 0 = ''0''" by code_simp
  then show ?thesis
    using server_output_is_json [of "\<lambda>s. if s = ''0'' then Some 0 else None"
        "\<lparr>resp_id = ''x'', resp_created = 0, resp_model = ''m'', resp_choices = [],
          resp_usage = \<lparr>prompt_tokens = 0, completion_tokens = 0, total_tokens = 0\<rparr>\<rparr>"
        "\<lparr>chunk_id = [], chunk_created = 0, chunk_model = [], chunk_choices = []\<rparr>" default_error]
    by (simp add: response_json_def chunk_json_def)
qed


section \<open>What an accepted request satisfies\<close>

definition message_ok :: "chat_message \<Rightarrow> bool" where
  "message_ok m \<longleftrightarrow> role m \<noteq> [] \<and> reasoning_content m = []"

lemma parse_messages_ok:
  "parse_messages i items msgs images = Inr (msgs', images') \<Longrightarrow> list_all message_ok msgs \<Longrightarrow>
     list_all message_ok msgs' \<and> length msgs' = length msgs + length items"
proof (induction i items msgs images rule: parse_messages.induct)
  case (1 i msgs images)
  then show ?case by simp
next
  case (2 i item items msgs images)
  then show ?case
    by (auto simp: Let_def message_ok_def split: json.splits sum.splits option.splits if_splits)
qed

definition client_error :: "api_error \<Rightarrow> bool" where
  "client_error e \<longleftrightarrow> status_code e = 400 \<and> err_type e = ''invalid_request_error'' \<and> err_message e \<noteq> []"

lemma client_error_api_err [simp]: "msg \<noteq> [] \<Longrightarrow> client_error (api_err code msg)"
  by (simp add: client_error_def api_err_def default_error_def)

lemma client_error_max_tokens [simp]: "client_error invalid_max_tokens"
  by (simp add: client_error_def invalid_max_tokens_def api_err_def default_error_def)

lemma content_parts_error: "content_parts ps acc = Inl e \<Longrightarrow> client_error e"
proof (induction ps acc rule: content_parts.induct)
  case (2 p ps acc)
  have "content_part p acc = Inl e \<Longrightarrow> client_error e"
    by (auto simp: content_part_def Let_def split: prod.splits json.splits if_splits sum.splits)
  with 2 show ?case by (auto split: sum.splits)
qed simp

lemma parse_messages_error: "parse_messages i items msgs images = Inl e \<Longrightarrow> client_error e"
proof (induction i items msgs images rule: parse_messages.induct)
  case (2 i item items msgs images)
  then show ?case
    by (auto simp: Let_def split: json.splits sum.splits option.splits if_splits
        dest: content_parts_error)
qed simp

text \<open>The request that is parsed never gets past \<^verbatim>\<open>max_tokens\<close> or the messages without a check.\<close>

lemma cast_int32_less: "cast_int32 q < 2 ^ 31"
  by (simp add: cast_int32_def)

declare parse_messages.simps [simp del]

lemma parse_chat_completion_request_InrD:
  assumes "parse_chat_completion_request stod f32 body req = Inr r"
  shows "\<exists>m ms images. parse_messages 0 (m # ms) [] [] = Inr (req_messages r, images)"
    "0 < req_max_tokens r" "req_max_tokens r < 2 ^ 31"
  using assms cast_int32_less
  by (auto simp: parse_chat_completion_request_def Let_def
      split: sum.splits json.splits if_splits option.splits list.splits) blast+

text \<open>
  C25. Request validation: for every request body, the parser either returns a client error
  (status 400, an error type and a message), or a request with at least one message, every
  message with a non-empty role, and a \<^verbatim>\<open>max_tokens\<close> between 1 and \<open>2\<^sup>3\<^sup>1 - 1\<close>.
\<close>

theorem parsed_request_valid:
  "case parse_chat_completion_request stod f32 body req of
     Inl e \<Rightarrow> client_error e
   | Inr r \<Rightarrow> req_messages r \<noteq> [] \<and> list_all message_ok (req_messages r)
       \<and> 0 < req_max_tokens r \<and> req_max_tokens r < 2 ^ 31"
proof (cases "parse_chat_completion_request stod f32 body req")
  case (Inl e)
  then have "client_error e"
    by (auto simp: parse_chat_completion_request_def Let_def
        split: sum.splits json.splits if_splits option.splits list.splits dest: parse_messages_error content_parts_error)
  with Inl show ?thesis by simp
next
  case (Inr r)
  note d = parse_chat_completion_request_InrD [OF Inr]
  from d(1) obtain m ms images where
    pm: "parse_messages 0 (m # ms) [] [] = Inr (req_messages r, images)" by blast
  from parse_messages_ok [OF pm] have "req_messages r \<noteq> []" "list_all message_ok (req_messages r)"
    by auto
  with d(2,3) Inr show ?thesis by simp
qed

end
