(* ===== verification/Unicode_Table.thy ===== *)
theory Unicode_Table
  imports Prelude
begin

text \<open>
  \<^verbatim>\<open>src/targets/qwen3_8/unicode_table.h\<close>: the categories of the ASCII characters, the sorted
  table of ranges of the other code points (all of its entries, in pieces of 150), and the
  lookup with the binary search of \<^verbatim>\<open>std::upper_bound\<close>. The lookup is shown to agree with a
  search through the whole table.
\<close>

type_synonym unicode_range = "int \<times> int \<times> nat"

abbreviation (input) CAT_OTHER :: nat where "CAT_OTHER \<equiv> 0"
abbreviation (input) CAT_LETTER :: nat where "CAT_LETTER \<equiv> 1"
abbreviation (input) CAT_NUMBER :: nat where "CAT_NUMBER \<equiv> 2"
abbreviation (input) CAT_MARK :: nat where "CAT_MARK \<equiv> 3"
abbreviation (input) CAT_WHITESPACE :: nat where "CAT_WHITESPACE \<equiv> 4"

definition ASCII_CATEGORIES :: "nat list" where
  "ASCII_CATEGORIES = [
    0, 0, 0, 0, 0, 0, 0, 0, 0, 4, 4, 4, 4, 4, 0, 0,
    0, 0, 0, 0, 0, 0, 0, 0, 0, 0, 0, 0, 0, 0, 0, 0,
    4, 5, 5, 5, 6, 5, 5, 5, 5, 5, 5, 6, 5, 5, 5, 5,
    2, 2, 2, 2, 2, 2, 2, 2, 2, 2, 5, 5, 6, 6, 6, 5,
    5, 1, 1, 1, 1, 1, 1, 1, 1, 1, 1, 1, 1, 1, 1, 1,
    1, 1, 1, 1, 1, 1, 1, 1, 1, 1, 1, 5, 5, 5, 6, 5,
    6, 1, 1, 1, 1, 1, 1, 1, 1, 1, 1, 1, 1, 1, 1, 1,
    1, 1, 1, 1, 1, 1, 1, 1, 1, 1, 1, 5, 6, 5, 6, 0]"

definition UNICODE_RANGES_1 :: "unicode_range list" where
  "UNICODE_RANGES_1 = [
    (0xa0, 0xa0, 4), (0xa1, 0xa1, 5), (0xa2, 0xa6, 6), (0xa7, 0xa7, 5), (0xa8, 0xa9, 6),
    (0xaa, 0xaa, 1), (0xab, 0xab, 5), (0xac, 0xac, 6), (0xae, 0xb1, 6), (0xb2, 0xb3, 2),
    (0xb4, 0xb4, 6), (0xb5, 0xb5, 1), (0xb6, 0xb7, 5), (0xb8, 0xb8, 6), (0xb9, 0xb9, 2),
    (0xba, 0xba, 1), (0xbb, 0xbb, 5), (0xbc, 0xbe, 2), (0xbf, 0xbf, 5), (0xc0, 0xd6, 1),
    (0xd7, 0xd7, 6), (0xd8, 0xf6, 1), (0xf7, 0xf7, 6), (0xf8, 0x2c1, 1), (0x2c2, 0x2c5, 6),
    (0x2c6, 0x2d1, 1), (0x2d2, 0x2df, 6), (0x2e0, 0x2e4, 1), (0x2e5, 0x2eb, 6), (0x2ec, 0x2ec, 1),
    (0x2ed, 0x2ed, 6), (0x2ee, 0x2ee, 1), (0x2ef, 0x2ff, 6), (0x300, 0x36f, 3), (0x370, 0x374, 1),
    (0x375, 0x375, 6), (0x376, 0x377, 1), (0x37a, 0x37d, 1), (0x37e, 0x37e, 5), (0x37f, 0x37f, 1),
    (0x384, 0x385, 6), (0x386, 0x386, 1), (0x387, 0x387, 5), (0x388, 0x38a, 1), (0x38c, 0x38c, 1),
    (0x38e, 0x3a1, 1), (0x3a3, 0x3f5, 1), (0x3f6, 0x3f6, 6), (0x3f7, 0x481, 1), (0x482, 0x482, 6),
    (0x483, 0x489, 3), (0x48a, 0x52f, 1), (0x531, 0x556, 1), (0x559, 0x559, 1), (0x55a, 0x55f, 5),
    (0x560, 0x588, 1), (0x589, 0x58a, 5), (0x58d, 0x58f, 6), (0x591, 0x5bd, 3), (0x5be, 0x5be, 5),
    (0x5bf, 0x5bf, 3), (0x5c0, 0x5c0, 5), (0x5c1, 0x5c2, 3), (0x5c3, 0x5c3, 5), (0x5c4, 0x5c5, 3),
    (0x5c6, 0x5c6, 5), (0x5c7, 0x5c7, 3), (0x5d0, 0x5ea, 1), (0x5ef, 0x5f2, 1), (0x5f3, 0x5f4, 5),
    (0x606, 0x608, 6), (0x609, 0x60a, 5), (0x60b, 0x60b, 6), (0x60c, 0x60d, 5), (0x60e, 0x60f, 6),
    (0x610, 0x61a, 3), (0x61b, 0x61b, 5), (0x61d, 0x61f, 5), (0x620, 0x64a, 1), (0x64b, 0x65f, 3),
    (0x660, 0x669, 2), (0x66a, 0x66d, 5), (0x66e, 0x66f, 1), (0x670, 0x670, 3), (0x671, 0x6d3, 1),
    (0x6d4, 0x6d4, 5), (0x6d5, 0x6d5, 1), (0x6d6, 0x6dc, 3), (0x6de, 0x6de, 6), (0x6df, 0x6e4, 3),
    (0x6e5, 0x6e6, 1), (0x6e7, 0x6e8, 3), (0x6e9, 0x6e9, 6), (0x6ea, 0x6ed, 3), (0x6ee, 0x6ef, 1),
    (0x6f0, 0x6f9, 2), (0x6fa, 0x6fc, 1), (0x6fd, 0x6fe, 6), (0x6ff, 0x6ff, 1), (0x700, 0x70d, 5),
    (0x710, 0x710, 1), (0x711, 0x711, 3), (0x712, 0x72f, 1), (0x730, 0x74a, 3), (0x74d, 0x7a5, 1),
    (0x7a6, 0x7b0, 3), (0x7b1, 0x7b1, 1), (0x7c0, 0x7c9, 2), (0x7ca, 0x7ea, 1), (0x7eb, 0x7f3, 3),
    (0x7f4, 0x7f5, 1), (0x7f6, 0x7f6, 6), (0x7f7, 0x7f9, 5), (0x7fa, 0x7fa, 1), (0x7fd, 0x7fd, 3),
    (0x7fe, 0x7ff, 6), (0x800, 0x815, 1), (0x816, 0x819, 3), (0x81a, 0x81a, 1), (0x81b, 0x823, 3),
    (0x824, 0x824, 1), (0x825, 0x827, 3), (0x828, 0x828, 1), (0x829, 0x82d, 3), (0x830, 0x83e, 5),
    (0x840, 0x858, 1), (0x859, 0x85b, 3), (0x85e, 0x85e, 5), (0x860, 0x86a, 1), (0x870, 0x887, 1),
    (0x888, 0x888, 6), (0x889, 0x88e, 1), (0x898, 0x89f, 3), (0x8a0, 0x8c9, 1), (0x8ca, 0x8e1, 3),
    (0x8e3, 0x903, 3), (0x904, 0x939, 1), (0x93a, 0x93c, 3), (0x93d, 0x93d, 1), (0x93e, 0x94f, 3),
    (0x950, 0x950, 1), (0x951, 0x957, 3), (0x958, 0x961, 1), (0x962, 0x963, 3), (0x964, 0x965, 5),
    (0x966, 0x96f, 2), (0x970, 0x970, 5), (0x971, 0x980, 1), (0x981, 0x983, 3), (0x985, 0x98c, 1)]"

definition UNICODE_RANGES_2 :: "unicode_range list" where
  "UNICODE_RANGES_2 = [
    (0x98f, 0x990, 1), (0x993, 0x9a8, 1), (0x9aa, 0x9b0, 1), (0x9b2, 0x9b2, 1), (0x9b6, 0x9b9, 1),
    (0x9bc, 0x9bc, 3), (0x9bd, 0x9bd, 1), (0x9be, 0x9c4, 3), (0x9c7, 0x9c8, 3), (0x9cb, 0x9cd, 3),
    (0x9ce, 0x9ce, 1), (0x9d7, 0x9d7, 3), (0x9dc, 0x9dd, 1), (0x9df, 0x9e1, 1), (0x9e2, 0x9e3, 3),
    (0x9e6, 0x9ef, 2), (0x9f0, 0x9f1, 1), (0x9f2, 0x9f3, 6), (0x9f4, 0x9f9, 2), (0x9fa, 0x9fb, 6),
    (0x9fc, 0x9fc, 1), (0x9fd, 0x9fd, 5), (0x9fe, 0x9fe, 3), (0xa01, 0xa03, 3), (0xa05, 0xa0a, 1),
    (0xa0f, 0xa10, 1), (0xa13, 0xa28, 1), (0xa2a, 0xa30, 1), (0xa32, 0xa33, 1), (0xa35, 0xa36, 1),
    (0xa38, 0xa39, 1), (0xa3c, 0xa3c, 3), (0xa3e, 0xa42, 3), (0xa47, 0xa48, 3), (0xa4b, 0xa4d, 3),
    (0xa51, 0xa51, 3), (0xa59, 0xa5c, 1), (0xa5e, 0xa5e, 1), (0xa66, 0xa6f, 2), (0xa70, 0xa71, 3),
    (0xa72, 0xa74, 1), (0xa75, 0xa75, 3), (0xa76, 0xa76, 5), (0xa81, 0xa83, 3), (0xa85, 0xa8d, 1),
    (0xa8f, 0xa91, 1), (0xa93, 0xaa8, 1), (0xaaa, 0xab0, 1), (0xab2, 0xab3, 1), (0xab5, 0xab9, 1),
    (0xabc, 0xabc, 3), (0xabd, 0xabd, 1), (0xabe, 0xac5, 3), (0xac7, 0xac9, 3), (0xacb, 0xacd, 3),
    (0xad0, 0xad0, 1), (0xae0, 0xae1, 1), (0xae2, 0xae3, 3), (0xae6, 0xaef, 2), (0xaf0, 0xaf0, 5),
    (0xaf1, 0xaf1, 6), (0xaf9, 0xaf9, 1), (0xafa, 0xaff, 3), (0xb01, 0xb03, 3), (0xb05, 0xb0c, 1),
    (0xb0f, 0xb10, 1), (0xb13, 0xb28, 1), (0xb2a, 0xb30, 1), (0xb32, 0xb33, 1), (0xb35, 0xb39, 1),
    (0xb3c, 0xb3c, 3), (0xb3d, 0xb3d, 1), (0xb3e, 0xb44, 3), (0xb47, 0xb48, 3), (0xb4b, 0xb4d, 3),
    (0xb55, 0xb57, 3), (0xb5c, 0xb5d, 1), (0xb5f, 0xb61, 1), (0xb62, 0xb63, 3), (0xb66, 0xb6f, 2),
    (0xb70, 0xb70, 6), (0xb71, 0xb71, 1), (0xb72, 0xb77, 2), (0xb82, 0xb82, 3), (0xb83, 0xb83, 1),
    (0xb85, 0xb8a, 1), (0xb8e, 0xb90, 1), (0xb92, 0xb95, 1), (0xb99, 0xb9a, 1), (0xb9c, 0xb9c, 1),
    (0xb9e, 0xb9f, 1), (0xba3, 0xba4, 1), (0xba8, 0xbaa, 1), (0xbae, 0xbb9, 1), (0xbbe, 0xbc2, 3),
    (0xbc6, 0xbc8, 3), (0xbca, 0xbcd, 3), (0xbd0, 0xbd0, 1), (0xbd7, 0xbd7, 3), (0xbe6, 0xbf2, 2),
    (0xbf3, 0xbfa, 6), (0xc00, 0xc04, 3), (0xc05, 0xc0c, 1), (0xc0e, 0xc10, 1), (0xc12, 0xc28, 1),
    (0xc2a, 0xc39, 1), (0xc3c, 0xc3c, 3), (0xc3d, 0xc3d, 1), (0xc3e, 0xc44, 3), (0xc46, 0xc48, 3),
    (0xc4a, 0xc4d, 3), (0xc55, 0xc56, 3), (0xc58, 0xc5a, 1), (0xc5d, 0xc5d, 1), (0xc60, 0xc61, 1),
    (0xc62, 0xc63, 3), (0xc66, 0xc6f, 2), (0xc77, 0xc77, 5), (0xc78, 0xc7e, 2), (0xc7f, 0xc7f, 6),
    (0xc80, 0xc80, 1), (0xc81, 0xc83, 3), (0xc84, 0xc84, 5), (0xc85, 0xc8c, 1), (0xc8e, 0xc90, 1),
    (0xc92, 0xca8, 1), (0xcaa, 0xcb3, 1), (0xcb5, 0xcb9, 1), (0xcbc, 0xcbc, 3), (0xcbd, 0xcbd, 1),
    (0xcbe, 0xcc4, 3), (0xcc6, 0xcc8, 3), (0xcca, 0xccd, 3), (0xcd5, 0xcd6, 3), (0xcdd, 0xcde, 1),
    (0xce0, 0xce1, 1), (0xce2, 0xce3, 3), (0xce6, 0xcef, 2), (0xcf1, 0xcf2, 1), (0xcf3, 0xcf3, 3),
    (0xd00, 0xd03, 3), (0xd04, 0xd0c, 1), (0xd0e, 0xd10, 1), (0xd12, 0xd3a, 1), (0xd3b, 0xd3c, 3),
    (0xd3d, 0xd3d, 1), (0xd3e, 0xd44, 3), (0xd46, 0xd48, 3), (0xd4a, 0xd4d, 3), (0xd4e, 0xd4e, 1)]"

definition UNICODE_RANGES_3 :: "unicode_range list" where
  "UNICODE_RANGES_3 = [
    (0xd4f, 0xd4f, 6), (0xd54, 0xd56, 1), (0xd57, 0xd57, 3), (0xd58, 0xd5e, 2), (0xd5f, 0xd61, 1),
    (0xd62, 0xd63, 3), (0xd66, 0xd78, 2), (0xd79, 0xd79, 6), (0xd7a, 0xd7f, 1), (0xd81, 0xd83, 3),
    (0xd85, 0xd96, 1), (0xd9a, 0xdb1, 1), (0xdb3, 0xdbb, 1), (0xdbd, 0xdbd, 1), (0xdc0, 0xdc6, 1),
    (0xdca, 0xdca, 3), (0xdcf, 0xdd4, 3), (0xdd6, 0xdd6, 3), (0xdd8, 0xddf, 3), (0xde6, 0xdef, 2),
    (0xdf2, 0xdf3, 3), (0xdf4, 0xdf4, 5), (0xe01, 0xe30, 1), (0xe31, 0xe31, 3), (0xe32, 0xe33, 1),
    (0xe34, 0xe3a, 3), (0xe3f, 0xe3f, 6), (0xe40, 0xe46, 1), (0xe47, 0xe4e, 3), (0xe4f, 0xe4f, 5),
    (0xe50, 0xe59, 2), (0xe5a, 0xe5b, 5), (0xe81, 0xe82, 1), (0xe84, 0xe84, 1), (0xe86, 0xe8a, 1),
    (0xe8c, 0xea3, 1), (0xea5, 0xea5, 1), (0xea7, 0xeb0, 1), (0xeb1, 0xeb1, 3), (0xeb2, 0xeb3, 1),
    (0xeb4, 0xebc, 3), (0xebd, 0xebd, 1), (0xec0, 0xec4, 1), (0xec6, 0xec6, 1), (0xec8, 0xece, 3),
    (0xed0, 0xed9, 2), (0xedc, 0xedf, 1), (0xf00, 0xf00, 1), (0xf01, 0xf03, 6), (0xf04, 0xf12, 5),
    (0xf13, 0xf13, 6), (0xf14, 0xf14, 5), (0xf15, 0xf17, 6), (0xf18, 0xf19, 3), (0xf1a, 0xf1f, 6),
    (0xf20, 0xf33, 2), (0xf34, 0xf34, 6), (0xf35, 0xf35, 3), (0xf36, 0xf36, 6), (0xf37, 0xf37, 3),
    (0xf38, 0xf38, 6), (0xf39, 0xf39, 3), (0xf3a, 0xf3d, 5), (0xf3e, 0xf3f, 3), (0xf40, 0xf47, 1),
    (0xf49, 0xf6c, 1), (0xf71, 0xf84, 3), (0xf85, 0xf85, 5), (0xf86, 0xf87, 3), (0xf88, 0xf8c, 1),
    (0xf8d, 0xf97, 3), (0xf99, 0xfbc, 3), (0xfbe, 0xfc5, 6), (0xfc6, 0xfc6, 3), (0xfc7, 0xfcc, 6),
    (0xfce, 0xfcf, 6), (0xfd0, 0xfd4, 5), (0xfd5, 0xfd8, 6), (0xfd9, 0xfda, 5), (0x1000, 0x102a, 1),
    (0x102b, 0x103e, 3), (0x103f, 0x103f, 1), (0x1040, 0x1049, 2), (0x104a, 0x104f, 5), (0x1050, 0x1055, 1),
    (0x1056, 0x1059, 3), (0x105a, 0x105d, 1), (0x105e, 0x1060, 3), (0x1061, 0x1061, 1), (0x1062, 0x1064, 3),
    (0x1065, 0x1066, 1), (0x1067, 0x106d, 3), (0x106e, 0x1070, 1), (0x1071, 0x1074, 3), (0x1075, 0x1081, 1),
    (0x1082, 0x108d, 3), (0x108e, 0x108e, 1), (0x108f, 0x108f, 3), (0x1090, 0x1099, 2), (0x109a, 0x109d, 3),
    (0x109e, 0x109f, 6), (0x10a0, 0x10c5, 1), (0x10c7, 0x10c7, 1), (0x10cd, 0x10cd, 1), (0x10d0, 0x10fa, 1),
    (0x10fb, 0x10fb, 5), (0x10fc, 0x1248, 1), (0x124a, 0x124d, 1), (0x1250, 0x1256, 1), (0x1258, 0x1258, 1),
    (0x125a, 0x125d, 1), (0x1260, 0x1288, 1), (0x128a, 0x128d, 1), (0x1290, 0x12b0, 1), (0x12b2, 0x12b5, 1),
    (0x12b8, 0x12be, 1), (0x12c0, 0x12c0, 1), (0x12c2, 0x12c5, 1), (0x12c8, 0x12d6, 1), (0x12d8, 0x1310, 1),
    (0x1312, 0x1315, 1), (0x1318, 0x135a, 1), (0x135d, 0x135f, 3), (0x1360, 0x1368, 5), (0x1369, 0x137c, 2),
    (0x1380, 0x138f, 1), (0x1390, 0x1399, 6), (0x13a0, 0x13f5, 1), (0x13f8, 0x13fd, 1), (0x1400, 0x1400, 5),
    (0x1401, 0x166c, 1), (0x166d, 0x166d, 6), (0x166e, 0x166e, 5), (0x166f, 0x167f, 1), (0x1680, 0x1680, 4),
    (0x1681, 0x169a, 1), (0x169b, 0x169c, 5), (0x16a0, 0x16ea, 1), (0x16eb, 0x16ed, 5), (0x16ee, 0x16f0, 2),
    (0x16f1, 0x16f8, 1), (0x1700, 0x1711, 1), (0x1712, 0x1715, 3), (0x171f, 0x1731, 1), (0x1732, 0x1734, 3),
    (0x1735, 0x1736, 5), (0x1740, 0x1751, 1), (0x1752, 0x1753, 3), (0x1760, 0x176c, 1), (0x176e, 0x1770, 1)]"

definition UNICODE_RANGES_4 :: "unicode_range list" where
  "UNICODE_RANGES_4 = [
    (0x1772, 0x1773, 3), (0x1780, 0x17b3, 1), (0x17b4, 0x17d3, 3), (0x17d4, 0x17d6, 5), (0x17d7, 0x17d7, 1),
    (0x17d8, 0x17da, 5), (0x17db, 0x17db, 6), (0x17dc, 0x17dc, 1), (0x17dd, 0x17dd, 3), (0x17e0, 0x17e9, 2),
    (0x17f0, 0x17f9, 2), (0x1800, 0x180a, 5), (0x180b, 0x180d, 3), (0x180f, 0x180f, 3), (0x1810, 0x1819, 2),
    (0x1820, 0x1878, 1), (0x1880, 0x1884, 1), (0x1885, 0x1886, 3), (0x1887, 0x18a8, 1), (0x18a9, 0x18a9, 3),
    (0x18aa, 0x18aa, 1), (0x18b0, 0x18f5, 1), (0x1900, 0x191e, 1), (0x1920, 0x192b, 3), (0x1930, 0x193b, 3),
    (0x1940, 0x1940, 6), (0x1944, 0x1945, 5), (0x1946, 0x194f, 2), (0x1950, 0x196d, 1), (0x1970, 0x1974, 1),
    (0x1980, 0x19ab, 1), (0x19b0, 0x19c9, 1), (0x19d0, 0x19da, 2), (0x19de, 0x19ff, 6), (0x1a00, 0x1a16, 1),
    (0x1a17, 0x1a1b, 3), (0x1a1e, 0x1a1f, 5), (0x1a20, 0x1a54, 1), (0x1a55, 0x1a5e, 3), (0x1a60, 0x1a7c, 3),
    (0x1a7f, 0x1a7f, 3), (0x1a80, 0x1a89, 2), (0x1a90, 0x1a99, 2), (0x1aa0, 0x1aa6, 5), (0x1aa7, 0x1aa7, 1),
    (0x1aa8, 0x1aad, 5), (0x1ab0, 0x1ace, 3), (0x1b00, 0x1b04, 3), (0x1b05, 0x1b33, 1), (0x1b34, 0x1b44, 3),
    (0x1b45, 0x1b4c, 1), (0x1b50, 0x1b59, 2), (0x1b5a, 0x1b60, 5), (0x1b61, 0x1b6a, 6), (0x1b6b, 0x1b73, 3),
    (0x1b74, 0x1b7c, 6), (0x1b7d, 0x1b7e, 5), (0x1b80, 0x1b82, 3), (0x1b83, 0x1ba0, 1), (0x1ba1, 0x1bad, 3),
    (0x1bae, 0x1baf, 1), (0x1bb0, 0x1bb9, 2), (0x1bba, 0x1be5, 1), (0x1be6, 0x1bf3, 3), (0x1bfc, 0x1bff, 5),
    (0x1c00, 0x1c23, 1), (0x1c24, 0x1c37, 3), (0x1c3b, 0x1c3f, 5), (0x1c40, 0x1c49, 2), (0x1c4d, 0x1c4f, 1),
    (0x1c50, 0x1c59, 2), (0x1c5a, 0x1c7d, 1), (0x1c7e, 0x1c7f, 5), (0x1c80, 0x1c88, 1), (0x1c90, 0x1cba, 1),
    (0x1cbd, 0x1cbf, 1), (0x1cc0, 0x1cc7, 5), (0x1cd0, 0x1cd2, 3), (0x1cd3, 0x1cd3, 5), (0x1cd4, 0x1ce8, 3),
    (0x1ce9, 0x1cec, 1), (0x1ced, 0x1ced, 3), (0x1cee, 0x1cf3, 1), (0x1cf4, 0x1cf4, 3), (0x1cf5, 0x1cf6, 1),
    (0x1cf7, 0x1cf9, 3), (0x1cfa, 0x1cfa, 1), (0x1d00, 0x1dbf, 1), (0x1dc0, 0x1dff, 3), (0x1e00, 0x1f15, 1),
    (0x1f18, 0x1f1d, 1), (0x1f20, 0x1f45, 1), (0x1f48, 0x1f4d, 1), (0x1f50, 0x1f57, 1), (0x1f59, 0x1f59, 1),
    (0x1f5b, 0x1f5b, 1), (0x1f5d, 0x1f5d, 1), (0x1f5f, 0x1f7d, 1), (0x1f80, 0x1fb4, 1), (0x1fb6, 0x1fbc, 1),
    (0x1fbd, 0x1fbd, 6), (0x1fbe, 0x1fbe, 1), (0x1fbf, 0x1fc1, 6), (0x1fc2, 0x1fc4, 1), (0x1fc6, 0x1fcc, 1),
    (0x1fcd, 0x1fcf, 6), (0x1fd0, 0x1fd3, 1), (0x1fd6, 0x1fdb, 1), (0x1fdd, 0x1fdf, 6), (0x1fe0, 0x1fec, 1),
    (0x1fed, 0x1fef, 6), (0x1ff2, 0x1ff4, 1), (0x1ff6, 0x1ffc, 1), (0x1ffd, 0x1ffe, 6), (0x2000, 0x200a, 4),
    (0x2010, 0x2027, 5), (0x2028, 0x2029, 4), (0x202f, 0x202f, 4), (0x2030, 0x2043, 5), (0x2044, 0x2044, 6),
    (0x2045, 0x2051, 5), (0x2052, 0x2052, 6), (0x2053, 0x205e, 5), (0x205f, 0x205f, 4), (0x2070, 0x2070, 2),
    (0x2071, 0x2071, 1), (0x2074, 0x2079, 2), (0x207a, 0x207c, 6), (0x207d, 0x207e, 5), (0x207f, 0x207f, 1),
    (0x2080, 0x2089, 2), (0x208a, 0x208c, 6), (0x208d, 0x208e, 5), (0x2090, 0x209c, 1), (0x20a0, 0x20c0, 6),
    (0x20d0, 0x20f0, 3), (0x2100, 0x2101, 6), (0x2102, 0x2102, 1), (0x2103, 0x2106, 6), (0x2107, 0x2107, 1),
    (0x2108, 0x2109, 6), (0x210a, 0x2113, 1), (0x2114, 0x2114, 6), (0x2115, 0x2115, 1), (0x2116, 0x2118, 6),
    (0x2119, 0x211d, 1), (0x211e, 0x2123, 6), (0x2124, 0x2124, 1), (0x2125, 0x2125, 6), (0x2126, 0x2126, 1)]"

definition UNICODE_RANGES_5 :: "unicode_range list" where
  "UNICODE_RANGES_5 = [
    (0x2127, 0x2127, 6), (0x2128, 0x2128, 1), (0x2129, 0x2129, 6), (0x212a, 0x212d, 1), (0x212e, 0x212e, 6),
    (0x212f, 0x2139, 1), (0x213a, 0x213b, 6), (0x213c, 0x213f, 1), (0x2140, 0x2144, 6), (0x2145, 0x2149, 1),
    (0x214a, 0x214d, 6), (0x214e, 0x214e, 1), (0x214f, 0x214f, 6), (0x2150, 0x2182, 2), (0x2183, 0x2184, 1),
    (0x2185, 0x2189, 2), (0x218a, 0x218b, 6), (0x2190, 0x2307, 6), (0x2308, 0x230b, 5), (0x230c, 0x2328, 6),
    (0x2329, 0x232a, 5), (0x232b, 0x2426, 6), (0x2440, 0x244a, 6), (0x2460, 0x249b, 2), (0x249c, 0x24e9, 6),
    (0x24ea, 0x24ff, 2), (0x2500, 0x2767, 6), (0x2768, 0x2775, 5), (0x2776, 0x2793, 2), (0x2794, 0x27c4, 6),
    (0x27c5, 0x27c6, 5), (0x27c7, 0x27e5, 6), (0x27e6, 0x27ef, 5), (0x27f0, 0x2982, 6), (0x2983, 0x2998, 5),
    (0x2999, 0x29d7, 6), (0x29d8, 0x29db, 5), (0x29dc, 0x29fb, 6), (0x29fc, 0x29fd, 5), (0x29fe, 0x2b73, 6),
    (0x2b76, 0x2b95, 6), (0x2b97, 0x2bff, 6), (0x2c00, 0x2ce4, 1), (0x2ce5, 0x2cea, 6), (0x2ceb, 0x2cee, 1),
    (0x2cef, 0x2cf1, 3), (0x2cf2, 0x2cf3, 1), (0x2cf9, 0x2cfc, 5), (0x2cfd, 0x2cfd, 2), (0x2cfe, 0x2cff, 5),
    (0x2d00, 0x2d25, 1), (0x2d27, 0x2d27, 1), (0x2d2d, 0x2d2d, 1), (0x2d30, 0x2d67, 1), (0x2d6f, 0x2d6f, 1),
    (0x2d70, 0x2d70, 5), (0x2d7f, 0x2d7f, 3), (0x2d80, 0x2d96, 1), (0x2da0, 0x2da6, 1), (0x2da8, 0x2dae, 1),
    (0x2db0, 0x2db6, 1), (0x2db8, 0x2dbe, 1), (0x2dc0, 0x2dc6, 1), (0x2dc8, 0x2dce, 1), (0x2dd0, 0x2dd6, 1),
    (0x2dd8, 0x2dde, 1), (0x2de0, 0x2dff, 3), (0x2e00, 0x2e2e, 5), (0x2e2f, 0x2e2f, 1), (0x2e30, 0x2e4f, 5),
    (0x2e50, 0x2e51, 6), (0x2e52, 0x2e5d, 5), (0x2e80, 0x2e99, 6), (0x2e9b, 0x2ef3, 6), (0x2f00, 0x2fd5, 6),
    (0x2ff0, 0x2ffb, 6), (0x3000, 0x3000, 4), (0x3001, 0x3003, 5), (0x3004, 0x3004, 6), (0x3005, 0x3006, 1),
    (0x3007, 0x3007, 2), (0x3008, 0x3011, 5), (0x3012, 0x3013, 6), (0x3014, 0x301f, 5), (0x3020, 0x3020, 6),
    (0x3021, 0x3029, 2), (0x302a, 0x302f, 3), (0x3030, 0x3030, 5), (0x3031, 0x3035, 1), (0x3036, 0x3037, 6),
    (0x3038, 0x303a, 2), (0x303b, 0x303c, 1), (0x303d, 0x303d, 5), (0x303e, 0x303f, 6), (0x3041, 0x3096, 1),
    (0x3099, 0x309a, 3), (0x309b, 0x309c, 6), (0x309d, 0x309f, 1), (0x30a0, 0x30a0, 5), (0x30a1, 0x30fa, 1),
    (0x30fb, 0x30fb, 5), (0x30fc, 0x30ff, 1), (0x3105, 0x312f, 1), (0x3131, 0x318e, 1), (0x3190, 0x3191, 6),
    (0x3192, 0x3195, 2), (0x3196, 0x319f, 6), (0x31a0, 0x31bf, 1), (0x31c0, 0x31e3, 6), (0x31f0, 0x31ff, 1),
    (0x3200, 0x321e, 6), (0x3220, 0x3229, 2), (0x322a, 0x3247, 6), (0x3248, 0x324f, 2), (0x3250, 0x3250, 6),
    (0x3251, 0x325f, 2), (0x3260, 0x327f, 6), (0x3280, 0x3289, 2), (0x328a, 0x32b0, 6), (0x32b1, 0x32bf, 2),
    (0x32c0, 0x33ff, 6), (0x3400, 0x4dbf, 1), (0x4dc0, 0x4dff, 6), (0x4e00, 0xa48c, 1), (0xa490, 0xa4c6, 6),
    (0xa4d0, 0xa4fd, 1), (0xa4fe, 0xa4ff, 5), (0xa500, 0xa60c, 1), (0xa60d, 0xa60f, 5), (0xa610, 0xa61f, 1),
    (0xa620, 0xa629, 2), (0xa62a, 0xa62b, 1), (0xa640, 0xa66e, 1), (0xa66f, 0xa672, 3), (0xa673, 0xa673, 5),
    (0xa674, 0xa67d, 3), (0xa67e, 0xa67e, 5), (0xa67f, 0xa69d, 1), (0xa69e, 0xa69f, 3), (0xa6a0, 0xa6e5, 1),
    (0xa6e6, 0xa6ef, 2), (0xa6f0, 0xa6f1, 3), (0xa6f2, 0xa6f7, 5), (0xa700, 0xa716, 6), (0xa717, 0xa71f, 1),
    (0xa720, 0xa721, 6), (0xa722, 0xa788, 1), (0xa789, 0xa78a, 6), (0xa78b, 0xa7ca, 1), (0xa7d0, 0xa7d1, 1)]"

definition UNICODE_RANGES_6 :: "unicode_range list" where
  "UNICODE_RANGES_6 = [
    (0xa7d3, 0xa7d3, 1), (0xa7d5, 0xa7d9, 1), (0xa7f2, 0xa801, 1), (0xa802, 0xa802, 3), (0xa803, 0xa805, 1),
    (0xa806, 0xa806, 3), (0xa807, 0xa80a, 1), (0xa80b, 0xa80b, 3), (0xa80c, 0xa822, 1), (0xa823, 0xa827, 3),
    (0xa828, 0xa82b, 6), (0xa82c, 0xa82c, 3), (0xa830, 0xa835, 2), (0xa836, 0xa839, 6), (0xa840, 0xa873, 1),
    (0xa874, 0xa877, 5), (0xa880, 0xa881, 3), (0xa882, 0xa8b3, 1), (0xa8b4, 0xa8c5, 3), (0xa8ce, 0xa8cf, 5),
    (0xa8d0, 0xa8d9, 2), (0xa8e0, 0xa8f1, 3), (0xa8f2, 0xa8f7, 1), (0xa8f8, 0xa8fa, 5), (0xa8fb, 0xa8fb, 1),
    (0xa8fc, 0xa8fc, 5), (0xa8fd, 0xa8fe, 1), (0xa8ff, 0xa8ff, 3), (0xa900, 0xa909, 2), (0xa90a, 0xa925, 1),
    (0xa926, 0xa92d, 3), (0xa92e, 0xa92f, 5), (0xa930, 0xa946, 1), (0xa947, 0xa953, 3), (0xa95f, 0xa95f, 5),
    (0xa960, 0xa97c, 1), (0xa980, 0xa983, 3), (0xa984, 0xa9b2, 1), (0xa9b3, 0xa9c0, 3), (0xa9c1, 0xa9cd, 5),
    (0xa9cf, 0xa9cf, 1), (0xa9d0, 0xa9d9, 2), (0xa9de, 0xa9df, 5), (0xa9e0, 0xa9e4, 1), (0xa9e5, 0xa9e5, 3),
    (0xa9e6, 0xa9ef, 1), (0xa9f0, 0xa9f9, 2), (0xa9fa, 0xa9fe, 1), (0xaa00, 0xaa28, 1), (0xaa29, 0xaa36, 3),
    (0xaa40, 0xaa42, 1), (0xaa43, 0xaa43, 3), (0xaa44, 0xaa4b, 1), (0xaa4c, 0xaa4d, 3), (0xaa50, 0xaa59, 2),
    (0xaa5c, 0xaa5f, 5), (0xaa60, 0xaa76, 1), (0xaa77, 0xaa79, 6), (0xaa7a, 0xaa7a, 1), (0xaa7b, 0xaa7d, 3),
    (0xaa7e, 0xaaaf, 1), (0xaab0, 0xaab0, 3), (0xaab1, 0xaab1, 1), (0xaab2, 0xaab4, 3), (0xaab5, 0xaab6, 1),
    (0xaab7, 0xaab8, 3), (0xaab9, 0xaabd, 1), (0xaabe, 0xaabf, 3), (0xaac0, 0xaac0, 1), (0xaac1, 0xaac1, 3),
    (0xaac2, 0xaac2, 1), (0xaadb, 0xaadd, 1), (0xaade, 0xaadf, 5), (0xaae0, 0xaaea, 1), (0xaaeb, 0xaaef, 3),
    (0xaaf0, 0xaaf1, 5), (0xaaf2, 0xaaf4, 1), (0xaaf5, 0xaaf6, 3), (0xab01, 0xab06, 1), (0xab09, 0xab0e, 1),
    (0xab11, 0xab16, 1), (0xab20, 0xab26, 1), (0xab28, 0xab2e, 1), (0xab30, 0xab5a, 1), (0xab5b, 0xab5b, 6),
    (0xab5c, 0xab69, 1), (0xab6a, 0xab6b, 6), (0xab70, 0xabe2, 1), (0xabe3, 0xabea, 3), (0xabeb, 0xabeb, 5),
    (0xabec, 0xabed, 3), (0xabf0, 0xabf9, 2), (0xac00, 0xd7a3, 1), (0xd7b0, 0xd7c6, 1), (0xd7cb, 0xd7fb, 1),
    (0xf900, 0xfa6d, 1), (0xfa70, 0xfad9, 1), (0xfb00, 0xfb06, 1), (0xfb13, 0xfb17, 1), (0xfb1d, 0xfb1d, 1),
    (0xfb1e, 0xfb1e, 3), (0xfb1f, 0xfb28, 1), (0xfb29, 0xfb29, 6), (0xfb2a, 0xfb36, 1), (0xfb38, 0xfb3c, 1),
    (0xfb3e, 0xfb3e, 1), (0xfb40, 0xfb41, 1), (0xfb43, 0xfb44, 1), (0xfb46, 0xfbb1, 1), (0xfbb2, 0xfbc2, 6),
    (0xfbd3, 0xfd3d, 1), (0xfd3e, 0xfd3f, 5), (0xfd40, 0xfd4f, 6), (0xfd50, 0xfd8f, 1), (0xfd92, 0xfdc7, 1),
    (0xfdcf, 0xfdcf, 6), (0xfdf0, 0xfdfb, 1), (0xfdfc, 0xfdff, 6), (0xfe00, 0xfe0f, 3), (0xfe10, 0xfe19, 5),
    (0xfe20, 0xfe2f, 3), (0xfe30, 0xfe52, 5), (0xfe54, 0xfe61, 5), (0xfe62, 0xfe62, 6), (0xfe63, 0xfe63, 5),
    (0xfe64, 0xfe66, 6), (0xfe68, 0xfe68, 5), (0xfe69, 0xfe69, 6), (0xfe6a, 0xfe6b, 5), (0xfe70, 0xfe74, 1),
    (0xfe76, 0xfefc, 1), (0xff01, 0xff03, 5), (0xff04, 0xff04, 6), (0xff05, 0xff0a, 5), (0xff0b, 0xff0b, 6),
    (0xff0c, 0xff0f, 5), (0xff10, 0xff19, 2), (0xff1a, 0xff1b, 5), (0xff1c, 0xff1e, 6), (0xff1f, 0xff20, 5),
    (0xff21, 0xff3a, 1), (0xff3b, 0xff3d, 5), (0xff3e, 0xff3e, 6), (0xff3f, 0xff3f, 5), (0xff40, 0xff40, 6),
    (0xff41, 0xff5a, 1), (0xff5b, 0xff5b, 5), (0xff5c, 0xff5c, 6), (0xff5d, 0xff5d, 5), (0xff5e, 0xff5e, 6)]"

definition UNICODE_RANGES_7 :: "unicode_range list" where
  "UNICODE_RANGES_7 = [
    (0xff5f, 0xff65, 5), (0xff66, 0xffbe, 1), (0xffc2, 0xffc7, 1), (0xffca, 0xffcf, 1), (0xffd2, 0xffd7, 1),
    (0xffda, 0xffdc, 1), (0xffe0, 0xffe6, 6), (0xffe8, 0xffee, 6), (0xfffc, 0xfffd, 6), (0x10000, 0x1000b, 1),
    (0x1000d, 0x10026, 1), (0x10028, 0x1003a, 1), (0x1003c, 0x1003d, 1), (0x1003f, 0x1004d, 1), (0x10050, 0x1005d, 1),
    (0x10080, 0x100fa, 1), (0x10100, 0x10102, 5), (0x10107, 0x10133, 2), (0x10137, 0x1013f, 6), (0x10140, 0x10178, 2),
    (0x10179, 0x10189, 6), (0x1018a, 0x1018b, 2), (0x1018c, 0x1018e, 6), (0x10190, 0x1019c, 6), (0x101a0, 0x101a0, 6),
    (0x101d0, 0x101fc, 6), (0x101fd, 0x101fd, 3), (0x10280, 0x1029c, 1), (0x102a0, 0x102d0, 1), (0x102e0, 0x102e0, 3),
    (0x102e1, 0x102fb, 2), (0x10300, 0x1031f, 1), (0x10320, 0x10323, 2), (0x1032d, 0x10340, 1), (0x10341, 0x10341, 2),
    (0x10342, 0x10349, 1), (0x1034a, 0x1034a, 2), (0x10350, 0x10375, 1), (0x10376, 0x1037a, 3), (0x10380, 0x1039d, 1),
    (0x1039f, 0x1039f, 5), (0x103a0, 0x103c3, 1), (0x103c8, 0x103cf, 1), (0x103d0, 0x103d0, 5), (0x103d1, 0x103d5, 2),
    (0x10400, 0x1049d, 1), (0x104a0, 0x104a9, 2), (0x104b0, 0x104d3, 1), (0x104d8, 0x104fb, 1), (0x10500, 0x10527, 1),
    (0x10530, 0x10563, 1), (0x1056f, 0x1056f, 5), (0x10570, 0x1057a, 1), (0x1057c, 0x1058a, 1), (0x1058c, 0x10592, 1),
    (0x10594, 0x10595, 1), (0x10597, 0x105a1, 1), (0x105a3, 0x105b1, 1), (0x105b3, 0x105b9, 1), (0x105bb, 0x105bc, 1),
    (0x10600, 0x10736, 1), (0x10740, 0x10755, 1), (0x10760, 0x10767, 1), (0x10780, 0x10785, 1), (0x10787, 0x107b0, 1),
    (0x107b2, 0x107ba, 1), (0x10800, 0x10805, 1), (0x10808, 0x10808, 1), (0x1080a, 0x10835, 1), (0x10837, 0x10838, 1),
    (0x1083c, 0x1083c, 1), (0x1083f, 0x10855, 1), (0x10857, 0x10857, 5), (0x10858, 0x1085f, 2), (0x10860, 0x10876, 1),
    (0x10877, 0x10878, 6), (0x10879, 0x1087f, 2), (0x10880, 0x1089e, 1), (0x108a7, 0x108af, 2), (0x108e0, 0x108f2, 1),
    (0x108f4, 0x108f5, 1), (0x108fb, 0x108ff, 2), (0x10900, 0x10915, 1), (0x10916, 0x1091b, 2), (0x1091f, 0x1091f, 5),
    (0x10920, 0x10939, 1), (0x1093f, 0x1093f, 5), (0x10980, 0x109b7, 1), (0x109bc, 0x109bd, 2), (0x109be, 0x109bf, 1),
    (0x109c0, 0x109cf, 2), (0x109d2, 0x109ff, 2), (0x10a00, 0x10a00, 1), (0x10a01, 0x10a03, 3), (0x10a05, 0x10a06, 3),
    (0x10a0c, 0x10a0f, 3), (0x10a10, 0x10a13, 1), (0x10a15, 0x10a17, 1), (0x10a19, 0x10a35, 1), (0x10a38, 0x10a3a, 3),
    (0x10a3f, 0x10a3f, 3), (0x10a40, 0x10a48, 2), (0x10a50, 0x10a58, 5), (0x10a60, 0x10a7c, 1), (0x10a7d, 0x10a7e, 2),
    (0x10a7f, 0x10a7f, 5), (0x10a80, 0x10a9c, 1), (0x10a9d, 0x10a9f, 2), (0x10ac0, 0x10ac7, 1), (0x10ac8, 0x10ac8, 6),
    (0x10ac9, 0x10ae4, 1), (0x10ae5, 0x10ae6, 3), (0x10aeb, 0x10aef, 2), (0x10af0, 0x10af6, 5), (0x10b00, 0x10b35, 1),
    (0x10b39, 0x10b3f, 5), (0x10b40, 0x10b55, 1), (0x10b58, 0x10b5f, 2), (0x10b60, 0x10b72, 1), (0x10b78, 0x10b7f, 2),
    (0x10b80, 0x10b91, 1), (0x10b99, 0x10b9c, 5), (0x10ba9, 0x10baf, 2), (0x10c00, 0x10c48, 1), (0x10c80, 0x10cb2, 1),
    (0x10cc0, 0x10cf2, 1), (0x10cfa, 0x10cff, 2), (0x10d00, 0x10d23, 1), (0x10d24, 0x10d27, 3), (0x10d30, 0x10d39, 2),
    (0x10e60, 0x10e7e, 2), (0x10e80, 0x10ea9, 1), (0x10eab, 0x10eac, 3), (0x10ead, 0x10ead, 5), (0x10eb0, 0x10eb1, 1),
    (0x10efd, 0x10eff, 3), (0x10f00, 0x10f1c, 1), (0x10f1d, 0x10f26, 2), (0x10f27, 0x10f27, 1), (0x10f30, 0x10f45, 1),
    (0x10f46, 0x10f50, 3), (0x10f51, 0x10f54, 2), (0x10f55, 0x10f59, 5), (0x10f70, 0x10f81, 1), (0x10f82, 0x10f85, 3),
    (0x10f86, 0x10f89, 5), (0x10fb0, 0x10fc4, 1), (0x10fc5, 0x10fcb, 2), (0x10fe0, 0x10ff6, 1), (0x11000, 0x11002, 3)]"

definition UNICODE_RANGES_8 :: "unicode_range list" where
  "UNICODE_RANGES_8 = [
    (0x11003, 0x11037, 1), (0x11038, 0x11046, 3), (0x11047, 0x1104d, 5), (0x11052, 0x1106f, 2), (0x11070, 0x11070, 3),
    (0x11071, 0x11072, 1), (0x11073, 0x11074, 3), (0x11075, 0x11075, 1), (0x1107f, 0x11082, 3), (0x11083, 0x110af, 1),
    (0x110b0, 0x110ba, 3), (0x110bb, 0x110bc, 5), (0x110be, 0x110c1, 5), (0x110c2, 0x110c2, 3), (0x110d0, 0x110e8, 1),
    (0x110f0, 0x110f9, 2), (0x11100, 0x11102, 3), (0x11103, 0x11126, 1), (0x11127, 0x11134, 3), (0x11136, 0x1113f, 2),
    (0x11140, 0x11143, 5), (0x11144, 0x11144, 1), (0x11145, 0x11146, 3), (0x11147, 0x11147, 1), (0x11150, 0x11172, 1),
    (0x11173, 0x11173, 3), (0x11174, 0x11175, 5), (0x11176, 0x11176, 1), (0x11180, 0x11182, 3), (0x11183, 0x111b2, 1),
    (0x111b3, 0x111c0, 3), (0x111c1, 0x111c4, 1), (0x111c5, 0x111c8, 5), (0x111c9, 0x111cc, 3), (0x111cd, 0x111cd, 5),
    (0x111ce, 0x111cf, 3), (0x111d0, 0x111d9, 2), (0x111da, 0x111da, 1), (0x111db, 0x111db, 5), (0x111dc, 0x111dc, 1),
    (0x111dd, 0x111df, 5), (0x111e1, 0x111f4, 2), (0x11200, 0x11211, 1), (0x11213, 0x1122b, 1), (0x1122c, 0x11237, 3),
    (0x11238, 0x1123d, 5), (0x1123e, 0x1123e, 3), (0x1123f, 0x11240, 1), (0x11241, 0x11241, 3), (0x11280, 0x11286, 1),
    (0x11288, 0x11288, 1), (0x1128a, 0x1128d, 1), (0x1128f, 0x1129d, 1), (0x1129f, 0x112a8, 1), (0x112a9, 0x112a9, 5),
    (0x112b0, 0x112de, 1), (0x112df, 0x112ea, 3), (0x112f0, 0x112f9, 2), (0x11300, 0x11303, 3), (0x11305, 0x1130c, 1),
    (0x1130f, 0x11310, 1), (0x11313, 0x11328, 1), (0x1132a, 0x11330, 1), (0x11332, 0x11333, 1), (0x11335, 0x11339, 1),
    (0x1133b, 0x1133c, 3), (0x1133d, 0x1133d, 1), (0x1133e, 0x11344, 3), (0x11347, 0x11348, 3), (0x1134b, 0x1134d, 3),
    (0x11350, 0x11350, 1), (0x11357, 0x11357, 3), (0x1135d, 0x11361, 1), (0x11362, 0x11363, 3), (0x11366, 0x1136c, 3),
    (0x11370, 0x11374, 3), (0x11400, 0x11434, 1), (0x11435, 0x11446, 3), (0x11447, 0x1144a, 1), (0x1144b, 0x1144f, 5),
    (0x11450, 0x11459, 2), (0x1145a, 0x1145b, 5), (0x1145d, 0x1145d, 5), (0x1145e, 0x1145e, 3), (0x1145f, 0x11461, 1),
    (0x11480, 0x114af, 1), (0x114b0, 0x114c3, 3), (0x114c4, 0x114c5, 1), (0x114c6, 0x114c6, 5), (0x114c7, 0x114c7, 1),
    (0x114d0, 0x114d9, 2), (0x11580, 0x115ae, 1), (0x115af, 0x115b5, 3), (0x115b8, 0x115c0, 3), (0x115c1, 0x115d7, 5),
    (0x115d8, 0x115db, 1), (0x115dc, 0x115dd, 3), (0x11600, 0x1162f, 1), (0x11630, 0x11640, 3), (0x11641, 0x11643, 5),
    (0x11644, 0x11644, 1), (0x11650, 0x11659, 2), (0x11660, 0x1166c, 5), (0x11680, 0x116aa, 1), (0x116ab, 0x116b7, 3),
    (0x116b8, 0x116b8, 1), (0x116b9, 0x116b9, 5), (0x116c0, 0x116c9, 2), (0x11700, 0x1171a, 1), (0x1171d, 0x1172b, 3),
    (0x11730, 0x1173b, 2), (0x1173c, 0x1173e, 5), (0x1173f, 0x1173f, 6), (0x11740, 0x11746, 1), (0x11800, 0x1182b, 1),
    (0x1182c, 0x1183a, 3), (0x1183b, 0x1183b, 5), (0x118a0, 0x118df, 1), (0x118e0, 0x118f2, 2), (0x118ff, 0x11906, 1),
    (0x11909, 0x11909, 1), (0x1190c, 0x11913, 1), (0x11915, 0x11916, 1), (0x11918, 0x1192f, 1), (0x11930, 0x11935, 3),
    (0x11937, 0x11938, 3), (0x1193b, 0x1193e, 3), (0x1193f, 0x1193f, 1), (0x11940, 0x11940, 3), (0x11941, 0x11941, 1),
    (0x11942, 0x11943, 3), (0x11944, 0x11946, 5), (0x11950, 0x11959, 2), (0x119a0, 0x119a7, 1), (0x119aa, 0x119d0, 1),
    (0x119d1, 0x119d7, 3), (0x119da, 0x119e0, 3), (0x119e1, 0x119e1, 1), (0x119e2, 0x119e2, 5), (0x119e3, 0x119e3, 1),
    (0x119e4, 0x119e4, 3), (0x11a00, 0x11a00, 1), (0x11a01, 0x11a0a, 3), (0x11a0b, 0x11a32, 1), (0x11a33, 0x11a39, 3),
    (0x11a3a, 0x11a3a, 1), (0x11a3b, 0x11a3e, 3), (0x11a3f, 0x11a46, 5), (0x11a47, 0x11a47, 3), (0x11a50, 0x11a50, 1)]"

definition UNICODE_RANGES_9 :: "unicode_range list" where
  "UNICODE_RANGES_9 = [
    (0x11a51, 0x11a5b, 3), (0x11a5c, 0x11a89, 1), (0x11a8a, 0x11a99, 3), (0x11a9a, 0x11a9c, 5), (0x11a9d, 0x11a9d, 1),
    (0x11a9e, 0x11aa2, 5), (0x11ab0, 0x11af8, 1), (0x11b00, 0x11b09, 5), (0x11c00, 0x11c08, 1), (0x11c0a, 0x11c2e, 1),
    (0x11c2f, 0x11c36, 3), (0x11c38, 0x11c3f, 3), (0x11c40, 0x11c40, 1), (0x11c41, 0x11c45, 5), (0x11c50, 0x11c6c, 2),
    (0x11c70, 0x11c71, 5), (0x11c72, 0x11c8f, 1), (0x11c92, 0x11ca7, 3), (0x11ca9, 0x11cb6, 3), (0x11d00, 0x11d06, 1),
    (0x11d08, 0x11d09, 1), (0x11d0b, 0x11d30, 1), (0x11d31, 0x11d36, 3), (0x11d3a, 0x11d3a, 3), (0x11d3c, 0x11d3d, 3),
    (0x11d3f, 0x11d45, 3), (0x11d46, 0x11d46, 1), (0x11d47, 0x11d47, 3), (0x11d50, 0x11d59, 2), (0x11d60, 0x11d65, 1),
    (0x11d67, 0x11d68, 1), (0x11d6a, 0x11d89, 1), (0x11d8a, 0x11d8e, 3), (0x11d90, 0x11d91, 3), (0x11d93, 0x11d97, 3),
    (0x11d98, 0x11d98, 1), (0x11da0, 0x11da9, 2), (0x11ee0, 0x11ef2, 1), (0x11ef3, 0x11ef6, 3), (0x11ef7, 0x11ef8, 5),
    (0x11f00, 0x11f01, 3), (0x11f02, 0x11f02, 1), (0x11f03, 0x11f03, 3), (0x11f04, 0x11f10, 1), (0x11f12, 0x11f33, 1),
    (0x11f34, 0x11f3a, 3), (0x11f3e, 0x11f42, 3), (0x11f43, 0x11f4f, 5), (0x11f50, 0x11f59, 2), (0x11fb0, 0x11fb0, 1),
    (0x11fc0, 0x11fd4, 2), (0x11fd5, 0x11ff1, 6), (0x11fff, 0x11fff, 5), (0x12000, 0x12399, 1), (0x12400, 0x1246e, 2),
    (0x12470, 0x12474, 5), (0x12480, 0x12543, 1), (0x12f90, 0x12ff0, 1), (0x12ff1, 0x12ff2, 5), (0x13000, 0x1342f, 1),
    (0x13440, 0x13440, 3), (0x13441, 0x13446, 1), (0x13447, 0x13455, 3), (0x14400, 0x14646, 1), (0x16800, 0x16a38, 1),
    (0x16a40, 0x16a5e, 1), (0x16a60, 0x16a69, 2), (0x16a6e, 0x16a6f, 5), (0x16a70, 0x16abe, 1), (0x16ac0, 0x16ac9, 2),
    (0x16ad0, 0x16aed, 1), (0x16af0, 0x16af4, 3), (0x16af5, 0x16af5, 5), (0x16b00, 0x16b2f, 1), (0x16b30, 0x16b36, 3),
    (0x16b37, 0x16b3b, 5), (0x16b3c, 0x16b3f, 6), (0x16b40, 0x16b43, 1), (0x16b44, 0x16b44, 5), (0x16b45, 0x16b45, 6),
    (0x16b50, 0x16b59, 2), (0x16b5b, 0x16b61, 2), (0x16b63, 0x16b77, 1), (0x16b7d, 0x16b8f, 1), (0x16e40, 0x16e7f, 1),
    (0x16e80, 0x16e96, 2), (0x16e97, 0x16e9a, 5), (0x16f00, 0x16f4a, 1), (0x16f4f, 0x16f4f, 3), (0x16f50, 0x16f50, 1),
    (0x16f51, 0x16f87, 3), (0x16f8f, 0x16f92, 3), (0x16f93, 0x16f9f, 1), (0x16fe0, 0x16fe1, 1), (0x16fe2, 0x16fe2, 5),
    (0x16fe3, 0x16fe3, 1), (0x16fe4, 0x16fe4, 3), (0x16ff0, 0x16ff1, 3), (0x17000, 0x187f7, 1), (0x18800, 0x18cd5, 1),
    (0x18d00, 0x18d08, 1), (0x1aff0, 0x1aff3, 1), (0x1aff5, 0x1affb, 1), (0x1affd, 0x1affe, 1), (0x1b000, 0x1b122, 1),
    (0x1b132, 0x1b132, 1), (0x1b150, 0x1b152, 1), (0x1b155, 0x1b155, 1), (0x1b164, 0x1b167, 1), (0x1b170, 0x1b2fb, 1),
    (0x1bc00, 0x1bc6a, 1), (0x1bc70, 0x1bc7c, 1), (0x1bc80, 0x1bc88, 1), (0x1bc90, 0x1bc99, 1), (0x1bc9c, 0x1bc9c, 6),
    (0x1bc9d, 0x1bc9e, 3), (0x1bc9f, 0x1bc9f, 5), (0x1cf00, 0x1cf2d, 3), (0x1cf30, 0x1cf46, 3), (0x1cf50, 0x1cfc3, 6),
    (0x1d000, 0x1d0f5, 6), (0x1d100, 0x1d126, 6), (0x1d129, 0x1d164, 6), (0x1d165, 0x1d169, 3), (0x1d16a, 0x1d16c, 6),
    (0x1d16d, 0x1d172, 3), (0x1d17b, 0x1d182, 3), (0x1d183, 0x1d184, 6), (0x1d185, 0x1d18b, 3), (0x1d18c, 0x1d1a9, 6),
    (0x1d1aa, 0x1d1ad, 3), (0x1d1ae, 0x1d1ea, 6), (0x1d200, 0x1d241, 6), (0x1d242, 0x1d244, 3), (0x1d245, 0x1d245, 6),
    (0x1d2c0, 0x1d2d3, 2), (0x1d2e0, 0x1d2f3, 2), (0x1d300, 0x1d356, 6), (0x1d360, 0x1d378, 2), (0x1d400, 0x1d454, 1),
    (0x1d456, 0x1d49c, 1), (0x1d49e, 0x1d49f, 1), (0x1d4a2, 0x1d4a2, 1), (0x1d4a5, 0x1d4a6, 1), (0x1d4a9, 0x1d4ac, 1),
    (0x1d4ae, 0x1d4b9, 1), (0x1d4bb, 0x1d4bb, 1), (0x1d4bd, 0x1d4c3, 1), (0x1d4c5, 0x1d505, 1), (0x1d507, 0x1d50a, 1)]"

definition UNICODE_RANGES_10 :: "unicode_range list" where
  "UNICODE_RANGES_10 = [
    (0x1d50d, 0x1d514, 1), (0x1d516, 0x1d51c, 1), (0x1d51e, 0x1d539, 1), (0x1d53b, 0x1d53e, 1), (0x1d540, 0x1d544, 1),
    (0x1d546, 0x1d546, 1), (0x1d54a, 0x1d550, 1), (0x1d552, 0x1d6a5, 1), (0x1d6a8, 0x1d6c0, 1), (0x1d6c1, 0x1d6c1, 6),
    (0x1d6c2, 0x1d6da, 1), (0x1d6db, 0x1d6db, 6), (0x1d6dc, 0x1d6fa, 1), (0x1d6fb, 0x1d6fb, 6), (0x1d6fc, 0x1d714, 1),
    (0x1d715, 0x1d715, 6), (0x1d716, 0x1d734, 1), (0x1d735, 0x1d735, 6), (0x1d736, 0x1d74e, 1), (0x1d74f, 0x1d74f, 6),
    (0x1d750, 0x1d76e, 1), (0x1d76f, 0x1d76f, 6), (0x1d770, 0x1d788, 1), (0x1d789, 0x1d789, 6), (0x1d78a, 0x1d7a8, 1),
    (0x1d7a9, 0x1d7a9, 6), (0x1d7aa, 0x1d7c2, 1), (0x1d7c3, 0x1d7c3, 6), (0x1d7c4, 0x1d7cb, 1), (0x1d7ce, 0x1d7ff, 2),
    (0x1d800, 0x1d9ff, 6), (0x1da00, 0x1da36, 3), (0x1da37, 0x1da3a, 6), (0x1da3b, 0x1da6c, 3), (0x1da6d, 0x1da74, 6),
    (0x1da75, 0x1da75, 3), (0x1da76, 0x1da83, 6), (0x1da84, 0x1da84, 3), (0x1da85, 0x1da86, 6), (0x1da87, 0x1da8b, 5),
    (0x1da9b, 0x1da9f, 3), (0x1daa1, 0x1daaf, 3), (0x1df00, 0x1df1e, 1), (0x1df25, 0x1df2a, 1), (0x1e000, 0x1e006, 3),
    (0x1e008, 0x1e018, 3), (0x1e01b, 0x1e021, 3), (0x1e023, 0x1e024, 3), (0x1e026, 0x1e02a, 3), (0x1e030, 0x1e06d, 1),
    (0x1e08f, 0x1e08f, 3), (0x1e100, 0x1e12c, 1), (0x1e130, 0x1e136, 3), (0x1e137, 0x1e13d, 1), (0x1e140, 0x1e149, 2),
    (0x1e14e, 0x1e14e, 1), (0x1e14f, 0x1e14f, 6), (0x1e290, 0x1e2ad, 1), (0x1e2ae, 0x1e2ae, 3), (0x1e2c0, 0x1e2eb, 1),
    (0x1e2ec, 0x1e2ef, 3), (0x1e2f0, 0x1e2f9, 2), (0x1e2ff, 0x1e2ff, 6), (0x1e4d0, 0x1e4eb, 1), (0x1e4ec, 0x1e4ef, 3),
    (0x1e4f0, 0x1e4f9, 2), (0x1e7e0, 0x1e7e6, 1), (0x1e7e8, 0x1e7eb, 1), (0x1e7ed, 0x1e7ee, 1), (0x1e7f0, 0x1e7fe, 1),
    (0x1e800, 0x1e8c4, 1), (0x1e8c7, 0x1e8cf, 2), (0x1e8d0, 0x1e8d6, 3), (0x1e900, 0x1e943, 1), (0x1e944, 0x1e94a, 3),
    (0x1e94b, 0x1e94b, 1), (0x1e950, 0x1e959, 2), (0x1e95e, 0x1e95f, 5), (0x1ec71, 0x1ecab, 2), (0x1ecac, 0x1ecac, 6),
    (0x1ecad, 0x1ecaf, 2), (0x1ecb0, 0x1ecb0, 6), (0x1ecb1, 0x1ecb4, 2), (0x1ed01, 0x1ed2d, 2), (0x1ed2e, 0x1ed2e, 6),
    (0x1ed2f, 0x1ed3d, 2), (0x1ee00, 0x1ee03, 1), (0x1ee05, 0x1ee1f, 1), (0x1ee21, 0x1ee22, 1), (0x1ee24, 0x1ee24, 1),
    (0x1ee27, 0x1ee27, 1), (0x1ee29, 0x1ee32, 1), (0x1ee34, 0x1ee37, 1), (0x1ee39, 0x1ee39, 1), (0x1ee3b, 0x1ee3b, 1),
    (0x1ee42, 0x1ee42, 1), (0x1ee47, 0x1ee47, 1), (0x1ee49, 0x1ee49, 1), (0x1ee4b, 0x1ee4b, 1), (0x1ee4d, 0x1ee4f, 1),
    (0x1ee51, 0x1ee52, 1), (0x1ee54, 0x1ee54, 1), (0x1ee57, 0x1ee57, 1), (0x1ee59, 0x1ee59, 1), (0x1ee5b, 0x1ee5b, 1),
    (0x1ee5d, 0x1ee5d, 1), (0x1ee5f, 0x1ee5f, 1), (0x1ee61, 0x1ee62, 1), (0x1ee64, 0x1ee64, 1), (0x1ee67, 0x1ee6a, 1),
    (0x1ee6c, 0x1ee72, 1), (0x1ee74, 0x1ee77, 1), (0x1ee79, 0x1ee7c, 1), (0x1ee7e, 0x1ee7e, 1), (0x1ee80, 0x1ee89, 1),
    (0x1ee8b, 0x1ee9b, 1), (0x1eea1, 0x1eea3, 1), (0x1eea5, 0x1eea9, 1), (0x1eeab, 0x1eebb, 1), (0x1eef0, 0x1eef1, 6),
    (0x1f000, 0x1f02b, 6), (0x1f030, 0x1f093, 6), (0x1f0a0, 0x1f0ae, 6), (0x1f0b1, 0x1f0bf, 6), (0x1f0c1, 0x1f0cf, 6),
    (0x1f0d1, 0x1f0f5, 6), (0x1f100, 0x1f10c, 2), (0x1f10d, 0x1f1ad, 6), (0x1f1e6, 0x1f202, 6), (0x1f210, 0x1f23b, 6),
    (0x1f240, 0x1f248, 6), (0x1f250, 0x1f251, 6), (0x1f260, 0x1f265, 6), (0x1f300, 0x1f6d7, 6), (0x1f6dc, 0x1f6ec, 6),
    (0x1f6f0, 0x1f6fc, 6), (0x1f700, 0x1f776, 6), (0x1f77b, 0x1f7d9, 6), (0x1f7e0, 0x1f7eb, 6), (0x1f7f0, 0x1f7f0, 6),
    (0x1f800, 0x1f80b, 6), (0x1f810, 0x1f847, 6), (0x1f850, 0x1f859, 6), (0x1f860, 0x1f887, 6), (0x1f890, 0x1f8ad, 6),
    (0x1f8b0, 0x1f8b1, 6), (0x1f900, 0x1fa53, 6), (0x1fa60, 0x1fa6d, 6), (0x1fa70, 0x1fa7c, 6), (0x1fa80, 0x1fa88, 6)]"

definition UNICODE_RANGES_11 :: "unicode_range list" where
  "UNICODE_RANGES_11 = [
    (0x1fa90, 0x1fabd, 6), (0x1fabf, 0x1fac5, 6), (0x1face, 0x1fadb, 6), (0x1fae0, 0x1fae8, 6), (0x1faf0, 0x1faf8, 6),
    (0x1fb00, 0x1fb92, 6), (0x1fb94, 0x1fbca, 6), (0x1fbf0, 0x1fbf9, 2), (0x20000, 0x2a6df, 1), (0x2a700, 0x2b739, 1),
    (0x2b740, 0x2b81d, 1), (0x2b820, 0x2cea1, 1), (0x2ceb0, 0x2ebe0, 1), (0x2f800, 0x2fa1d, 1), (0x30000, 0x3134a, 1),
    (0x31350, 0x323af, 1), (0xe0100, 0xe01ef, 3)]"

definition UNICODE_RANGES :: "unicode_range list" where
  "UNICODE_RANGES = UNICODE_RANGES_1 @ UNICODE_RANGES_2 @ UNICODE_RANGES_3 @ UNICODE_RANGES_4 @ UNICODE_RANGES_5 
     @ UNICODE_RANGES_6 @ UNICODE_RANGES_7 @ UNICODE_RANGES_8 @ UNICODE_RANGES_9 @ UNICODE_RANGES_10 @ UNICODE_RANGES_11"

text \<open>\<^verbatim>\<open>std::upper_bound\<close>: the first index in \<open>[first, first + len)\<close> whose range starts above \<open>cp\<close>.\<close>

function upper_bound :: "unicode_range list \<Rightarrow> int \<Rightarrow> nat \<Rightarrow> nat \<Rightarrow> nat" where
  "upper_bound rs cp first len =
     (if len = 0 then first
      else
        let half = len div 2; middle = first + half in
        if cp < fst (rs ! middle) then upper_bound rs cp first half
        else upper_bound rs cp (middle + 1) (len - half - 1))"
  by pat_completeness auto
termination
  by (relation "measure (\<lambda>(rs, cp, first, len). len)") auto

declare upper_bound.simps [simp del]

definition range_category :: "unicode_range list \<Rightarrow> int \<Rightarrow> nat" where
  "range_category rs cp =
     (let it = upper_bound rs cp 0 (length rs) in
      if it \<noteq> 0 then
        (case rs ! (it - 1) of (lo, hi, cat) \<Rightarrow> if lo \<le> cp \<and> cp \<le> hi then cat else CAT_OTHER)
      else CAT_OTHER)"

definition get_unicode_category :: "u32 \<Rightarrow> nat" where
  "get_unicode_category cp =
     (if cp < 128 then ASCII_CATEGORIES ! unat cp
      else if 0x110000 \<le> cp then CAT_OTHER
      else range_category UNICODE_RANGES (uint cp))"


section \<open>Binary search\<close>

text \<open>Ranges that are non-empty and follow each other without overlap.\<close>

fun ranges_sorted :: "unicode_range list \<Rightarrow> bool" where
  "ranges_sorted [] = True"
| "ranges_sorted [(lo, hi, c)] = (lo \<le> hi)"
| "ranges_sorted ((lo, hi, c) # (lo', hi', c') # rs) =
     (lo \<le> hi \<and> hi < lo' \<and> ranges_sorted ((lo', hi', c') # rs))"

lemma upper_bound_correct:
  assumes "sorted (map fst rs)" "first + len \<le> length rs"
    "\<And>i. i < first \<Longrightarrow> fst (rs ! i) \<le> cp"
    "\<And>i. first + len \<le> i \<Longrightarrow> i < length rs \<Longrightarrow> cp < fst (rs ! i)"
  shows "upper_bound rs cp first len \<le> length rs
    \<and> (\<forall>i < upper_bound rs cp first len. fst (rs ! i) \<le> cp)
    \<and> (\<forall>i. upper_bound rs cp first len \<le> i \<and> i < length rs \<longrightarrow> cp < fst (rs ! i))"
  using assms
proof (induction rs cp first len rule: upper_bound.induct)
  case (1 rs cp first len)
  show ?case
  proof (cases "len = 0")
    case True
    then have "upper_bound rs cp first len = first" by (simp add: upper_bound.simps)
    with True "1.prems" show ?thesis by auto
  next
    case False
    let ?half = "len div 2" and ?mid = "first + len div 2"
    have mid: "?mid < length rs" using False "1.prems"(2) by simp
    have mono: "fst (rs ! i) \<le> fst (rs ! j)" if "i \<le> j" "j < length rs" for i j
      using sorted_nth_mono [OF "1.prems"(1), of i j] that by simp
    show ?thesis
    proof (cases "cp < fst (rs ! ?mid)")
      case True
      then have eq: "upper_bound rs cp first len = upper_bound rs cp first ?half"
        using False by (subst upper_bound.simps) (simp add: Let_def)
      show ?thesis unfolding eq
      proof (rule "1.IH"(1) [OF False refl refl True "1.prems"(1)])
        show "first + ?half \<le> length rs" using mid by simp
        show "cp < fst (rs ! i)" if "first + ?half \<le> i" "i < length rs" for i
          using mono [OF that] True by simp
      qed (rule "1.prems"(3))
    next
      case upper: False
      then have eq: "upper_bound rs cp first len = upper_bound rs cp (?mid + 1) (len - ?half - 1)"
        using False by (subst upper_bound.simps) (simp add: Let_def)
      show ?thesis unfolding eq
      proof (rule "1.IH"(2) [OF False refl refl upper "1.prems"(1)])
        show "?mid + 1 + (len - ?half - 1) \<le> length rs" using "1.prems"(2) False by simp
        show "fst (rs ! i) \<le> cp" if "i < ?mid + 1" for i
          using mono [of i ?mid] that mid upper by simp
        show "cp < fst (rs ! i)" if "?mid + 1 + (len - ?half - 1) \<le> i" "i < length rs" for i
          using that False by (intro "1.prems"(4)) auto
      qed
    qed
  qed
qed


lemma ranges_sorted_fst: "ranges_sorted rs \<Longrightarrow> sorted (map fst rs)"
proof (induction rs rule: ranges_sorted.induct)
  case (3 lo hi c lo' hi' c' rs)
  then have "lo \<le> lo'" "sorted (map fst ((lo', hi', c') # rs))" by auto
  then show ?case by auto
qed auto

lemma ranges_sorted_nth:
  "ranges_sorted rs \<Longrightarrow> i < j \<Longrightarrow> j < length rs \<Longrightarrow> fst (snd (rs ! i)) < fst (rs ! j)"
proof (induction rs arbitrary: i j rule: ranges_sorted.induct)
  case (3 lo hi c lo' hi' c' rs)
  let ?rs = "(lo', hi', c') # rs"
  obtain j' where j: "j = Suc j'" and j': "j' < length ?rs" using "3.prems" by (cases j) auto
  have srt: "ranges_sorted ?rs" using "3.prems"(1) by simp
  show ?case
  proof (cases i)
    case 0
    have "lo' \<le> fst (?rs ! j')"
      using sorted_nth_mono [OF ranges_sorted_fst [OF srt], of 0 j'] j' nth_map [of j' ?rs fst]
      by simp
    with 0 j "3.prems"(1) show ?thesis by simp
  next
    case (Suc i')
    with "3.IH" [OF srt, of i' j'] "3.prems"(2) j j' show ?thesis by simp
  qed
qed auto

text \<open>The reference: the first range of the table that holds the code point.\<close>

definition in_range :: "int \<Rightarrow> unicode_range \<Rightarrow> bool" where
  "in_range cp r \<longleftrightarrow> fst r \<le> cp \<and> cp \<le> fst (snd r)"

definition table_category :: "unicode_range list \<Rightarrow> int \<Rightarrow> nat" where
  "table_category rs cp =
     (case find (in_range cp) rs of Some r \<Rightarrow> snd (snd r) | None \<Rightarrow> CAT_OTHER)"

lemma table_category_nth:
  assumes "ranges_sorted rs" "i < length rs" "in_range cp (rs ! i)"
  shows "find (in_range cp) rs = Some (rs ! i)"
proof -
  have "\<not> in_range cp (rs ! j)" if "j < i" for j
    using ranges_sorted_nth [OF assms(1) that assms(2)] assms(3) by (auto simp: in_range_def)
  with assms(2,3) show ?thesis by (auto simp: find_Some_iff)
qed

lemma range_category_table:
  assumes "ranges_sorted rs"
  shows "range_category rs cp = table_category rs cp"
proof -
  define k where "k = upper_bound rs cp 0 (length rs)"
  have k: "k \<le> length rs" "\<And>i. i < k \<Longrightarrow> fst (rs ! i) \<le> cp"
    "\<And>i. k \<le> i \<Longrightarrow> i < length rs \<Longrightarrow> cp < fst (rs ! i)"
    using upper_bound_correct [OF ranges_sorted_fst [OF assms], of 0 "length rs" cp]
    by (auto simp: k_def)
  show ?thesis
  proof (cases "k \<noteq> 0 \<and> in_range cp (rs ! (k - 1))")
    case True
    with k(1) have "find (in_range cp) rs = Some (rs ! (k - 1))"
      by (intro table_category_nth [OF assms]) auto
    with True show ?thesis
      by (auto simp: range_category_def table_category_def in_range_def simp flip: k_def
          split: prod.splits)
  next
    case False
    have "\<not> in_range cp (rs ! i)" if i: "i < length rs" for i
    proof (cases "i < k")
      case True
      show ?thesis
      proof (cases "i = k - 1")
        case True
        with False \<open>i < k\<close> show ?thesis by simp
      next
        case less: False
        with True have "i < k - 1" "k - 1 < k" by auto
        then have "fst (snd (rs ! i)) < fst (rs ! (k - 1))" "fst (rs ! (k - 1)) \<le> cp"
          using ranges_sorted_nth [OF assms, of i "k - 1"] k by auto
        then show ?thesis by (auto simp: in_range_def)
      qed
    next
      case False
      with k(3) [of i] i show ?thesis by (auto simp: in_range_def)
    qed
    then have "find (in_range cp) rs = None" by (metis find_None_iff in_set_conv_nth)
    with False show ?thesis
      by (auto simp: range_category_def table_category_def in_range_def simp flip: k_def
          split: prod.splits)
  qed
qed

lemma ranges_sorted_append:
  "ranges_sorted (xs @ ys) \<longleftrightarrow> ranges_sorted xs \<and> ranges_sorted ys
     \<and> (xs \<noteq> [] \<and> ys \<noteq> [] \<longrightarrow> fst (snd (last xs)) < fst (hd ys))"
proof (induction xs rule: ranges_sorted.induct)
  case (2 lo hi c)
  then show ?case by (cases ys) auto
qed auto

text \<open>One piece of the table is sorted, lies in the code points and starts and ends as given.\<close>

definition piece_ok :: "int \<Rightarrow> int \<Rightarrow> unicode_range list \<Rightarrow> bool" where
  "piece_ok lo hi rs \<longleftrightarrow> rs \<noteq> [] \<and> ranges_sorted rs \<and> fst (hd rs) = lo \<and> fst (snd (last rs)) = hi
     \<and> hi < 0x110000"

lemma piece_ok_append:
  "piece_ok lo hi xs \<Longrightarrow> piece_ok lo' hi' ys \<Longrightarrow> hi < lo' \<Longrightarrow> piece_ok lo hi' (xs @ ys)"
  by (simp add: piece_ok_def ranges_sorted_append)

lemma piece_ok_bound:
  assumes "piece_ok lo hi rs" "r \<in> set rs"
  shows "fst (snd r) < 0x110000"
proof -
  from assms(2) obtain i where i: "i < length rs" "r = rs ! i" by (metis in_set_conv_nth)
  have srt: "ranges_sorted rs" and hi: "fst (snd (last rs)) = hi" "hi < 0x110000" and ne: "rs \<noteq> []"
    using assms(1) by (auto simp: piece_ok_def)
  show ?thesis
  proof (cases "i = length rs - 1")
    case True
    with i hi ne show ?thesis by (simp add: last_conv_nth)
  next
    case False
    with i have less: "i < length rs - 1" "length rs - 1 < length rs" by auto
    have "fst (snd r) < fst (last rs)"
      using ranges_sorted_nth [OF srt less] i ne by (simp add: last_conv_nth)
    also have "fst (last rs) \<le> fst (snd (last rs))"
      using srt ne by (induction rs rule: ranges_sorted.induct) auto
    finally show ?thesis using hi by simp
  qed
qed

lemma piece_1: "piece_ok 0xa0 0x98c UNICODE_RANGES_1"
  by code_simp

lemma piece_2: "piece_ok 0x98f 0xd4e UNICODE_RANGES_2"
  by code_simp

lemma piece_3: "piece_ok 0xd4f 0x1770 UNICODE_RANGES_3"
  by code_simp

lemma piece_4: "piece_ok 0x1772 0x2126 UNICODE_RANGES_4"
  by code_simp

lemma piece_5: "piece_ok 0x2127 0xa7d1 UNICODE_RANGES_5"
  by code_simp

lemma piece_6: "piece_ok 0xa7d3 0xff5e UNICODE_RANGES_6"
  by code_simp

lemma piece_7: "piece_ok 0xff5f 0x11002 UNICODE_RANGES_7"
  by code_simp

lemma piece_8: "piece_ok 0x11003 0x11a50 UNICODE_RANGES_8"
  by code_simp

lemma piece_9: "piece_ok 0x11a51 0x1d50a UNICODE_RANGES_9"
  by code_simp

lemma piece_10: "piece_ok 0x1d50d 0x1fa88 UNICODE_RANGES_10"
  by code_simp

lemma piece_11: "piece_ok 0x1fa90 0xe01ef UNICODE_RANGES_11"
  by code_simp

lemmas pieces = piece_1 piece_2 piece_3 piece_4 piece_5 piece_6 piece_7 piece_8 piece_9 piece_10 piece_11

lemma UNICODE_RANGES_piece: "piece_ok 0xa0 0xe01ef UNICODE_RANGES"
  unfolding UNICODE_RANGES_def by (rule piece_ok_append pieces | simp)+

lemma UNICODE_RANGES_sorted: "ranges_sorted UNICODE_RANGES"
  using UNICODE_RANGES_piece by (simp add: piece_ok_def)

text \<open>
  C36. The category lookup of the pre-tokenizer: for every 32-bit code point the ASCII array
  followed by the binary search gives the category of the only table range that contains the
  code point, and \<open>CAT_OTHER\<close> when there is none. The whole table of 1517 ranges is checked to
  be sorted and free of overlaps, which is what the binary search relies on.
\<close>
theorem get_unicode_category_correct:
  "get_unicode_category cp =
     (if cp < 128 then ASCII_CATEGORIES ! unat cp else table_category UNICODE_RANGES (uint cp))"
proof -
  have "table_category UNICODE_RANGES (uint cp) = CAT_OTHER" if "0x110000 \<le> cp"
  proof -
    have big: "0x110000 \<le> uint cp" using that by (simp add: word_le_def)
    with piece_ok_bound [OF UNICODE_RANGES_piece] have "find (in_range (uint cp)) UNICODE_RANGES = None"
      by (fastforce simp: find_None_iff in_range_def)
    then show ?thesis by (simp add: table_category_def)
  qed
  then show ?thesis
    by (auto simp: get_unicode_category_def range_category_table [OF UNICODE_RANGES_sorted])
qed

end
