(* ===== verification/Pretokenizer.thy ===== *)
theory Pretokenizer
  imports Unicode_Table
begin

text \<open>
  The pre-tokenizer of \<^verbatim>\<open>src/targets/qwen3_8/tokenizer.cpp\<close>: the flags of a code point and the
  hand-written scanner \<open>split_qwen35\<close>. The scanner is shown to end, to cut every input into
  consecutive non-empty pieces, and to take in each step exactly the match of the regular
  expression it is documented to implement, as long as every code point has a category.
\<close>

section \<open>Flags\<close>

record cpt_flags =
  is_letter :: bool
  is_number :: bool
  is_accent_mark :: bool
  is_whitespace :: bool
  valid :: bool

definition OUT_OF_RANGE :: u32 where "OUT_OF_RANGE = 0xFFFFFFFF"

definition get_cpt_flags :: "u32 \<Rightarrow> cpt_flags" where
  "get_cpt_flags cp =
     (if cp = 0xFFFFFFFF then
        \<lparr>is_letter = False, is_number = False, is_accent_mark = False, is_whitespace = False,
         valid = False\<rparr>
      else
        let cat = get_unicode_category cp;
            ws = (cat = CAT_WHITESPACE \<or> cp \<in> {0x20, 0x09, 0x0D, 0x0A, 0x0B, 0x0C})
        in \<lparr>is_letter = (cat = CAT_LETTER), is_number = (cat = CAT_NUMBER),
            is_accent_mark = (cat = CAT_MARK), is_whitespace = ws, valid = (cat \<noteq> CAT_OTHER \<or> ws)\<rparr>)"

abbreviation c_cr :: u32 where "c_cr \<equiv> 0x0D"
abbreviation c_lf :: u32 where "c_lf \<equiv> 0x0A"
abbreviation c_space :: u32 where "c_space \<equiv> 0x20"
abbreviation c_quote :: u32 where "c_quote \<equiv> 0x27"

definition letter_mark :: "u32 \<Rightarrow> bool" where
  "letter_mark c \<longleftrightarrow> is_letter (get_cpt_flags c) \<or> is_accent_mark (get_cpt_flags c)"

definition newline :: "u32 \<Rightarrow> bool" where
  "newline c \<longleftrightarrow> c = c_cr \<or> c = c_lf"

definition ws_lm_num :: "cpt_flags \<Rightarrow> bool" where
  "ws_lm_num f \<longleftrightarrow> is_whitespace f \<or> is_letter f \<or> is_accent_mark f \<or> is_number f"

definition symbol_run :: "u32 \<Rightarrow> bool" where
  "symbol_run c \<longleftrightarrow> \<not> (ws_lm_num (get_cpt_flags c) \<or> \<not> valid (get_cpt_flags c))"


section \<open>Scanner\<close>

text \<open>
  \<open>get_cpt\<close> reads past the end as \<^verbatim>\<open>OUT_OF_RANGE\<close>, whose flags are all false. A scanning loop
  \<^verbatim>\<open>while (p(_get_cpt(pos))) pos++\<close> therefore stops at the end of the input at the latest;
  \<open>scan p cpts pos\<close> is the position it stops at.
\<close>

definition get_cpt :: "u32 list \<Rightarrow> nat \<Rightarrow> u32" where
  "get_cpt cpts pos = (if pos < length cpts then cpts ! pos else OUT_OF_RANGE)"

definition get_flags :: "u32 list \<Rightarrow> nat \<Rightarrow> cpt_flags" where
  "get_flags cpts pos = get_cpt_flags (get_cpt cpts pos)"

definition scan :: "(u32 \<Rightarrow> bool) \<Rightarrow> u32 list \<Rightarrow> nat \<Rightarrow> nat" where
  "scan p cpts pos = pos + length (takeWhile p (drop pos cpts))"

definition ascii_lower :: "u32 \<Rightarrow> u32" where
  "ascii_lower c = (if 0x41 \<le> c \<and> c \<le> 0x5A then c + 0x20 else c)"

text \<open>
  The branch for the English contractions: the new position when it is taken. The two tests are
  on the lower-cased code points after the quote.
\<close>

definition short_contraction :: "u32 \<Rightarrow> bool" where
  "short_contraction c1 \<longleftrightarrow> c1 = 0x73 \<or> c1 = 0x74 \<or> c1 = 0x6D \<or> c1 = 0x64"

definition long_contraction :: "u32 \<Rightarrow> u32 \<Rightarrow> bool" where
  "long_contraction c1 c2 \<longleftrightarrow>
     c1 = 0x72 \<and> c2 = 0x65 \<or> c1 = 0x76 \<and> c2 = 0x65 \<or> c1 = 0x6C \<and> c2 = 0x6C"

definition contraction :: "u32 list \<Rightarrow> nat \<Rightarrow> nat option" where
  "contraction cpts pos =
     (if get_cpt cpts pos = c_quote \<and> pos + 1 < length cpts then
        let c1 = ascii_lower (get_cpt cpts (pos + 1)) in
        if short_contraction c1 then Some (pos + 2)
        else if pos + 2 < length cpts then
          let c2 = ascii_lower (get_cpt cpts (pos + 2)) in
          if long_contraction c1 c2 then Some (pos + 3) else None
        else None
      else None)"

text \<open>The whitespace loop over the rest of the input: \<open>num_ws\<close> and \<open>last_end_r_or_n\<close>.\<close>

fun ws_loop :: "nat \<Rightarrow> u32 list \<Rightarrow> nat \<Rightarrow> nat \<Rightarrow> nat \<times> nat" where
  "ws_loop pos [] num_ws last_end = (num_ws, last_end)"
| "ws_loop pos (c # cs) num_ws last_end =
     (if is_whitespace (get_cpt_flags c)
      then ws_loop pos cs (num_ws + 1) (if c = c_cr \<or> c = c_lf then pos + num_ws + 1 else last_end)
      else (num_ws, last_end))"

definition ws_step :: "u32 list \<Rightarrow> nat \<Rightarrow> nat" where
  "ws_step cpts pos =
     (case ws_loop pos (drop pos cpts) 0 0 of
        (num_ws, last_end_r_or_n) \<Rightarrow>
          if last_end_r_or_n > 0 then last_end_r_or_n
          else if num_ws > 1 \<and> get_cpt cpts (pos + num_ws) \<noteq> OUT_OF_RANGE then pos + (num_ws - 1)
          else if num_ws > 0 then pos + num_ws
          else pos + 1)"

definition symbol_branch :: "u32 list \<Rightarrow> nat \<Rightarrow> bool" where
  "symbol_branch cpts pos =
     (let cpt = get_cpt cpts pos; flags = get_flags cpts pos;
          flags2 = (if cpt = c_space then get_flags cpts (pos + 1) else flags)
      in \<not> ws_lm_num flags2 \<and> valid flags)"

definition letter_branch :: "u32 list \<Rightarrow> nat \<Rightarrow> bool" where
  "letter_branch cpts pos =
     (let cpt = get_cpt cpts pos; flags = get_flags cpts pos in
      cpt \<noteq> c_cr \<and> cpt \<noteq> c_lf \<and> \<not> is_number flags \<and>
      (is_letter flags \<or> is_accent_mark flags \<or> is_accent_mark (get_flags cpts (pos + 1))
       \<or> is_letter (get_flags cpts (pos + 1))))"

text \<open>One round of the main loop: the position after the token that starts at \<open>pos\<close>.\<close>

definition split_step :: "u32 list \<Rightarrow> nat \<Rightarrow> nat" where
  "split_step cpts pos =
     (case contraction cpts pos of
        Some pos' \<Rightarrow> pos'
      | None \<Rightarrow>
          if letter_branch cpts pos then scan letter_mark cpts (pos + 1)
          else if is_number (get_flags cpts pos) then pos + 1
          else if symbol_branch cpts pos then
            scan newline cpts
              (scan symbol_run cpts (pos + (if get_cpt cpts pos = c_space then 1 else 0)))
          else ws_step cpts pos)"

lemma scan_ge: "pos \<le> scan p cpts pos"
  by (simp add: scan_def)

lemma scan_le: "pos \<le> length cpts \<Longrightarrow> scan p cpts pos \<le> length cpts"
  using length_takeWhile_le [of p "drop pos cpts"] by (simp add: scan_def)

lemma get_cpt_flags_out [simp]:
  "\<not> is_letter (get_cpt_flags OUT_OF_RANGE)" "\<not> is_number (get_cpt_flags OUT_OF_RANGE)"
  "\<not> is_accent_mark (get_cpt_flags OUT_OF_RANGE)" "\<not> is_whitespace (get_cpt_flags OUT_OF_RANGE)"
  "\<not> valid (get_cpt_flags OUT_OF_RANGE)"
  by (simp_all add: get_cpt_flags_def OUT_OF_RANGE_def)

lemma ws_loop_num:
  "fst (ws_loop pos cs k l) = k + length (takeWhile (\<lambda>c. is_whitespace (get_cpt_flags c)) cs)"
  by (induction pos cs k l rule: ws_loop.induct) auto

lemma ws_loop_last:
  "snd (ws_loop pos cs k l) = l \<or>
     pos + k < snd (ws_loop pos cs k l) \<and> snd (ws_loop pos cs k l) \<le> pos + fst (ws_loop pos cs k l)"
proof (induction pos cs k l rule: ws_loop.induct)
  case (2 pos c cs k l)
  show ?case
  proof (cases "is_whitespace (get_cpt_flags c)")
    case True
    have "k + 1 \<le> fst (ws_loop pos cs (k + 1) m)" for m by (simp add: ws_loop_num)
    with 2 [OF True] True show ?thesis by fastforce
  qed simp
qed simp

lemma ws_step_bounds:
  assumes "pos < length cpts"
  shows "pos < ws_step cpts pos \<and> ws_step cpts pos \<le> length cpts"
proof -
  obtain n l where nl: "ws_loop pos (drop pos cpts) 0 0 = (n, l)" by fastforce
  have "n \<le> length cpts - pos"
    using ws_loop_num [of pos "drop pos cpts" 0 0] length_takeWhile_le [of _ "drop pos cpts"] nl
    by simp
  moreover have "l = 0 \<or> pos < l \<and> l \<le> pos + n"
    using ws_loop_last [of pos "drop pos cpts" 0 0] nl by simp
  ultimately show ?thesis using assms by (auto simp: ws_step_def nl)
qed

lemma contraction_bounds:
  "contraction cpts pos = Some pos' \<Longrightarrow> pos < pos' \<and> pos' \<le> length cpts"
  by (auto simp: contraction_def Let_def split: if_splits)

lemma symbol_scan_gt:
  assumes "pos < length cpts" "symbol_branch cpts pos" "get_cpt cpts pos \<noteq> c_space"
  shows "pos < scan symbol_run cpts pos"
proof -
  have "symbol_run (cpts ! pos)"
    using assms by (auto simp: symbol_branch_def symbol_run_def get_flags_def get_cpt_def Let_def)
  then show ?thesis using assms(1) by (simp add: scan_def Cons_nth_drop_Suc [symmetric])
qed

lemma split_step_bounds:
  assumes "pos < length cpts"
  shows "pos < split_step cpts pos \<and> split_step cpts pos \<le> length cpts"
proof (cases "contraction cpts pos")
  case (Some pos')
  then show ?thesis using contraction_bounds by (simp add: split_step_def)
next
  case None
  define q where "q = pos + (if get_cpt cpts pos = c_space then 1 else 0)"
  have q: "q \<le> length cpts" using assms by (auto simp: q_def)
  have "pos < scan symbol_run cpts q" if "symbol_branch cpts pos"
    using symbol_scan_gt [OF assms that] scan_ge [of q symbol_run cpts]
    by (cases "get_cpt cpts pos = c_space") (auto simp: q_def)
  then have sym: "symbol_branch cpts pos \<Longrightarrow> pos < scan newline cpts (scan symbol_run cpts q)"
    using scan_ge order_less_le_trans by blast
  have "scan newline cpts (scan symbol_run cpts q) \<le> length cpts"
    by (intro scan_le q)
  moreover have "pos < scan letter_mark cpts (pos + 1)" "scan letter_mark cpts (pos + 1) \<le> length cpts"
    using scan_ge [of "pos + 1" letter_mark cpts] scan_le [of "pos + 1" cpts letter_mark] assms by auto
  ultimately show ?thesis
    using None sym ws_step_bounds [OF assms] assms by (simp add: split_step_def q_def [symmetric])
qed

text \<open>
  The main loop with the offsets collected so far. \<open>add_token\<close> records a piece that ends after
  \<open>prev_end\<close>.
\<close>

definition add_token :: "nat \<Rightarrow> nat \<Rightarrow> (nat \<times> nat) list \<Rightarrow> (nat \<times> nat) list" where
  "add_token prev_end e offsets = (if prev_end < e then offsets @ [(prev_end, e)] else offsets)"

function split_loop :: "u32 list \<Rightarrow> nat \<Rightarrow> nat \<Rightarrow> (nat \<times> nat) list \<Rightarrow> (nat \<times> nat) list" where
  "split_loop cpts pos prev_end offsets =
     (if pos < length cpts then
        let pos' = split_step cpts pos in
        split_loop cpts pos' pos' (add_token prev_end pos' offsets)
      else offsets)"
  by pat_completeness auto
termination
  by (relation "measure (\<lambda>(cpts, pos, prev_end, offsets). length cpts - pos)")
    (use split_step_bounds in \<open>fastforce+\<close>)

declare split_loop.simps [simp del]

definition split_qwen35 :: "u32 list \<Rightarrow> (nat \<times> nat) list" where
  "split_qwen35 cpts = split_loop cpts 0 0 []"



section \<open>The pieces tile the input\<close>

fun covers :: "nat \<Rightarrow> nat \<Rightarrow> (nat \<times> nat) list \<Rightarrow> bool" where
  "covers a b [] = (a = b)"
| "covers a b ((s, e) # r) = (s = a \<and> a < e \<and> covers e b r)"

lemma split_loop_cuts:
  "pos \<le> length cpts \<Longrightarrow> prev = pos \<Longrightarrow>
     \<exists>r. split_loop cpts pos prev offsets = offsets @ r \<and> covers pos (length cpts) r
         \<and> (\<forall>(s, e) \<in> set r. e = split_step cpts s)"
proof (induction cpts pos prev offsets rule: split_loop.induct)
  case (1 cpts pos prev offsets)
  show ?case
  proof (cases "pos < length cpts")
    case True
    define pos' where "pos' = split_step cpts pos"
    have b: "pos < pos'" "pos' \<le> length cpts" using split_step_bounds [OF True] by (auto simp: pos'_def)
    obtain r where r: "split_loop cpts pos' pos' (add_token prev pos' offsets) = add_token prev pos' offsets @ r"
      "covers pos' (length cpts) r" "\<forall>(s, e) \<in> set r. e = split_step cpts s"
      using "1.IH" [OF True pos'_def b(2) refl] by blast
    have "split_loop cpts pos prev offsets = offsets @ (pos, pos') # r"
      using True r(1) b "1.prems"
      by (subst split_loop.simps) (simp add: Let_def add_token_def flip: pos'_def)
    with r b show ?thesis by (intro exI [of _ "(pos, pos') # r"]) (simp add: pos'_def)
  qed (use "1.prems" in \<open>simp add: split_loop.simps\<close>)
qed

lemma split_qwen35_cuts:
  "covers 0 (length cpts) (split_qwen35 cpts)" "(s, e) \<in> set (split_qwen35 cpts) \<Longrightarrow> e = split_step cpts s"
  using split_loop_cuts [of 0 cpts 0 "[]"] by (auto simp: split_qwen35_def)

lemma tiles_slices:
  "covers a b r \<Longrightarrow> b \<le> length xs \<Longrightarrow>
     a \<le> b \<and> concat (map (\<lambda>(s, e). slice s (e - s) xs) r) = slice a (b - a) xs"
proof (induction a b r rule: covers.induct)
  case (2 a b s e r)
  then have e: "a < e" "e \<le> b" "covers e b r" "s = a" by auto
  have "slice a (e - a) xs @ slice e (b - e) xs = slice a (b - a) xs"
    using e take_add [of "e - a" "b - e" "drop a xs"] by (simp add: slice_def)
  with 2 e show ?case by simp
qed (simp add: slice_def)

text \<open>
  The scanner always ends, its offsets are consecutive non-empty ranges from the start to the
  end of the input, and the pieces put together are the input: no code point is lost, repeated
  or reordered by pre-tokenization, whatever the input (malformed code points included).
\<close>
theorem split_partitions_input:
  "covers 0 (length cpts) (split_qwen35 cpts) \<and>
     concat (map (\<lambda>(s, e). slice s (e - s) cpts) (split_qwen35 cpts)) = cpts"
  using split_qwen35_cuts(1) [of cpts] tiles_slices [of 0 "length cpts" "split_qwen35 cpts" cpts]
  by (simp add: slice_def)


section \<open>The regular expression\<close>

text \<open>
  The alternatives of the documented expression
  \<^verbatim>\<open>(?i:'s|'t|'re|'ve|'m|'ll|'d)|[^\r\n\p{L}\p{N}]?[\p{L}\p{M}]+|\p{N}| ?[^\s\p{L}\p{M}\p{N}]+[\r\n]*|\s*[\r\n]+|\s+(?!\S)|\s+\<close>
  as predicates on a candidate match \<open>w\<close> and the input \<open>r\<close> after it. All quantifiers are
  greedy, so an alternative matches its longest candidate, and the first alternative with a
  match is taken.
\<close>

abbreviation cL :: "u32 \<Rightarrow> bool" where "cL c \<equiv> is_letter (get_cpt_flags c)"
abbreviation cM :: "u32 \<Rightarrow> bool" where "cM c \<equiv> is_accent_mark (get_cpt_flags c)"
abbreviation cN :: "u32 \<Rightarrow> bool" where "cN c \<equiv> is_number (get_cpt_flags c)"
abbreviation cS :: "u32 \<Rightarrow> bool" where "cS c \<equiv> is_whitespace (get_cpt_flags c)"
abbreviation cX :: "u32 \<Rightarrow> bool" where "cX c \<equiv> \<not> cS c \<and> \<not> cL c \<and> \<not> cM c \<and> \<not> cN c"

definition re_contraction :: "u32 list \<Rightarrow> u32 list \<Rightarrow> bool" where
  "re_contraction w r \<longleftrightarrow> map ascii_lower w \<in>
     {[0x27, 0x73], [0x27, 0x74], [0x27, 0x72, 0x65], [0x27, 0x76, 0x65], [0x27, 0x6D],
      [0x27, 0x6C, 0x6C], [0x27, 0x64]}"

definition re_letters :: "u32 list \<Rightarrow> u32 list \<Rightarrow> bool" where
  "re_letters w r \<longleftrightarrow>
     w \<noteq> [] \<and> list_all letter_mark w \<or>
     (\<exists>c v. w = c # v \<and> \<not> newline c \<and> \<not> cL c \<and> \<not> cN c \<and> v \<noteq> [] \<and> list_all letter_mark v)"

definition re_number :: "u32 list \<Rightarrow> u32 list \<Rightarrow> bool" where
  "re_number w r \<longleftrightarrow> (\<exists>c. w = [c] \<and> cN c)"

definition re_symbols :: "u32 list \<Rightarrow> u32 list \<Rightarrow> bool" where
  "re_symbols w r \<longleftrightarrow>
     (\<exists>sp xs nl. w = sp @ xs @ nl \<and> (sp = [] \<or> sp = [c_space]) \<and> xs \<noteq> [] \<and> list_all cX xs
        \<and> list_all newline nl)"

definition re_newlines :: "u32 list \<Rightarrow> u32 list \<Rightarrow> bool" where
  "re_newlines w r \<longleftrightarrow> (\<exists>ws nl. w = ws @ nl \<and> list_all cS ws \<and> nl \<noteq> [] \<and> list_all newline nl)"

definition re_space_ahead :: "u32 list \<Rightarrow> u32 list \<Rightarrow> bool" where
  "re_space_ahead w r \<longleftrightarrow> w \<noteq> [] \<and> list_all cS w \<and> (r = [] \<or> cS (hd r))"

definition re_space :: "u32 list \<Rightarrow> u32 list \<Rightarrow> bool" where
  "re_space w r \<longleftrightarrow> w \<noteq> [] \<and> list_all cS w"

definition longest_match :: "(u32 list \<Rightarrow> u32 list \<Rightarrow> bool) \<Rightarrow> u32 list \<Rightarrow> nat \<Rightarrow> bool" where
  "longest_match R s n \<longleftrightarrow> n \<le> length s \<and> R (take n s) (drop n s)
     \<and> (\<forall>m. n < m \<and> m \<le> length s \<longrightarrow> \<not> R (take m s) (drop m s))"

definition no_match :: "(u32 list \<Rightarrow> u32 list \<Rightarrow> bool) \<Rightarrow> u32 list \<Rightarrow> bool" where
  "no_match R s \<longleftrightarrow> (\<forall>m \<le> length s. \<not> R (take m s) (drop m s))"

fun first_match :: "(u32 list \<Rightarrow> u32 list \<Rightarrow> bool) list \<Rightarrow> u32 list \<Rightarrow> nat \<Rightarrow> bool" where
  "first_match [] s n = False"
| "first_match (R # Rs) s n = (longest_match R s n \<or> no_match R s \<and> first_match Rs s n)"

definition qwen_regex :: "(u32 list \<Rightarrow> u32 list \<Rightarrow> bool) list" where
  "qwen_regex = [re_contraction, re_letters, re_number, re_symbols, re_newlines, re_space_ahead, re_space]"


text \<open>The step only looks at the input from \<open>pos\<close> on.\<close>

lemma get_cpt_shift: "get_cpt cpts (pos + k) = get_cpt (drop pos cpts) k"
  by (auto simp: get_cpt_def)

lemma scan_shift: "scan p cpts (pos + k) = pos + scan p (drop pos cpts) k"
  by (simp add: scan_def add.commute)

lemma ws_loop_shift:
  "ws_loop pos cs k (if l = 0 then 0 else pos + l) =
     map_prod id (\<lambda>l. if l = 0 then 0 else pos + l) (ws_loop 0 cs k l)"
proof (induction cs arbitrary: k l)
  case (Cons c cs)
  from Cons.IH [of "k + 1" "k + 1"] Cons.IH [of "k + 1" l] show ?case by (auto simp: add.assoc)
qed auto

lemma split_step_shift:
  assumes "pos < length cpts"
  shows "split_step cpts pos = pos + split_step (drop pos cpts) 0"
proof -
  let ?s = "drop pos cpts"
  note sh = get_cpt_shift [of cpts pos 0, unfolded add_0_right] get_cpt_shift [of cpts pos]
    scan_shift [of _ cpts pos 0, unfolded add_0_right] scan_shift [of _ cpts pos]
  have c: "contraction cpts pos = map_option ((+) pos) (contraction ?s 0)"
    unfolding contraction_def Let_def sh using assms by (simp add: less_diff_conv add.commute numeral_2_eq_2)
  have l: "letter_branch cpts pos = letter_branch ?s 0" "symbol_branch cpts pos = symbol_branch ?s 0"
    unfolding letter_branch_def symbol_branch_def get_flags_def sh by simp_all
  have w: "ws_step cpts pos = pos + ws_step ?s 0"
    using ws_loop_shift [of pos ?s 0 0]
    by (auto simp: ws_step_def sh split: prod.splits)
  show ?thesis
    unfolding split_step_def c l w get_flags_def sh by (simp split: option.splits)
qed

text \<open>Facts about the character classes.\<close>

lemma newline_space: "newline c \<Longrightarrow> cS c" and space_cS: "cS c_space"
  by (auto simp: newline_def get_cpt_flags_def Let_def)

lemma classes_disjoint:
  "cL c \<Longrightarrow> \<not> cN c" "cM c \<Longrightarrow> \<not> cN c"
  by (auto simp: get_cpt_flags_def Let_def split: if_splits)

lemma cS_not_LMN:
  assumes "cS c"
  shows "\<not> cL c \<and> \<not> cM c \<and> \<not> cN c"
proof -
  have "list_all (\<lambda>w. get_unicode_category w = CAT_WHITESPACE) [0x20, 0x09, 0x0D, 0x0A, 0x0B, 0x0C]"
    by code_simp
  then have "w \<in> {0x20, 0x09, 0x0D, 0x0A, 0x0B, 0x0C} \<Longrightarrow> get_unicode_category w = CAT_WHITESPACE" for w
    by auto
  with assms have "get_unicode_category c = CAT_WHITESPACE"
    by (auto simp: get_cpt_flags_def Let_def split: if_splits)
  then show ?thesis by (simp add: get_cpt_flags_def Let_def)
qed

lemma list_all_take_iff:
  "m \<le> length xs \<Longrightarrow> list_all p (take m xs) \<longleftrightarrow> m \<le> length (takeWhile p xs)"
proof (induction xs arbitrary: m)
  case (Cons x xs)
  then show ?case by (cases m) auto
qed simp



subsection \<open>Contractions\<close>

lemma ascii_lower_quote: "ascii_lower c = 0x27 \<longleftrightarrow> c = 0x27"
proof -
  have "c + 0x20 \<noteq> 0x27" if "0x41 \<le> c" "c \<le> 0x5A"
  proof
    assume "c + 0x20 = 0x27"
    then have "c = 0x27 - 0x20" by (metis add_diff_cancel_right')
    with that show False by simp
  qed
  then show ?thesis by (auto simp: ascii_lower_def)
qed

lemma re_contraction_2: "re_contraction [a, b] r \<longleftrightarrow> a = c_quote \<and> short_contraction (ascii_lower b)"
  by (auto simp: re_contraction_def short_contraction_def ascii_lower_quote)

lemma re_contraction_3:
  "re_contraction [a, b, c] r \<longleftrightarrow> a = c_quote \<and> long_contraction (ascii_lower b) (ascii_lower c)"
  by (auto simp: re_contraction_def long_contraction_def ascii_lower_quote)

lemma re_contraction_length: "re_contraction w r \<Longrightarrow> length w = 2 \<or> length w = 3"
  by (auto simp: re_contraction_def dest: arg_cong [where f = length])

lemma short_not_long: "short_contraction a \<Longrightarrow> \<not> long_contraction a b"
  by (auto simp: short_contraction_def long_contraction_def)

lemma contraction_regex:
  "case contraction s 0 of Some n \<Rightarrow> longest_match re_contraction s n | None \<Rightarrow> no_match re_contraction s"
proof -
  have len: "re_contraction (take m s) (drop m s) \<Longrightarrow> m \<le> length s \<Longrightarrow> m = 2 \<or> m = 3" for m
    using re_contraction_length [of "take m s"] by simp
  consider "length s < 2" | a b where "s = [a, b]" | a b c t where "s = a # b # c # t"
    by (cases s; cases "tl s"; cases "tl (tl s)") auto
  then show ?thesis
  proof cases
    case 1
    then show ?thesis using len by (fastforce simp: contraction_def no_match_def)
  next
    case 2
    then have "re_contraction (take m s) (drop m s) \<longleftrightarrow> m = 2 \<and> re_contraction [a, b] []" if "m \<le> length s" for m
      using len [of m] that by (cases "m = 2") auto
    then show ?thesis using 2
      by (auto simp: contraction_def get_cpt_def longest_match_def no_match_def re_contraction_2 Let_def)
  next
    case 3
    then have "re_contraction (take m s) (drop m s) \<longleftrightarrow>
        m = 2 \<and> a = c_quote \<and> short_contraction (ascii_lower b)
        \<or> m = 3 \<and> a = c_quote \<and> long_contraction (ascii_lower b) (ascii_lower c)" if "m \<le> length s" for m
      using len [of m] that re_contraction_2 re_contraction_3
      by (cases "m = 2"; cases "m = 3") (auto simp: numeral_2_eq_2 numeral_3_eq_3)
    then show ?thesis using 3 short_not_long
      by (auto simp: contraction_def get_cpt_def longest_match_def no_match_def numeral_2_eq_2 Let_def
          re_contraction_2 re_contraction_3)
  qed
qed


subsection \<open>Letters and numbers\<close>

lemma re_letters_Cons:
  "re_letters (c # v) r \<longleftrightarrow> letter_mark c \<and> list_all letter_mark v
     \<or> \<not> newline c \<and> \<not> cL c \<and> \<not> cN c \<and> v \<noteq> [] \<and> list_all letter_mark v"
  by (auto simp: re_letters_def)

lemma letter_mark_classes: "letter_mark c \<Longrightarrow> \<not> cN c \<and> \<not> cS c \<and> \<not> newline c"
  using newline_space [of c] cS_not_LMN [of c] classes_disjoint [of c] by (auto simp: letter_mark_def)

text \<open>A candidate of at least one code point, as the first code point and a prefix of the rest.\<close>

lemma candidates_Cons:
  assumes "\<And>r. \<not> R [] r"
  shows "no_match R (c # s) \<longleftrightarrow> (\<forall>k \<le> length s. \<not> R (c # take k s) (drop k s))"
    "longest_match R (c # s) (Suc n) \<longleftrightarrow> n \<le> length s \<and> R (c # take n s) (drop n s)
       \<and> (\<forall>k. n < k \<and> k \<le> length s \<longrightarrow> \<not> R (c # take k s) (drop k s))"
proof -
  have "(\<forall>m. m \<le> length (c # s) \<longrightarrow> \<not> R (take m (c # s)) (drop m (c # s))) \<longleftrightarrow>
      (\<forall>k \<le> length s. \<not> R (c # take k s) (drop k s))"
    (is "(\<forall>m. ?P m) \<longleftrightarrow> _")
  proof -
    have "(\<forall>m. ?P m) \<longleftrightarrow> ?P 0 \<and> (\<forall>k. ?P (Suc k))" by (metis not0_implies_Suc)
    with assms show ?thesis by simp
  qed
  then show "no_match R (c # s) \<longleftrightarrow> (\<forall>k \<le> length s. \<not> R (c # take k s) (drop k s))"
    by (simp add: no_match_def)
  have "(\<forall>m. Suc n < m \<and> m \<le> length (c # s) \<longrightarrow> \<not> R (take m (c # s)) (drop m (c # s))) \<longleftrightarrow>
      (\<forall>k. n < k \<and> k \<le> length s \<longrightarrow> \<not> R (c # take k s) (drop k s))"
    (is "(\<forall>m. ?Q m) \<longleftrightarrow> _")
  proof -
    have "(\<forall>m. ?Q m) \<longleftrightarrow> ?Q 0 \<and> (\<forall>k. ?Q (Suc k))" by (metis not0_implies_Suc)
    then show ?thesis by simp
  qed
  then show "longest_match R (c # s) (Suc n) \<longleftrightarrow> n \<le> length s \<and> R (c # take n s) (drop n s)
       \<and> (\<forall>k. n < k \<and> k \<le> length s \<longrightarrow> \<not> R (c # take k s) (drop k s))"
    by (simp add: longest_match_def)
qed

lemma letters_regex:
  "if letter_branch (c # s) 0 then longest_match re_letters (c # s) (scan letter_mark (c # s) 1)
   else no_match re_letters (c # s)"
proof -
  define k where "k = length (takeWhile letter_mark s)"
  have kle: "k \<le> length s" by (simp add: k_def length_takeWhile_le)
  have hd: "letter_mark (get_cpt (c # s) 1) \<longleftrightarrow> 0 < k"
    by (cases s) (auto simp: get_cpt_def k_def letter_mark_def)
  have cand: "re_letters (c # take m s) (drop m s) \<longleftrightarrow>
      m \<le> k \<and> (letter_mark c \<or> \<not> newline c \<and> \<not> cL c \<and> \<not> cN c \<and> 0 < m)" if "m \<le> length s" for m
    using list_all_take_iff [OF that, of letter_mark] that
    by (auto simp: re_letters_Cons k_def)
  have branch: "letter_branch (c # s) 0 \<longleftrightarrow> \<not> newline c \<and> \<not> cN c \<and> (letter_mark c \<or> 0 < k)"
    using hd by (auto simp: letter_branch_def newline_def letter_mark_def get_flags_def get_cpt_def Let_def)
  have empty: "\<not> re_letters [] r" for r by (simp add: re_letters_def)
  have "scan letter_mark (c # s) 1 = Suc k" by (simp add: scan_def k_def)
  moreover have "letter_branch (c # s) 0 \<Longrightarrow> longest_match re_letters (c # s) (Suc k)"
    using kle cand branch by (auto simp: candidates_Cons(2) [of re_letters, OF empty] letter_mark_def)
  moreover have "\<not> letter_branch (c # s) 0 \<Longrightarrow> no_match re_letters (c # s)"
    using kle cand branch letter_mark_classes [of c]
    by (auto simp: candidates_Cons(1) [of re_letters, OF empty])
  ultimately show ?thesis by simp
qed

lemma number_regex:
  "if cN c then longest_match re_number (c # s) 1 else no_match re_number (c # s)"
proof -
  have "longest_match re_number (c # s) (Suc 0)" if "cN c"
    using that by (subst candidates_Cons(2)) (auto simp: re_number_def)
  moreover have "no_match re_number (c # s)" if "\<not> cN c"
    using that by (subst candidates_Cons(1)) (auto simp: re_number_def)
  ultimately show ?thesis by simp
qed


subsection \<open>Symbols\<close>

definition symbols_core :: "u32 list \<Rightarrow> bool" where
  "symbols_core w \<longleftrightarrow> (\<exists>xs nl. w = xs @ nl \<and> xs \<noteq> [] \<and> list_all cX xs \<and> list_all newline nl)"

definition symbols_len :: "u32 list \<Rightarrow> nat" where
  "symbols_len t = (let a = takeWhile cX t in length a + length (takeWhile newline (drop (length a) t)))"

lemma symbols_core_Nil [simp]: "\<not> symbols_core []"
  by (simp add: symbols_core_def)

lemma symbols_core_hd: "symbols_core (c # v) \<Longrightarrow> cX c"
  by (auto simp: symbols_core_def append_eq_Cons_conv Cons_eq_append_conv)

lemma re_symbols_iff:
  "re_symbols w r \<longleftrightarrow> symbols_core w \<or> (\<exists>v. w = c_space # v \<and> symbols_core v)"
proof
  assume "re_symbols w r"
  then obtain sp xs nl where w: "w = sp @ xs @ nl" "sp = [] \<or> sp = [c_space]"
    and core: "symbols_core (xs @ nl)"
    unfolding re_symbols_def symbols_core_def by blast
  then show "symbols_core w \<or> (\<exists>v. w = c_space # v \<and> symbols_core v)" by auto
next
  assume "symbols_core w \<or> (\<exists>v. w = c_space # v \<and> symbols_core v)"
  then obtain sp v where w: "w = sp @ v" "sp = [] \<or> sp = [c_space]" and "symbols_core v"
    by (metis append_Cons append_Nil)
  then show "re_symbols w r" unfolding re_symbols_def symbols_core_def by blast
qed

lemma symbols_len_le: "symbols_len t \<le> length t"
  using length_takeWhile_le [of cX t]
    length_takeWhile_le [of newline "drop (length (takeWhile cX t)) t"]
  by (simp add: symbols_len_def Let_def)

lemma symbols_len_max:
  assumes "symbols_core (take m t)" "m \<le> length t"
  shows "m \<le> symbols_len t"
proof -
  define a where "a = takeWhile cX t"
  obtain xs nl where w: "take m t = xs @ nl" "list_all cX xs" "list_all newline nl"
    using assms(1) by (auto simp: symbols_core_def)
  have m: "m = length xs + length nl" using arg_cong [OF w(1), of length] assms(2) by simp
  have t: "t = xs @ nl @ drop m t" by (metis append.assoc append_take_drop_id w(1))
  have "take (length xs) (xs @ nl @ drop m t) = xs" by simp
  then have "take (length xs) t = xs" using t by simp
  then have xs: "length xs \<le> length a"
    using list_all_take_iff [of "length xs" t cX] w(2) m assms(2) by (simp add: a_def)
  show ?thesis
  proof (cases "length xs = length a")
    case True
    have "drop (length xs) (xs @ nl @ drop m t) = nl @ drop m t" by simp
    then have "drop (length a) t = nl @ drop m t" using t True by simp
    then have "take (length nl) (drop (length a) t) = nl" "length nl \<le> length (drop (length a) t)" by simp_all
    with list_all_take_iff [of "length nl" "drop (length a) t" newline] w(3)
    have "length nl \<le> length (takeWhile newline (drop (length a) t))" by simp
    with True m show ?thesis by (simp add: symbols_len_def Let_def flip: a_def)
  next
    case False
    with xs have less: "length xs < length a" by simp
    have "nl = []"
    proof (cases nl)
      case (Cons n ns)
      have "(xs @ nl @ drop m t) ! length xs = n" by (simp add: Cons nth_append)
      then have "t ! length xs = n" using t by simp
      moreover have "a ! length xs = t ! length xs" using less by (simp add: a_def takeWhile_nth)
      moreover have "cX (a ! length xs)"
        using nth_mem [OF less] unfolding a_def by (rule set_takeWhileD [THEN conjunct2])
      ultimately show ?thesis using w(3) Cons newline_space [of n] by simp
    qed simp
    with m xs show ?thesis by (simp add: symbols_len_def Let_def flip: a_def)
  qed
qed

lemma symbols_len_core:
  assumes "cX c"
  shows "symbols_core (take (symbols_len (c # t)) (c # t))"
proof -
  define a where "a = takeWhile cX (c # t)"
  define b where "b = takeWhile newline (drop (length a) (c # t))"
  have "c # t = a @ drop (length a) (c # t)"
    unfolding a_def by (simp only: takeWhile_dropWhile_id flip: dropWhile_eq_drop)
  moreover have "drop (length a) (c # t) = b @ drop (length b) (drop (length a) (c # t))"
    unfolding b_def by (simp only: takeWhile_dropWhile_id flip: dropWhile_eq_drop)
  ultimately have "c # t = (a @ b) @ drop (length b) (drop (length a) (c # t))" by simp
  then have "take (length (a @ b)) (c # t) = a @ b" by (rule append_eq_conv_conj [THEN iffD1, OF sym, THEN conjunct1, symmetric])
  then have "take (length a + length b) (c # t) = a @ b" by simp
  moreover have "symbols_len (c # t) = length a + length b"
    by (simp add: symbols_len_def a_def b_def Let_def)
  moreover have "a \<noteq> []" using assms by (simp add: a_def)
  moreover have "list_all cX a" "list_all newline b"
    unfolding a_def b_def list_all_iff using set_takeWhileD by fast+
  ultimately show ?thesis unfolding symbols_core_def by metis
qed

lemma scan_symbols:
  assumes "list_all (\<lambda>c. valid (get_cpt_flags c)) s"
  shows "scan newline s (scan symbol_run s j) = j + symbols_len (drop j s)"
proof -
  have v: "valid (get_cpt_flags c)" if "c \<in> set (drop j s)" for c
    using assms that in_set_dropD by (fastforce simp: list_all_iff)
  have "takeWhile symbol_run (drop j s) = takeWhile cX (drop j s)"
    by (rule takeWhile_cong [OF refl]) (auto simp: symbol_run_def ws_lm_num_def v)
  then show ?thesis by (simp add: scan_def symbols_len_def Let_def add.commute)
qed


lemma symbols_regex:
  assumes v: "list_all (\<lambda>c. valid (get_cpt_flags c)) (c # s)" and ne: "c = c_space \<Longrightarrow> s \<noteq> []"
  shows "if symbol_branch (c # s) 0
     then longest_match re_symbols (c # s)
       (scan newline (c # s) (scan symbol_run (c # s) (if c = c_space then 1 else 0)))
     else no_match re_symbols (c # s)"
proof (cases "c = c_space")
  case True
  obtain d t where s: "s = d # t" using ne [OF True] by (cases s) auto
  have branch: "symbol_branch (c # s) 0 \<longleftrightarrow> cX d"
    using v True by (auto simp: symbol_branch_def get_flags_def get_cpt_def ws_lm_num_def s Let_def)
  have cand: "re_symbols (c # w) r \<longleftrightarrow> symbols_core w" for w r
    using symbols_core_hd [of c w] space_cS True by (auto simp: re_symbols_iff)
  have n: "scan newline (c # s) (scan symbol_run (c # s) 1) = Suc (symbols_len s)"
    using scan_symbols [OF v, of 1] by simp
  have empty: "\<not> re_symbols [] r" for r by (simp add: re_symbols_iff)
  have "longest_match re_symbols (c # s) (Suc (symbols_len s))" if "cX d"
    using symbols_len_core [OF that, of t] symbols_len_max [of _ s] symbols_len_le [of s]
    by (auto simp: candidates_Cons(2) [of re_symbols, OF empty] cand s not_le [symmetric])
  moreover have "no_match re_symbols (c # s)" if "\<not> cX d"
  proof -
    have "\<not> symbols_core (take k s)" for k
      using that symbols_core_hd [of d] by (cases k) (auto simp: s)
    then show ?thesis by (simp add: candidates_Cons(1) [of re_symbols, OF empty] cand)
  qed
  ultimately show ?thesis using True n branch by simp
next
  case False
  have branch: "symbol_branch (c # s) 0 \<longleftrightarrow> cX c"
    using v False by (auto simp: symbol_branch_def get_flags_def get_cpt_def ws_lm_num_def Let_def)
  have cand: "re_symbols (take m (c # s)) r \<longleftrightarrow> symbols_core (take m (c # s))" for m r
    using False by (cases m) (auto simp: re_symbols_iff)
  have n: "scan newline (c # s) (scan symbol_run (c # s) 0) = symbols_len (c # s)"
    using scan_symbols [OF v, of 0] by simp
  have "longest_match re_symbols (c # s) (symbols_len (c # s))" if "cX c"
    using symbols_len_core [OF that, of s] symbols_len_max [of _ "c # s"] symbols_len_le [of "c # s"]
    unfolding longest_match_def cand by (meson not_le)
  moreover have "no_match re_symbols (c # s)" if "\<not> cX c"
  proof -
    have "\<not> symbols_core (take k (c # s))" for k
      using that symbols_core_hd [of c] by (cases k) auto
    then show ?thesis unfolding no_match_def cand by simp
  qed
  ultimately show ?thesis using False n branch by simp
qed


subsection \<open>Whitespace\<close>

text \<open>\<open>last_end_r_or_n\<close> is the end of the last line break in the run of whitespace.\<close>

lemma ws_loop_last_newline:
  "(n, l') = ws_loop 0 cs k l \<Longrightarrow>
     (\<exists>i < n - k. newline (cs ! i)) \<and> k < l' \<and> l' \<le> n \<and> newline (cs ! (l' - k - 1))
        \<and> (\<forall>i. l' \<le> k + i \<and> k + i < n \<longrightarrow> \<not> newline (cs ! i))
     \<or> (\<forall>i < n - k. \<not> newline (cs ! i)) \<and> l' = l"
proof (induction cs arbitrary: k l)
  case Nil
  then show ?case by simp
next
  case (Cons c cs)
  show ?case
  proof (cases "cS c")
    case False
    with Cons.prems show ?thesis by simp
  next
    case True
    define l1 where "l1 = (if newline c then k + 1 else l)"
    have loop: "(n, l') = ws_loop 0 cs (k + 1) l1"
      using Cons.prems True by (simp add: l1_def newline_def split: if_splits)
    have n: "k + 1 \<le> n" using ws_loop_num [of 0 cs "k + 1" l1] loop by (metis fst_conv le_add1)
    from Cons.IH [OF loop] show ?thesis
    proof (elim disjE conjE)
      assume A: "\<exists>i < n - (k + 1). newline (cs ! i)" "k + 1 < l'" "l' \<le> n" "newline (cs ! (l' - (k + 1) - 1))"
        "\<forall>i. l' \<le> k + 1 + i \<and> k + 1 + i < n \<longrightarrow> \<not> newline (cs ! i)"
      then obtain i where "i < n - (k + 1)" "newline (cs ! i)" by blast
      then have "\<exists>i < n - k. newline ((c # cs) ! i)" by (intro exI [of _ "Suc i"]) auto
      moreover have "(c # cs) ! (l' - k - 1) = cs ! (l' - (k + 1) - 1)" using A(2) by (auto simp: nth_Cons')
      moreover have "\<not> newline ((c # cs) ! i)" if "l' \<le> k + i" "k + i < n" for i
        using A(2,5) that by (cases i) auto
      ultimately show ?thesis using A by auto
    next
      assume A: "\<forall>i < n - (k + 1). \<not> newline (cs ! i)" "l' = l1"
      then have tail: "\<not> newline ((c # cs) ! i)" if "0 < i" "k + i < n" for i
        using that by (cases i) auto
      show ?thesis
      proof (cases "newline c")
        case True
        then have "l' = k + 1" using A by (simp add: l1_def)
        moreover have "\<exists>i < n - k. newline ((c # cs) ! i)" using True n by (intro exI [of _ 0]) auto
        ultimately show ?thesis using True tail n by auto
      next
        case False
        then have "\<not> newline ((c # cs) ! i)" if "i < n - k" for i
          using tail [of i] that by (cases i) auto
        with False A show ?thesis by (simp add: l1_def)
      qed
    qed
  qed
qed


lemma re_newlines_take:
  assumes "m \<le> length s"
  shows "re_newlines (take m s) r \<longleftrightarrow> 0 < m \<and> m \<le> length (takeWhile cS s) \<and> newline (s ! (m - 1))"
proof
  assume "re_newlines (take m s) r"
  then obtain ws nl where w: "take m s = ws @ nl" "list_all cS ws" "nl \<noteq> []" "list_all newline nl"
    by (auto simp: re_newlines_def)
  have m: "0 < m" using w(1,3) by (cases m) auto
  have "list_all cS (take m s)" using w newline_space by (auto simp: list_all_iff)
  moreover have "last (take m s) = s ! (m - 1)"
  proof -
    have "take m s \<noteq> []" using w(1,3) by simp
    from last_conv_nth [OF this] show ?thesis using m assms by (simp add: min_absorb2)
  qed
  moreover have "newline (last (take m s))" using w by (simp add: list_all_iff)
  ultimately show "0 < m \<and> m \<le> length (takeWhile cS s) \<and> newline (s ! (m - 1))"
    using m list_all_take_iff [OF assms, of cS] by simp
next
  assume *: "0 < m \<and> m \<le> length (takeWhile cS s) \<and> newline (s ! (m - 1))"
  then have "take m s = take (m - 1) s @ [s ! (m - 1)]"
    using assms by (metis One_nat_def Suc_pred less_le_trans diff_less zero_less_one take_Suc_conv_app_nth)
  moreover have "list_all cS (take (m - 1) s)" using * list_all_take_iff [of "m - 1" s cS] assms by auto
  ultimately show "re_newlines (take m s) r" using * unfolding re_newlines_def by fastforce
qed

lemma re_space_take:
  assumes "m \<le> length s"
  shows "re_space (take m s) r \<longleftrightarrow> 0 < m \<and> m \<le> length (takeWhile cS s)"
  using list_all_take_iff [OF assms, of cS] assms by (auto simp: re_space_def)

lemma re_space_ahead_take:
  assumes "m \<le> length s"
  shows "re_space_ahead (take m s) (drop m s) \<longleftrightarrow>
    0 < m \<and> m \<le> length (takeWhile cS s) \<and> (m = length s \<or> m < length (takeWhile cS s))"
proof -
  have "cS (s ! m) \<longleftrightarrow> m < length (takeWhile cS s)" if "m \<le> length (takeWhile cS s)" "m < length s"
    using nth_length_takeWhile [of cS s] that takeWhile_nth [of m cS s] set_takeWhileD nth_mem
    by (metis le_neq_implies_less)
  then show ?thesis
    using list_all_take_iff [OF assms, of cS] assms
    by (cases "m = length s") (auto simp: re_space_ahead_def hd_drop_conv_nth)
qed

lemma ws_regex:
  assumes v: "list_all (\<lambda>c. valid (get_cpt_flags c)) s" and ws: "s \<noteq> []" "cS (hd s)"
  shows "first_match [re_newlines, re_space_ahead, re_space] s (ws_step s 0)"
proof -
  define n where "n = length (takeWhile cS s)"
  have n: "0 < n" "n \<le> length s" using ws by (cases s) (auto simp: n_def length_takeWhile_le)
  obtain l where loop: "(n, l) = ws_loop 0 s 0 0"
    using ws_loop_num [of 0 s 0 0] by (cases "ws_loop 0 s 0 0") (auto simp: n_def)
  have "get_cpt s n \<noteq> OUT_OF_RANGE \<longleftrightarrow> n < length s"
  proof -
    have "s ! n \<noteq> OUT_OF_RANGE" if "n < length s" using v that get_cpt_flags_out(5) by (metis list_all_length)
    then show ?thesis by (auto simp: get_cpt_def)
  qed
  then have step: "ws_step s 0 = (if l > 0 then l else if n > 1 \<and> n < length s then n - 1 else n)"
    using n loop [symmetric] by (simp add: ws_step_def)
  note cand = re_newlines_take re_space_ahead_take re_space_take
  consider (nl) "0 < l" "l \<le> n" "newline (s ! (l - 1))" "\<forall>i. l \<le> i \<and> i < n \<longrightarrow> \<not> newline (s ! i)"
    | (no) "l = 0" "\<forall>i < n. \<not> newline (s ! i)"
    using ws_loop_last_newline [OF loop] by auto
  then show ?thesis
  proof cases
    case nl
    have "\<not> newline (s ! (m - 1))" if "l < m" "m \<le> n" for m
    proof -
      have "l \<le> m - 1 \<and> m - 1 < n" using that by linarith
      with nl(4) show ?thesis by blast
    qed
    with nl n have "longest_match re_newlines s l"
      unfolding longest_match_def by (auto simp: cand n_def [symmetric])
    with nl step show ?thesis by simp
  next
    case no
    then have "no_match re_newlines s" unfolding no_match_def by (auto simp: cand n_def [symmetric])
    moreover have "longest_match re_space_ahead s n" if "n = length s"
      unfolding longest_match_def using n that re_space_ahead_take [of n s] n_def by auto
    moreover have "longest_match re_space_ahead s (n - 1)" if "1 < n" "n < length s"
      unfolding longest_match_def using n that by (auto simp: cand n_def [symmetric])
    moreover have "no_match re_space_ahead s \<and> longest_match re_space s n" if "n = 1" "n < length s"
      unfolding longest_match_def no_match_def using n that by (auto simp: cand n_def [symmetric])
    ultimately show ?thesis using no(1) n step by (cases "n = length s"; cases "n = 1") auto
  qed
qed

lemma split_step_regex_0:
  assumes v: "list_all (\<lambda>c. valid (get_cpt_flags c)) (c # s)"
  shows "first_match qwen_regex (c # s) (split_step (c # s) 0)"
proof (cases "contraction (c # s) 0")
  case (Some n)
  then show ?thesis using contraction_regex [of "c # s"] by (simp add: split_step_def qwen_regex_def)
next
  case None
  then have no1: "no_match re_contraction (c # s)" using contraction_regex [of "c # s"] by simp
  have c0: "get_cpt (c # s) 0 = c" "get_flags (c # s) 0 = get_cpt_flags c"
    by (simp_all add: get_cpt_def get_flags_def)
  show ?thesis
  proof (cases "letter_branch (c # s) 0")
    case True
    then show ?thesis using None no1 letters_regex [of c s] by (simp add: split_step_def qwen_regex_def)
  next
    case nl: False
    then have no2: "no_match re_letters (c # s)" using letters_regex [of c s] by simp
    show ?thesis
    proof (cases "cN c")
      case True
      then show ?thesis using None nl no1 no2 number_regex [of c s]
        by (simp add: split_step_def qwen_regex_def c0)
    next
      case nn: False
      then have no3: "no_match re_number (c # s)" using number_regex [of c s] by simp
      have ws: "first_match [re_newlines, re_space_ahead, re_space] (c # s) (ws_step (c # s) 0)" if "cS c"
        using ws_regex [OF v] that by simp
      show ?thesis
      proof (cases "c = c_space \<and> s = []")
        case True
        then have "no_match re_symbols (c # s)"
          using symbols_core_hd [of c] space_cS symbols_core_Nil
          by (auto simp: no_match_def re_symbols_iff take_Cons' split: if_splits)
        moreover have "ws_step (c # s) 0 = 1" using True space_cS by (simp add: ws_step_def)
        moreover have "symbol_branch (c # s) 0"
          using True v by (auto simp: symbol_branch_def get_flags_def get_cpt_def ws_lm_num_def Let_def)
        moreover have "scan newline (c # s) (scan symbol_run (c # s) 1) = 1"
          using True by (simp add: scan_def)
        ultimately show ?thesis using True None nl nn no1 no2 no3 ws space_cS c0
          by (simp add: split_step_def qwen_regex_def)
      next
        case False
        then have sym: "if symbol_branch (c # s) 0
          then longest_match re_symbols (c # s)
            (scan newline (c # s) (scan symbol_run (c # s) (if c = c_space then 1 else 0)))
          else no_match re_symbols (c # s)"
          using symbols_regex [OF v] by blast
        have "cS c" if "\<not> symbol_branch (c # s) 0"
        proof (cases "c = c_space")
          case False
          have "\<not> cX c" using that False v
            by (auto simp: symbol_branch_def get_flags_def get_cpt_def ws_lm_num_def Let_def)
          moreover have "\<not> cL c \<and> \<not> cM c \<or> newline c"
            using nl nn by (auto simp: letter_branch_def get_flags_def get_cpt_def newline_def Let_def)
          ultimately show ?thesis using nn newline_space [of c] by blast
        qed (use space_cS in simp)
        with sym ws None nl nn no1 no2 no3 show ?thesis
          by (cases "symbol_branch (c # s) 0") (simp_all add: split_step_def qwen_regex_def c0)
      qed
    qed
  qed
qed


text \<open>
  All matches of an expression from left to right, as a regular-expression engine finds them on
  an input that is matched everywhere.
\<close>

inductive find_all :: "(u32 list \<Rightarrow> u32 list \<Rightarrow> bool) list \<Rightarrow> u32 list \<Rightarrow> u32 list list \<Rightarrow> bool"
  for Rs where
  find_all_Nil: "find_all Rs [] []"
| find_all_step: "s \<noteq> [] \<Longrightarrow> first_match Rs s n \<Longrightarrow> 0 < n \<Longrightarrow> find_all Rs (drop n s) ps
    \<Longrightarrow> find_all Rs s (take n s # ps)"

lemma find_all_tiles:
  assumes v: "list_all (\<lambda>c. valid (get_cpt_flags c)) cpts"
  shows "covers a b r \<Longrightarrow> b = length cpts \<Longrightarrow> \<forall>(s, e) \<in> set r. e = split_step cpts s \<Longrightarrow>
     find_all qwen_regex (drop a cpts) (map (\<lambda>(s, e). slice s (e - s) cpts) r)"
proof (induction a b r rule: covers.induct)
  case (1 a b)
  then show ?case by (simp add: find_all_Nil)
next
  case (2 a b s e r)
  then have e: "s = a" "a < e" "covers e b r" "e = split_step cpts a" by auto
  then have a: "a < length cpts" using tiles_slices [of e b r cpts] 2 by auto
  then obtain c t where ct: "drop a cpts = c # t" by (metis Cons_nth_drop_Suc)
  have "list_all (\<lambda>c. valid (get_cpt_flags c)) (c # t)"
    unfolding ct [symmetric] using v by (auto simp: list_all_iff dest: in_set_dropD)
  then have "first_match qwen_regex (drop a cpts) (e - a)"
    using split_step_regex_0 [of c t] split_step_shift [OF a] e by (simp add: ct)
  moreover have "find_all qwen_regex (drop (e - a) (drop a cpts)) (map (\<lambda>(s, e). slice s (e - s) cpts) r)"
    using 2 e by simp
  ultimately show ?case
    using e a find_all_step [of "drop a cpts" qwen_regex "e - a"] by (simp add: slice_def)
qed

text \<open>
  C28. On every input whose code points all have a Unicode category, the pieces of the scanner
  are exactly the matches of the documented regular expression: greedy, the first alternative
  that matches, one match after the other from the start to the end.
\<close>
theorem split_implements_regex:
  assumes "list_all (\<lambda>c. valid (get_cpt_flags c)) cpts"
  shows "find_all qwen_regex cpts (map (\<lambda>(s, e). slice s (e - s) cpts) (split_qwen35 cpts))"
  using find_all_tiles [OF assms split_qwen35_cuts(1) refl] split_qwen35_cuts(2) by fastforce

text \<open>The text \<^verbatim>\<open>I'm 42\<close>: pieces \<^verbatim>\<open>I\<close>, \<^verbatim>\<open>'m\<close>, a space, \<^verbatim>\<open>4\<close> and \<^verbatim>\<open>2\<close>.\<close>

theorem split_implements_regex_witness:
  "split_qwen35 [0x49, 0x27, 0x6D, 0x20, 0x34, 0x32] = [(0, 1), (1, 3), (3, 4), (4, 5), (5, 6)] \<and>
   find_all qwen_regex [0x49, 0x27, 0x6D, 0x20, 0x34, 0x32] [[0x49], [0x27, 0x6D], [0x20], [0x34], [0x32]]"
proof -
  let ?s = "[0x49, 0x27, 0x6D, 0x20, 0x34, 0x32] :: u32 list"
  have s: "split_qwen35 ?s = [(0, 1), (1, 3), (3, 4), (4, 5), (5, 6)]" by code_simp
  have "list_all (\<lambda>c. valid (get_cpt_flags c)) ?s" by code_simp
  from split_implements_regex [OF this] s show ?thesis by (simp add: slice_def)
qed

text \<open>
  Code points without a category (control characters, unassigned ones) are cut off one by
  one, where the documented expression takes a whole run of them with its symbol alternative:
  for the two bytes \<^verbatim>\<open>\x01\x01\<close> the scanner gives two pieces and the expression one match.
\<close>
theorem split_differs_on_control_characters:
  "split_qwen35 [1, 1] = [(0, 1), (1, 2)] \<and> find_all qwen_regex [1, 1] [[1, 1]]"
proof
  show "split_qwen35 [1, 1] = [(0, 1), (1, 2)]" by code_simp
  have flags: "get_cpt_flags 1 = \<lparr>is_letter = False, is_number = False, is_accent_mark = False,
      is_whitespace = False, valid = False\<rparr>" by code_simp
  have nl: "\<not> newline 1" by (simp add: newline_def)
  have br: "\<not> letter_branch [1, 1] 0" "contraction [1, 1] 0 = None" by code_simp+
  have "no_match re_contraction [1, 1]" using contraction_regex [of "[1, 1]"] br by simp
  moreover have "no_match re_letters [1, 1]" using letters_regex [of 1 "[1]"] br by simp
  moreover have "no_match re_number [1, 1]" using number_regex [of 1 "[1]"] flags by simp
  moreover have "longest_match re_symbols [1, 1] 2"
    using symbols_len_core [of 1 "[1]"]
    by (simp add: longest_match_def re_symbols_iff flags symbols_len_def)
  ultimately have "first_match qwen_regex [1, 1] 2" by (simp add: qwen_regex_def)
  then show "find_all qwen_regex [1, 1] [[1, 1]]"
    using find_all_step [of "[1, 1]" qwen_regex 2 "[]"] by (simp add: find_all_Nil)
qed

end
