(* ===== verification/Utf8.thy ===== *)
theory Utf8
  imports Prelude
begin

text \<open>
  The UTF-8 conversions of \<^verbatim>\<open>src/targets/qwen3_8/tokenizer.cpp\<close>: \<open>utf8_to_codepoints\<close> skips
  bytes that cannot start a sequence, stops at a truncated one and does not look at the marker
  bits of continuation bytes; \<open>codepoint_to_utf8\<close> writes one to four bytes. A string is a list of
  bytes (\<^typ>\<open>char\<close>), a code point a 32-bit word. The lemmas show that decoding inverts encoding
  on all code points below \<^term>\<open>0x200000::u32\<close>, also inside a longer string.
\<close>

section \<open>Conversions\<close>

text \<open>
  \<open>utf8_lead c\<close> is the branch on the first byte: the payload bits and the length of the sequence,
  or \<open>None\<close> for a byte that is skipped. \<open>utf8_cont\<close> is the loop over the continuation bytes.
\<close>

definition utf8_lead :: "u8 \<Rightarrow> (u32 \<times> nat) option" where
  "utf8_lead c =
     (if c < 0x80 then Some (ucast c, 1)
      else if c AND 0xE0 = 0xC0 then Some (ucast (c AND 0x1F), 2)
      else if c AND 0xF0 = 0xE0 then Some (ucast (c AND 0x0F), 3)
      else if c AND 0xF8 = 0xF0 then Some (ucast (c AND 0x07), 4)
      else None)"

definition utf8_cont :: "u32 \<Rightarrow> string \<Rightarrow> u32" where
  "utf8_cont cp s = foldl (\<lambda>cp ch. push_bit 6 cp OR ucast (byte_of_char ch AND 0x3F)) cp s"

function utf8_to_codepoints :: "string \<Rightarrow> u32 list" where
  "utf8_to_codepoints [] = []"
| "utf8_to_codepoints (ch # s) =
     (case utf8_lead (byte_of_char ch) of
        None \<Rightarrow> utf8_to_codepoints s
      | Some (cp, len) \<Rightarrow>
          if length (ch # s) < len then []
          else utf8_cont cp (take (len - 1) s) # utf8_to_codepoints (drop (len - 1) s))"
  by pat_completeness auto
termination by (relation "measure length") auto

definition utf8_char :: "u32 \<Rightarrow> char" where
  "utf8_char w = char_of_byte (ucast w)"

definition codepoint_to_utf8 :: "u32 \<Rightarrow> string" where
  "codepoint_to_utf8 cp =
     (if cp < 0x80 then [utf8_char cp]
      else if cp < 0x800 then
        [utf8_char (0xC0 OR drop_bit 6 cp), utf8_char (0x80 OR (cp AND 0x3F))]
      else if cp < 0x10000 then
        [utf8_char (0xE0 OR drop_bit 12 cp), utf8_char (0x80 OR (drop_bit 6 cp AND 0x3F)),
         utf8_char (0x80 OR (cp AND 0x3F))]
      else
        [utf8_char (0xF0 OR drop_bit 18 cp), utf8_char (0x80 OR (drop_bit 12 cp AND 0x3F)),
         utf8_char (0x80 OR (drop_bit 6 cp AND 0x3F)), utf8_char (0x80 OR (cp AND 0x3F))])"


section \<open>Decoding inverts encoding\<close>

lemma byte_of_utf8_char [simp]: "byte_of_char (utf8_char w) = ucast w"
  by (simp add: utf8_char_def)

lemma bit_below:
  assumes "(cp :: 'a::len word) < 2 ^ m" "bit cp n"
  shows "n < m"
proof -
  have "cp AND mask m = cp" using assms(1) by (rule less_mask_eq)
  with assms(2) have "bit (cp AND mask m) n" by simp
  then show ?thesis by (simp add: bit_simps)
qed

text \<open>The constants of the code as masks, so that each byte is described bit by bit.\<close>

lemma utf8_masks:
  "(0x3F :: 'a::len word) = mask 6" "(0x1F :: 'a word) = mask 5"
  "(0x0F :: 'a word) = mask 4" "(0x07 :: 'a word) = mask 3"
  "(0xC0 :: 'a word) = push_bit 6 (mask 2)"
  "(0xE0 :: 'a word) = push_bit 5 (mask 3)" "(0xF0 :: 'a word) = push_bit 4 (mask 4)"
  "(0xF8 :: 'a word) = push_bit 3 (mask 5)"
  by (simp_all add: mask_eq_exp_minus_1 push_bit_eq_mult)

lemma bit_mask_push: "bit (push_bit k (mask m) :: 'a::len word) n \<longleftrightarrow> n < LENGTH('a) \<and> k \<le> n \<and> n < k + m"
  by (auto simp: bit_simps)

lemma bit_0x80: "bit (0x80 :: int) n \<longleftrightarrow> n = 7"
  using bit_exp_iff [of 7 n, where 'a = int] by auto

lemma not_less_0x80: "bit (c :: u8) 7 \<Longrightarrow> \<not> c < 0x80"
  using bit_below [of c 7 7] by auto

lemmas utf8_bits = bit_simps bit_mask_push bit_0x80

lemma utf8_lead_2:
  assumes "cp < 0x800"
  shows "utf8_lead (ucast (0xC0 OR drop_bit 6 cp :: u32)) = Some (drop_bit 6 cp, 2)"
proof -
  have small: "bit cp n \<Longrightarrow> n < 11" for n using bit_below [of cp 11 n] assms by simp
  define c :: u8 where "c = ucast (0xC0 OR drop_bit 6 cp :: u32)"
  have c: "bit c n \<longleftrightarrow> n = 6 \<or> n = 7 \<or> bit cp (6 + n)" for n
    using small [of "6 + n"] unfolding c_def utf8_masks by (auto simp: utf8_bits)
  have 1: "\<not> c < 0x80" by (rule not_less_0x80) (simp add: c)
  have 2: "c AND 0xE0 = 0xC0"
    unfolding utf8_masks by (rule bit_word_eqI) (use small in \<open>fastforce simp: utf8_bits c\<close>)
  have 3: "(ucast (c AND 0x1F) :: u32) = drop_bit 6 cp"
    unfolding utf8_masks by (rule bit_word_eqI) (use small in \<open>fastforce simp: utf8_bits c\<close>)
  show ?thesis using 1 2 3 unfolding c_def utf8_lead_def by simp
qed

lemma utf8_lead_3:
  assumes "cp < 0x10000"
  shows "utf8_lead (ucast (0xE0 OR drop_bit 12 cp :: u32)) = Some (drop_bit 12 cp, 3)"
proof -
  have small: "bit cp n \<Longrightarrow> n < 16" for n using bit_below [of cp 16 n] assms by simp
  define c :: u8 where "c = ucast (0xE0 OR drop_bit 12 cp :: u32)"
  have c: "bit c n \<longleftrightarrow> n = 5 \<or> n = 6 \<or> n = 7 \<or> bit cp (12 + n)" for n
    using small [of "12 + n"] unfolding c_def utf8_masks by (auto simp: utf8_bits)
  have 1: "\<not> c < 0x80" by (rule not_less_0x80) (simp add: c)
  have "bit (c AND 0xE0) 5 \<noteq> bit (0xC0 :: u8) 5" unfolding utf8_masks by (simp add: utf8_bits c)
  then have 2: "c AND 0xE0 \<noteq> 0xC0" by metis
  have 3: "c AND 0xF0 = 0xE0"
    unfolding utf8_masks by (rule bit_word_eqI) (use small in \<open>fastforce simp: utf8_bits c\<close>)
  have 4: "(ucast (c AND 0x0F) :: u32) = drop_bit 12 cp"
    unfolding utf8_masks by (rule bit_word_eqI) (use small in \<open>fastforce simp: utf8_bits c\<close>)
  show ?thesis using 1 2 3 4 unfolding c_def utf8_lead_def by simp
qed

lemma utf8_lead_4:
  assumes "cp < 0x200000"
  shows "utf8_lead (ucast (0xF0 OR drop_bit 18 cp :: u32)) = Some (drop_bit 18 cp, 4)"
proof -
  have small: "bit cp n \<Longrightarrow> n < 21" for n using bit_below [of cp 21 n] assms by simp
  define c :: u8 where "c = ucast (0xF0 OR drop_bit 18 cp :: u32)"
  have c: "bit c n \<longleftrightarrow> n = 4 \<or> n = 5 \<or> n = 6 \<or> n = 7 \<or> bit cp (18 + n)" for n
    using small [of "18 + n"] unfolding c_def utf8_masks by (auto simp: utf8_bits)
  have 1: "\<not> c < 0x80" by (rule not_less_0x80) (simp add: c)
  have "bit (c AND 0xE0) 5 \<noteq> bit (0xC0 :: u8) 5" "bit (c AND 0xF0) 4 \<noteq> bit (0xE0 :: u8) 4"
    unfolding utf8_masks by (simp_all add: utf8_bits c)
  then have 2: "c AND 0xE0 \<noteq> 0xC0" "c AND 0xF0 \<noteq> 0xE0" by metis+
  have 3: "c AND 0xF8 = 0xF0"
    unfolding utf8_masks by (rule bit_word_eqI) (use small in \<open>fastforce simp: utf8_bits c\<close>)
  have 4: "(ucast (c AND 0x07) :: u32) = drop_bit 18 cp"
    unfolding utf8_masks by (rule bit_word_eqI) (use small in \<open>fastforce simp: utf8_bits c\<close>)
  show ?thesis using 1 2 3 4 unfolding c_def utf8_lead_def by simp
qed

text \<open>A continuation byte appends the six bits it was made from.\<close>

lemma utf8_cont_step:
  "push_bit 6 (drop_bit (6 + k) cp) OR ucast (ucast (0x80 OR (drop_bit k cp AND 0x3F) :: u32) AND (0x3F :: u8))
     = drop_bit k (cp :: u32)"
proof (rule bit_word_eqI)
  fix n :: nat
  have "n - 6 + (6 + k) = n + k" if "\<not> n < 6" using that by simp
  then show "bit (push_bit 6 (drop_bit (6 + k) cp)
      OR ucast (ucast (0x80 OR (drop_bit k cp AND 0x3F) :: u32) AND (0x3F :: u8))) n = bit (drop_bit k cp) n"
    if "n < LENGTH(32)" using that unfolding utf8_masks
    by (cases "n < 6") (auto simp: utf8_bits add.commute)
qed

lemmas utf8_cont_steps = utf8_cont_step [of 0, simplified] utf8_cont_step [of 6, simplified]
  utf8_cont_step [of 12, simplified]

lemma utf8_decode_one:
  assumes "cp < 0x200000"
  shows "utf8_to_codepoints (codepoint_to_utf8 cp @ s) = cp # utf8_to_codepoints s"
proof -
  consider "cp < 0x80" | "\<not> cp < 0x80" "cp < 0x800" | "\<not> cp < 0x800" "cp < 0x10000"
    | "\<not> cp < 0x10000" by fastforce
  then show ?thesis
  proof cases
    case 1
    then have small: "bit cp n \<Longrightarrow> n < 7" for n using bit_below [of cp 7 n] by simp
    have "(ucast (ucast cp :: u8) :: u32) = cp"
      by (rule bit_word_eqI) (use small in \<open>fastforce simp: bit_simps\<close>)
    moreover have "(ucast cp :: u8) < 0x80"
    proof -
      have "(ucast cp :: u8) AND mask 7 = ucast cp"
        by (rule bit_word_eqI) (use small in \<open>fastforce simp: bit_simps\<close>)
      then have "(ucast cp :: u8) \<le> mask 7" by (metis word_and_le1)
      then show ?thesis by (simp add: mask_eq_exp_minus_1 word_le_nat_alt word_less_nat_alt)
    qed
    ultimately have "(ucast cp :: u8) < 0x80" "(ucast (ucast cp :: u8) :: u32) = cp" by auto
    with 1 show ?thesis by (simp add: codepoint_to_utf8_def utf8_lead_def utf8_cont_def)
  next
    case 2
    then show ?thesis
      by (simp add: codepoint_to_utf8_def utf8_lead_2 utf8_cont_def utf8_cont_steps)
  next
    case 3
    then have "\<not> cp < 0x80" by (simp add: word_less_nat_alt)
    with 3 show ?thesis
      by (simp add: codepoint_to_utf8_def utf8_lead_3 utf8_cont_def utf8_cont_steps)
  next
    case 4
    then have "\<not> cp < 0x80" "\<not> cp < 0x800" by (simp_all add: word_less_nat_alt)
    with 4 show ?thesis
      by (simp add: codepoint_to_utf8_def utf8_lead_4 [OF assms] utf8_cont_def utf8_cont_steps)
  qed
qed

lemma utf8_decode_append:
  assumes "\<forall>cp \<in> set cps. cp < 0x200000"
  shows "utf8_to_codepoints (concat (map codepoint_to_utf8 cps) @ s) = cps @ utf8_to_codepoints s"
  using assms by (induction cps) (simp_all add: utf8_decode_one)

lemma utf8_decode_encode:
  "\<forall>cp \<in> set cps. cp < 0x200000 \<Longrightarrow> utf8_to_codepoints (concat (map codepoint_to_utf8 cps)) = cps"
  using utf8_decode_append [of cps "[]"] by simp

lemma codepoint_to_utf8_inject:
  "cp < 0x200000 \<Longrightarrow> cp' < 0x200000 \<Longrightarrow> codepoint_to_utf8 cp = codepoint_to_utf8 cp' \<Longrightarrow> cp = cp'"
  using utf8_decode_one [of cp "[]"] utf8_decode_one [of cp' "[]"] by simp

lemma codepoint_to_utf8_ne [simp]: "codepoint_to_utf8 cp \<noteq> []"
  by (simp add: codepoint_to_utf8_def)

end
