(* ===== verification/Tokenizer.thy ===== *)
theory Tokenizer
  imports Pretokenizer Utf8 "HOL-Library.AList"
begin

text \<open>
  \<^verbatim>\<open>QwenTokenizer\<close> of \<^verbatim>\<open>src/targets/qwen3_8/tokenizer.{h,cpp}\<close>: its tables, the byte encoder,
  rank-ordered BPE merging with the memoization cache, encoding around special tokens, and
  decoding. An \<^verbatim>\<open>std::unordered_map\<close> is an association list without repeated keys
  (\<^const>\<open>AList.update\<close> is \<^verbatim>\<open>m[k] = v\<close>, \<^const>\<open>map_of\<close> is \<^verbatim>\<open>find\<close>); the code never iterates over
  one. Token ids are \<^verbatim>\<open>int64_t\<close> and only compared and copied, so they are integers. The mutable
  cache is passed along.
\<close>

section \<open>State\<close>

type_synonym bpe_cache = "(string \<times> string list) list"

record tokenizer =
  vocab :: "(string \<times> int) list"
  id_to_token :: "(int \<times> string) list"
  byte_to_unicode :: "(u8 \<times> string) list"
  unicode_to_byte :: "(string \<times> u8) list"
  bpe_ranks :: "(string \<times> int) list"
  bpe_cache :: bpe_cache
  special_tokens :: "(string \<times> int) list"
  eos_token_id :: int
  im_start_token_id :: int
  im_end_token_id :: int
  think_start_token_id :: int
  think_end_token_id :: int


section \<open>Byte encoder\<close>

definition byte_printable :: "nat \<Rightarrow> bool" where
  "byte_printable b \<longleftrightarrow> (33 \<le> b \<and> b \<le> 126) \<or> (161 \<le> b \<and> b \<le> 172) \<or> (174 \<le> b \<and> b \<le> 255)"

text \<open>The loop over the bytes \<open>b\<close> with the counter \<open>n\<close> of the bytes without a printable form.\<close>

fun init_loop :: "nat list \<Rightarrow> nat \<Rightarrow> tokenizer \<Rightarrow> tokenizer" where
  "init_loop [] n t = t"
| "init_loop (b # bs) n t =
     (let cp = (if byte_printable b then word_of_nat b else word_of_nat (256 + n));
          utf8_char = codepoint_to_utf8 cp
      in init_loop bs (if byte_printable b then n else n + 1)
           (t\<lparr>byte_to_unicode := AList.update (word_of_nat b) utf8_char (byte_to_unicode t),
              unicode_to_byte := AList.update utf8_char (word_of_nat b) (unicode_to_byte t)\<rparr>))"

definition init_byte_encoder :: "tokenizer \<Rightarrow> tokenizer" where
  "init_byte_encoder t = init_loop [0..<256] 0 t"

definition QwenTokenizer :: tokenizer where
  "QwenTokenizer = init_byte_encoder
     \<lparr>vocab = [], id_to_token = [], byte_to_unicode = [], unicode_to_byte = [], bpe_ranks = [],
      bpe_cache = [], special_tokens = [], eos_token_id = -1, im_start_token_id = -1,
      im_end_token_id = -1, think_start_token_id = -1, think_end_token_id = -1\<rparr>"

definition is_loaded :: "tokenizer \<Rightarrow> bool" where
  "is_loaded t \<longleftrightarrow> vocab t \<noteq> [] \<and> bpe_ranks t \<noteq> []"

definition special_token_to_id :: "tokenizer \<Rightarrow> string \<Rightarrow> int" where
  "special_token_to_id t name = (case map_of (vocab t) name of Some i \<Rightarrow> i | None \<Rightarrow> -1)"

definition has_special_token :: "tokenizer \<Rightarrow> string \<Rightarrow> bool" where
  "has_special_token t name \<longleftrightarrow> map_of (vocab t) name \<noteq> None"


section \<open>Merging\<close>

text \<open>
  The inner loop over adjacent pairs: the least rank found so far (\<open>-1\<close> for none) and its pair.
\<close>

fun best_pair :: "(string \<times> int) list \<Rightarrow> string list \<Rightarrow> int \<times> string \<times> string \<Rightarrow> int \<times> string \<times> string" where
  "best_pair ranks (a # b # w) (min_rank, first, second) =
     best_pair ranks (b # w)
       (case map_of ranks (a @ '' '' @ b) of
          Some rank \<Rightarrow> if min_rank < 0 \<or> rank < min_rank then (rank, a, b) else (min_rank, first, second)
        | None \<Rightarrow> (min_rank, first, second))"
| "best_pair ranks w best = best"

text \<open>One round: every occurrence of the pair from the left becomes one symbol.\<close>

fun merge_pair :: "string \<Rightarrow> string \<Rightarrow> string list \<Rightarrow> string list" where
  "merge_pair first second (a # b # w) =
     (if a = first \<and> b = second then (a @ b) # merge_pair first second w
      else a # merge_pair first second (b # w))"
| "merge_pair first second w = w"

definition adjacent :: "string \<Rightarrow> string \<Rightarrow> string list \<Rightarrow> bool" where
  "adjacent a b w \<longleftrightarrow> (\<exists>u v. w = u @ a # b # v)"

lemma adjacent_Cons [intro]: "adjacent a b w \<Longrightarrow> adjacent a b (c # w)"
  unfolding adjacent_def by (metis append_Cons)

lemma best_pair_adjacent:
  "best_pair ranks w best = (r, a, b) \<Longrightarrow> best = (r, a, b) \<or> adjacent a b w"
proof (induction ranks w best rule: best_pair.induct)
  case (1 ranks x y w m f s)
  have "adjacent x y (x # y # w)" unfolding adjacent_def by (metis append_Nil)
  with 1 show ?case by (auto split: option.splits if_splits)
qed auto

lemma length_merge_pair_le: "length (merge_pair a b w) \<le> length w"
  by (induction a b w rule: merge_pair.induct) auto

lemma length_merge_pair: "adjacent a b w \<Longrightarrow> length (merge_pair a b w) < length w"
proof (induction a b w rule: merge_pair.induct)
  case (1 f s a b w)
  show ?case
  proof (cases "a = f \<and> b = s")
    case True
    then show ?thesis using length_merge_pair_le [of f s w] by (simp add: le_imp_less_Suc less_SucI)
  next
    case False
    obtain u v where uv: "a # b # w = u @ f # s # v" using "1.prems" by (auto simp: adjacent_def)
    with False obtain u' where "u = a # u'" by (cases u) auto
    with uv have "adjacent f s (b # w)" by (auto simp: adjacent_def)
    with 1 False show ?thesis by auto
  qed
qed (auto simp: adjacent_def append_eq_Cons_conv Cons_eq_append_conv)

lemma best_pair_shrinks:
  assumes "(m, a, b) = best_pair ranks w (-1, [], [])" "\<not> m < 0"
  shows "length (merge_pair a b w) < length w"
  using best_pair_adjacent [OF assms(1) [symmetric]] assms(2) length_merge_pair by auto

function bpe_loop :: "(string \<times> int) list \<Rightarrow> string list \<Rightarrow> string list" where
  "bpe_loop ranks word =
     (if length word > 1 then
        (case best_pair ranks word (-1, [], []) of
           (min_rank, best_first, best_second) \<Rightarrow>
             if min_rank < 0 then word
             else bpe_loop ranks (merge_pair best_first best_second word))
      else word)"
  by pat_completeness auto
termination
  by (relation "measure (\<lambda>(ranks, word). length word)") (auto simp: best_pair_shrinks)

declare bpe_loop.simps [simp del]

definition bpe_symbols :: "string \<Rightarrow> string list" where
  "bpe_symbols piece = map codepoint_to_utf8 (utf8_to_codepoints piece)"

definition bpe_merge :: "(string \<times> int) list \<Rightarrow> string \<Rightarrow> bpe_cache \<Rightarrow> string list \<times> bpe_cache" where
  "bpe_merge ranks piece cache =
     (if piece = [] then ([], cache)
      else case map_of cache piece of
        Some word \<Rightarrow> (word, cache)
      | None \<Rightarrow>
          let word = bpe_symbols piece in
          if length word \<le> 1 then (word, AList.update piece word cache)
          else let word = bpe_loop ranks word in (word, AList.update piece word cache))"


section \<open>Encoding\<close>

definition encode_byte :: "tokenizer \<Rightarrow> char \<Rightarrow> string" where
  "encode_byte t ch = (case map_of (byte_to_unicode t) (byte_of_char ch) of Some u \<Rightarrow> u | None \<Rightarrow> [ch])"

text \<open>The ids of one BPE piece: its own, or those of its bytes when it has none.\<close>

definition byte_fallback :: "tokenizer \<Rightarrow> char \<Rightarrow> int list" where
  "byte_fallback t c =
     (case map_of (byte_to_unicode t) (byte_of_char c) of
        Some u \<Rightarrow> (case map_of (vocab t) u of Some i \<Rightarrow> [i] | None \<Rightarrow> [])
      | None \<Rightarrow> [])"

definition piece_ids :: "tokenizer \<Rightarrow> string \<Rightarrow> int list" where
  "piece_ids t piece =
     (case map_of (vocab t) piece of Some i \<Rightarrow> [i] | None \<Rightarrow> concat (map (byte_fallback t) piece))"

fun encode_ranges ::
  "tokenizer \<Rightarrow> u32 list \<Rightarrow> (nat \<times> nat) list \<Rightarrow> int list \<times> bpe_cache \<Rightarrow> int list \<times> bpe_cache" where
  "encode_ranges t cpts [] (tokens, cache) = (tokens, cache)"
| "encode_ranges t cpts ((lo, hi) # rngs) (tokens, cache) =
     (let chunk = concat (map codepoint_to_utf8 (slice lo (hi - lo) cpts));
          encoded_chunk = concat (map (encode_byte t) chunk)
      in case bpe_merge (bpe_ranks t) encoded_chunk cache of
           (pieces, cache') \<Rightarrow>
             encode_ranges t cpts rngs (tokens @ concat (map (piece_ids t) pieces), cache'))"

definition encode_segment :: "tokenizer \<Rightarrow> string \<Rightarrow> int list \<times> bpe_cache \<Rightarrow> int list \<times> bpe_cache" where
  "encode_segment t seg st =
     (if seg = [] then st
      else let cpts = utf8_to_codepoints seg in encode_ranges t cpts (split_qwen35 cpts) st)"

text \<open>
  The search for the nearest special token from \<open>pos\<close> on: position and entry of the first
  entry of the table among those that occur first.
\<close>

fun nearest_special ::
  "(string \<times> int) list \<Rightarrow> string \<Rightarrow> nat \<Rightarrow> (nat \<times> string \<times> int) option \<Rightarrow> (nat \<times> string \<times> int) option" where
  "nearest_special [] input pos best = best"
| "nearest_special (st # sts) input pos best =
     nearest_special sts input pos
       (case find_sub_from (fst st) input pos of
          None \<Rightarrow> best
        | Some p \<Rightarrow>
            (case best of
               None \<Rightarrow> Some (p, st)
             | Some (nearest, _) \<Rightarrow> if p < nearest then Some (p, st) else best))"

text \<open>
  The main loop of \<^verbatim>\<open>encode\<close>. It does not end when an empty special token is met, so it is a
  partial function; \<open>None\<close> is a run that never returns.
\<close>

partial_function (option) encode_loop ::
  "tokenizer \<Rightarrow> string \<Rightarrow> nat \<Rightarrow> int list \<times> bpe_cache \<Rightarrow> (int list \<times> bpe_cache) option" where
  [code]: "encode_loop t input pos st =
     (if pos < length input then
        (case nearest_special (special_tokens t) input pos None of
           None \<Rightarrow> encode_loop t input (length input) (encode_segment t (drop pos input) st)
         | Some (nearest, content, tok_id) \<Rightarrow>
             (case (if pos < nearest then encode_segment t (slice pos (nearest - pos) input) st else st) of
                (tokens, cache) \<Rightarrow>
                  encode_loop t input (nearest + length content) (tokens @ [tok_id], cache)))
      else Some st)"

definition encode :: "tokenizer \<Rightarrow> string \<Rightarrow> (int list \<times> tokenizer) option" where
  "encode t input =
     (if input = [] \<or> vocab t = [] then Some ([], t)
      else map_option (\<lambda>(tokens, cache). (tokens, t\<lparr>bpe_cache := cache\<rparr>))
             (encode_loop t input 0 ([], bpe_cache t)))"


section \<open>Decoding\<close>

definition hidden_token :: "string \<Rightarrow> bool" where
  "hidden_token piece \<longleftrightarrow>
     piece = ''<|im_start|>'' \<or> piece = ''<|im_end|>'' \<or> piece = ''<|endoftext|>''"

definition decode_symbol :: "tokenizer \<Rightarrow> string \<Rightarrow> string" where
  "decode_symbol t s =
     (case map_of (unicode_to_byte t) s of Some b \<Rightarrow> [char_of_byte b] | None \<Rightarrow> s)"

definition decode_token :: "tokenizer \<Rightarrow> int \<Rightarrow> string" where
  "decode_token t token_id =
     (case map_of (id_to_token t) token_id of
        None \<Rightarrow> []
      | Some piece \<Rightarrow>
          if hidden_token piece then []
          else concat (map (\<lambda>cp. decode_symbol t (codepoint_to_utf8 cp)) (utf8_to_codepoints piece)))"

definition decode :: "tokenizer \<Rightarrow> int list \<Rightarrow> string" where
  "decode t token_ids = concat (map (decode_token t) token_ids)"



section \<open>The byte encoder is a bijection\<close>

text \<open>The code points of the loop in closed form, and the way back.\<close>

definition byte_cp :: "nat \<Rightarrow> nat" where
  "byte_cp b =
     (if byte_printable b then b
      else if b \<le> 32 then 256 + b else if b \<le> 160 then 162 + b else 323)"

definition cp_byte :: "nat \<Rightarrow> nat" where
  "cp_byte c =
     (if c < 256 then c else if c \<le> 288 then c - 256 else if c \<le> 322 then c - 162 else 173)"

lemma cp_byte_byte_cp: "b < 256 \<Longrightarrow> cp_byte (byte_cp b) = b"
  by (auto simp: cp_byte_def byte_cp_def byte_printable_def)

lemma byte_cp_bound: "b < 256 \<Longrightarrow> byte_cp b < 324"
  by (auto simp: byte_cp_def byte_printable_def)

fun loop_cps :: "nat list \<Rightarrow> nat \<Rightarrow> nat list" where
  "loop_cps [] n = []"
| "loop_cps (b # bs) n =
     (if byte_printable b then b # loop_cps bs n else (256 + n) # loop_cps bs (n + 1))"

lemma init_loop_tables:
  "byte_to_unicode (init_loop bs n t) =
     AList.updates (map word_of_nat bs) (map (codepoint_to_utf8 \<circ> word_of_nat) (loop_cps bs n))
       (byte_to_unicode t)"
  "unicode_to_byte (init_loop bs n t) =
     AList.updates (map (codepoint_to_utf8 \<circ> word_of_nat) (loop_cps bs n)) (map word_of_nat bs)
       (unicode_to_byte t)"
  by (induction bs arbitrary: n t) (auto simp: Let_def)

lemma init_loop_cache: "bpe_cache (init_loop bs n t) = bpe_cache t"
  by (induction bs arbitrary: n t) (auto simp: Let_def)

lemma init_loop_special: "special_tokens (init_loop bs n t) = special_tokens t"
  by (induction bs arbitrary: n t) (auto simp: Let_def)

lemma loop_cps_printable:
  "\<forall>b \<in> set bs. byte_printable b \<Longrightarrow> loop_cps (bs @ cs) n = bs @ loop_cps cs n"
  by (induction bs) auto

lemma loop_cps_unprintable:
  "\<forall>b \<in> set [lo..<hi]. \<not> byte_printable b \<Longrightarrow> lo \<le> hi \<Longrightarrow>
     loop_cps ([lo..<hi] @ cs) n = [256 + n..<256 + n + (hi - lo)] @ loop_cps cs (n + (hi - lo))"
proof (induction "hi - lo" arbitrary: lo n)
  case 0
  then show ?case by simp
next
  case (Suc k)
  then have lt: "lo < hi" by simp
  then have "\<not> byte_printable lo" using Suc.prems by simp
  with Suc.hyps(1) [of "Suc lo" "n + 1"] Suc.hyps(2) Suc.prems lt show ?case
    by (simp add: upt_conv_Cons [of lo hi] upt_conv_Cons [of "256 + n"] Suc_diff_Suc add.assoc)
qed

lemma loop_cps_256: "loop_cps [0..<256] 0 = map byte_cp [0..<256]"
proof -
  have split: "[0..<256] = [0..<33] @ [33..<127] @ [127..<161] @ [161..<173] @ [173..<174] @ [174..<256] @ []"
    using upt_add_eq_append [of 0 33 223] upt_add_eq_append [of 33 127 129] upt_add_eq_append [of 127 161 95]
      upt_add_eq_append [of 161 173 83] upt_add_eq_append [of 173 174 82] by simp
  have eq: "map byte_cp [0..<33] = [256..<289]" "map byte_cp [33..<127] = [33..<127]"
    "map byte_cp [127..<161] = [289..<323]" "map byte_cp [161..<173] = [161..<173]"
    "map byte_cp [173..<174] = [323]" "map byte_cp [174..<256] = [174..<256]"
    by (auto intro!: nth_equalityI simp: byte_cp_def byte_printable_def simp del: upt_rec_numeral)
  have p: "\<forall>b \<in> set [33..<127]. byte_printable b" "\<forall>b \<in> set [161..<173]. byte_printable b"
    "\<forall>b \<in> set [174..<256]. byte_printable b"
    by (auto simp: byte_printable_def)
  have u: "\<forall>b \<in> set [0..<33]. \<not> byte_printable b" "\<forall>b \<in> set [127..<161]. \<not> byte_printable b"
    "\<forall>b \<in> set [173..<174]. \<not> byte_printable b"
    by (auto simp: byte_printable_def)
  have "[323..<324] = [323 :: nat]" by (simp add: upt_conv_Cons)
  then show ?thesis unfolding split
    by (simp only: loop_cps_unprintable [OF u(1)] loop_cps_unprintable [OF u(2)] loop_cps_unprintable [OF u(3)]
        loop_cps_printable [OF p(1)] loop_cps_printable [OF p(2)] loop_cps_printable [OF p(3)]
        map_append eq) simp
qed


lemma unat_u8 [simp]: "unat (b :: u8) < 256"
proof -
  have "unat b < 2 ^ LENGTH(8)" by (rule unsigned_less)
  then show ?thesis by simp
qed

text \<open>The symbol that stands for a byte.\<close>

definition byte_symbol :: "u8 \<Rightarrow> string" where
  "byte_symbol b = codepoint_to_utf8 (word_of_nat (byte_cp (unat b)))"

lemma byte_cp_word: "unat (word_of_nat (byte_cp (unat (b :: u8))) :: u32) = byte_cp (unat b)"
proof -
  have "byte_cp (unat b) < 324" by (rule byte_cp_bound) simp
  then show ?thesis by (simp add: unat_of_nat)
qed

lemma byte_cp_small: "(word_of_nat (byte_cp (unat (b :: u8))) :: u32) < 0x200000"
  using byte_cp_bound [of "unat b"] byte_cp_word [of b] by (simp add: word_less_nat_alt)

lemma byte_symbol_inject [simp]: "byte_symbol b = byte_symbol b' \<longleftrightarrow> b = b'"
proof
  assume "byte_symbol b = byte_symbol b'"
  then have "(word_of_nat (byte_cp (unat b)) :: u32) = word_of_nat (byte_cp (unat b'))"
    unfolding byte_symbol_def by (rule codepoint_to_utf8_inject [OF byte_cp_small byte_cp_small])
  then have "byte_cp (unat b) = byte_cp (unat b')" by (metis byte_cp_word)
  then have "cp_byte (byte_cp (unat b)) = cp_byte (byte_cp (unat b'))" by simp
  then show "b = b'" by (simp add: cp_byte_byte_cp word_unat_eq_iff)
qed simp

definition all_bytes :: "u8 list" where
  "all_bytes = map word_of_nat [0..<256]"

lemma all_bytes: "distinct all_bytes" "b \<in> set all_bytes"
proof -
  have "inj_on (word_of_nat :: nat \<Rightarrow> u8) {0..<256}"
  proof (rule inj_onI)
    fix x y :: nat
    assume "x \<in> {0..<256}" "y \<in> {0..<256}" "(word_of_nat x :: u8) = word_of_nat y"
    then have "unat (word_of_nat x :: u8) = unat (word_of_nat y :: u8)" "x < 256" "y < 256" by simp_all
    then show "x = y" by (simp add: unat_of_nat)
  qed
  then show "distinct all_bytes" by (simp add: all_bytes_def distinct_map)
  show "b \<in> set all_bytes" unfolding all_bytes_def by (auto simp: image_iff intro!: bexI [of _ "unat b"])
qed


lemma QwenTokenizer_tables:
  "byte_to_unicode QwenTokenizer = AList.updates all_bytes (map byte_symbol all_bytes) []"
  "unicode_to_byte QwenTokenizer = AList.updates (map byte_symbol all_bytes) all_bytes []"
proof -
  have "map (codepoint_to_utf8 \<circ> word_of_nat) (map byte_cp [0..<256]) = map byte_symbol all_bytes"
    unfolding all_bytes_def map_map
    by (rule map_cong [OF refl]) (simp add: byte_symbol_def unat_of_nat)
  then show "byte_to_unicode QwenTokenizer = AList.updates all_bytes (map byte_symbol all_bytes) []"
    "unicode_to_byte QwenTokenizer = AList.updates (map byte_symbol all_bytes) all_bytes []"
    unfolding QwenTokenizer_def init_byte_encoder_def init_loop_tables loop_cps_256
    by (simp_all only: all_bytes_def tokenizer.simps)
qed

lemma map_upds_zip:
  "distinct ks \<Longrightarrow> length ks = length vs \<Longrightarrow> i < length ks \<Longrightarrow> (m(ks [\<mapsto>] vs)) (ks ! i) = Some (vs ! i)"
proof (induction ks arbitrary: vs m i)
  case (Cons k ks)
  then obtain v vs' where vs: "vs = v # vs'" by (cases vs) auto
  show ?case
  proof (cases i)
    case 0
    with Cons.prems vs show ?thesis by simp
  next
    case (Suc j)
    then have "ks ! j \<noteq> k" using Cons.prems by (metis Suc_less_eq distinct.simps(2) length_Cons nth_mem)
    with Suc Cons vs show ?thesis by simp
  qed
qed simp

lemma byte_to_unicode_lookup:
  "map_of (byte_to_unicode QwenTokenizer) b = Some (byte_symbol b)"
proof -
  obtain i where i: "i < length all_bytes" "b = all_bytes ! i" using all_bytes(2) by (metis in_set_conv_nth)
  then show ?thesis
    using map_upds_zip [OF all_bytes(1), of "map byte_symbol all_bytes" i Map.empty]
    by (simp add: QwenTokenizer_tables AList.updates_conv')
qed

lemma unicode_to_byte_lookup:
  "map_of (unicode_to_byte QwenTokenizer) (byte_symbol b) = Some b"
proof -
  obtain i where i: "i < length all_bytes" "b = all_bytes ! i" using all_bytes(2) by (metis in_set_conv_nth)
  moreover have "distinct (map byte_symbol all_bytes)"
    using all_bytes(1) by (simp add: distinct_map inj_on_def)
  ultimately show ?thesis
    using map_upds_zip [of "map byte_symbol all_bytes" all_bytes i Map.empty]
    by (simp add: QwenTokenizer_tables AList.updates_conv')
qed

end
