(* ===== verification/Tokenizer_Correct.thy ===== *)
theory Tokenizer_Correct
  imports Tokenizer
begin

text \<open>
  Correctness of the tokenizer: merging against its specification as a rewriting relation, the
  cache as a mere memo, termination of encoding, and decoding as its inverse.
\<close>

section \<open>Merging\<close>

text \<open>
  The specification of a merge round: the pair has the least rank among all adjacent pairs that
  have one, and all its occurrences are replaced from the left.
\<close>

definition pair_rank :: "(string \<times> int) list \<Rightarrow> string \<Rightarrow> string \<Rightarrow> int option" where
  "pair_rank ranks a b = map_of ranks (a @ '' '' @ b)"

definition bpe_step :: "(string \<times> int) list \<Rightarrow> string list \<Rightarrow> string list \<Rightarrow> bool" where
  "bpe_step ranks w w' \<longleftrightarrow>
     (\<exists>a b r. adjacent a b w \<and> pair_rank ranks a b = Some r
        \<and> (\<forall>c d r'. adjacent c d w \<and> pair_rank ranks c d = Some r' \<longrightarrow> r \<le> r')
        \<and> w' = merge_pair a b w)"

definition ranks_ok :: "(string \<times> int) list \<Rightarrow> bool" where
  "ranks_ok ranks \<longleftrightarrow> list_all (\<lambda>(k, r). 0 \<le> r) ranks"

lemma ranks_ok_nonneg: "ranks_ok ranks \<Longrightarrow> pair_rank ranks a b = Some r \<Longrightarrow> 0 \<le> r"
  unfolding ranks_ok_def pair_rank_def list_all_iff by (auto dest: map_of_SomeD)

lemma adjacent_Cons_iff: "adjacent a b (x # y # w) \<longleftrightarrow> a = x \<and> b = y \<or> adjacent a b (y # w)"
  by (auto simp: adjacent_def Cons_eq_append_conv append_eq_Cons_conv)

lemma not_adjacent_short [simp]: "\<not> adjacent a b []" "\<not> adjacent a b [x]"
  by (auto simp: adjacent_def append_eq_Cons_conv Cons_eq_append_conv)

lemma best_pair_spec:
  assumes "ranks_ok ranks"
  shows "best_pair ranks w (m, f, s) = (m', a, b) \<Longrightarrow>
    (m' < 0 \<longleftrightarrow> m < 0 \<and> (\<forall>c d. adjacent c d w \<longrightarrow> pair_rank ranks c d = None))
    \<and> (0 \<le> m' \<longrightarrow> (m' = m \<and> a = f \<and> b = s \<or> adjacent a b w \<and> pair_rank ranks a b = Some m')
         \<and> (0 \<le> m \<longrightarrow> m' \<le> m)
         \<and> (\<forall>c d r. adjacent c d w \<and> pair_rank ranks c d = Some r \<longrightarrow> m' \<le> r))"
proof (induction w arbitrary: m f s rule: induct_list012)
  case (3 x y w)
  note IH = "3.IH"(2)
  show ?case
  proof (cases "pair_rank ranks x y")
    case None
    then have "best_pair ranks (y # w) (m, f, s) = (m', a, b)"
      using "3.prems" by (simp add: pair_rank_def)
    from IH [OF this] None show ?thesis by (auto simp: adjacent_Cons_iff)
  next
    case (Some r)
    then have r: "0 \<le> r" using assms ranks_ok_nonneg by blast
    show ?thesis
    proof (cases "m < 0 \<or> r < m")
      case True
      then have "best_pair ranks (y # w) (r, x, y) = (m', a, b)"
        using "3.prems" Some by (simp add: pair_rank_def)
      from IH [OF this] True r Some show ?thesis by (auto simp: adjacent_Cons_iff)
    next
      case False
      then have "best_pair ranks (y # w) (m, f, s) = (m', a, b)"
        using "3.prems" Some by (simp add: pair_rank_def)
      from IH [OF this] False r Some show ?thesis by (auto simp: adjacent_Cons_iff)
    qed
  qed
qed auto

lemma bpe_loop_spec:
  assumes "ranks_ok ranks"
  shows "(bpe_step ranks)\<^sup>*\<^sup>* w (bpe_loop ranks w) \<and> \<not> bpe_step ranks (bpe_loop ranks w) w'"
  using assms
proof (induction ranks w rule: bpe_loop.induct)
  case (1 ranks w)
  obtain m a b where best: "best_pair ranks w (-1, [], []) = (m, a, b)" by (metis prod_cases3)
  note spec = best_pair_spec [OF "1.prems" best]
  show ?case
  proof (cases "1 < length w \<and> 0 \<le> m")
    case True
    then have loop: "bpe_loop ranks w = bpe_loop ranks (merge_pair a b w)"
      using best by (subst bpe_loop.simps) simp
    have "bpe_step ranks w (merge_pair a b w)"
      unfolding bpe_step_def using spec True by auto
    with 1 True best show ?thesis
      unfolding loop by (metis converse_rtranclp_into_rtranclp not_le)
  next
    case False
    then have loop: "bpe_loop ranks w = w" using best by (subst bpe_loop.simps) auto
    have "\<not> bpe_step ranks w w'"
    proof
      assume "bpe_step ranks w w'"
      then obtain c d r where cd: "adjacent c d w" "pair_rank ranks c d = Some r" by (auto simp: bpe_step_def)
      then have "1 < length w" by (auto simp: adjacent_def)
      with False have "m < 0" by simp
      with spec cd show False by auto
    qed
    with loop show ?thesis by simp
  qed
qed

lemma concat_merge_pair [simp]: "concat (merge_pair a b w) = concat w"
  by (induction a b w rule: merge_pair.induct) auto

lemma concat_bpe_loop: "concat (bpe_loop ranks w) = concat w"
proof (induction ranks w rule: bpe_loop.induct)
  case (1 ranks w)
  then show ?case by (subst bpe_loop.simps) (auto split: prod.splits)
qed

lemma set_merge_pair: "e \<in> set (merge_pair a b w) \<Longrightarrow> e \<in> set w \<or> e = a @ b"
  by (induction a b w rule: merge_pair.induct) (auto split: if_splits)

text \<open>Every symbol of the result was there or was made by a merge rule from two symbols.\<close>

lemma bpe_loop_invariant:
  assumes "ranks_ok ranks" "\<And>a b. P a \<Longrightarrow> P b \<Longrightarrow> pair_rank ranks a b \<noteq> None \<Longrightarrow> P (a @ b)"
    and "\<forall>e \<in> set w. P e"
  shows "\<forall>e \<in> set (bpe_loop ranks w). P e"
  using assms
proof (induction ranks w rule: bpe_loop.induct)
  case (1 ranks w)
  obtain m a b where best: "best_pair ranks w (-1, [], []) = (m, a, b)" by (metis prod_cases3)
  show ?case
  proof (cases "1 < length w \<and> \<not> m < 0")
    case True
    with best_pair_spec [OF "1.prems"(1) best] have ab: "adjacent a b w" "pair_rank ranks a b \<noteq> None" by auto
    then have "a \<in> set w" "b \<in> set w" by (auto simp: adjacent_def)
    with ab "1.prems" have "P (a @ b)" by blast
    then have "\<forall>e \<in> set (merge_pair a b w). P e" using "1.prems"(3) set_merge_pair by blast
    then have "\<forall>e \<in> set (bpe_loop ranks (merge_pair a b w)). P e"
      using "1.IH" [OF _ best [symmetric] refl] "1.prems" True by blast
    moreover have "bpe_loop ranks w = bpe_loop ranks (merge_pair a b w)"
      using best True by (subst bpe_loop.simps) simp
    ultimately show ?thesis by simp
  next
    case False
    then have "bpe_loop ranks w = w" using best by (subst bpe_loop.simps) auto
    with "1.prems" show ?thesis by simp
  qed
qed


section \<open>The cache\<close>

text \<open>What \<^verbatim>\<open>bpe_merge\<close> computes without its cache, and the invariant of the cache.\<close>

definition bpe_words :: "(string \<times> int) list \<Rightarrow> string \<Rightarrow> string list" where
  "bpe_words ranks piece = bpe_loop ranks (bpe_symbols piece)"

definition cache_ok :: "(string \<times> int) list \<Rightarrow> bpe_cache \<Rightarrow> bool" where
  "cache_ok ranks cache \<longleftrightarrow> list_all (\<lambda>(piece, word). word = bpe_words ranks piece) cache"

lemma bpe_loop_short [simp]: "length w \<le> 1 \<Longrightarrow> bpe_loop ranks w = w"
  by (subst bpe_loop.simps) simp

lemma bpe_symbols_Nil [simp]: "bpe_symbols [] = []"
  by (simp add: bpe_symbols_def)

lemma bpe_words_Nil [simp]: "bpe_words ranks [] = []"
  by (simp add: bpe_words_def)

lemma cache_ok_Nil [simp]: "cache_ok ranks []"
  by (simp add: cache_ok_def)

lemma cache_ok_update: "cache_ok ranks c \<Longrightarrow> cache_ok ranks (AList.update p (bpe_words ranks p) c)"
  unfolding cache_ok_def by (induction c) auto

lemma bpe_merge_cached:
  assumes "cache_ok ranks cache"
  shows "fst (bpe_merge ranks piece cache) = bpe_words ranks piece
    \<and> cache_ok ranks (snd (bpe_merge ranks piece cache))"
proof (cases "map_of cache piece")
  case None
  then show ?thesis using cache_ok_update [OF assms, of piece] assms
    by (auto simp: bpe_merge_def Let_def bpe_words_def)
next
  case (Some word)
  then have "word = bpe_words ranks piece"
    using assms by (auto simp: cache_ok_def list_all_iff dest: map_of_SomeD)
  with Some assms show ?thesis by (simp add: bpe_merge_def)
qed


text \<open>
  C29. Merging refines its specification: with the cache in any state that earlier calls can have
  left, \<^verbatim>\<open>bpe_merge\<close> returns a normal form of the rewriting relation that always merges the
  adjacent pair of least rank, no further rule applies to the result, the symbols put together
  are those of the piece, and the cache stays a memo of these results.
\<close>
theorem bpe_merge_refines_rewriting:
  assumes "ranks_ok ranks" "cache_ok ranks cache"
  shows "(bpe_step ranks)\<^sup>*\<^sup>* (bpe_symbols piece) (fst (bpe_merge ranks piece cache))
    \<and> (\<nexists>w'. bpe_step ranks (fst (bpe_merge ranks piece cache)) w')
    \<and> concat (fst (bpe_merge ranks piece cache)) = concat (bpe_symbols piece)
    \<and> cache_ok ranks (snd (bpe_merge ranks piece cache))"
  using bpe_merge_cached [OF assms(2), of piece] bpe_loop_spec [OF assms(1), of "bpe_symbols piece"]
  by (simp add: bpe_words_def concat_bpe_loop)

text \<open>
  The piece \<^verbatim>\<open>abab\<close> with the rules \<^verbatim>\<open>b a\<close> (rank 1) and \<^verbatim>\<open>a b\<close> (rank 0).
\<close>
theorem bpe_merge_refines_rewriting_witness:
  "fst (bpe_merge [(''b a'', 1), (''a b'', 0)] ''abab'' []) = [''ab'', ''ab'']
   \<and> (bpe_step [(''b a'', 1), (''a b'', 0)])\<^sup>*\<^sup>* [''a'', ''b'', ''a'', ''b''] [''ab'', ''ab'']"
proof -
  let ?r = "[(''b a'', 1), (''a b'', 0)]"
  have m: "fst (bpe_merge ?r ''abab'' []) = [''ab'', ''ab'']" by code_simp
  have s: "bpe_symbols ''abab'' = [''a'', ''b'', ''a'', ''b'']" by code_simp
  have "ranks_ok ?r" by (simp add: ranks_ok_def)
  from bpe_merge_refines_rewriting [OF this cache_ok_Nil, of "''abab''"] m s show ?thesis by simp
qed


section \<open>Decoding inverts byte encoding\<close>

text \<open>A tokenizer keeps the byte tables its constructor filled.\<close>

definition byte_tables_ok :: "tokenizer \<Rightarrow> bool" where
  "byte_tables_ok t \<longleftrightarrow> byte_to_unicode t = byte_to_unicode QwenTokenizer
     \<and> unicode_to_byte t = unicode_to_byte QwenTokenizer"

definition enc_bytes :: "string \<Rightarrow> string" where
  "enc_bytes s = concat (map (\<lambda>ch. byte_symbol (byte_of_char ch)) s)"

definition dec_symbols :: "tokenizer \<Rightarrow> string \<Rightarrow> string" where
  "dec_symbols t e = concat (map (\<lambda>cp. decode_symbol t (codepoint_to_utf8 cp)) (utf8_to_codepoints e))"

lemma enc_bytes_append [simp]: "enc_bytes (s @ s') = enc_bytes s @ enc_bytes s'"
  by (simp add: enc_bytes_def)

lemma enc_bytes_Nil [simp]: "enc_bytes [] = []"
  by (simp add: enc_bytes_def)

lemma encode_byte_symbol: "byte_tables_ok t \<Longrightarrow> encode_byte t ch = byte_symbol (byte_of_char ch)"
  by (simp add: encode_byte_def byte_tables_ok_def byte_to_unicode_lookup)

lemma encode_bytes: "byte_tables_ok t \<Longrightarrow> concat (map (encode_byte t) s) = enc_bytes s"
  by (simp add: enc_bytes_def encode_byte_symbol cong: map_cong)

lemma utf8_enc_bytes:
  "utf8_to_codepoints (enc_bytes s) = map (\<lambda>ch. word_of_nat (byte_cp (of_char ch))) s"
proof -
  let ?cps = "map (\<lambda>ch. word_of_nat (byte_cp (of_char ch)) :: u32) s"
  have "\<forall>cp \<in> set ?cps. cp < 0x200000" using byte_cp_small [of "byte_of_char _"] by auto
  moreover have "enc_bytes s = concat (map codepoint_to_utf8 ?cps)"
    by (simp add: enc_bytes_def byte_symbol_def o_def)
  ultimately show ?thesis using utf8_decode_encode [of ?cps] by metis
qed

lemma bpe_symbols_enc_bytes: "bpe_symbols (enc_bytes s) = map (\<lambda>ch. byte_symbol (byte_of_char ch)) s"
  by (simp add: bpe_symbols_def utf8_enc_bytes byte_symbol_def o_def)

lemma dec_enc_bytes: "byte_tables_ok t \<Longrightarrow> dec_symbols t (enc_bytes s) = s"
proof -
  assume "byte_tables_ok t"
  then have "decode_symbol t (codepoint_to_utf8 (word_of_nat (byte_cp (of_char ch)))) = [ch]" for ch
    using unicode_to_byte_lookup [of "byte_of_char ch"]
    by (simp add: decode_symbol_def byte_tables_ok_def byte_symbol_def)
  then show ?thesis by (simp add: dec_symbols_def utf8_enc_bytes o_def)
qed

text \<open>Printable ASCII characters stand for themselves.\<close>

definition plain_ascii :: "string \<Rightarrow> bool" where
  "plain_ascii s \<longleftrightarrow> list_all (\<lambda>ch. 33 \<le> (of_char ch :: nat) \<and> (of_char ch :: nat) \<le> 126) s"

lemma enc_bytes_plain: "plain_ascii s \<Longrightarrow> enc_bytes s = s"
proof (induction s)
  case (Cons ch s)
  then have ch: "33 \<le> (of_char ch :: nat)" "(of_char ch :: nat) \<le> 126" and s: "plain_ascii s"
    by (auto simp: plain_ascii_def)
  then have cp: "byte_cp (of_char ch) = of_char ch" by (simp add: byte_cp_def byte_printable_def)
  have "(word_of_nat (of_char ch) :: u32) < 0x80" using ch by (simp add: word_less_nat_alt unat_of_nat)
  moreover have "char_of_byte (ucast (word_of_nat (of_char ch) :: u32)) = ch"
  proof -
    have "(ucast (word_of_nat (of_char ch) :: u32) :: u8) = byte_of_char ch"
      by (rule bit_word_eqI) (simp add: byte_of_char_def bit_simps)
    then show ?thesis by simp
  qed
  ultimately have "byte_symbol (byte_of_char ch) = [ch]"
    using cp by (simp add: byte_symbol_def codepoint_to_utf8_def utf8_char_def)
  with Cons.IH [OF s] show ?case by (simp add: enc_bytes_def)
qed simp



section \<open>Encoding and decoding\<close>

text \<open>
  What a consistent \<^verbatim>\<open>tokenizer.json\<close> provides: every byte symbol is in the vocabulary, so is
  the result of every merge rule (and it is not a hidden token), ids determine their tokens, and
  special tokens are non-empty printable ASCII.
\<close>

definition merges_closed :: "tokenizer \<Rightarrow> bool" where
  "merges_closed t \<longleftrightarrow>
     list_all (\<lambda>(k, r). list_all (\<lambda>i. k ! i = CHR '' '' \<longrightarrow>
       (let m = take i k @ drop (Suc i) k in map_of (vocab t) m \<noteq> None \<and> \<not> hidden_token m)) [0..<length k])
       (bpe_ranks t)"

definition tokenizer_ok :: "tokenizer \<Rightarrow> bool" where
  "tokenizer_ok t \<longleftrightarrow> byte_tables_ok t \<and> ranks_ok (bpe_ranks t)
     \<and> list_all (\<lambda>b. map_of (vocab t) (byte_symbol b) \<noteq> None) all_bytes
     \<and> merges_closed t
     \<and> list_all (\<lambda>(p, i). map_of (id_to_token t) i = Some p) (vocab t)
     \<and> list_all (\<lambda>(c, i). c \<noteq> [] \<and> plain_ascii c \<and> map_of (id_to_token t) i = Some c) (special_tokens t)"

lemma merges_closedD:
  assumes "merges_closed t" "pair_rank (bpe_ranks t) a b \<noteq> None"
  shows "map_of (vocab t) (a @ b) \<noteq> None \<and> \<not> hidden_token (a @ b)"
proof -
  let ?k = "a @ '' '' @ b"
  obtain r where "(?k, r) \<in> set (bpe_ranks t)"
    using assms(2) by (auto simp: pair_rank_def dest: map_of_SomeD)
  with assms(1) have "list_all (\<lambda>i. ?k ! i = CHR '' '' \<longrightarrow>
       (let m = take i ?k @ drop (Suc i) ?k in map_of (vocab t) m \<noteq> None \<and> \<not> hidden_token m)) [0..<length ?k]"
    unfolding merges_closed_def list_all_iff by fast
  then have "?k ! length a = CHR '' '' \<longrightarrow>
       (let m = take (length a) ?k @ drop (Suc (length a)) ?k in map_of (vocab t) m \<noteq> None \<and> \<not> hidden_token m)"
    unfolding list_all_iff by (rule bspec) simp
  then show ?thesis by (simp add: Let_def)
qed

definition good_piece :: "tokenizer \<Rightarrow> string \<Rightarrow> bool" where
  "good_piece t e \<longleftrightarrow> (\<exists>s. e = enc_bytes s) \<and> map_of (vocab t) e \<noteq> None \<and> \<not> hidden_token e"

lemma byte_symbol_not_hidden: "\<not> hidden_token (byte_symbol b)"
proof -
  have "length (byte_symbol b) \<le> 4" by (simp add: byte_symbol_def codepoint_to_utf8_def)
  then show ?thesis by (auto simp: hidden_token_def)
qed

lemma enc_bytes_symbol: "enc_bytes [char_of_byte b] = byte_symbol b"
  by (simp add: enc_bytes_def)

lemma good_pieces:
  assumes "tokenizer_ok t"
  shows "\<forall>e \<in> set (bpe_words (bpe_ranks t) (enc_bytes s)). good_piece t e"
  unfolding bpe_words_def bpe_symbols_enc_bytes
proof (rule bpe_loop_invariant)
  show "ranks_ok (bpe_ranks t)" using assms by (simp add: tokenizer_ok_def)
  show "good_piece t (a @ b)"
    if "good_piece t a" "good_piece t b" "pair_rank (bpe_ranks t) a b \<noteq> None" for a b
    using that merges_closedD [of t a b] assms enc_bytes_append
    unfolding good_piece_def tokenizer_ok_def by metis
  have "good_piece t (byte_symbol b)" for b
    using assms all_bytes(2) [of b] byte_symbol_not_hidden [of b] enc_bytes_symbol [of b, symmetric]
    unfolding good_piece_def tokenizer_ok_def list_all_iff by blast
  then show "\<forall>e \<in> set (map (\<lambda>ch. byte_symbol (byte_of_char ch)) s). good_piece t e" by simp
qed

lemma decode_good_piece:
  assumes "tokenizer_ok t" "good_piece t e"
  shows "decode t (piece_ids t e) = dec_symbols t e"
proof -
  obtain i where i: "map_of (vocab t) e = Some i" using assms(2) by (auto simp: good_piece_def)
  then have "map_of (id_to_token t) i = Some e"
    using assms(1) map_of_SomeD [OF i] unfolding tokenizer_ok_def list_all_iff by auto
  with i assms(2) show ?thesis
    by (simp add: decode_def piece_ids_def decode_token_def dec_symbols_def good_piece_def)
qed

lemma decode_append [simp]: "decode t (xs @ ys) = decode t xs @ decode t ys"
  by (simp add: decode_def)

lemma decode_pieces:
  assumes ok: "tokenizer_ok t"
  shows "\<forall>e \<in> set es. good_piece t e \<Longrightarrow>
    \<exists>s. concat es = enc_bytes s \<and> decode t (concat (map (piece_ids t) es)) = s"
proof (induction es)
  case Nil
  then show ?case by (intro exI [of _ "[]"]) (simp add: decode_def)
next
  case (Cons e es)
  then obtain s where s: "concat es = enc_bytes s" "decode t (concat (map (piece_ids t) es)) = s" by auto
  from Cons.prems obtain s' where s': "e = enc_bytes s'" by (auto simp: good_piece_def)
  have "decode t (piece_ids t e) = s'"
    using decode_good_piece [OF ok, of e] Cons.prems dec_enc_bytes [of t s'] ok s'
    by (simp add: tokenizer_ok_def)
  with s s' show ?case by (intro exI [of _ "s' @ s"]) simp
qed

lemma decode_bpe_words:
  assumes "tokenizer_ok t"
  shows "decode t (concat (map (piece_ids t) (bpe_words (bpe_ranks t) (enc_bytes s)))) = s"
proof -
  let ?es = "bpe_words (bpe_ranks t) (enc_bytes s)"
  obtain s' where s': "concat ?es = enc_bytes s'" "decode t (concat (map (piece_ids t) ?es)) = s'"
    using decode_pieces [OF assms good_pieces [OF assms]] by blast
  have "concat ?es = enc_bytes s"
    unfolding bpe_words_def concat_bpe_loop bpe_symbols_enc_bytes by (simp add: enc_bytes_def)
  then have "dec_symbols t (enc_bytes s') = dec_symbols t (enc_bytes s)" using s' by simp
  then have "s' = s" using dec_enc_bytes assms by (simp add: tokenizer_ok_def)
  with s' show ?thesis by simp
qed

definition chunk_of :: "u32 list \<Rightarrow> nat \<times> nat \<Rightarrow> string" where
  "chunk_of cpts r = concat (map codepoint_to_utf8 (slice (fst r) (snd r - fst r) cpts))"

lemma encode_ranges_decode:
  assumes ok: "tokenizer_ok t"
  shows "cache_ok (bpe_ranks t) cache \<Longrightarrow> encode_ranges t cpts rngs (tokens, cache) = (tokens', cache') \<Longrightarrow>
    decode t tokens' = decode t tokens @ concat (map (chunk_of cpts) rngs) \<and> cache_ok (bpe_ranks t) cache'"
proof (induction rngs arbitrary: tokens cache)
  case (Cons r rngs)
  obtain lo hi where r: "r = (lo, hi)" by (cases r)
  let ?enc = "concat (map (encode_byte t) (chunk_of cpts r))"
  obtain pieces cache1 where m: "bpe_merge (bpe_ranks t) ?enc cache = (pieces, cache1)" by fastforce
  have c1: "cache_ok (bpe_ranks t) cache1" "pieces = bpe_words (bpe_ranks t) ?enc"
    using bpe_merge_cached [OF Cons.prems(1), of ?enc] m by auto
  have enc: "?enc = enc_bytes (chunk_of cpts r)" using ok encode_bytes by (simp add: tokenizer_ok_def)
  have "encode_ranges t cpts rngs (tokens @ concat (map (piece_ids t) pieces), cache1) = (tokens', cache')"
    using Cons.prems(2) m by (simp add: r chunk_of_def Let_def)
  from Cons.IH [OF c1(1) this] show ?case
    using decode_bpe_words [OF ok, of "chunk_of cpts r"] c1(2) enc by simp
qed simp

definition valid_utf8 :: "string \<Rightarrow> bool" where
  "valid_utf8 s \<longleftrightarrow> concat (map codepoint_to_utf8 (utf8_to_codepoints s)) = s"

lemma chunks_of_split:
  "concat (map (chunk_of cpts) (split_qwen35 cpts)) = concat (map codepoint_to_utf8 cpts)"
proof -
  have "concat (map (\<lambda>(s, e). slice s (e - s) cpts) (split_qwen35 cpts)) = cpts"
    using split_qwen35_cuts(1) [of cpts] tiles_slices [of 0 "length cpts" "split_qwen35 cpts" cpts]
    by (simp add: slice_def)
  moreover have "concat (map (chunk_of cpts) rs) =
      concat (map codepoint_to_utf8 (concat (map (\<lambda>(s, e). slice s (e - s) cpts) rs)))" for rs
    by (induction rs) (auto simp: chunk_of_def)
  ultimately show ?thesis by simp
qed

lemma encode_segment_Nil: "encode_segment t [] st = st"
  by (simp add: encode_segment_def)

lemma encode_segment_decode:
  assumes "tokenizer_ok t" "cache_ok (bpe_ranks t) cache" "valid_utf8 seg"
    "encode_segment t seg (tokens, cache) = (tokens', cache')"
  shows "decode t tokens' = decode t tokens @ seg \<and> cache_ok (bpe_ranks t) cache'"
proof (cases "seg = []")
  case True
  with assms show ?thesis by (simp add: encode_segment_def)
next
  case False
  let ?cpts = "utf8_to_codepoints seg"
  have "encode_ranges t ?cpts (split_qwen35 ?cpts) (tokens, cache) = (tokens', cache')"
    using assms(4) False by (simp add: encode_segment_def Let_def)
  from encode_ranges_decode [OF assms(1,2) this] assms(3) show ?thesis
    by (simp add: chunks_of_split valid_utf8_def)
qed



section \<open>Special tokens\<close>

lemma find_sub_from_SomeD:
  assumes "find_sub_from c input pos = Some p"
  shows "pos \<le> p" "p + length c \<le> length input" "slice p (length c) input = c"
proof -
  obtain i where i: "find_sub c (drop pos input) = Some i" "p = pos + i" "pos \<le> length input"
    using assms by (auto simp: find_sub_from_def split: if_splits)
  with find_sub_Some_D [OF i(1)] show "pos \<le> p" "p + length c \<le> length input" by auto
  have "starts_with (drop p input) c" using find_sub_Some_D [OF i(1)] i(2) by (simp add: add.commute)
  then show "slice p (length c) input = c" by (auto simp: starts_with_iff slice_def)
qed

lemma nearest_special_best:
  "nearest_special sts input pos best = Some (p, c, i) \<Longrightarrow>
     best = Some (p, c, i) \<or> (c, i) \<in> set sts \<and> find_sub_from c input pos = Some p"
proof (induction sts arbitrary: best)
  case (Cons st sts)
  show ?case
  proof (cases "find_sub_from (fst st) input pos")
    case None
    with Cons show ?thesis by auto
  next
    case (Some q)
    let ?best' = "case best of None \<Rightarrow> Some (q, st) | Some (nearest, _) \<Rightarrow> if q < nearest then Some (q, st) else best"
    have b: "?best' = best \<or> ?best' = Some (q, st)" by (auto split: option.splits)
    have "nearest_special sts input pos ?best' = Some (p, c, i)" using Cons.prems Some by simp
    from Cons.IH [OF this] b Some show ?thesis by auto
  qed
qed simp

lemma nearest_specialD:
  assumes "nearest_special sts input pos None = Some (p, c, i)"
  shows "(c, i) \<in> set sts" "pos \<le> p" "p + length c \<le> length input" "slice p (length c) input = c"
  using nearest_special_best [OF assms] find_sub_from_SomeD [of c input pos p] by auto

lemma special_progress:
  assumes "pos < length input" "c \<noteq> []" "pos \<le> p"
  shows "length input - (p + length c) < length input - pos"
proof -
  have "0 < length c" using assms(2) by simp
  with assms show ?thesis by linarith
qed

datatype segment = Plain string | Special string int

text \<open>The text cut at its special tokens, from position \<open>pos\<close> on.\<close>

function segments :: "(string \<times> int) list \<Rightarrow> string \<Rightarrow> nat \<Rightarrow> segment list" where
  "segments sts input pos =
     (if pos < length input then
        (case nearest_special sts input pos None of
           None \<Rightarrow> [Plain (drop pos input)]
         | Some (p, c, i) \<Rightarrow>
             (if pos < p then [Plain (slice pos (p - pos) input)] else []) @ Special c i #
             (if c = [] then [] else segments sts input (p + length c)))
      else [])"
  by pat_completeness auto
termination
  by (relation "measure (\<lambda>(sts, input, pos). length input - pos)")
    (auto dest!: nearest_specialD(2) simp: special_progress)

declare segments.simps [simp del]

fun segment_source :: "segment \<Rightarrow> string" where
  "segment_source (Plain s) = s"
| "segment_source (Special c i) = c"

text \<open>What decoding shows of a segment: the three control tokens disappear.\<close>

fun segment_shown :: "segment \<Rightarrow> string" where
  "segment_shown (Plain s) = s"
| "segment_shown (Special c i) = (if hidden_token c then [] else c)"

fun segment_ok :: "segment \<Rightarrow> bool" where
  "segment_ok (Plain s) = valid_utf8 s"
| "segment_ok (Special c i) = True"

lemma segments_source:
  "list_all (\<lambda>(c, i). c \<noteq> []) sts \<Longrightarrow> concat (map segment_source (segments sts input pos)) = drop pos input"
proof (induction sts input pos rule: segments.induct)
  case (1 sts input pos)
  show ?case
  proof (cases "pos < length input")
    case False
    then show ?thesis by (simp add: segments.simps)
  next
    case True
    show ?thesis
    proof (cases "nearest_special sts input pos None")
      case None
      with True show ?thesis by (simp add: segments.simps [of sts input pos])
    next
      case (Some x)
      then obtain p c i where x: "nearest_special sts input pos None = Some (p, c, i)" by (cases x) auto
      note d = nearest_specialD [OF x]
      have c: "c \<noteq> []" using d(1) "1.prems" by (auto simp: list_all_iff)
      have "concat (map segment_source (segments sts input (p + length c))) = drop (p + length c) input"
        using "1.IH" [OF True x refl refl c "1.prems"] by simp
      moreover have "drop pos input = slice pos (p - pos) input @ c @ drop (p + length c) input"
        using d(2,4) by (metis append_take_drop_id drop_drop le_add_diff_inverse2 slice_def add.commute)
      moreover have "segments sts input pos =
          (if pos < p then [Plain (slice pos (p - pos) input)] else []) @ Special c i # segments sts input (p + length c)"
        using True x c by (subst segments.simps) simp
      ultimately show ?thesis using d(2) by (cases "pos = p") (simp_all add: slice_def)
    qed
  qed
qed

lemma decode_special:
  assumes "tokenizer_ok t" "(c, i) \<in> set (special_tokens t)"
  shows "decode_token t i = (if hidden_token c then [] else c)"
proof -
  have c: "plain_ascii c" "map_of (id_to_token t) i = Some c"
    using assms by (auto simp: tokenizer_ok_def list_all_iff)
  then have "dec_symbols t c = c"
    using dec_enc_bytes [of t c] enc_bytes_plain [of c] assms(1) by (simp add: tokenizer_ok_def)
  with c show ?thesis by (simp add: decode_token_def dec_symbols_def)
qed

lemma encode_loop_decode:
  assumes ok: "tokenizer_ok t"
  shows "cache_ok (bpe_ranks t) cache \<Longrightarrow> list_all segment_ok (segments (special_tokens t) input pos) \<Longrightarrow>
    \<exists>tokens' cache'. encode_loop t input pos (tokens, cache) = Some (tokens', cache')
      \<and> decode t tokens' = decode t tokens @ concat (map segment_shown (segments (special_tokens t) input pos))
      \<and> cache_ok (bpe_ranks t) cache'"
proof (induction "length input - pos" arbitrary: pos tokens cache rule: less_induct)
  case less
  show ?case
  proof (cases "pos < length input")
    case False
    then show ?thesis using less.prems by (simp add: encode_loop.simps segments.simps)
  next
    case True
    let ?segs = "segments (special_tokens t) input pos"
    show ?thesis
    proof (cases "nearest_special (special_tokens t) input pos None")
      case None
      then have segs: "?segs = [Plain (drop pos input)]" using True by (simp add: segments.simps)
      obtain tokens' cache' where e: "encode_segment t (drop pos input) (tokens, cache) = (tokens', cache')" by fastforce
      have "encode_loop t input pos (tokens, cache) = Some (tokens', cache')"
        using True None e by (simp add: encode_loop.simps)
      with encode_segment_decode [OF ok less.prems(1) _ e] less.prems(2) segs show ?thesis by simp
    next
      case (Some x)
      then obtain p c i where x: "nearest_special (special_tokens t) input pos None = Some (p, c, i)"
        by (cases x) auto
      note d = nearest_specialD [OF x]
      have c: "c \<noteq> []" using d(1) ok by (auto simp: tokenizer_ok_def list_all_iff)
      define pre where "pre = (if pos < p then slice pos (p - pos) input else [])"
      have segs: "?segs = (if pos < p then [Plain pre] else []) @ Special c i # segments (special_tokens t) input (p + length c)"
        using True x c by (simp add: segments.simps [of _ input pos] pre_def)
      obtain tok1 cache1 where e: "encode_segment t pre (tokens, cache) = (tok1, cache1)" by fastforce
      have "valid_utf8 pre" using less.prems(2) segs by (cases "pos < p") (auto simp: pre_def valid_utf8_def)
      note seg = encode_segment_decode [OF ok less.prems(1) this e]
      have step: "encode_loop t input pos (tokens, cache) = encode_loop t input (p + length c) (tok1 @ [i], cache1)"
        using True x e unfolding pre_def
        by (subst encode_loop.simps) (cases "pos < p", simp_all add: encode_segment_Nil)
      have "length input - (p + length c) < length input - pos" by (rule special_progress [OF True c d(2)])
      from less.hyps [OF this, of cache1 "tok1 @ [i]"] seg less.prems(2) segs
      obtain tokens' cache' where r: "encode_loop t input (p + length c) (tok1 @ [i], cache1) = Some (tokens', cache')"
        "decode t tokens' = decode t (tok1 @ [i]) @ concat (map segment_shown (segments (special_tokens t) input (p + length c)))"
        "cache_ok (bpe_ranks t) cache'" by auto
      have "decode t (tok1 @ [i]) = decode t tokens @ pre @ segment_shown (Special c i)"
        using seg decode_special [OF ok d(1)] by (simp add: decode_def)
      with r segs step show ?thesis by (auto simp: pre_def)
    qed
  qed
qed


text \<open>
  C27. Decoding inverts encoding. For a consistent tokenizer, whatever its cache holds, encoding
  returns, and decoding the ids gives back the text, byte for byte, with only the tokens
  \<^verbatim>\<open><|im_start|>\<close>, \<^verbatim>\<open><|im_end|>\<close> and \<^verbatim>\<open><|endoftext|>\<close> removed. The text is the concatenation of
  its segments, of which the plain ones are valid UTF-8; the encoder changes nothing but the
  cache, which stays a memo.
\<close>
theorem decode_inverts_encode:
  assumes "tokenizer_ok t" "cache_ok (bpe_ranks t) (bpe_cache t)"
    and "list_all segment_ok (segments (special_tokens t) input 0)"
  shows "concat (map segment_source (segments (special_tokens t) input 0)) = input
    \<and> (\<exists>ids cache'. encode t input = Some (ids, t\<lparr>bpe_cache := cache'\<rparr>)
         \<and> decode t ids = concat (map segment_shown (segments (special_tokens t) input 0))
         \<and> cache_ok (bpe_ranks t) cache')"
proof
  have "list_all (\<lambda>(c, i). c \<noteq> []) (special_tokens t)"
    using assms(1) by (auto simp: tokenizer_ok_def list_all_iff)
  from segments_source [OF this] show "concat (map segment_source (segments (special_tokens t) input 0)) = input"
    by simp
  have v: "vocab t \<noteq> []" using assms(1) all_bytes(2) by (fastforce simp: tokenizer_ok_def list_all_iff)
  show "\<exists>ids cache'. encode t input = Some (ids, t\<lparr>bpe_cache := cache'\<rparr>)
      \<and> decode t ids = concat (map segment_shown (segments (special_tokens t) input 0))
      \<and> cache_ok (bpe_ranks t) cache'"
  proof (cases "input = []")
    case True
    then show ?thesis using assms(2)
      by (intro exI [of _ "[]"] exI [of _ "bpe_cache t"]) (simp add: encode_def segments.simps decode_def)
  next
    case False
    from encode_loop_decode [OF assms, of "[]"] v False show ?thesis
      by (auto simp: encode_def decode_def)
  qed
qed

text \<open>A small consistent tokenizer: all byte symbols, one merge rule and two special tokens.\<close>

definition sample_vocab :: "(string \<times> int) list" where
  "sample_vocab = map (\<lambda>b. (byte_symbol b, uint b)) all_bytes
     @ [(''hi'', 256), (''<|im_end|>'', 257), (''<think>'', 258)]"

definition sample_tokenizer :: tokenizer where
  "sample_tokenizer = QwenTokenizer\<lparr>vocab := sample_vocab,
     id_to_token := map (\<lambda>(p, i). (i, p)) sample_vocab, bpe_ranks := [(''h i'', 0)],
     special_tokens := [(''<|im_end|>'', 257), (''<think>'', 258)]\<rparr>"

lemma sample_ids_distinct: "distinct (map fst (map (\<lambda>(p, i). (i, p)) sample_vocab))"
proof -
  have less: "uint (b :: u8) < 256" for b
    using unsigned_less [of b, where 'a = int] by simp
  have no: "uint (b :: u8) \<notin> {256, 257, 258}" for b using less [of b] by auto
  have "map fst (map (\<lambda>(p, i). (i, p)) sample_vocab) = map uint all_bytes @ [256, 257, 258]"
    by (simp add: sample_vocab_def)
  moreover have "distinct (map uint all_bytes)"
    using all_bytes(1) by (simp add: distinct_map inj_on_def word_uint_eq_iff)
  ultimately show ?thesis using no by auto
qed

lemma sample_tokenizer_ok: "tokenizer_ok sample_tokenizer"
proof -
  have ids: "map_of (map (\<lambda>(p, i). (i, p)) sample_vocab) i = Some p" if "(p, i) \<in> set sample_vocab" for p i
    using map_of_is_SomeI [OF sample_ids_distinct, of i p] that by force
  have v: "map_of sample_vocab p \<noteq> None" if "p \<in> fst ` set sample_vocab" for p
    using that by (simp add: map_of_eq_None_iff)
  have hi: "map_of sample_vocab ''hi'' \<noteq> None" by (rule v) (simp add: sample_vocab_def)
  have b: "map_of sample_vocab (byte_symbol b) \<noteq> None" for b
    by (rule v) (use all_bytes(2) in \<open>simp add: sample_vocab_def image_Un image_image\<close>)
  have "merges_closed sample_tokenizer"
    using hi by (simp add: merges_closed_def sample_tokenizer_def hidden_token_def upt_rec)
  moreover have "(''<|im_end|>'', 257) \<in> set sample_vocab" "(''<think>'', 258) \<in> set sample_vocab"
    by (simp_all add: sample_vocab_def)
  moreover have "plain_ascii ''<|im_end|>''" "plain_ascii ''<think>''" by code_simp+
  ultimately show ?thesis using ids b
    by (auto simp: tokenizer_ok_def sample_tokenizer_def byte_tables_ok_def ranks_ok_def list_all_iff)
qed

theorem decode_inverts_encode_witness:
  "\<exists>ids cache'. encode sample_tokenizer ''hi<|im_end|>'' = Some (ids, sample_tokenizer\<lparr>bpe_cache := cache'\<rparr>)
     \<and> decode sample_tokenizer ids = ''hi''"
proof -
  have segs: "segments [(''<|im_end|>'', 257), (''<think>'', 258)] ''hi<|im_end|>'' 0
      = [Plain ''hi'', Special ''<|im_end|>'' 257]" by code_simp
  have st: "special_tokens sample_tokenizer = [(''<|im_end|>'', 257), (''<think>'', 258)]"
    "bpe_cache sample_tokenizer = []"
    by (simp_all add: sample_tokenizer_def QwenTokenizer_def init_byte_encoder_def init_loop_cache)
  have "valid_utf8 ''hi''" by code_simp
  then have "list_all segment_ok (segments (special_tokens sample_tokenizer) ''hi<|im_end|>'' 0)"
    by (simp add: st segs)
  from decode_inverts_encode [OF sample_tokenizer_ok _ this] st segs show ?thesis
    by (auto simp: hidden_token_def)
qed



section \<open>Termination\<close>

lemma encode_returns:
  assumes "list_all (\<lambda>(c, i). c \<noteq> []) (special_tokens t)"
  shows "\<exists>ids t'. encode t input = Some (ids, t')"
proof -
  have "\<exists>r. encode_loop t input pos st = Some r" for pos st
  proof (induction "length input - pos" arbitrary: pos st rule: less_induct)
    case less
    show ?case
    proof (cases "pos < length input")
      case False
      then show ?thesis by (simp add: encode_loop.simps)
    next
      case True
      show ?thesis
      proof (cases "nearest_special (special_tokens t) input pos None")
        case None
        with True show ?thesis by (simp add: encode_loop.simps)
      next
        case (Some x)
        then obtain p c i where x: "nearest_special (special_tokens t) input pos None = Some (p, c, i)"
          by (cases x) auto
        then have "c \<noteq> []" using nearest_specialD(1) assms by (fastforce simp: list_all_iff)
        from less.hyps [OF special_progress [OF True this nearest_specialD(2) [OF x]]]
        show ?thesis using True x by (subst encode_loop.simps) (auto split: prod.splits)
      qed
    qed
  qed
  then show ?thesis by (auto simp: encode_def)
qed

text \<open>
  C32. Encoding returns for every text and every state of the tables, as long as no special token
  is empty; the hypothesis is needed (see the next statement).
\<close>
theorem encode_terminates:
  assumes "list_all (\<lambda>(c, i). c \<noteq> []) (special_tokens t)"
  shows "\<exists>ids t'. encode t input = Some (ids, t')"
  by (rule encode_returns [OF assms])

theorem encode_terminates_witness:
  "\<exists>ids t'. encode (QwenTokenizer\<lparr>vocab := [(''a'', 1)], special_tokens := [(''<s>'', 2)]\<rparr>) ''a<s>'' = Some (ids, t')"
  using encode_terminates [of "QwenTokenizer\<lparr>vocab := [(''a'', 1)], special_tokens := [(''<s>'', 2)]\<rparr>" "''a<s>''"]
  by simp

lemma nearest_special_empty:
  "pos < length input \<Longrightarrow> nearest_special [([], i)] input pos None = Some (pos, [], i)"
  by (cases "drop pos input") (auto simp: find_sub_from_def)

lemma encode_loop_empty_special:
  "encode_loop t input pos st = Some r \<Longrightarrow> special_tokens t = [([], i)] \<longrightarrow> \<not> pos < length input"
proof (erule encode_loop.raw_induct [rotated])
  fix loop t input pos st r
  assume IH: "\<And>t input pos st r. loop t input pos st = Some r \<Longrightarrow>
      special_tokens t = [([], i)] \<longrightarrow> \<not> pos < length (input :: string)"
    and run: "(if pos < length input then
        (case nearest_special (special_tokens t) input pos None of
           None \<Rightarrow> loop t input (length input) (encode_segment t (drop pos input) st)
         | Some (nearest, content, tok_id) \<Rightarrow>
             (case (if pos < nearest then encode_segment t (slice pos (nearest - pos) input) st else st) of
                (tokens, cache) \<Rightarrow> loop t input (nearest + length content) (tokens @ [tok_id], cache)))
      else Some st) = Some r"
  show "special_tokens t = [([], i)] \<longrightarrow> \<not> pos < length input"
  proof (intro impI notI)
    assume sp: "special_tokens t = [([], i)]" and pos: "pos < length input"
    then have "loop t input pos (fst st @ [i], snd st) = Some r"
      using run nearest_special_empty [OF pos, of i] by (auto split: prod.splits)
    from IH [OF this] sp pos show False by simp
  qed
qed

text \<open>
  A \<^verbatim>\<open>tokenizer.json\<close> with an added token whose content is the empty string makes encoding
  run forever: the token is found at the current position, which never moves on.
\<close>
theorem empty_special_token_diverges:
  "encode (t\<lparr>vocab := (''a'', 0) # voc, special_tokens := [([], i)]\<rparr>) (ch # input) = None"
proof -
  let ?t = "t\<lparr>vocab := (''a'', 0) # voc, special_tokens := [([], i)]\<rparr>"
  have "encode_loop ?t (ch # input) 0 ([], bpe_cache ?t) = None"
    using encode_loop_empty_special [of ?t "ch # input" 0 "([], bpe_cache ?t)" _ i]
    by (cases "encode_loop ?t (ch # input) 0 ([], bpe_cache ?t)") auto
  then show ?thesis by (simp add: encode_def)
qed



section \<open>The byte fallback\<close>

text \<open>
  A tokenizer whose merge rule makes a symbol that its vocabulary does not have: the rule joins
  the symbol of a space with \<^verbatim>\<open>a\<close>, the vocabulary has the 256 byte symbols only.
\<close>

definition unclosed_tokenizer :: tokenizer where
  "unclosed_tokenizer = QwenTokenizer\<lparr>vocab := map (\<lambda>b. (byte_symbol b, uint b)) all_bytes,
     id_to_token := map (\<lambda>b. (uint b, byte_symbol b)) all_bytes,
     bpe_ranks := [(byte_symbol 0x20 @ '' a'', 0)]\<rparr>"

lemma unclosed_tables: "byte_tables_ok unclosed_tokenizer"
  by (simp add: byte_tables_ok_def unclosed_tokenizer_def)

lemma unclosed_vocab: "map_of (vocab unclosed_tokenizer) (byte_symbol b) = Some (uint b)"
proof -
  have "distinct (map fst (vocab unclosed_tokenizer))"
    using all_bytes(1) by (simp add: unclosed_tokenizer_def distinct_map inj_on_def)
  moreover have "(byte_symbol b, uint b) \<in> set (vocab unclosed_tokenizer)"
    using all_bytes(2) by (auto simp: unclosed_tokenizer_def)
  ultimately show ?thesis by (rule map_of_is_SomeI)
qed

lemma unclosed_decode: "decode_token unclosed_tokenizer (uint b) = [char_of_byte b]"
proof -
  have "distinct (map fst (id_to_token unclosed_tokenizer))"
    using all_bytes(1) by (simp add: unclosed_tokenizer_def distinct_map inj_on_def word_uint_eq_iff)
  moreover have "(uint b, byte_symbol b) \<in> set (id_to_token unclosed_tokenizer)"
    using all_bytes(2) by (auto simp: unclosed_tokenizer_def)
  ultimately have "map_of (id_to_token unclosed_tokenizer) (uint b) = Some (byte_symbol b)"
    by (rule map_of_is_SomeI)
  with dec_enc_bytes [OF unclosed_tables, of "[char_of_byte b]"] byte_symbol_not_hidden show ?thesis
    by (simp add: decode_token_def dec_symbols_def enc_bytes_symbol)
qed

lemma byte_symbol_short: "length (byte_symbol b) \<le> 2"
proof -
  have "(word_of_nat (byte_cp (unat b)) :: u32) < 0x800"
    using byte_cp_bound [of "unat b"] byte_cp_word [of b] by (simp add: word_less_nat_alt)
  then show ?thesis by (simp add: byte_symbol_def codepoint_to_utf8_def)
qed

lemma unclosed_piece:
  "piece_ids unclosed_tokenizer [CHR 0xC4, CHR 0xA0, CHR ''a''] = [0xC4, 0xA0, 0x61]"
proof -
  have "length e \<le> 2" if "e \<in> fst ` set (vocab unclosed_tokenizer)" for e
    using that byte_symbol_short by (auto simp: unclosed_tokenizer_def)
  from this [of "[CHR 0xC4, CHR 0xA0, CHR ''a'']"]
  have "map_of (vocab unclosed_tokenizer) [CHR 0xC4, CHR 0xA0, CHR ''a''] = None"
    by (auto simp: map_of_eq_None_iff)
  moreover have "byte_fallback unclosed_tokenizer c = [uint (byte_of_char c)]" for c
    using byte_to_unicode_lookup [of "byte_of_char c"] unclosed_vocab
    by (simp add: byte_fallback_def unclosed_tokenizer_def)
  ultimately show ?thesis by (simp add: piece_ids_def byte_of_char_def)
qed

lemma unclosed_encode_ranges:
  "fst (encode_ranges unclosed_tokenizer [0x20, 0x61] [(0, 2)] ([], [])) = [0xC4, 0xA0, 0x61]"
proof -
  have "enc_bytes '' a'' = [CHR 0xC4, CHR 0xA0, CHR ''a'']" by code_simp
  then have enc: "concat (map (encode_byte unclosed_tokenizer) '' a'') = [CHR 0xC4, CHR 0xA0, CHR ''a'']"
    using encode_bytes [OF unclosed_tables, of "'' a''"] by simp
  have chunk: "concat (map codepoint_to_utf8 (slice 0 (2 - 0) [0x20, 0x61])) = '' a''" by code_simp
  have "fst (bpe_merge [(byte_symbol 0x20 @ '' a'', 0)] [CHR 0xC4, CHR 0xA0, CHR ''a''] [])
      = [[CHR 0xC4, CHR 0xA0, CHR ''a'']]" by code_simp
  then obtain cache where m: "bpe_merge (bpe_ranks unclosed_tokenizer) [CHR 0xC4, CHR 0xA0, CHR ''a''] []
      = ([[CHR 0xC4, CHR 0xA0, CHR ''a'']], cache)"
    by (cases "bpe_merge [(byte_symbol 0x20 @ '' a'', 0)] [CHR 0xC4, CHR 0xA0, CHR ''a''] []")
      (auto simp: unclosed_tokenizer_def)
  show ?thesis
    unfolding encode_ranges.simps Let_def chunk enc m prod.case by (simp add: unclosed_piece)
qed

text \<open>
  The fallback for a symbol without an id does not do what its comment says: it looks up the
  bytes of the symbol, which is byte-encoded already, so they are encoded twice. With a merge
  rule whose result is not in the vocabulary, the text \<^verbatim>\<open>" a"\<close> is encoded to three ids that
  decode to the bytes \<^verbatim>\<open>C4 A0 61\<close>.
\<close>
theorem byte_fallback_encodes_twice:
  "map_option fst (encode unclosed_tokenizer '' a'') = Some [0xC4, 0xA0, 0x61]
   \<and> decode unclosed_tokenizer [0xC4, 0xA0, 0x61] = [CHR 0xC4, CHR 0xA0, CHR ''a'']"
proof
  have cp: "utf8_to_codepoints '' a'' = [0x20, 0x61]" by code_simp
  have sp: "split_qwen35 [0x20, 0x61] = [(0, 2)]" by code_simp
  have t: "special_tokens unclosed_tokenizer = []" "bpe_cache unclosed_tokenizer = []"
    by (simp_all add: unclosed_tokenizer_def QwenTokenizer_def init_byte_encoder_def init_loop_cache init_loop_special)
  have "encode_segment unclosed_tokenizer '' a'' ([], []) =
      encode_ranges unclosed_tokenizer [0x20, 0x61] [(0, 2)] ([], [])"
    unfolding encode_segment_def Let_def cp sp by simp
  then have "encode_loop unclosed_tokenizer '' a'' 0 ([], bpe_cache unclosed_tokenizer)
      = Some (encode_ranges unclosed_tokenizer [0x20, 0x61] [(0, 2)] ([], []))"
    by (simp add: encode_loop.simps t)
  moreover have "vocab unclosed_tokenizer \<noteq> []" using unclosed_vocab [of 0] by auto
  ultimately show "map_option fst (encode unclosed_tokenizer '' a'') = Some [0xC4, 0xA0, 0x61]"
    using unclosed_encode_ranges by (simp add: encode_def case_prod_unfold o_def)
  show "decode unclosed_tokenizer [0xC4, 0xA0, 0x61] = [CHR 0xC4, CHR 0xA0, CHR ''a'']"
  proof -
    have "char_of_byte 0xC4 = CHR 0xC4" "char_of_byte 0xA0 = CHR 0xA0" "char_of_byte 0x61 = CHR ''a''"
      by code_simp+
    then show ?thesis
      using unclosed_decode [of "0xC4"] unclosed_decode [of "0xA0"] unclosed_decode [of "0x61"]
      by (simp add: decode_def)
  qed
qed

end
