(* ===== verification/Tokenizer_Load.thy ===== *)
theory Tokenizer_Load
  imports Tokenizer_Correct
begin

text \<open>
  Loading of \<^verbatim>\<open>tokenizer.json\<close> (\<^verbatim>\<open>load_from_json_buffer\<close>) and the check against \<^verbatim>\<open>config.json\<close>
  (\<^verbatim>\<open>validate_against_config_buffer\<close>) of \<^verbatim>\<open>src/targets/qwen3_8/tokenizer.cpp\<close>, with the
  scanning helpers they share. A pair of pointers \<^verbatim>\<open>p, end\<close> is the remaining text; a helper that
  moves \<^verbatim>\<open>p\<close> returns what remains, also when it fails, because callers go on from there.
\<close>

section \<open>Scanning helpers\<close>

definition is_json_ws :: "char \<Rightarrow> bool" where
  "is_json_ws c \<longleftrightarrow> c = CHR '' '' \<or> c = CHR 0x09 \<or> c = CHR 0x0D \<or> c = CHR 0x0A"

definition tok_skip_whitespace :: "string \<Rightarrow> string" where
  "tok_skip_whitespace s = dropWhile is_json_ws s"

abbreviation c_dquote :: char where "c_dquote \<equiv> CHR 0x22"
abbreviation c_bslash :: char where "c_bslash \<equiv> CHR 0x5C"

text \<open>
  \<^verbatim>\<open>std::strtoul(hex, nullptr, 16)\<close> on at most four characters: leading white space, a sign and
  a \<^verbatim>\<open>0x\<close> prefix are accepted, and the value is that of the digits that follow.
\<close>

definition strtoul16 :: "string \<Rightarrow> u32" where
  "strtoul16 s =
     (let s1 = dropWhile isspace s;
          neg = starts_with s1 ''-'';
          s2 = (if neg \<or> starts_with s1 ''+'' then tl s1 else s1);
          s3 = (if (starts_with s2 ''0x'' \<or> starts_with s2 ''0X'') \<and> length s2 > 2 \<and> isxdigit (s2 ! 2)
                then drop 2 s2 else s2);
          v = word_of_nat (hex_value (takeWhile isxdigit s3))
      in if neg then - v else v)"

text \<open>The escape \<^verbatim>\<open>\uXXXX\<close> at the start of \<open>s\<close>, joined with a following low surrogate.\<close>

definition tok_unicode_escape :: "string \<Rightarrow> u32 \<times> string" where
  "tok_unicode_escape s =
     (let cp = strtoul16 (slice 2 4 s); r = drop 6 s in
      if 0xD800 \<le> cp \<and> cp \<le> 0xDBFF \<and> 5 < length r \<and> r ! 0 = c_bslash \<and> r ! 1 = CHR ''u'' then
        let cp2 = strtoul16 (slice 2 4 r) in
        if 0xDC00 \<le> cp2 \<and> cp2 \<le> 0xDFFF
        then (0x10000 + (push_bit 10 (cp - 0xD800) OR (cp2 - 0xDC00)), drop 6 r)
        else (cp, r)
      else (cp, r))"

definition tok_simple_escape :: "char \<Rightarrow> char option" where
  "tok_simple_escape next =
     (if next = c_dquote \<or> next = c_bslash \<or> next = CHR ''/'' then Some next
      else if next = CHR ''b'' then Some (CHR 0x08)
      else if next = CHR ''f'' then Some (CHR 0x0C)
      else if next = CHR ''n'' then Some (CHR 0x0A)
      else if next = CHR ''r'' then Some (CHR 0x0D)
      else if next = CHR ''t'' then Some (CHR 0x09)
      else None)"

lemma tok_length_unicode_escape: "5 < length s \<Longrightarrow> length (snd (tok_unicode_escape s)) < length s"
  by (auto simp: tok_unicode_escape_def Let_def)

text \<open>The loop up to the closing quote: the characters read and what remains.\<close>

function string_loop :: "string \<Rightarrow> string \<Rightarrow> string \<times> string" where
  "string_loop [] out = (out, [])"
| "string_loop (c # r) out =
     (if c = c_dquote then (out, c # r)
      else if c = c_bslash \<and> r \<noteq> [] then
        (case tok_simple_escape (hd r) of
           Some e \<Rightarrow> string_loop (tl r) (out @ [e])
         | None \<Rightarrow>
             if hd r = CHR ''u'' \<and> 5 < length (c # r) then
               string_loop (snd (tok_unicode_escape (c # r)))
                 (out @ codepoint_to_utf8 (fst (tok_unicode_escape (c # r))))
             else string_loop r (out @ [c]))
      else string_loop r (out @ [c]))"
  by pat_completeness auto
termination
  by (relation "measure (\<lambda>(s, out). length s)")
    (use tok_length_unicode_escape in \<open>fastforce+\<close>)

text \<open>Success, the output string (unchanged when there is no opening quote) and the rest.\<close>

definition parse_json_string :: "string \<Rightarrow> string \<Rightarrow> bool \<times> string \<times> string" where
  "parse_json_string s out =
     (case tok_skip_whitespace s of
        [] \<Rightarrow> (False, out, [])
      | c # r \<Rightarrow>
          if c \<noteq> c_dquote then (False, out, c # r)
          else case string_loop r [] of
            (out', []) \<Rightarrow> (False, out', [])
          | (out', c' # r') \<Rightarrow> if c' \<noteq> c_dquote then (False, out', c' # r') else (True, out', r'))"

text \<open>\<^verbatim>\<open>int64_t\<close> arithmetic in two's complement.\<close>

abbreviation wrap64 :: "int \<Rightarrow> int" where "wrap64 \<equiv> signed_take_bit 63"

definition digits_value :: "string \<Rightarrow> int" where
  "digits_value ds = foldl (\<lambda>v c. wrap64 (v * 10 + (int (of_char c) - 48))) 0 ds"

definition parse_json_int64 :: "string \<Rightarrow> int \<Rightarrow> bool \<times> int \<times> string" where
  "parse_json_int64 s out =
     (let s1 = tok_skip_whitespace s;
          neg = starts_with s1 ''-'';
          s2 = (if neg then tl s1 else s1)
      in if s1 = [] \<or> s2 = [] \<or> \<not> isdigit (hd s2) then (False, out, s2)
         else let v = digits_value (takeWhile isdigit s2) in
           (True, if neg then wrap64 (- v) else v, dropWhile isdigit s2))"

lemma tok_length_skip_whitespace: "length (tok_skip_whitespace s) \<le> length s"
  by (simp add: tok_skip_whitespace_def length_dropWhile_le)

lemma length_string_loop: "length (snd (string_loop s out)) \<le> length s"
proof (induction s out rule: string_loop.induct)
  case (2 c r out)
  consider (quote) "c = c_dquote"
    | (simple) e where "c \<noteq> c_dquote" "c = c_bslash \<and> r \<noteq> []" "tok_simple_escape (hd r) = Some e"
    | (unicode) "c \<noteq> c_dquote" "c = c_bslash \<and> r \<noteq> []" "tok_simple_escape (hd r) = None"
        "hd r = CHR ''u'' \<and> 5 < length (c # r)"
    | (odd) "c \<noteq> c_dquote" "c = c_bslash \<and> r \<noteq> []" "tok_simple_escape (hd r) = None"
        "\<not> (hd r = CHR ''u'' \<and> 5 < length (c # r))"
    | (other) "c \<noteq> c_dquote" "\<not> (c = c_bslash \<and> r \<noteq> [])"
    by (cases "tok_simple_escape (hd r)") blast+
  then show ?case
  proof cases
    case simple
    from "2.IH"(3) [OF this] simple show ?thesis by simp
  next
    case unicode
    from "2.IH"(1) [OF this] tok_length_unicode_escape [of "c # r"] unicode show ?thesis by simp
  next
    case odd
    from "2.IH"(2) [OF this] odd show ?thesis by auto
  next
    case other
    from "2.IH"(4) [OF this] other show ?thesis by auto
  qed simp
qed simp

lemma length_parse_json_string:
  assumes "parse_json_string s out = (ok, out', r)"
  shows "length r \<le> length s" "ok \<Longrightarrow> length r < length s"
proof -
  note le = tok_length_skip_whitespace [of s]
  have "length r \<le> length s \<and> (ok \<longrightarrow> length r < length s)"
  proof (cases "tok_skip_whitespace s")
    case (Cons c s')
    obtain o2 r2 where loop: "string_loop s' [] = (o2, r2)" by fastforce
    then have "length r2 \<le> length s'" using length_string_loop [of s' "[]"] by simp
    with assms le Cons loop show ?thesis
      by (cases r2) (auto simp: parse_json_string_def tok_length_skip_whitespace split: if_splits)
  qed (use assms in \<open>simp add: parse_json_string_def\<close>)
  then show "length r \<le> length s" "ok \<Longrightarrow> length r < length s" by auto
qed

lemma length_parse_json_int64:
  assumes "parse_json_int64 s out = (ok, out', r)"
  shows "length r \<le> length s" "ok \<Longrightarrow> length r < length s"
proof -
  define s1 where "s1 = tok_skip_whitespace s"
  define s2 where "s2 = (if starts_with s1 ''-'' then tl s1 else s1)"
  have l: "length s1 \<le> length s" "length s2 \<le> length s1" "length (dropWhile isdigit s2) \<le> length s2"
    by (auto simp: s1_def s2_def tok_length_skip_whitespace length_dropWhile_le)
  have "isdigit (hd s2) \<Longrightarrow> s2 \<noteq> [] \<Longrightarrow> length (dropWhile isdigit s2) < length s2"
    by (cases s2) (auto simp: le_imp_less_Suc length_dropWhile_le)
  with assms l show "length r \<le> length s" "ok \<Longrightarrow> length r < length s"
    by (auto simp: parse_json_int64_def Let_def simp flip: s1_def s2_def split: if_splits)
qed


text \<open>The loop of \<^verbatim>\<open>skip_json_value\<close> over a nested object or array, with its bracket pair.\<close>

function tok_skip_nested :: "char \<Rightarrow> char \<Rightarrow> string \<Rightarrow> int \<Rightarrow> bool \<times> string" where
  "tok_skip_nested op cl s depth =
     (if s \<noteq> [] \<and> depth > 0 then
        if hd s = c_dquote then
          (case parse_json_string s [] of
             (ok, dummy, r) \<Rightarrow> if ok then tok_skip_nested op cl r depth else (False, r))
        else tok_skip_nested op cl (tl s)
               (if hd s = op then depth + 1 else if hd s = cl then depth - 1 else depth)
      else (depth = 0, s))"
  by pat_completeness auto
termination
  by (relation "measure (\<lambda>(op, cl, s, depth). length s)")
    (auto dest: length_parse_json_string(2) [OF sym])

declare tok_skip_nested.simps [simp del]

definition bare_end :: "char \<Rightarrow> bool" where
  "bare_end c \<longleftrightarrow> c = CHR '','' \<or> c = CHR ''}'' \<or> c = CHR '']'' \<or> is_json_ws c"

definition skip_json_value :: "string \<Rightarrow> bool \<times> string" where
  "skip_json_value s =
     (case tok_skip_whitespace s of
        [] \<Rightarrow> (False, [])
      | c # r \<Rightarrow>
          if c = c_dquote then (case parse_json_string (c # r) [] of (ok, dummy, r') \<Rightarrow> (ok, r'))
          else if c = CHR ''{'' then tok_skip_nested (CHR ''{'') (CHR ''}'') r 1
          else if c = CHR ''['' then tok_skip_nested (CHR ''['') (CHR '']'') r 1
          else (True, dropWhile (\<lambda>c. \<not> bare_end c) (c # r)))"

lemma tok_length_skip_nested: "length (snd (tok_skip_nested op cl s depth)) \<le> length s"
proof (induction op cl s depth rule: tok_skip_nested.induct)
  case (1 op cl s depth)
  show ?case
  proof (cases "s \<noteq> [] \<and> depth > 0")
    case True
    show ?thesis
    proof (cases "hd s = c_dquote")
      case q: True
      obtain ok d r where p: "parse_json_string s [] = (ok, d, r)" by (metis prod_cases3)
      then have "length r \<le> length s" by (rule length_parse_json_string(1))
      with True q p 1(1) [OF True q p [symmetric] refl] show ?thesis
        by (subst tok_skip_nested.simps) (auto intro: order_trans)
    next
      case False
      have "length (tl s) \<le> length s" by simp
      with True False 1(2) [OF True False] show ?thesis
        by (subst tok_skip_nested.simps) (auto intro: order_trans)
    qed
  qed (subst tok_skip_nested.simps, auto)
qed

lemma length_skip_json_value: "length (snd (skip_json_value s)) \<le> length s"
proof (cases "tok_skip_whitespace s")
  case (Cons c r)
  have le: "length (c # r) \<le> length s" using tok_length_skip_whitespace [of s] Cons by simp
  have "length (snd (tok_skip_nested op cl r 1)) \<le> length s" for op cl
    using tok_length_skip_nested [of op cl r 1] le by simp
  moreover have "length (dropWhile (\<lambda>c. \<not> bare_end c) (c # r)) \<le> length s"
    using length_dropWhile_le [of _ "c # r"] le by (rule order_trans)
  moreover have "length r' \<le> length s" if "parse_json_string (c # r) [] = (ok, d, r')" for ok d r'
    using length_parse_json_string(1) [OF that] le by simp
  ultimately show ?thesis using Cons
    by (auto simp: skip_json_value_def split: prod.splits)
qed (simp add: skip_json_value_def)


section \<open>The sections of the file\<close>

text \<open>
  The fields of one added token. The state is the rest of the text, the id and the content read
  so far and whether they were read.
\<close>

record added_token =
  tok_id :: int
  tok_content :: string
  has_id :: bool
  has_content :: bool

definition read_field :: "string \<Rightarrow> string \<Rightarrow> added_token \<Rightarrow> string \<times> added_token" where
  "read_field key s a =
     (if key = ''id'' then
        (case parse_json_int64 s (tok_id a) of
           (ok, v, r) \<Rightarrow> (r, a\<lparr>tok_id := v, has_id := (has_id a \<or> ok)\<rparr>))
      else if key = ''content'' then
        (case parse_json_string s (tok_content a) of
           (ok, v, r) \<Rightarrow> (r, a\<lparr>tok_content := v, has_content := (has_content a \<or> ok)\<rparr>))
      else (snd (skip_json_value s), a))"

lemma length_read_field: "length (fst (read_field key s a)) \<le> length s"
  using length_skip_json_value [of s]
  by (auto simp: read_field_def split: prod.splits dest: length_parse_json_int64(1) length_parse_json_string(1))

text \<open>Reading a key moves on, up to the white space after it.\<close>

lemma tok_key_progress:
  assumes "tok_skip_whitespace s = c # r" "(ok, key, r1) = parse_json_string (c # r) []" "ok"
  shows "length (tok_skip_whitespace r1) < length s"
  using tok_length_skip_whitespace [of s] tok_length_skip_whitespace [of r1]
    length_parse_json_string(2) [OF assms(2) [symmetric] assms(3)] assms(1) by simp

function fields_loop :: "string \<Rightarrow> added_token \<Rightarrow> string \<times> added_token" where
  "fields_loop s a =
     (if s = [] \<or> hd s = CHR ''}'' then (s, a)
      else
        case tok_skip_whitespace s of
          [] \<Rightarrow> ([], a)
        | c # r \<Rightarrow>
            if c = CHR ''}'' then (c # r, a)
            else if c = CHR '','' then fields_loop r a
            else
              case parse_json_string (c # r) [] of
                (ok, key, r1) \<Rightarrow>
                  if \<not> ok then (r1, a)
                  else
                    case tok_skip_whitespace r1 of
                      [] \<Rightarrow> fields_loop [] a
                    | c2 # r2 \<Rightarrow>
                        if c2 = CHR '':'' then
                          fields_loop (fst (read_field key (tok_skip_whitespace r2) a))
                            (snd (read_field key (tok_skip_whitespace r2) a))
                        else fields_loop (c2 # r2) a)"
  by pat_completeness auto
termination
proof (relation "measure (\<lambda>(s, a). length s)", goal_cases)
  case (2 s a c r)
  then show ?case using tok_length_skip_whitespace [of s] by auto
next
  case (3 s a c r ok y key r1)
  then show ?case using tok_length_skip_whitespace [of s] by (cases s) auto
next
  case (4 s a c r ok y key r1 c2 r2)
  then have "length (c2 # r2) < length s" using tok_key_progress [of s c r ok key r1] by auto
  then show ?case
    using length_read_field [of key "tok_skip_whitespace r2" a] tok_length_skip_whitespace [of r2]
    by (simp add: case_prod_unfold)
next
  case (5 s a c r ok y key r1 c2 r2)
  then have "length (c2 # r2) < length s" using tok_key_progress [of s c r ok key r1] by auto
  then show ?case by auto
qed auto

declare fields_loop.simps [simp del]


lemma length_fields_loop: "length (fst (fields_loop s a)) \<le> length s"
proof (induction s a rule: fields_loop.induct)
  case (1 s a)
  show ?case
  proof (cases "s = [] \<or> hd s = CHR ''}''")
    case True
    then show ?thesis by (subst fields_loop.simps) auto
  next
    case nb: False
    show ?thesis
    proof (cases "tok_skip_whitespace s")
      case Nil
      with nb show ?thesis by (subst fields_loop.simps) simp
    next
      case (Cons c r)
      have le: "length (c # r) \<le> length s" using tok_length_skip_whitespace [of s] Cons by simp
      obtain ok key r1 where p: "parse_json_string (c # r) [] = (ok, key, r1)" by (metis prod_cases3)
      have r1: "length r1 \<le> length s" using length_parse_json_string(1) [OF p] le by simp
      consider "c = CHR ''}''" | "c \<noteq> CHR ''}''" "c = CHR '',''" | "c \<noteq> CHR ''}''" "c \<noteq> CHR '',''" "\<not> ok"
        | "c \<noteq> CHR ''}''" "c \<noteq> CHR '',''" "ok" by blast
      then show ?thesis
      proof cases
        case 2
        with nb Cons le 1(1) [OF nb Cons 2] show ?thesis by (subst fields_loop.simps) simp
      next
        case 4
        note kp = tok_key_progress [OF Cons p [symmetric] 4(3)]
        show ?thesis
        proof (cases "tok_skip_whitespace r1")
          case Nil
          then show ?thesis using nb Cons 4 p by (subst fields_loop.simps) (simp add: fields_loop.simps)
        next
          case r2: (Cons c2 r2)
          have rf: "length (fst (read_field key (tok_skip_whitespace r2) a)) \<le> length s"
            using length_read_field [of key "tok_skip_whitespace r2" a] tok_length_skip_whitespace [of r2] kp r2 by simp
          show ?thesis
          proof (cases "c2 = CHR '':''")
            case True
            with nb Cons 4 p r2 rf "1.IH"(3) [OF nb Cons 4(1,2) p [symmetric] refl _ r2 True] show ?thesis
              by (subst fields_loop.simps) (simp add: order_trans)
          next
            case False
            with nb Cons 4 p r2 kp "1.IH"(4) [OF nb Cons 4(1,2) p [symmetric] refl _ r2 False] show ?thesis
              by (subst fields_loop.simps) simp
          qed
        qed
      qed (use nb Cons le r1 p in \<open>subst fields_loop.simps, simp\<close>)+
    qed
  qed
qed


text \<open>What is done with a complete added token.\<close>

definition register_added :: "added_token \<Rightarrow> tokenizer \<Rightarrow> tokenizer" where
  "register_added a t =
     (if has_id a \<and> has_content a then
        let c = tok_content a; i = tok_id a;
            t1 = t\<lparr>vocab := AList.update c i (vocab t), id_to_token := AList.update i c (id_to_token t),
                   special_tokens := special_tokens t @ [(c, i)]\<rparr>
        in if c = ''<|endoftext|>'' then t1\<lparr>eos_token_id := i\<rparr>
           else if c = ''<|im_start|>'' then t1\<lparr>im_start_token_id := i\<rparr>
           else if c = ''<|im_end|>'' then t1\<lparr>im_end_token_id := i\<rparr>
           else if c = ''<think>'' then t1\<lparr>think_start_token_id := i\<rparr>
           else if c = ''</think>'' then t1\<lparr>think_end_token_id := i\<rparr>
           else t1
      else t)"

definition no_token :: added_token where
  "no_token = \<lparr>tok_id = -1, tok_content = [], has_id = False, has_content = False\<rparr>"

definition skip_brace :: "string \<Rightarrow> string" where
  "skip_brace s = (if s \<noteq> [] \<and> hd s = CHR ''}'' then tl s else s)"

function added_loop :: "string \<Rightarrow> tokenizer \<Rightarrow> tokenizer" where
  "added_loop s t =
     (case tok_skip_whitespace s of
        [] \<Rightarrow> t
      | c # r \<Rightarrow>
          if c = CHR '']'' then t
          else if c = CHR '','' then added_loop r t
          else if c = CHR ''{'' then
            added_loop (skip_brace (fst (fields_loop r no_token)))
              (register_added (snd (fields_loop r no_token)) t)
          else added_loop r t)"
  by pat_completeness auto
termination
proof (relation "measure (\<lambda>(s, t). length s)", goal_cases)
  case (2 s t c r)
  then show ?case using tok_length_skip_whitespace [of s] by simp
next
  case (3 s t c r)
  then show ?case
    using tok_length_skip_whitespace [of s] length_fields_loop [of r no_token]
    by (auto simp: skip_brace_def case_prod_unfold)
next
  case (4 s t c r)
  then show ?case using tok_length_skip_whitespace [of s] by simp
qed simp

declare added_loop.simps [simp del]

function vocab_loop :: "string \<Rightarrow> tokenizer \<Rightarrow> tokenizer" where
  "vocab_loop s t =
     (case tok_skip_whitespace s of
        [] \<Rightarrow> t
      | c # r \<Rightarrow>
          if c = CHR ''}'' then t
          else if c = CHR '','' then vocab_loop r t
          else
            case parse_json_string (c # r) [] of
              (ok, token, r1) \<Rightarrow>
                if \<not> ok then t
                else
                  case tok_skip_whitespace r1 of
                    [] \<Rightarrow> t
                  | c2 # r2 \<Rightarrow>
                      if c2 = CHR '':'' then
                        (case parse_json_int64 r2 0 of
                           (ok2, i, r3) \<Rightarrow>
                             vocab_loop r3
                               (if ok2 then t\<lparr>vocab := AList.update token i (vocab t),
                                              id_to_token := AList.update i token (id_to_token t)\<rparr>
                                else t))
                      else vocab_loop (c2 # r2) t)"
  by pat_completeness auto
termination
proof (relation "measure (\<lambda>(s, t). length s)", goal_cases)
  case (2 s t c r)
  then show ?case using tok_length_skip_whitespace [of s] by simp
next
  case (3 s t c r ok y token r1 c2 r2 ok2 y2 i r3)
  then show ?case
    using tok_key_progress [of s c r ok token r1] length_parse_json_int64(1) [of r2 0 ok2 i r3] by simp
next
  case (4 s t c r ok y token r1 c2 r2)
  then show ?case using tok_key_progress [of s c r ok token r1] by simp
qed simp

declare vocab_loop.simps [simp del]

function merges_loop :: "string \<Rightarrow> int \<Rightarrow> tokenizer \<Rightarrow> tokenizer" where
  "merges_loop s rank t =
     (case tok_skip_whitespace s of
        [] \<Rightarrow> t
      | c # r \<Rightarrow>
          if c = CHR '']'' then t
          else if c = CHR '','' then merges_loop r rank t
          else
            case parse_json_string (c # r) [] of
              (ok, merge_str, r1) \<Rightarrow>
                if \<not> ok then t
                else merges_loop r1 (rank + 1) (t\<lparr>bpe_ranks := AList.update merge_str rank (bpe_ranks t)\<rparr>))"
  by pat_completeness auto
termination
proof (relation "measure (\<lambda>(s, rank, t). length s)", goal_cases)
  case (2 s rank t c r)
  then show ?case using tok_length_skip_whitespace [of s] by simp
next
  case (3 s rank t c r ok y m r1)
  then show ?case
    using tok_length_skip_whitespace [of s] length_parse_json_string(2) [of "c # r" "[]" ok m r1] by simp
qed simp

declare merges_loop.simps [simp del]


section \<open>Loading\<close>

text \<open>
  \<^verbatim>\<open>strstr\<close> searches up to the first zero byte; the buffer is followed by one (the text of a file
  in a \<^verbatim>\<open>std::string\<close>). The text after \<^verbatim>\<open>"key" : <opening bracket>\<close> at its first occurrence.
\<close>

definition find_section :: "string \<Rightarrow> char \<Rightarrow> string \<Rightarrow> string option" where
  "find_section key bracket buf =
     (case find_sub key (takeWhile (\<lambda>c. c \<noteq> CHR 0x00) buf) of
        None \<Rightarrow> None
      | Some i \<Rightarrow>
          (case tok_skip_whitespace (drop (i + length key) buf) of
             [] \<Rightarrow> None
           | c # r \<Rightarrow>
               if c \<noteq> CHR '':'' then None
               else (case tok_skip_whitespace r of
                  [] \<Rightarrow> None
                | c2 # r2 \<Rightarrow> if c2 = bracket then Some r2 else None)))"

definition key_added_tokens :: string where "key_added_tokens = [c_dquote] @ ''added_tokens'' @ [c_dquote]"
definition key_vocab :: string where "key_vocab = [c_dquote] @ ''vocab'' @ [c_dquote]"
definition key_merges :: string where "key_merges = [c_dquote] @ ''merges'' @ [c_dquote]"

datatype load_error = Empty_buffer | Empty_vocab | Empty_merges | Missing_endoftext | Missing_im_start
  | Missing_im_end

definition clear_tables :: "tokenizer \<Rightarrow> tokenizer" where
  "clear_tables t = t\<lparr>vocab := [], id_to_token := [], bpe_ranks := [], bpe_cache := [],
     special_tokens := [], eos_token_id := -1, im_start_token_id := -1, im_end_token_id := -1,
     think_start_token_id := -1, think_end_token_id := -1\<rparr>"

definition parse_sections :: "string \<Rightarrow> tokenizer \<Rightarrow> tokenizer" where
  "parse_sections buf t =
     (let t1 = (case find_section key_added_tokens (CHR ''['') buf of None \<Rightarrow> t | Some s \<Rightarrow> added_loop s t);
          t2 = (case find_section key_vocab (CHR ''{'') buf of None \<Rightarrow> t1 | Some s \<Rightarrow> vocab_loop s t1)
      in (case find_section key_merges (CHR ''['') buf of None \<Rightarrow> t2 | Some s \<Rightarrow> merges_loop s 0 t2))"

definition resolve_id :: "tokenizer \<Rightarrow> string \<Rightarrow> int \<Rightarrow> int" where
  "resolve_id t name i =
     (if i < 0 then (case map_of (vocab t) name of Some j \<Rightarrow> j | None \<Rightarrow> i) else i)"

definition resolve_specials :: "tokenizer \<Rightarrow> tokenizer" where
  "resolve_specials t = t\<lparr>
     eos_token_id := resolve_id t ''<|endoftext|>'' (eos_token_id t),
     im_start_token_id := resolve_id t ''<|im_start|>'' (im_start_token_id t),
     im_end_token_id := resolve_id t ''<|im_end|>'' (im_end_token_id t),
     think_start_token_id := resolve_id t ''<think>'' (think_start_token_id t),
     think_end_token_id := resolve_id t ''</think>'' (think_end_token_id t)\<rparr>"

text \<open>
  \<^verbatim>\<open>std::sort\<close> by descending length. The order of entries of equal length is left open by the
  library; here they keep their order.
\<close>

definition sort_specials :: "tokenizer \<Rightarrow> tokenizer" where
  "sort_specials t = t\<lparr>special_tokens := sort_key (\<lambda>st. - int (length (fst st))) (special_tokens t)\<rparr>"

definition check_loaded :: "tokenizer \<Rightarrow> load_error option" where
  "check_loaded t =
     (if vocab t = [] then Some Empty_vocab
      else if bpe_ranks t = [] then Some Empty_merges
      else if eos_token_id t < 0 then Some Missing_endoftext
      else if im_start_token_id t < 0 then Some Missing_im_start
      else if im_end_token_id t < 0 then Some Missing_im_end
      else None)"

definition load_from_json_buffer :: "tokenizer \<Rightarrow> string \<Rightarrow> load_error option \<times> tokenizer" where
  "load_from_json_buffer t buf =
     (if buf = [] then (Some Empty_buffer, t)
      else let t' = sort_specials (resolve_specials (parse_sections buf (clear_tables t)))
           in (check_loaded t', t'))"



section \<open>What loading establishes\<close>

lemma added_loop_keeps:
  assumes "\<And>a t. P t \<Longrightarrow> P (register_added a t)"
  shows "P t \<Longrightarrow> P (added_loop s t)"
proof (induction s t rule: added_loop.induct)
  case (1 s t)
  then show ?case using assms by (subst added_loop.simps) (auto split: list.split)
qed

lemma vocab_loop_keeps:
  assumes "\<And>token i t. P t \<Longrightarrow> P (t\<lparr>vocab := AList.update token i (vocab t),
      id_to_token := AList.update i token (id_to_token t)\<rparr>)"
  shows "P t \<Longrightarrow> P (vocab_loop s t)"
proof (induction s t rule: vocab_loop.induct)
  case (1 s t)
  then show ?case using assms
    by (subst vocab_loop.simps) (auto split: list.split prod.split)
qed

lemma merges_loop_keeps:
  assumes "\<And>m r t. 0 \<le> r \<Longrightarrow> P t \<Longrightarrow> P (t\<lparr>bpe_ranks := AList.update m r (bpe_ranks t)\<rparr>)"
  shows "0 \<le> rank \<Longrightarrow> P t \<Longrightarrow> P (merges_loop s rank t)"
proof (induction s rank t rule: merges_loop.induct)
  case (1 s rank t)
  then show ?case using assms
    by (subst merges_loop.simps) (auto split: list.split prod.split)
qed

text \<open>The tables while the sections are read: maps without repeated keys, no negative rank.\<close>

definition tables_ok :: "tokenizer \<Rightarrow> tokenizer \<Rightarrow> bool" where
  "tables_ok t0 t \<longleftrightarrow> byte_to_unicode t = byte_to_unicode t0 \<and> unicode_to_byte t = unicode_to_byte t0
     \<and> bpe_cache t = [] \<and> ranks_ok (bpe_ranks t)
     \<and> distinct (map fst (vocab t)) \<and> distinct (map fst (id_to_token t)) \<and> distinct (map fst (bpe_ranks t))"

lemma ranks_ok_update: "ranks_ok al \<Longrightarrow> 0 \<le> r \<Longrightarrow> ranks_ok (AList.update m r al)"
  unfolding ranks_ok_def by (induction al) auto

lemma tables_ok_register: "tables_ok t0 t \<Longrightarrow> tables_ok t0 (register_added a t)"
  by (auto simp: tables_ok_def register_added_def Let_def distinct_update)

lemma tables_ok_parse: "tables_ok t0 t \<Longrightarrow> tables_ok t0 (parse_sections buf t)"
  unfolding parse_sections_def Let_def
  by (auto split: option.split intro!: merges_loop_keeps [where P = "tables_ok t0"]
      vocab_loop_keeps [where P = "tables_ok t0"] added_loop_keeps [where P = "tables_ok t0"] tables_ok_register
      simp: ranks_ok_update distinct_update)
    (auto simp: tables_ok_def ranks_ok_update distinct_update)

lemma tables_ok_clear: "tables_ok t (clear_tables t)"
  by (simp add: tables_ok_def clear_tables_def ranks_ok_def)


lemma sort_specials_sorted:
  "sorted_wrt (\<lambda>a b. length (fst b) \<le> length (fst a)) (special_tokens (sort_specials t))"
proof -
  have "sorted (map (\<lambda>st. - int (length (fst st))) (special_tokens (sort_specials t)))"
    by (simp add: sort_specials_def)
  then show ?thesis by (simp add: sorted_map)
qed

text \<open>
  C31. Loading any buffer, malformed ones included, leaves the tokenizer in a state on which the
  merging theorem applies: the byte tables are untouched, the cache is empty, the tables are maps
  without repeated keys, no merge rank is negative, special tokens are ordered from the longest
  to the shortest; and it reports success exactly when vocabulary and merges are not empty and
  the three required control tokens have ids.
\<close>
theorem load_establishes_invariant:
  "tables_ok t (snd (load_from_json_buffer t (ch # buf)))
   \<and> sorted_wrt (\<lambda>a b. length (fst b) \<le> length (fst a))
       (special_tokens (snd (load_from_json_buffer t (ch # buf))))
   \<and> (fst (load_from_json_buffer t (ch # buf)) = None \<longleftrightarrow>
        is_loaded (snd (load_from_json_buffer t (ch # buf)))
        \<and> 0 \<le> eos_token_id (snd (load_from_json_buffer t (ch # buf)))
        \<and> 0 \<le> im_start_token_id (snd (load_from_json_buffer t (ch # buf)))
        \<and> 0 \<le> im_end_token_id (snd (load_from_json_buffer t (ch # buf))))"
proof -
  define t1 where "t1 = parse_sections (ch # buf) (clear_tables t)"
  have "tables_ok t t1" using tables_ok_parse [OF tables_ok_clear] by (simp add: t1_def)
  then have "tables_ok t (sort_specials (resolve_specials t1))"
    by (simp add: tables_ok_def sort_specials_def resolve_specials_def)
  moreover have "load_from_json_buffer t (ch # buf) =
      (check_loaded (sort_specials (resolve_specials t1)), sort_specials (resolve_specials t1))"
    by (simp add: load_from_json_buffer_def t1_def Let_def)
  moreover have "check_loaded t' = None \<longleftrightarrow> is_loaded t' \<and> 0 \<le> eos_token_id t'
      \<and> 0 \<le> im_start_token_id t' \<and> 0 \<le> im_end_token_id t'" for t'
    by (auto simp: check_loaded_def is_loaded_def)
  ultimately show ?thesis using sort_specials_sorted by simp
qed


section \<open>Reading back a printed file\<close>

definition tok_escape_char :: "char \<Rightarrow> string" where
  "tok_escape_char c = (if c = c_dquote \<or> c = c_bslash then [c_bslash, c] else [c])"

definition quote :: "string \<Rightarrow> string" where
  "quote s = c_dquote # concat (map tok_escape_char s) @ [c_dquote]"

lemma string_loop_escaped:
  "string_loop (concat (map tok_escape_char s) @ c_dquote # r) out = (out @ s, c_dquote # r)"
proof (induction s arbitrary: out)
  case (Cons c s)
  then show ?case by (auto simp: tok_escape_char_def tok_simple_escape_def)
qed simp

lemma skip_punctuation [simp]:
  "tok_skip_whitespace (c_dquote # s) = c_dquote # s" "tok_skip_whitespace (CHR '':'' # s) = CHR '':'' # s"
  "tok_skip_whitespace (CHR '','' # s) = CHR '','' # s" "tok_skip_whitespace (CHR ''{'' # s) = CHR ''{'' # s"
  "tok_skip_whitespace (CHR ''}'' # s) = CHR ''}'' # s" "tok_skip_whitespace (CHR ''['' # s) = CHR ''['' # s"
  "tok_skip_whitespace (CHR '']'' # s) = CHR '']'' # s"
  by (simp_all add: tok_skip_whitespace_def is_json_ws_def)

lemma skip_quote [simp]: "tok_skip_whitespace (quote s @ r) = quote s @ r"
  by (simp add: quote_def)

lemma parse_quote [simp]: "parse_json_string (quote s @ r) out = (True, s, r)"
  by (simp add: parse_json_string_def quote_def string_loop_escaped)

lemma wrap64_id: "0 \<le> v \<Longrightarrow> v < 2 ^ 63 \<Longrightarrow> wrap64 v = v"
  by (simp add: signed_take_bit_int_eq_self)

lemma digits_value_nat_digits: "n < 2 ^ 63 \<Longrightarrow> digits_value (nat_digits n) = int n"
proof (induction n rule: nat_digits.induct)
  case (1 n)
  have digit: "int (of_char (char_of (48 + d :: nat) :: char)) - 48 = int d" if "d < 10" for d
    using that by (simp add: of_char_of)
  show ?case
  proof (cases "n < 10")
    case True
    then show ?thesis using 1 digit [of n]
      by (subst nat_digits.simps) (simp add: digits_value_def wrap64_id)
  next
    case False
    have n: "int (n div 10) * 10 + int (n mod 10) = int n" by (simp add: zdiv_int zmod_int)
    have "digits_value (nat_digits n) = wrap64 (digits_value (nat_digits (n div 10)) * 10 + int (n mod 10))"
      using False digit [of "n mod 10"] by (subst nat_digits.simps) (simp add: digits_value_def)
    also have "\<dots> = wrap64 (int n)" using 1 False n by simp
    also have "\<dots> = int n" using 1 by (simp add: wrap64_id)
    finally show ?thesis .
  qed
qed

definition ends_number :: "string \<Rightarrow> bool" where
  "ends_number r \<longleftrightarrow> r = [] \<or> \<not> isdigit (hd r)"

lemma parse_digits:
  assumes "0 \<le> i" "i < 2 ^ 63" "ends_number r"
  shows "parse_json_int64 (nat_digits (nat i) @ r) out = (True, i, r)"
proof -
  let ?ds = "nat_digits (nat i)"
  obtain d ds where ds: "?ds = d # ds" "isdigit d" "list_all isdigit ds"
    using nat_digits_digits [of "nat i"] by (cases ?ds) auto
  then have d: "\<not> is_json_ws d" "d \<noteq> CHR ''-''" by (auto simp: isdigit_def is_json_ws_def)
  have all: "\<forall>c \<in> set ?ds. isdigit c" using nat_digits_digits [of "nat i"] by (simp add: list_all_iff)
  have "takeWhile isdigit r = []" "dropWhile isdigit r = r"
    using assms(3) by (cases r; simp add: ends_number_def)+
  with all have "takeWhile isdigit (?ds @ r) = ?ds" "dropWhile isdigit (?ds @ r) = r"
    by (simp_all add: takeWhile_append2 dropWhile_append2)
  moreover have "tok_skip_whitespace (?ds @ r) = ?ds @ r" using ds d by (simp add: tok_skip_whitespace_def)
  moreover have "\<not> starts_with (?ds @ r) ''-''" using ds d by simp
  moreover have "digits_value ?ds = i" using assms digits_value_nat_digits [of "nat i"] by (simp add: nat_less_iff)
  ultimately show ?thesis using ds by (simp add: parse_json_int64_def Let_def)
qed

fun join_comma :: "string list \<Rightarrow> string" where
  "join_comma [] = []"
| "join_comma [x] = x"
| "join_comma (x # y # xs) = x @ '','' @ join_comma (y # xs)"

definition vocab_entry :: "string \<times> int \<Rightarrow> string" where
  "vocab_entry e = quote (fst e) @ '':'' @ nat_digits (nat (snd e))"

definition added_entry :: "string \<times> int \<Rightarrow> string" where
  "added_entry e = ''{'' @ quote ''id'' @ '':'' @ nat_digits (nat (snd e)) @ '','' @ quote ''content'' @ '':''
     @ quote (fst e) @ ''}''"

definition put_vocab :: "string \<times> int \<Rightarrow> tokenizer \<Rightarrow> tokenizer" where
  "put_vocab e t = t\<lparr>vocab := AList.update (fst e) (snd e) (vocab t),
     id_to_token := AList.update (snd e) (fst e) (id_to_token t)\<rparr>"

definition id_ok :: "string \<times> int \<Rightarrow> bool" where
  "id_ok e \<longleftrightarrow> 0 \<le> snd e \<and> snd e < 2 ^ 63"

lemma vocab_loop_entry:
  assumes "id_ok e" "ends_number r"
  shows "vocab_loop (vocab_entry e @ r) t = vocab_loop r (put_vocab e t)"
proof -
  let ?n = "nat_digits (nat (snd e)) @ r"
  obtain q where q: "quote (fst e) @ CHR '':'' # ?n = c_dquote # q" by (simp add: quote_def)
  have p: "parse_json_string (c_dquote # q) [] = (True, fst e, CHR '':'' # ?n)"
    unfolding q [symmetric] by simp
  have i: "parse_json_int64 ?n 0 = (True, snd e, r)" using assms parse_digits by (simp add: id_ok_def)
  have "vocab_loop (quote (fst e) @ CHR '':'' # ?n) t = vocab_loop r (put_vocab e t)"
    by (subst vocab_loop.simps) (simp add: q p i put_vocab_def)
  then show ?thesis by (simp add: vocab_entry_def)
qed

lemma vocab_loop_steps:
  "vocab_loop (CHR ''}'' # r) t = t" "vocab_loop (CHR '','' # r) t = vocab_loop r t"
  by (subst vocab_loop.simps, simp)+

lemma vocab_loop_entries:
  "list_all id_ok es \<Longrightarrow> vocab_loop (join_comma (map vocab_entry es) @ CHR ''}'' # r) t = fold put_vocab es t"
proof (induction es arbitrary: t rule: induct_list012)
  case (3 x y es)
  have "ends_number (CHR '','' # s)" for s by (simp add: ends_number_def isdigit_def)
  with 3 vocab_loop_entry [of x] show ?case by (simp add: vocab_loop_steps)
qed (simp_all add: vocab_loop_steps vocab_loop_entry ends_number_def isdigit_def)


lemma merges_loop_entry:
  "merges_loop (quote m @ r) rank t =
     merges_loop r (rank + 1) (t\<lparr>bpe_ranks := AList.update m rank (bpe_ranks t)\<rparr>)"
proof -
  obtain q where q: "quote m @ r = c_dquote # q" by (simp add: quote_def)
  have p: "parse_json_string (c_dquote # q) [] = (True, m, r)" unfolding q [symmetric] by simp
  show ?thesis unfolding q by (subst merges_loop.simps) (simp add: p)
qed

lemma merges_loop_steps:
  "merges_loop (CHR '']'' # r) rank t = t" "merges_loop (CHR '','' # r) rank t = merges_loop r rank t"
  by (subst merges_loop.simps, simp)+

fun put_merges :: "int \<Rightarrow> string list \<Rightarrow> (string \<times> int) list \<Rightarrow> (string \<times> int) list" where
  "put_merges rank [] al = al"
| "put_merges rank (m # ms) al = put_merges (rank + 1) ms (AList.update m rank al)"

lemma merges_loop_entries:
  "merges_loop (join_comma (map quote ms) @ CHR '']'' # r) rank t =
     t\<lparr>bpe_ranks := put_merges rank ms (bpe_ranks t)\<rparr>"
  by (induction ms arbitrary: rank t rule: induct_list012)
    (simp_all add: merges_loop_entry merges_loop_steps)

lemma fields_loop_close: "fields_loop (CHR ''}'' # r) a = (CHR ''}'' # r, a)"
  by (subst fields_loop.simps) simp

lemma fields_loop_comma: "fields_loop (CHR '','' # r) a = fields_loop r a"
  by (subst fields_loop.simps) simp

lemma fields_loop_field:
  "fields_loop (quote key @ CHR '':'' # r) a =
     fields_loop (fst (read_field key (tok_skip_whitespace r) a)) (snd (read_field key (tok_skip_whitespace r) a))"
proof -
  obtain q where q: "quote key @ CHR '':'' # r = c_dquote # q" by (simp add: quote_def)
  have p: "parse_json_string (c_dquote # q) [] = (True, key, CHR '':'' # r)" unfolding q [symmetric] by simp
  show ?thesis unfolding q by (subst fields_loop.simps) (simp add: p)
qed

lemma skip_nat_digits: "tok_skip_whitespace (nat_digits n @ r) = nat_digits n @ r"
proof -
  obtain d ds where ds: "nat_digits n = d # ds" "isdigit d"
    using nat_digits_digits [of n] by (cases "nat_digits n") auto
  then have "\<not> is_json_ws d" by (auto simp: isdigit_def is_json_ws_def)
  with ds show ?thesis by (simp add: tok_skip_whitespace_def)
qed

definition put_added :: "string \<times> int \<Rightarrow> tokenizer \<Rightarrow> tokenizer" where
  "put_added e = register_added \<lparr>tok_id = snd e, tok_content = fst e, has_id = True, has_content = True\<rparr>"

lemma added_loop_entry:
  assumes "id_ok e"
  shows "added_loop (added_entry e @ r) t = added_loop r (put_added e t)"
proof -
  let ?c = "quote ''content'' @ CHR '':'' # quote (fst e) @ CHR ''}'' # r"
  let ?f = "quote ''id'' @ CHR '':'' # nat_digits (nat (snd e)) @ CHR '','' # ?c"
  have i: "parse_json_int64 (nat_digits (nat (snd e)) @ CHR '','' # ?c) out = (True, snd e, CHR '','' # ?c)" for out
    by (rule parse_digits) (use assms in \<open>auto simp: id_ok_def ends_number_def isdigit_def\<close>)
  have f: "fields_loop ?f no_token = (CHR ''}'' # r,
      \<lparr>tok_id = snd e, tok_content = fst e, has_id = True, has_content = True\<rparr>)"
    by (simp add: fields_loop_field read_field_def skip_nat_digits i fields_loop_comma fields_loop_close
        no_token_def)
  have "added_loop (CHR ''{'' # ?f) t = added_loop r (put_added e t)"
    by (subst added_loop.simps) (simp add: f skip_brace_def put_added_def)
  then show ?thesis by (simp add: added_entry_def)
qed

lemma added_loop_steps:
  "added_loop (CHR '']'' # r) t = t" "added_loop (CHR '','' # r) t = added_loop r t"
  by (subst added_loop.simps, simp)+

lemma added_loop_entries:
  "list_all id_ok es \<Longrightarrow> added_loop (join_comma (map added_entry es) @ CHR '']'' # r) t = fold put_added es t"
  by (induction es arbitrary: t rule: induct_list012) (simp_all add: added_loop_steps added_loop_entry)


text \<open>The text before the vocabulary, before the merges, and the whole file.\<close>

definition before_vocab :: "(string \<times> int) list \<Rightarrow> string" where
  "before_vocab toks = ''{'' @ key_added_tokens @ '':['' @ join_comma (map added_entry toks) @ ''],''
     @ quote ''model'' @ '':{''"

definition before_merges :: "(string \<times> int) list \<Rightarrow> (string \<times> int) list \<Rightarrow> string" where
  "before_merges toks voc =
     before_vocab toks @ key_vocab @ '':{'' @ join_comma (map vocab_entry voc) @ ''},''"

definition tokenizer_json :: "(string \<times> int) list \<Rightarrow> (string \<times> int) list \<Rightarrow> string list \<Rightarrow> string" where
  "tokenizer_json toks voc merges =
     before_merges toks voc @ key_merges @ '':['' @ join_comma (map quote merges) @ '']}}''"

lemma find_section_at:
  assumes "buf = pre @ key @ CHR '':'' # b # r" "find_sub key buf = Some (length pre)"
    and "CHR 0x00 \<notin> set buf" "\<not> is_json_ws b"
  shows "find_section key b buf = Some r"
proof -
  have z: "takeWhile (\<lambda>c. c \<noteq> CHR 0x00) buf = buf"
    unfolding takeWhile_eq_all_conv using assms(3) by metis
  have d: "drop (length pre + length key) buf = CHR '':'' # b # r"
    unfolding assms(1) by simp
  have "tok_skip_whitespace (b # r) = b # r" using assms(4) by (simp add: tok_skip_whitespace_def)
  then show ?thesis unfolding find_section_def z assms(2) by (simp add: d)
qed

lemma find_added_tokens:
  assumes "buf = CHR ''{'' # key_added_tokens @ r"
  shows "find_sub key_added_tokens buf = Some 1"
proof -
  have "\<not> starts_with buf key_added_tokens" by (simp add: assms key_added_tokens_def)
  moreover have "find_sub key_added_tokens (key_added_tokens @ r) = Some 0"
    by (cases "key_added_tokens @ r") (auto simp: key_added_tokens_def)
  ultimately show ?thesis by (simp add: assms)
qed

lemma parse_sections_file:
  assumes buf: "buf = tokenizer_json toks voc merges" and nul: "CHR 0x00 \<notin> set buf"
    and v: "find_sub key_vocab buf = Some (length (before_vocab toks))"
    and m: "find_sub key_merges buf = Some (length (before_merges toks voc))"
    and ids: "list_all id_ok toks" "list_all id_ok voc"
  shows "parse_sections buf t = (let t2 = fold put_vocab voc (fold put_added toks t) in
    t2\<lparr>bpe_ranks := put_merges 0 merges (bpe_ranks t2)\<rparr>)"
proof -
  have ws: "\<not> is_json_ws (CHR ''['')" "\<not> is_json_ws (CHR ''{'')" by (simp_all add: is_json_ws_def)
  obtain r1 where b1: "buf = ''{'' @ key_added_tokens @ CHR '':'' # CHR ''['' #
      join_comma (map added_entry toks) @ CHR '']'' # r1"
    by (simp add: buf tokenizer_json_def before_merges_def before_vocab_def)
  obtain r2 where b2: "buf = before_vocab toks @ key_vocab @ CHR '':'' # CHR ''{'' #
      join_comma (map vocab_entry voc) @ CHR ''}'' # r2"
    by (simp add: buf tokenizer_json_def before_merges_def)
  have b3: "buf = before_merges toks voc @ key_merges @ CHR '':'' # CHR ''['' #
      join_comma (map quote merges) @ CHR '']'' # ''}}''"
    by (simp add: buf tokenizer_json_def)
  have "find_sub key_added_tokens buf = Some (length ''{'')"
    using find_added_tokens [of buf] b1 by simp
  note s1 = find_section_at [OF b1 this nul ws(1)]
  note s2 = find_section_at [OF b2 v nul ws(2)]
  note s3 = find_section_at [OF b3 m nul ws(1)]
  show ?thesis
    unfolding parse_sections_def s1 s2 s3
    by (simp add: Let_def added_loop_entries [OF ids(1)] vocab_loop_entries [OF ids(2)] merges_loop_entries)
qed

lemma fold_put_vocab:
  "map_of (vocab (fold put_vocab es t)) = map_of (rev es @ vocab t)"
  "map_of (id_to_token (fold put_vocab es t)) = map_of (rev (map prod.swap es) @ id_to_token t)"
  "special_tokens (fold put_vocab es t) = special_tokens t"
  "bpe_ranks (fold put_vocab es t) = bpe_ranks t"
proof (induction es arbitrary: t)
  case (Cons e es)
  {
    case 1
    show ?case using Cons.IH(1) [of "put_vocab e t"]
      by (cases e) (auto simp: put_vocab_def fun_eq_iff map_add_def AList.update_conv')
  next
    case 2
    show ?case using Cons.IH(2) [of "put_vocab e t"]
      by (cases e) (auto simp: put_vocab_def fun_eq_iff map_add_def AList.update_conv')
  next
    case 3
    show ?case using Cons.IH(3) [of "put_vocab e t"] by (simp add: put_vocab_def)
  next
    case 4
    show ?case using Cons.IH(4) [of "put_vocab e t"] by (simp add: put_vocab_def)
  }
qed simp_all

lemma put_added_fields:
  "vocab (put_added e t) = AList.update (fst e) (snd e) (vocab t)"
  "id_to_token (put_added e t) = AList.update (snd e) (fst e) (id_to_token t)"
  "special_tokens (put_added e t) = special_tokens t @ [e]" "bpe_ranks (put_added e t) = bpe_ranks t"
  by (cases e, simp add: put_added_def register_added_def Let_def)+

lemma fold_put_added:
  "map_of (vocab (fold put_added es t)) = map_of (rev es @ vocab t)"
  "map_of (id_to_token (fold put_added es t)) = map_of (rev (map prod.swap es) @ id_to_token t)"
  "special_tokens (fold put_added es t) = special_tokens t @ es"
  "bpe_ranks (fold put_added es t) = bpe_ranks t"
proof (induction es arbitrary: t)
  case (Cons e es)
  {
    case 1
    show ?case using Cons.IH(1) [of "put_added e t"]
      by (cases e) (auto simp: put_added_fields fun_eq_iff map_add_def AList.update_conv')
  next
    case 2
    show ?case using Cons.IH(2) [of "put_added e t"]
      by (cases e) (auto simp: put_added_fields fun_eq_iff map_add_def AList.update_conv')
  next
    case 3
    show ?case using Cons.IH(3) [of "put_added e t"] by (simp add: put_added_fields)
  next
    case 4
    show ?case using Cons.IH(4) [of "put_added e t"] by (simp add: put_added_fields)
  }
qed simp_all

lemma map_of_put_merges:
  "map_of (put_merges rank ms al) = map_of (rev (zip ms [rank..rank + int (length ms) - 1]) @ al)"
proof (induction ms arbitrary: rank al)
  case (Cons m ms)
  have "[rank..rank + int (length (m # ms)) - 1] = rank # [rank + 1..rank + 1 + int (length ms) - 1]"
    by (subst upto.simps) simp
  with Cons.IH [of "rank + 1" "AList.update m rank al"] show ?case
    by (auto simp: fun_eq_iff map_add_def AList.update_conv')
qed simp


lemma load_tables:
  assumes "buf \<noteq> []"
  shows "vocab (snd (load_from_json_buffer t buf)) = vocab (parse_sections buf (clear_tables t))"
    "id_to_token (snd (load_from_json_buffer t buf)) = id_to_token (parse_sections buf (clear_tables t))"
    "bpe_ranks (snd (load_from_json_buffer t buf)) = bpe_ranks (parse_sections buf (clear_tables t))"
    "special_tokens (snd (load_from_json_buffer t buf)) =
       sort_key (\<lambda>st. - int (length (fst st))) (special_tokens (parse_sections buf (clear_tables t)))"
  using assms by (simp_all add: load_from_json_buffer_def Let_def sort_specials_def resolve_specials_def)



text \<open>
  A vocabulary with the token \<^verbatim>\<open>merges\<close> breaks loading: the quoted token is found in place of
  the section of that name, so no merge rule is read and the file is rejected, although its
  merge list is there.
\<close>
theorem merges_token_hides_section:
  "fst (load_from_json_buffer t (tokenizer_json
     [(''<|endoftext|>'', 3), (''<|im_start|>'', 4), (''<|im_end|>'', 5)]
     [(''a'', 0), (''merges'', 1), (''b'', 2)] [''a b''])) = Some Empty_merges"
proof -
  let ?buf = "tokenizer_json [(''<|endoftext|>'', 3), (''<|im_start|>'', 4), (''<|im_end|>'', 5)]
     [(''a'', 0), (''merges'', 1), (''b'', 2)] [''a b'']"
  let ?voc = "[(''a'', 0), (''merges'', 1), (''b'', 2)] :: (string \<times> int) list"
  have ne: "?buf \<noteq> []" by (simp add: tokenizer_json_def before_merges_def before_vocab_def)
  have merges: "find_section key_merges (CHR ''['') ?buf = None" by code_simp
  have voc: "find_section key_vocab (CHR ''{'') ?buf =
      Some (join_comma (map vocab_entry ?voc) @ CHR ''}'' # '','' @ key_merges @ '':['' @ quote ''a b'' @ '']}}'')"
    by code_simp
  have added: "bpe_ranks (case find_section key_added_tokens (CHR ''['') ?buf of
      None \<Rightarrow> clear_tables t | Some s \<Rightarrow> added_loop s (clear_tables t)) = []"
    by (auto split: option.split intro!: added_loop_keeps [where P = "\<lambda>t. bpe_ranks t = []"]
        simp: register_added_def clear_tables_def Let_def)
  have ids: "list_all id_ok ?voc" by (simp add: id_ok_def)
  have "bpe_ranks (parse_sections ?buf (clear_tables t)) = []" "vocab (parse_sections ?buf (clear_tables t)) \<noteq> []"
    unfolding parse_sections_def Let_def merges voc
    by (simp_all add: vocab_loop_entries [OF ids, simplified] added fold_put_vocab put_vocab_def)
  then show ?thesis using ne
    by (simp add: load_from_json_buffer_def Let_def check_loaded_def sort_specials_def resolve_specials_def)
qed


section \<open>Checking the configuration\<close>

text \<open>
  The loop over an array of ids: the id found so far. An element that is not a number is never
  passed, so the loop may not end; \<open>None\<close> stands for that.
\<close>

definition next_element :: "string \<Rightarrow> string" where
  "next_element s =
     (let s1 = tok_skip_whitespace s in
      tok_skip_whitespace (if s1 \<noteq> [] \<and> hd s1 = CHR '','' then tl s1 else s1))"

partial_function (option) eos_array_loop :: "int \<Rightarrow> string \<Rightarrow> int \<Rightarrow> int option" where
  [code]: "eos_array_loop eos s cfg_eos =
     (if s \<noteq> [] \<and> hd s \<noteq> CHR '']'' then
        (case parse_json_int64 s 0 of
           (ok, val, r) \<Rightarrow>
             if ok \<and> val = eos then Some val
             else eos_array_loop eos (next_element r) (if ok \<and> cfg_eos < 0 then val else cfg_eos))
      else Some cfg_eos)"

definition key_eos :: string where "key_eos = [c_dquote] @ ''eos_token_id'' @ [c_dquote]"

text \<open>\<open>Some True\<close> when the configuration is accepted.\<close>

definition validate_against_config_buffer :: "tokenizer \<Rightarrow> string \<Rightarrow> bool option" where
  "validate_against_config_buffer t buf =
     (if buf = [] then Some True
      else case find_sub key_eos (takeWhile (\<lambda>c. c \<noteq> CHR 0x00) buf) of
        None \<Rightarrow> Some True
      | Some i \<Rightarrow>
          (case tok_skip_whitespace (drop (i + 14) buf) of
             [] \<Rightarrow> Some True
           | c # r \<Rightarrow>
               if c \<noteq> CHR '':'' then Some True
               else
                 let s = tok_skip_whitespace r in
                 map_option (\<lambda>cfg_eos. \<not> (0 \<le> cfg_eos \<and> 0 \<le> eos_token_id t \<and> cfg_eos \<noteq> eos_token_id t))
                   (if s \<noteq> [] \<and> hd s = CHR ''['' then
                      eos_array_loop (eos_token_id t) (tok_skip_whitespace (tl s)) (-1)
                    else Some (fst (snd (parse_json_int64 s (-1)))))))"

lemma next_element_digits:
  "next_element (CHR '','' # nat_digits n @ r) = nat_digits n @ r" "next_element (CHR '']'' # r) = CHR '']'' # r"
  by (simp_all add: next_element_def Let_def skip_nat_digits)

definition id_array :: "int list \<Rightarrow> string" where
  "id_array ids = join_comma (map (\<lambda>i. nat_digits (nat i)) ids) @ '']''"

lemma eos_array_step:
  assumes "0 \<le> i" "i < 2 ^ 63" "ends_number r"
  shows "eos_array_loop eos (nat_digits (nat i) @ r) cfg =
    (if i = eos then Some i else eos_array_loop eos (next_element r) (if cfg < 0 then i else cfg))"
proof -
  obtain d ds where "nat_digits (nat i) = d # ds" "isdigit d"
    using nat_digits_digits [of "nat i"] by (cases "nat_digits (nat i)") auto
  then show ?thesis
    using parse_digits [OF assms, of 0] by (subst eos_array_loop.simps) (auto simp: isdigit_def)
qed

lemma eos_array_loop_ids:
  "list_all (\<lambda>i. 0 \<le> i \<and> i < 2 ^ 63) ids \<Longrightarrow> ids \<noteq> [] \<Longrightarrow>
     eos_array_loop eos (id_array ids @ r) cfg =
       Some (if eos \<in> set ids then eos else if cfg < 0 then hd ids else cfg)"
proof (induction ids arbitrary: cfg rule: induct_list012)
  case (2 i)
  have "ends_number (CHR '']'' # r)" by (simp add: ends_number_def isdigit_def)
  with 2 eos_array_step [of i "CHR '']'' # r" eos cfg] show ?case
    by (simp add: id_array_def next_element_digits eos_array_loop.simps [of eos "CHR '']'' # r"])
next
  case (3 i j ids)
  have e: "ends_number (CHR '','' # s)" for s by (simp add: ends_number_def isdigit_def)
  have i: "0 \<le> i" "i < 2 ^ 63" using "3.prems" by auto
  obtain s where s: "id_array (j # ids) = nat_digits (nat j) @ s"
    by (cases ids) (auto simp: id_array_def)
  have "id_array (i # j # ids) @ r = nat_digits (nat i) @ CHR '','' # id_array (j # ids) @ r"
    by (simp add: id_array_def)
  moreover have "next_element (CHR '','' # id_array (j # ids) @ r) = id_array (j # ids) @ r"
    using next_element_digits(1) [of "nat j" "s @ r"] s by simp
  ultimately show ?case
    using eos_array_step [OF i e] "3.IH"(2) "3.prems" i
    by auto
qed simp


text \<open>
  The configuration check on an \<^verbatim>\<open>eos_token_id\<close> array: it returns, and it accepts exactly
  the arrays that contain the tokenizer's end-of-text id (or any array when the tokenizer has no
  such id).
\<close>
theorem config_check_accepts:
  assumes "buf = pre @ key_eos @ CHR '':'' # CHR ''['' # id_array ids @ r" "CHR 0x00 \<notin> set buf"
    and "find_sub key_eos buf = Some (length pre)" "ids \<noteq> []" "list_all (\<lambda>i. 0 \<le> i \<and> i < 2 ^ 63) ids"
  shows "validate_against_config_buffer t buf = Some (eos_token_id t < 0 \<or> eos_token_id t \<in> set ids)"
proof -
  have z: "takeWhile (\<lambda>c. c \<noteq> CHR 0x00) buf = buf" unfolding takeWhile_eq_all_conv using assms(2) by metis
  have d: "drop (length pre + 14) buf = CHR '':'' # CHR ''['' # id_array ids @ r"
    unfolding assms(1) by (simp add: key_eos_def)
  obtain i js where ids: "ids = i # js" using assms(4) by (cases ids) auto
  obtain s where s: "id_array ids @ r = nat_digits (nat i) @ s"
    by (cases js) (auto simp: id_array_def ids)
  have sk: "tok_skip_whitespace (id_array ids @ r) = id_array ids @ r" unfolding s by (rule skip_nat_digits)
  have ne: "buf \<noteq> []" by (simp add: assms(1))
  have "0 \<le> hd ids" using assms(5) ids by simp
  then show ?thesis
    unfolding validate_against_config_buffer_def z assms(3)
    using ne eos_array_loop_ids [OF assms(5,4), of "eos_token_id t" r "-1"] hd_in_set [OF assms(4)]
    by (auto simp: d sk Let_def)
qed

theorem config_check_accepts_witness:
  "validate_against_config_buffer (QwenTokenizer\<lparr>eos_token_id := 248044\<rparr>)
     (''{'' @ key_eos @ '':['' @ id_array [248046, 248044] @ ''}'') = Some True"
proof -
  have numeral_char_simps: "char_of (48 :: nat) = CHR ''0''" "char_of (50 :: nat) = CHR ''2''"
    "char_of (52 :: nat) = CHR ''4''" "char_of (54 :: nat) = CHR ''6''" "char_of (56 :: nat) = CHR ''8''"
    by code_simp+
  let ?buf = "''{'' @ key_eos @ CHR '':'' # CHR ''['' # id_array [248046, 248044] @ ''}''"
  have "id_array [248046, 248044] = ''248046,248044]''"
    by (simp add: id_array_def nat_digits.simps numeral_char_simps)
  moreover have "CHR 0x00 \<notin> set (''{'' @ key_eos @ CHR '':'' # CHR ''['' # ''248046,248044]'' @ ''}'')"
    "find_sub key_eos (''{'' @ key_eos @ CHR '':'' # CHR ''['' # ''248046,248044]'' @ ''}'') = Some (length ''{'')"
    by code_simp+
  ultimately show ?thesis
    using config_check_accepts [of ?buf "''{''" "[248046, 248044]" "''}''" "QwenTokenizer\<lparr>eos_token_id := 248044\<rparr>"]
    by simp
qed

lemma eos_array_loop_stuck: "eos_array_loop eos s cfg = Some v \<Longrightarrow> s \<noteq> ''null]}''"
proof (erule eos_array_loop.raw_induct [rotated])
  fix loop eos s cfg v
  assume IH: "\<And>eos s cfg v. loop eos s cfg = Some v \<Longrightarrow> s \<noteq> ''null]}''"
    and run: "(if s \<noteq> [] \<and> hd s \<noteq> CHR '']'' then
        (case parse_json_int64 s 0 of
           (ok, val, r) \<Rightarrow>
             if ok \<and> val = eos then Some val
             else loop eos (next_element r) (if ok \<and> cfg < 0 then val else cfg))
      else Some cfg) = Some v"
  have stuck: "parse_json_int64 ''null]}'' 0 = (False, 0, ''null]}'')" "next_element ''null]}'' = ''null]}''"
    by code_simp+
  show "s \<noteq> ''null]}''"
  proof
    assume "s = ''null]}''"
    with run stuck have "loop eos ''null]}'' cfg = Some v" by simp
    from IH [OF this] show False by simp
  qed
qed

text \<open>
  The configuration check never returns on an array with an element that is not a number,
  such as \<^verbatim>\<open>{"eos_token_id":[null]}\<close>: the element is not passed.
\<close>
theorem config_check_diverges:
  "validate_against_config_buffer t (''{'' @ key_eos @ '':[null]}'') = None"
proof -
  let ?buf = "''{'' @ key_eos @ '':[null]}''"
  have "find_sub key_eos (takeWhile (\<lambda>c. c \<noteq> CHR 0x00) ?buf) = Some 1" by code_simp
  moreover have "tok_skip_whitespace (drop (1 + 14) ?buf) = '':[null]}''" by code_simp
  moreover have "tok_skip_whitespace ''[null]}'' = ''[null]}''" "tok_skip_whitespace ''null]}'' = ''null]}''"
    by code_simp+
  moreover have "eos_array_loop (eos_token_id t) ''null]}'' (-1) = None"
    using eos_array_loop_stuck [of "eos_token_id t" "''null]}''" "-1"]
    by (cases "eos_array_loop (eos_token_id t) ''null]}'' (-1)") auto
  ultimately show ?thesis
    unfolding validate_against_config_buffer_def by (simp add: Let_def)
qed

end
