(* ===== verification/Chat_Template.thy ===== *)
theory Chat_Template
  imports Protocol "HOL-Library.AList"
begin

text \<open>
  \<^verbatim>\<open>QwenChatTemplate\<close> of \<^verbatim>\<open>src/targets/qwen3_8/chat_template.{h,cpp}\<close>: extraction of the reasoning
  parameters from the Jinja text, and the compiled ChatML renderer. A position in a
  \<^verbatim>\<open>std::string_view\<close> is the text from there on. Errors are values in place of the message text.
\<close>

section \<open>Scanning the template\<close>

definition tmpl_ws :: "char \<Rightarrow> bool" where
  "tmpl_ws c \<longleftrightarrow> c = CHR '' '' \<or> c = CHR 0x09 \<or> c = CHR 0x0D \<or> c = CHR 0x0A"

definition trim_whitespace :: "string \<Rightarrow> string" where
  "trim_whitespace s = rev (dropWhile tmpl_ws (rev (dropWhile tmpl_ws s)))"

definition ends_with :: "string \<Rightarrow> string \<Rightarrow> bool" where
  "ends_with s suffix \<longleftrightarrow> length suffix \<le> length s \<and> drop (length s - length suffix) s = suffix"

definition tmpl_skip_ws :: "string \<Rightarrow> string" where
  "tmpl_skip_ws s = dropWhile tmpl_ws s"

definition match_token :: "string \<Rightarrow> string \<Rightarrow> string option" where
  "match_token s token =
     (let s1 = tmpl_skip_ws s in if starts_with s1 token then Some (drop (length token) s1) else None)"

fun quoted_loop :: "char \<Rightarrow> string \<Rightarrow> string \<Rightarrow> (string \<times> string) option" where
  "quoted_loop q [] res = None"
| "quoted_loop q [c] res = (if c = q then Some (res, []) else None)"
| "quoted_loop q (c # d # s) res =
     (if c = CHR 0x5C then quoted_loop q s (res @ [d])
      else if c = q then Some (res, d # s)
      else quoted_loop q (d # s) (res @ [c]))"

definition extract_quoted_string :: "string \<Rightarrow> (string \<times> string) option" where
  "extract_quoted_string s =
     (case tmpl_skip_ws s of
        [] \<Rightarrow> None
      | q # r \<Rightarrow> if q \<noteq> CHR 0x27 \<and> q \<noteq> CHR 0x22 then None else quoted_loop q r [])"

datatype template_error =
    Empty_template
  | Missing_pattern string
  | Unsupported_default string
  | No_default_effort
  | No_instruction string

definition supported_effort :: "string \<Rightarrow> bool" where
  "supported_effort e \<longleftrightarrow> e = ''xhigh'' \<or> e = ''medium'' \<or> e = ''low''"

text \<open>The pattern \<^verbatim>\<open>|default("...")\<close> after an occurrence of the variable.\<close>

definition default_argument :: "string \<Rightarrow> string option" where
  "default_argument s =
     Option.bind (match_token s ''|'') (\<lambda>s1.
     Option.bind (match_token s1 ''default'') (\<lambda>s2.
     Option.bind (match_token s2 ''('') (\<lambda>s3.
     Option.bind (extract_quoted_string s3) (\<lambda>(val, s4).
     Option.bind (match_token s4 '')'') (\<lambda>_. Some val)))))"

function parse_default_reasoning_effort :: "string \<Rightarrow> template_error + string" where
  "parse_default_reasoning_effort s =
     (case find_sub ''reasoning_effort'' s of
        None \<Rightarrow> Inl No_default_effort
      | Some i \<Rightarrow>
          (case default_argument (drop (i + 16) s) of
             Some val \<Rightarrow> if supported_effort val then Inr val else Inl (Unsupported_default val)
           | None \<Rightarrow> parse_default_reasoning_effort (drop (i + 1) s)))"
  by pat_completeness auto
termination
  by (relation "measure length") (auto dest!: find_sub_Some_D)

declare parse_default_reasoning_effort.simps [simp del]

text \<open>
  The instruction for one effort level: after \<^verbatim>\<open>resolved_reasoning_effort == 'effort'\<close>, the string
  assigned to \<^verbatim>\<open>reasoning_instructions\<close> within the next 800 characters.
\<close>

definition instruction_at :: "string \<Rightarrow> string \<Rightarrow> string option" where
  "instruction_at effort s =
     Option.bind (match_token s ''=='') (\<lambda>s1.
     Option.bind (extract_quoted_string s1) (\<lambda>(target, s2).
       if target \<noteq> effort then None
       else
         Option.bind (find_sub ''reasoning_instructions'' (take 800 s2)) (\<lambda>i.
         Option.bind (match_token (drop (i + 22) s2) ''='') (\<lambda>s3.
         map_option fst (extract_quoted_string s3)))))"

function parse_reasoning_instruction_for_effort :: "string \<Rightarrow> string \<Rightarrow> template_error + string" where
  "parse_reasoning_instruction_for_effort s effort =
     (case find_sub ''resolved_reasoning_effort'' s of
        None \<Rightarrow> Inl (No_instruction effort)
      | Some i \<Rightarrow>
          (case instruction_at effort (drop (i + 25) s) of
             Some instruction \<Rightarrow> Inr instruction
           | None \<Rightarrow> parse_reasoning_instruction_for_effort (drop (i + 25) s) effort))"
  by pat_completeness auto
termination
  by (relation "measure (\<lambda>(s, e). length s)") (auto dest!: find_sub_Some_D)

declare parse_reasoning_instruction_for_effort.simps [simp del]

definition required_patterns :: "string list" where
  "required_patterns = [''<|im_start|>'', ''<|im_end|>'', ''<think>'', ''</think>'',
     ''add_generation_prompt'', ''enable_thinking'', ''multi_step_tool'', ''<tool_response>'',
     ''</tool_response>'', ''messages'', ''system'', ''user'', ''assistant'']"

definition validate_structural_invariants :: "string \<Rightarrow> template_error option" where
  "validate_structural_invariants s =
     map_option Missing_pattern (find (\<lambda>p. find_sub p s = None) required_patterns)"


section \<open>The template object\<close>

record chat_template =
  tmpl_loaded :: bool
  raw_template :: string
  default_reasoning_effort :: string
  default_enable_thinking :: bool
  reasoning_instructions :: "(string \<times> string) list"

definition xhigh_default :: string where
  "xhigh_default = ''Reasoning effort is set to xhigh. Please think carefully through the task, validate key assumptions, '' @
     ''consider plausible alternatives, and prioritize correctness, consistency, and clarity in the final answer.''"

definition low_default :: string where
  "low_default = ''Reasoning effort is set to low. Keep your thinking brief and focused, moving directly to the conclusion '' @
     ''without unnecessary elaboration.''"

definition init_defaults :: "chat_template \<Rightarrow> chat_template" where
  "init_defaults t = t\<lparr>default_reasoning_effort := ''xhigh'', default_enable_thinking := True,
     reasoning_instructions := AList.update ''medium'' [] (AList.update ''low'' low_default
       (AList.update ''xhigh'' xhigh_default (reasoning_instructions t)))\<rparr>"

definition QwenChatTemplate :: chat_template where
  "QwenChatTemplate = init_defaults \<lparr>tmpl_loaded = False, raw_template = [],
     default_reasoning_effort = ''xhigh'', default_enable_thinking = True, reasoning_instructions = []\<rparr>"

text \<open>On success the template's parameters are stored, the medium instruction being optional.\<close>

definition store_parameters :: "chat_template \<Rightarrow> string \<Rightarrow> string \<Rightarrow> string \<Rightarrow> chat_template" where
  "store_parameters t effort xhigh low =
     (let medium = (case parse_reasoning_instruction_for_effort (raw_template t) ''medium'' of
                      Inr m \<Rightarrow> m | Inl _ \<Rightarrow> [])
      in t\<lparr>default_reasoning_effort := effort,
           reasoning_instructions := AList.update ''low'' low (AList.update ''xhigh'' xhigh
             (AList.update ''medium'' medium (reasoning_instructions t)))\<rparr>)"

definition parse_template :: "chat_template \<Rightarrow> template_error + chat_template" where
  "parse_template t =
     (let raw = raw_template t in
      if raw = [] then Inl Empty_template
      else case validate_structural_invariants raw of
        Some e \<Rightarrow> Inl e
      | None \<Rightarrow>
          (case parse_default_reasoning_effort raw of
             Inl e \<Rightarrow> Inl e
           | Inr effort \<Rightarrow>
               (case parse_reasoning_instruction_for_effort raw ''xhigh'' of
                  Inl e \<Rightarrow> Inl e
                | Inr xhigh \<Rightarrow>
                    (case parse_reasoning_instruction_for_effort raw ''low'' of
                       Inl e \<Rightarrow> Inl e
                     | Inr low \<Rightarrow> Inr (store_parameters t effort xhigh low)))))"

definition load_from_string :: "chat_template \<Rightarrow> string \<Rightarrow> template_error option \<times> chat_template" where
  "load_from_string t s =
     (if s = [] then (Some Empty_template, t)
      else
        let t1 = t\<lparr>raw_template := s, reasoning_instructions := [], default_reasoning_effort := [],
                   tmpl_loaded := False\<rparr> in
        case parse_template t1 of
          Inl e \<Rightarrow> (Some e, (init_defaults t1)\<lparr>tmpl_loaded := False\<rparr>)
        | Inr t2 \<Rightarrow> (None, t2\<lparr>tmpl_loaded := True\<rparr>))"

definition get_reasoning_instructions :: "chat_template \<Rightarrow> string \<Rightarrow> string" where
  "get_reasoning_instructions t effort =
     (case map_of (reasoning_instructions t) effort of Some s \<Rightarrow> s | None \<Rightarrow> [])"


section \<open>Rendering\<close>

record template_options =
  add_generation_prompt :: bool
  enable_thinking :: bool
  reasoning_effort :: string
  preserve_thinking :: bool
  patches_per_image :: nat
  image_pad_token :: string

definition default_options :: template_options where
  "default_options = \<lparr>add_generation_prompt = True, enable_thinking = True, reasoning_effort = [],
     preserve_thinking = True, patches_per_image = 256, image_pad_token = ''<|image_pad|>''\<rparr>"

function expand_loop :: "string \<Rightarrow> string \<Rightarrow> string" where
  "expand_loop pad s =
     (if s = [] then []
      else case find_sub ''<image>'' s of
        None \<Rightarrow> s
      | Some i \<Rightarrow> take i s @ pad @ expand_loop pad (drop (i + 7) s))"
  by pat_completeness auto
termination by (relation "measure (\<lambda>(pad, s). length s)") auto

declare expand_loop.simps [simp del]

definition expand_image_tags :: "string \<Rightarrow> nat \<Rightarrow> string \<Rightarrow> string" where
  "expand_image_tags s patches pad =
     (if find_sub ''<image>'' s = None \<or> patches = 0 then s
      else expand_loop (concat (replicate patches pad)) s)"

datatype render_error =
  No_messages | System_not_first | No_user_query | Unexpected_effort string | Unexpected_role string

definition is_user_query :: "chat_message \<Rightarrow> bool" where
  "is_user_query m \<longleftrightarrow> role m = ''user'' \<and>
     (let c = trim_whitespace (content m) in
      \<not> (starts_with c ''<tool_response>'' \<and> ends_with c ''</tool_response>''))"

text \<open>The loop from the last message down to the first.\<close>

fun last_query :: "chat_message list \<Rightarrow> nat \<Rightarrow> nat option" where
  "last_query msgs 0 = None"
| "last_query msgs (Suc i) = (if is_user_query (msgs ! i) then Some i else last_query msgs i)"

abbreviation NL :: char where "NL \<equiv> CHR 0x0A"

definition system_block :: "string \<Rightarrow> chat_message list \<Rightarrow> string" where
  "system_block instr msgs =
     (let block = (if instr \<noteq> [] then ''<|im_start|>system'' @ [NL] @ instr @ ''<|im_end|>'' @ [NL] else []) in
      if role (hd msgs) = ''system'' then
        let c = trim_whitespace (content (hd msgs)) in
        if c \<noteq> [] then
          ''<|im_start|>system'' @ [NL] @ (if instr \<noteq> [] then instr @ [NL, NL] else []) @ c
            @ ''<|im_end|>'' @ [NL]
        else block
      else block)"

definition shown_content :: "template_options \<Rightarrow> chat_message \<Rightarrow> string" where
  "shown_content opts m =
     (let c = trim_whitespace (content m) in
      if patches_per_image opts > 0 then expand_image_tags c (patches_per_image opts) (image_pad_token opts)
      else c)"

definition assistant_body :: "template_options \<Rightarrow> nat \<Rightarrow> nat \<Rightarrow> chat_message \<Rightarrow> string" where
  "assistant_body opts last_query_index i m =
     (if preserve_thinking opts \<or> i > last_query_index
      then ''<think>'' @ [NL] @ trim_whitespace (reasoning_content m) @ [NL] @ ''</think>'' @ [NL, NL]
             @ shown_content opts m
      else shown_content opts m)"

definition tool_text :: "template_options \<Rightarrow> chat_message \<Rightarrow> string" where
  "tool_text opts m = [NL] @ ''<tool_response>'' @ [NL] @ shown_content opts m @ [NL] @ ''</tool_response>''"

text \<open>
  The loop over the messages: the index, the role of the previous message and the text so far.
\<close>

fun render_loop ::
  "template_options \<Rightarrow> nat \<Rightarrow> nat \<Rightarrow> string option \<Rightarrow> chat_message list \<Rightarrow> string \<Rightarrow> render_error + string" where
  "render_loop opts lq i prev [] out = Inr out"
| "render_loop opts lq i prev (m # ms) out =
     (if role m = ''system'' then render_loop opts lq (i + 1) (Some (role m)) ms out
      else if role m = ''user'' then
        render_loop opts lq (i + 1) (Some (role m)) ms
          (out @ ''<|im_start|>user'' @ [NL] @ shown_content opts m @ ''<|im_end|>'' @ [NL])
      else if role m = ''assistant'' then
        render_loop opts lq (i + 1) (Some (role m)) ms
          (out @ ''<|im_start|>assistant'' @ [NL] @ assistant_body opts lq i m @ ''<|im_end|>'' @ [NL])
      else if role m = ''tool'' then
        render_loop opts lq (i + 1) (Some (role m)) ms
          (out @ (if prev \<noteq> None \<and> prev \<noteq> Some ''tool'' then ''<|im_start|>user'' else [])
           @ tool_text opts m
           @ (if ms = [] \<or> role (hd ms) \<noteq> ''tool'' then ''<|im_end|>'' @ [NL] else []))
      else Inl (Unexpected_role (role m)))"

definition generation_prompt :: "template_options \<Rightarrow> string" where
  "generation_prompt opts =
     (if add_generation_prompt opts then
        ''<|im_start|>assistant'' @ [NL] @
        (if \<not> enable_thinking opts then ''<think>'' @ [NL, NL] @ ''</think>'' @ [NL, NL] else ''<think>'' @ [NL])
      else [])"

definition resolved_effort :: "chat_template \<Rightarrow> template_options \<Rightarrow> string" where
  "resolved_effort t opts =
     (if reasoning_effort opts = [] then default_reasoning_effort t else reasoning_effort opts)"

definition render_chat ::
  "chat_template \<Rightarrow> chat_message list \<Rightarrow> template_options \<Rightarrow> render_error + string" where
  "render_chat t msgs opts =
     (if msgs = [] then Inl No_messages
      else if list_ex (\<lambda>m. role m = ''system'') (tl msgs) then Inl System_not_first
      else case last_query msgs (length msgs) of
        None \<Rightarrow> Inl No_user_query
      | Some lq \<Rightarrow>
          let effort = resolved_effort t opts in
          if \<not> supported_effort effort then Inl (Unexpected_effort effort)
          else
            let instr = (if enable_thinking opts then get_reasoning_instructions t effort else []) in
            case render_loop opts lq 0 None msgs (system_block instr msgs) of
              Inl e \<Rightarrow> Inl e
            | Inr out \<Rightarrow> Inr (out @ generation_prompt opts))"

definition render_prompt ::
  "chat_template \<Rightarrow> string \<Rightarrow> string \<Rightarrow> template_options \<Rightarrow> render_error + string" where
  "render_prompt t user_prompt system_prompt opts =
     render_chat t
       ((if system_prompt \<noteq> [] then [\<lparr>role = ''system'', content = system_prompt, reasoning_content = []\<rparr>] else [])
        @ [\<lparr>role = ''user'', content = user_prompt, reasoning_content = []\<rparr>]) opts"



section \<open>The template's parameters\<close>

text \<open>
  What every template object keeps: a supported default effort and an instruction for each level.
\<close>

definition template_ok :: "chat_template \<Rightarrow> bool" where
  "template_ok t \<longleftrightarrow> supported_effort (default_reasoning_effort t)
     \<and> (\<forall>e. supported_effort e \<longrightarrow> map_of (reasoning_instructions t) e \<noteq> None)"

lemma parse_default_supported: "parse_default_reasoning_effort s = Inr e \<Longrightarrow> supported_effort e"
proof (induction s rule: parse_default_reasoning_effort.induct)
  case (1 s)
  from "1.prems" show ?case
    by (subst (asm) parse_default_reasoning_effort.simps)
      (auto split: option.splits if_splits intro: "1.IH")
qed

lemma template_ok_init: "template_ok QwenChatTemplate" "template_ok (init_defaults t)"
  by (auto simp: template_ok_def QwenChatTemplate_def init_defaults_def supported_effort_def AList.update_conv')

lemma parse_template_InrD:
  assumes "parse_template t = Inr t'"
  obtains effort xhigh low where
    "validate_structural_invariants (raw_template t) = None"
    "parse_default_reasoning_effort (raw_template t) = Inr effort"
    "parse_reasoning_instruction_for_effort (raw_template t) ''xhigh'' = Inr xhigh"
    "parse_reasoning_instruction_for_effort (raw_template t) ''low'' = Inr low"
    "t' = store_parameters t effort xhigh low"
  using assms by (auto simp: parse_template_def Let_def split: if_splits option.splits sum.splits)

lemma store_parameters_props:
  "default_reasoning_effort (store_parameters t effort xhigh low) = effort"
  "map_of (reasoning_instructions (store_parameters t effort xhigh low)) ''xhigh'' = Some xhigh"
  "map_of (reasoning_instructions (store_parameters t effort xhigh low)) ''low'' = Some low"
  "\<exists>m. map_of (reasoning_instructions (store_parameters t effort xhigh low)) ''medium'' = Some m"
  "raw_template (store_parameters t effort xhigh low) = raw_template t"
  by (simp_all add: store_parameters_def Let_def AList.update_conv')

lemma load_keeps_template_ok: "template_ok t \<Longrightarrow> template_ok (snd (load_from_string t s))"
proof (cases "s = []")
  case False
  define t1 where "t1 = t\<lparr>raw_template := s, reasoning_instructions := [], default_reasoning_effort := [],
    tmpl_loaded := False\<rparr>"
  show ?thesis
  proof (cases "parse_template t1")
    case (Inl e)
    then show ?thesis using False template_ok_init(2) [of t1]
      by (simp add: load_from_string_def t1_def template_ok_def Let_def)
  next
    case (Inr t2)
    then obtain effort xhigh low where "parse_default_reasoning_effort (raw_template t1) = Inr effort"
      "t2 = store_parameters t1 effort xhigh low" by (rule parse_template_InrD)
    with Inr False show ?thesis using parse_default_supported
      by (auto simp: load_from_string_def t1_def template_ok_def Let_def supported_effort_def store_parameters_props)
  qed
qed (simp add: load_from_string_def)





section \<open>The rendered prompt\<close>

text \<open>
  The specification: a conversation is a sequence of ChatML frames, consecutive tool messages
  sharing one frame of the user.
\<close>

type_synonym frame = "string \<times> string"

definition frame_text :: "frame \<Rightarrow> string" where
  "frame_text f = ''<|im_start|>'' @ fst f @ [NL] @ snd f @ ''<|im_end|>'' @ [NL]"

definition is_tool :: "chat_message \<Rightarrow> bool" where
  "is_tool m \<longleftrightarrow> role m = ''tool''"

definition tools_body :: "template_options \<Rightarrow> chat_message list \<Rightarrow> string" where
  "tools_body opts ms = tl (concat (map (tool_text opts) ms))"

function turns :: "template_options \<Rightarrow> nat \<Rightarrow> nat \<Rightarrow> chat_message list \<Rightarrow> frame list" where
  "turns opts lq i [] = []"
| "turns opts lq i (m # ms) =
     (if role m = ''system'' then turns opts lq (i + 1) ms
      else if role m = ''user'' then (''user'', shown_content opts m) # turns opts lq (i + 1) ms
      else if role m = ''assistant'' then (''assistant'', assistant_body opts lq i m) # turns opts lq (i + 1) ms
      else
        let run = m # takeWhile is_tool ms in
        (''user'', tools_body opts run) # turns opts lq (i + length run) (drop (length run - 1) ms))"
  by pat_completeness auto
termination by (relation "measure (\<lambda>(opts, lq, i, ms). length ms)") auto

definition known_role :: "chat_message \<Rightarrow> bool" where
  "known_role m \<longleftrightarrow> role m \<in> {''system'', ''user'', ''assistant'', ''tool''}"

lemma render_tools:
  assumes "rest = [] \<or> \<not> is_tool (hd rest)"
  shows "ms \<noteq> [] \<Longrightarrow> list_all is_tool ms \<Longrightarrow> prev = Some ''tool'' \<Longrightarrow>
    render_loop opts lq i prev (ms @ rest) out =
      render_loop opts lq (i + length ms) (Some ''tool'') rest
        (out @ concat (map (tool_text opts) ms) @ ''<|im_end|>'' @ [NL])"
proof (induction ms arbitrary: i prev out)
  case (Cons m ms)
  then have m: "role m = ''tool''" by (simp add: is_tool_def)
  show ?case
  proof (cases ms)
    case Nil
    with Cons.prems m assms show ?thesis by (auto simp: is_tool_def)
  next
    case (Cons m' ms')
    then have "role m' = ''tool''" using Cons.prems by (simp add: is_tool_def)
    with Cons.IH [of "Some ''tool''" "i + 1" "out @ tool_text opts m"] Cons.prems Cons m show ?thesis by simp
  qed
qed simp

lemma tool_text_tl: "NL # tl (tool_text opts m @ s) = tool_text opts m @ s"
  by (simp add: tool_text_def)

lemma render_loop_turns:
  "list_all known_role ms \<Longrightarrow> (ms \<noteq> [] \<Longrightarrow> is_tool (hd ms) \<Longrightarrow> prev \<noteq> None \<and> prev \<noteq> Some ''tool'') \<Longrightarrow>
     render_loop opts lq i prev ms out = Inr (out @ concat (map frame_text (turns opts lq i ms)))"
proof (induction opts lq i ms arbitrary: prev out rule: turns.induct)
  case (2 opts lq i m ms)
  have known: "list_all known_role ms" using "2.prems" by simp
  consider "role m = ''system''" | "role m = ''user''" | "role m = ''assistant''" | "role m = ''tool''"
    using "2.prems" by (auto simp: known_role_def)
  then show ?case
  proof cases
    case 1
    with "2.IH"(1) [OF 1 known] show ?thesis by simp
  next
    case 2
    with "2.IH"(2) [OF _ 2 known] show ?thesis by (simp add: frame_text_def)
  next
    case 3
    with "2.IH"(3) [OF _ _ 3 known] show ?thesis by (simp add: frame_text_def)
  next
    case 4
    define ts where "ts = takeWhile is_tool ms"
    define rest where "rest = drop (length ts) ms"
    have ms: "ms = ts @ rest" by (simp add: ts_def rest_def takeWhile_dropWhile_id flip: dropWhile_eq_drop)
    have rest: "rest = [] \<or> \<not> is_tool (hd rest)"
      unfolding rest_def ts_def using hd_dropWhile [of is_tool ms] by (auto simp: dropWhile_eq_drop)
    have ts: "list_all is_tool ts" unfolding ts_def list_all_iff using set_takeWhileD by fast
    have prev: "prev \<noteq> None \<and> prev \<noteq> Some ''tool''" using "2.prems"(2) 4 by (simp add: is_tool_def)
    have loop: "render_loop opts lq i prev (m # ts @ rest) out =
        render_loop opts lq (i + 1 + length ts) (Some ''tool'') rest
          (out @ ''<|im_start|>user'' @ tool_text opts m @ concat (map (tool_text opts) ts) @ ''<|im_end|>'' @ [NL])"
    proof (cases "ts = []")
      case True
      with 4 prev rest show ?thesis by (auto simp: is_tool_def)
    next
      case False
      then have "role (hd (ts @ rest)) = ''tool''" using ts by (cases ts) (auto simp: is_tool_def)
      with False 4 prev render_tools [OF rest False ts refl, of opts lq "i + 1"
          "out @ ''<|im_start|>user'' @ tool_text opts m"] show ?thesis by simp
    qed
    have run: "drop (length (m # takeWhile is_tool ms) - 1) ms = rest"
      "i + length (m # takeWhile is_tool ms) = i + 1 + length ts"
      by (simp_all add: rest_def ts_def)
    have roles: "role m \<noteq> ''system''" "role m \<noteq> ''user''" "role m \<noteq> ''assistant''" using 4 by simp_all
    have "list_all known_role rest" using known ms by simp
    then have "render_loop opts lq (i + 1 + length ts) (Some ''tool'') rest out' =
        Inr (out' @ concat (map frame_text (turns opts lq (i + 1 + length ts) rest)))" for out'
      using rest by (intro "2.IH"(4) [OF roles refl, unfolded run]) auto
    moreover have "frame_text (''user'', tools_body opts (m # ts)) =
        ''<|im_start|>user'' @ tool_text opts m @ concat (map (tool_text opts) ts) @ ''<|im_end|>'' @ [NL]"
      using tool_text_tl [of opts m "concat (map (tool_text opts) ts) @ ''<|im_end|>'' @ [NL]"]
      by (simp add: frame_text_def tools_body_def tool_text_def)
    moreover have "turns opts lq i (m # ms) =
        (''user'', tools_body opts (m # ts)) # turns opts lq (i + 1 + length ts) rest"
      using roles by (simp add: Let_def ts_def rest_def)
    moreover have "render_loop opts lq i prev (m # ms) out = render_loop opts lq i prev (m # ts @ rest) out"
      using ms by simp
    ultimately show ?thesis using loop by (simp only: list.map concat.simps append.assoc)
  qed
qed simp


definition system_frames :: "string \<Rightarrow> chat_message list \<Rightarrow> frame list" where
  "system_frames instr msgs =
     (let c = (if role (hd msgs) = ''system'' then trim_whitespace (content (hd msgs)) else []);
          body = (if c = [] then instr else if instr = [] then c else instr @ [NL, NL] @ c)
      in if body = [] then [] else [(''system'', body)])"

lemma system_block_frames: "system_block instr msgs = concat (map frame_text (system_frames instr msgs))"
  by (auto simp: system_block_def system_frames_def frame_text_def Let_def)

definition instructions_for :: "chat_template \<Rightarrow> template_options \<Rightarrow> string" where
  "instructions_for t opts =
     (if enable_thinking opts then get_reasoning_instructions t (resolved_effort t opts) else [])"

lemma last_query_spec:
  "last_query msgs n = Some i \<longleftrightarrow> i < n \<and> is_user_query (msgs ! i) \<and> (\<forall>j. i < j \<and> j < n \<longrightarrow> \<not> is_user_query (msgs ! j))"
proof (induction n)
  case (Suc n)
  show ?case
  proof (cases "is_user_query (msgs ! n)")
    case True
    then show ?thesis by (auto simp: less_Suc_eq)
  next
    case False
    with Suc.IH show ?thesis by (auto simp: less_Suc_eq)
  qed
qed simp

lemma last_query_None: "last_query msgs n = None \<longleftrightarrow> (\<forall>j < n. \<not> is_user_query (msgs ! j))"
  by (induction n) (auto simp: less_Suc_eq)

text \<open>A conversation that can be rendered.\<close>

definition conversation_ok :: "chat_message list \<Rightarrow> bool" where
  "conversation_ok msgs \<longleftrightarrow> msgs \<noteq> [] \<and> list_all known_role msgs
     \<and> \<not> list_ex (\<lambda>m. role m = ''system'') (tl msgs) \<and> \<not> is_tool (hd msgs) \<and> list_ex is_user_query msgs"

definition effort_ok :: "template_options \<Rightarrow> bool" where
  "effort_ok opts \<longleftrightarrow> reasoning_effort opts = [] \<or> supported_effort (reasoning_effort opts)"

lemma render_chat_frames:
  assumes "template_ok t" "conversation_ok msgs" "effort_ok opts"
  shows "\<exists>lq. last_query msgs (length msgs) = Some lq \<and> render_chat t msgs opts =
    Inr (concat (map frame_text (system_frames (instructions_for t opts) msgs @ turns opts lq 0 msgs))
      @ generation_prompt opts)"
proof -
  have "\<exists>i < length msgs. is_user_query (msgs ! i)"
    using assms(2) by (auto simp: conversation_ok_def list_ex_iff in_set_conv_nth)
  then obtain lq where lq: "last_query msgs (length msgs) = Some lq"
    using last_query_None [of msgs "length msgs"] by (cases "last_query msgs (length msgs)") auto
  have "supported_effort (resolved_effort t opts)"
    using assms by (auto simp: resolved_effort_def effort_ok_def template_ok_def)
  moreover have "render_loop opts lq 0 None msgs (system_block (instructions_for t opts) msgs) =
      Inr (system_block (instructions_for t opts) msgs @ concat (map frame_text (turns opts lq 0 msgs)))"
    using assms(2) by (intro render_loop_turns) (auto simp: conversation_ok_def)
  ultimately have "render_chat t msgs opts =
      Inr (concat (map frame_text (system_frames (instructions_for t opts) msgs @ turns opts lq 0 msgs))
        @ generation_prompt opts)"
    using assms(2) lq by (simp add: render_chat_def conversation_ok_def system_block_frames
        instructions_for_def [symmetric])
  with lq show ?thesis by blast
qed

text \<open>Reading a prompt: the frames up to the first text that is not a complete frame.\<close>

function read_frames :: "string \<Rightarrow> frame list" where
  "read_frames s =
     (if \<not> starts_with s ''<|im_start|>'' then []
      else case find_sub ''<|im_end|>'' (drop 12 s) of
        None \<Rightarrow> []
      | Some i \<Rightarrow>
          let b = take i (drop 12 s) in
          (takeWhile (\<lambda>c. c \<noteq> NL) b, drop 1 (dropWhile (\<lambda>c. c \<noteq> NL) b)) # read_frames (drop (i + 23) s))"
  by pat_completeness auto
termination
  by (relation "measure length") (auto dest!: find_sub_Some_D)

declare read_frames.simps [simp del]

text \<open>A pattern no proper prefix of which is a suffix occurs first where it was put.\<close>

definition borderless :: "'a list \<Rightarrow> bool" where
  "borderless p \<longleftrightarrow> list_all (\<lambda>k. take k p \<noteq> drop (length p - k) p) [1..<length p]"

lemma find_sub_borderless:
  assumes "borderless p" "\<not> contains u p"
  shows "find_sub p (u @ p @ v) = Some (length u)"
  using assms(2)
proof (induction u)
  case Nil
  then show ?case using starts_with_append [of p v] by (cases "p @ v") auto
next
  case (Cons c u)
  have "\<not> starts_with ((c # u) @ p @ v) p"
  proof
    assume "starts_with ((c # u) @ p @ v) p"
    then have eq: "take (length p) ((c # u) @ p @ v) = p" by (simp add: starts_with_take)
    show False
    proof (cases "length p \<le> length (c # u)")
      case True
      then have "take (length p) (c # u) = p" using eq by (metis append_Nil2 diff_is_0_eq' take_0 take_append)
      then have "c # u = [] @ p @ drop (length p) (c # u)" by (metis append_Nil append_take_drop_id)
      then show False using Cons.prems unfolding contains_iff by blast
    next
      case False
      define k where "k = length p - length (c # u)"
      have k: "0 < k" "k < length p" using False by (auto simp: k_def)
      have "length p = length (c # u) + k" using False by (simp add: k_def)
      then have "take (length p) ((c # u) @ p @ v) = (c # u) @ take k p"
        using k(2) by (simp only: take_append take_all) simp
      then have "p = (c # u) @ take k p" using eq by (rule trans [OF sym, rotated])
      then have "drop (length (c # u)) p = take k p" by (metis append_eq_conv_conj)
      moreover have "length p - k = length (c # u)" using False by (simp add: k_def)
      ultimately have "take k p = drop (length p - k) p" by simp
      with assms(1) k show False unfolding borderless_def list_all_iff by force
    qed
  qed
  moreover have "\<not> contains u p" using Cons.prems unfolding contains_iff by (metis append_Cons)
  ultimately show ?case using Cons.IH by simp
qed


lemma contains_after:
  assumes "contains (u @ v) (c # p)" "c \<notin> set u"
  shows "contains v (c # p)"
proof -
  obtain x y where xy: "u @ v = x @ (c # p) @ y" using assms(1) unfolding contains_iff by blast
  have "length u \<le> length x"
  proof (rule ccontr)
    assume "\<not> length u \<le> length x"
    then have "(u @ v) ! length x = u ! length x" "length x < length u" by (auto simp: nth_append)
    moreover have "(u @ v) ! length x = c" unfolding xy by simp
    ultimately show False using assms(2) nth_mem by metis
  qed
  then have "v = drop (length u) x @ (c # p) @ y"
    using arg_cong [OF xy, of "drop (length u)"] by simp
  then show ?thesis unfolding contains_iff by blast
qed

lemma read_frame:
  assumes "fst f \<in> {''system'', ''user'', ''assistant''}" "\<not> contains (snd f) ''<|im_end|>''"
  shows "read_frames (frame_text f @ s) = f # read_frames s"
proof -
  let ?b = "fst f @ [NL] @ snd f"
  have nl: "NL \<notin> set (fst f)" "CHR ''<'' \<notin> set (fst f @ [NL])" using assms(1) by auto
  have "\<not> contains ((fst f @ [NL]) @ snd f) ''<|im_end|>''"
    using contains_after [OF _ nl(2)] assms(2) by blast
  moreover have "borderless ''<|im_end|>''" by code_simp
  ultimately have find: "find_sub ''<|im_end|>'' (?b @ ''<|im_end|>'' @ NL # s) = Some (length ?b)"
    using find_sub_borderless [of "''<|im_end|>''" ?b "NL # s"] by simp
  have ft: "frame_text f @ s = ''<|im_start|>'' @ ?b @ ''<|im_end|>'' @ NL # s" by (simp add: frame_text_def)
  have d: "drop 12 (frame_text f @ s) = ?b @ ''<|im_end|>'' @ NL # s" unfolding ft by simp
  have neq: "\<And>c. c \<in> set (fst f) \<Longrightarrow> c \<noteq> NL" using nl(1) by metis
  have "takeWhile (\<lambda>c. c \<noteq> NL) ?b = fst f" "dropWhile (\<lambda>c. c \<noteq> NL) ?b = NL # snd f"
    by (simp_all add: takeWhile_append2 [OF neq] dropWhile_append2 [OF neq])
  moreover have "drop (length ?b + 23) (frame_text f @ s) = s"
  proof -
    have "drop (length ?b + 23) (frame_text f @ s) = drop 11 (drop (length ?b) (drop 12 (frame_text f @ s)))"
      by (simp only: drop_drop) (simp add: add.commute)
    then show ?thesis unfolding d by simp
  qed
  moreover have "starts_with (frame_text f @ s) ''<|im_start|>''" unfolding ft by (rule starts_with_append)
  ultimately show ?thesis
    by (subst read_frames.simps) (simp only: d find, simp add: Let_def)
qed

lemma turns_roles: "f \<in> set (turns opts lq i ms) \<Longrightarrow> fst f \<in> {''user'', ''assistant''}"
  by (induction opts lq i ms rule: turns.induct) (auto simp: Let_def split: if_splits)

lemma read_frames_prompt: "read_frames (generation_prompt opts) = []"
proof -
  have a: "find_sub ''<|im_end|>'' (drop 12 (''<|im_start|>assistant'' @ [NL] @ ''<think>'' @ [NL])) = None"
    "find_sub ''<|im_end|>'' (drop 12 (''<|im_start|>assistant'' @ [NL] @ ''<think>'' @ [NL, NL] @ ''</think>'' @ [NL, NL])) = None"
    by code_simp+
  then show ?thesis
    by (subst read_frames.simps) (cases "enable_thinking opts"; simp only: generation_prompt_def; simp)
qed

lemma read_frames_all:
  "list_all (\<lambda>f. fst f \<in> {''system'', ''user'', ''assistant''} \<and> \<not> contains (snd f) ''<|im_end|>'') fs
     \<Longrightarrow> read_frames (concat (map frame_text fs) @ s) = fs @ read_frames s"
  by (induction fs) (simp_all add: read_frame)

text \<open>
  C33. Rendering is faithful to the conversation. With any loaded or default template, a non-empty
  conversation of known roles with a user query, at most a leading system message and no leading
  tool message renders to ChatML frames: an optional system frame with the reasoning instructions,
  one frame per message with consecutive tool results in one frame, and the open assistant turn.
  If no shown text contains \<^verbatim>\<open><|im_end|>\<close>, cutting the prompt at the markers gives back exactly
  these frames: message text can neither forge nor hide a turn.
\<close>
theorem rendered_frames_read_back:
  assumes "template_ok t" "conversation_ok msgs" "effort_ok opts"
  shows "\<exists>lq frames. last_query msgs (length msgs) = Some lq
    \<and> frames = system_frames (instructions_for t opts) msgs @ turns opts lq 0 msgs
    \<and> render_chat t msgs opts = Inr (concat (map frame_text frames) @ generation_prompt opts)
    \<and> (list_all (\<lambda>f. \<not> contains (snd f) ''<|im_end|>'') frames
       \<longrightarrow> read_frames (concat (map frame_text frames) @ generation_prompt opts) = frames)"
proof -
  obtain lq where lq: "last_query msgs (length msgs) = Some lq" "render_chat t msgs opts =
      Inr (concat (map frame_text (system_frames (instructions_for t opts) msgs @ turns opts lq 0 msgs))
        @ generation_prompt opts)"
    using render_chat_frames [OF assms] by blast
  define fs where "fs = system_frames (instructions_for t opts) msgs @ turns opts lq 0 msgs"
  have "fst f \<in> {''system'', ''user'', ''assistant''}" if "f \<in> set fs" for f
    using that turns_roles [of f opts lq 0 msgs]
    by (auto simp: fs_def system_frames_def Let_def split: if_splits)
  then have "list_all (\<lambda>f. \<not> contains (snd f) ''<|im_end|>'') fs \<Longrightarrow>
      read_frames (concat (map frame_text fs) @ generation_prompt opts) = fs"
    using read_frames_all [of fs "generation_prompt opts"] by (simp add: read_frames_prompt list_all_iff)
  with lq show ?thesis unfolding fs_def by blast
qed


definition sample_chat :: "chat_message list" where
  "sample_chat = [\<lparr>role = ''system'', content = ''Be brief.'', reasoning_content = []\<rparr>,
     \<lparr>role = ''user'', content = '' hi '', reasoning_content = []\<rparr>]"

definition sample_options :: template_options where
  "sample_options = default_options\<lparr>enable_thinking := False\<rparr>"

theorem rendered_frames_read_back_witness:
  "\<exists>prompt. render_chat QwenChatTemplate sample_chat sample_options = Inr prompt
     \<and> read_frames prompt = [(''system'', ''Be brief.''), (''user'', ''hi'')]"
proof -
  have ok: "conversation_ok sample_chat" "effort_ok sample_options" by code_simp+
  have lq: "last_query sample_chat (length sample_chat) = Some 1" by code_simp
  have fs: "system_frames (instructions_for QwenChatTemplate sample_options) sample_chat
      @ turns sample_options 1 0 sample_chat = [(''system'', ''Be brief.''), (''user'', ''hi'')]"
    by code_simp
  have "list_all (\<lambda>f. \<not> contains (snd f) ''<|im_end|>'') [(''system'', ''Be brief.''), (''user'', ''hi'')]"
    by code_simp
  with rendered_frames_read_back [OF template_ok_init(1) ok] lq fs show ?thesis
    by (metis option.inject)
qed

text \<open>
  A conversation that starts with a tool result is accepted, but its first frame has no
  opening marker: the text begins with the tool result itself.
\<close>
theorem leading_tool_has_no_opener:
  "\<exists>prompt. render_chat QwenChatTemplate
       [\<lparr>role = ''tool'', content = ''42'', reasoning_content = []\<rparr>,
        \<lparr>role = ''user'', content = ''why?'', reasoning_content = []\<rparr>] sample_options = Inr prompt
     \<and> starts_with prompt (NL # ''<tool_response>'') \<and> read_frames prompt = []"
  (is "\<exists>prompt. render_chat _ ?msgs _ = _ \<and> _")
proof -
  have "case render_chat QwenChatTemplate ?msgs sample_options of
      Inr p \<Rightarrow> starts_with p (NL # ''<tool_response>'') \<and> \<not> starts_with p ''<|im_start|>'' | Inl _ \<Rightarrow> False"
    by code_simp
  then show ?thesis by (auto simp: read_frames.simps split: sum.splits)
qed

end
