(* ===== verification/Std_Convert.thy ===== *)
theory Std_Convert
  imports Prelude
begin

text \<open>
  The integer conversions of \<^verbatim>\<open><string>\<close> the program uses: \<^verbatim>\<open>std::stoi\<close>, \<^verbatim>\<open>std::stoll\<close> and
  \<^verbatim>\<open>std::stoull\<close> in base 10. They skip white space, accept a sign, read the longest run of digits
  and ignore what follows; without a digit they throw \<^verbatim>\<open>std::invalid_argument\<close>, out of range
  \<^verbatim>\<open>std::out_of_range\<close>. A minus sign in front of an unsigned number negates it modulo \<open>2 ^ 64\<close>.
\<close>

datatype conv_error = Invalid_number | Number_out_of_range

definition dec_value :: "string \<Rightarrow> nat" where
  "dec_value s = foldl (\<lambda>a c. 10 * a + (of_char c - 48)) 0 s"

text \<open>Sign and digits after white space.\<close>

definition conv_parts :: "string \<Rightarrow> (bool \<times> string) option" where
  "conv_parts s =
     (let t = dropWhile isspace s;
          neg = (t \<noteq> [] \<and> hd t = CHR ''-'');
          u = (if t \<noteq> [] \<and> (hd t = CHR ''-'' \<or> hd t = CHR ''+'') then tl t else t);
          ds = takeWhile isdigit u
      in if ds = [] then None else Some (neg, ds))"

definition sto_signed :: "nat \<Rightarrow> string \<Rightarrow> conv_error + int" where
  "sto_signed w s =
     (case conv_parts s of
        None \<Rightarrow> Inl Invalid_number
      | Some (neg, ds) \<Rightarrow>
          let v = (if neg then - int (dec_value ds) else int (dec_value ds)) in
          if v < - (2 ^ (w - 1)) \<or> 2 ^ (w - 1) \<le> v then Inl Number_out_of_range else Inr v)"

definition stoi :: "string \<Rightarrow> conv_error + int" where "stoi = sto_signed 32"
definition stoll :: "string \<Rightarrow> conv_error + int" where "stoll = sto_signed 64"

definition stoull :: "string \<Rightarrow> conv_error + u64" where
  "stoull s =
     (case conv_parts s of
        None \<Rightarrow> Inl Invalid_number
      | Some (neg, ds) \<Rightarrow>
          if 2 ^ 64 \<le> dec_value ds then Inl Number_out_of_range
          else Inr (if neg then - word_of_nat (dec_value ds) else word_of_nat (dec_value ds)))"


section \<open>Reading back what is printed\<close>

lemma dec_value_append: "dec_value (s @ [c]) = 10 * dec_value s + (of_char c - 48)"
  by (simp add: dec_value_def)

lemma dec_value_nat_digits [simp]: "dec_value (nat_digits n) = n"
proof (induction n rule: nat_digits.induct)
  case (1 n)
  then show ?case
    by (subst nat_digits.simps) (auto simp: dec_value_append, simp add: dec_value_def)
qed

lemma conv_parts_digits:
  assumes "ds \<noteq> []" "\<forall>c \<in> set ds. isdigit c" "rest = [] \<or> \<not> isdigit (hd rest)"
  shows "conv_parts (ds @ rest) = Some (False, ds)"
    and "conv_parts (CHR ''-'' # ds @ rest) = Some (True, ds)"
proof -
  obtain c ds' where ds: "ds = c # ds'" using assms(1) by (cases ds) auto
  then have c: "isdigit c" using assms(2) by simp
  then have "\<not> isspace c" "c \<noteq> CHR ''-''" "c \<noteq> CHR ''+''"
    by (auto simp: isdigit_def isspace_def)
  moreover have "takeWhile isdigit (ds @ rest) = ds"
    using assms(2,3) by (cases rest) (auto simp: takeWhile_append2)
  moreover have "\<not> isspace (CHR ''-'')" by (simp add: isspace_def)
  ultimately show "conv_parts (ds @ rest) = Some (False, ds)"
    "conv_parts (CHR ''-'' # ds @ rest) = Some (True, ds)"
    by (auto simp: conv_parts_def Let_def ds)
qed

lemma nat_digits_parts:
  "conv_parts (nat_digits n) = Some (False, nat_digits n)"
  "conv_parts (CHR ''-'' # nat_digits n) = Some (True, nat_digits n)"
  using conv_parts_digits [of "nat_digits n" "[]"] nat_digits_digits [of n] by (auto simp: list_all_iff)

lemma stoull_to_string: "n < 2 ^ 64 \<Longrightarrow> stoull (to_string n) = Inr (word_of_nat n)"
  by (simp add: stoull_def to_string_def nat_digits_parts)

lemma sto_signed_to_string:
  assumes "- (2 ^ (w - 1)) \<le> i" "i < 2 ^ (w - 1)"
  shows "sto_signed w (to_string_int i) = Inr i"
  using assms by (auto simp: sto_signed_def to_string_int_def nat_digits_parts Let_def)

end
