(* ===== verification/Weights.thy ===== *)
theory Weights
  imports Complex_Main Reader Arena KV_Cache Std_Convert "HOL-Library.Signed_Division"
begin

text \<open>
  \<^verbatim>\<open>src/targets/qwen3_8_27b/weights.h\<close> and \<^verbatim>\<open>weights.cpp\<close>: the model configuration, its checks
  against the metadata of the artifact, and loading the sections of the artifact into device
  memory. Device allocations are numbered, and \<open>usm n align bytes\<close> is the pointer
  \<^verbatim>\<open>sycl::aligned_alloc_device\<close> returns for the \<open>n\<close>-th of them (0 when it fails); \<open>stof\<close> is
  \<^verbatim>\<open>std::stof\<close> and \<open>f32\<close> the rounding of a float operation. Messages for the log are not modelled.
\<close>


section \<open>Configuration\<close>

record model_config =
  hidden_size :: int
  intermediate_size :: int
  num_hidden_layers :: int
  num_attention_heads :: int
  num_key_value_heads :: int
  cfg_head_dim :: int
  vocab_size :: int
  rms_norm_eps :: rat
  rope_theta :: rat
  rope_dim :: int
  group_size :: int
  cfg_linear_conv_channels :: int
  cfg_linear_conv_kernel_dim :: int
  cfg_linear_num_v_heads :: int
  linear_num_k_heads :: int
  cfg_linear_head_k_dim :: int
  cfg_linear_head_v_dim :: int
  linear_z_dim :: int
  linear_b_dim :: int
  linear_a_dim :: int
  linear_norm_dim :: int
  full_attention_interval :: int
  layer_types :: "string list"
  has_vision :: bool
  vision_width :: int
  vision_layers :: int
  vision_heads :: int
  vision_mlp_ratio :: int
  vision_patch_size :: int
  cfg_patches_per_image :: int
  max_image_resolution :: int
  max_aspect_ratio :: rat
  visual_token_start :: int
  visual_token_end :: int
  image_pad_token_id :: int
  cfg_quant_scheme :: string
  is_int8_kv :: bool

definition ModelConfig :: "(rat \<Rightarrow> rat) \<Rightarrow> model_config" where
  "ModelConfig f32 = \<lparr>hidden_size = 5120, intermediate_size = 17408, num_hidden_layers = 64,
     num_attention_heads = 24, num_key_value_heads = 4, cfg_head_dim = 256, vocab_size = 248320,
     rms_norm_eps = f32 (1 / 10 ^ 6), rope_theta = 10000000, rope_dim = 64, group_size = 128,
     cfg_linear_conv_channels = 10240, cfg_linear_conv_kernel_dim = 4, cfg_linear_num_v_heads = 48,
     linear_num_k_heads = 16, cfg_linear_head_k_dim = 128, cfg_linear_head_v_dim = 128,
     linear_z_dim = 6144, linear_b_dim = 48, linear_a_dim = 48, linear_norm_dim = 128,
     full_attention_interval = 4, layer_types = [], has_vision = False, vision_width = 1024,
     vision_layers = 24, vision_heads = 16, vision_mlp_ratio = 4, vision_patch_size = 14,
     cfg_patches_per_image = 256, max_image_resolution = 1024, max_aspect_ratio = 4, visual_token_start = 248000,
     visual_token_end = 248319, image_pad_token_id = 248064, cfg_quant_scheme = [],
     is_int8_kv = False\<rparr>"

definition full_q_gate_dim :: "model_config \<Rightarrow> int" where
  "full_q_gate_dim c = num_attention_heads c * cfg_head_dim c * 2"
definition full_q_dim :: "model_config \<Rightarrow> int" where
  "full_q_dim c = num_attention_heads c * cfg_head_dim c"
definition full_k_dim :: "model_config \<Rightarrow> int" where
  "full_k_dim c = num_key_value_heads c * cfg_head_dim c"
definition full_v_dim :: "model_config \<Rightarrow> int" where
  "full_v_dim c = num_key_value_heads c * cfg_head_dim c"
definition full_out_dim :: "model_config \<Rightarrow> int" where
  "full_out_dim c = num_attention_heads c * cfg_head_dim c"
definition linear_out_dim :: "model_config \<Rightarrow> int" where
  "linear_out_dim c = cfg_linear_num_v_heads c * cfg_linear_head_v_dim c"

definition default_interval :: "model_config \<Rightarrow> int" where
  "default_interval c = (if full_attention_interval c > 0 then full_attention_interval c else 4)"

definition count_full_layers :: "model_config \<Rightarrow> int" where
  "count_full_layers c =
     (if layer_types c \<noteq> [] then int (length (filter (\<lambda>t. t = ''full_attention'') (layer_types c)))
      else int (length (filter (\<lambda>l. int l mod default_interval c = default_interval c - 1)
             [0..<nat (num_hidden_layers c)])))"

definition count_linear_layers :: "model_config \<Rightarrow> int" where
  "count_linear_layers c = num_hidden_layers c - count_full_layers c"

definition is_full_attention_layer :: "model_config \<Rightarrow> int \<Rightarrow> bool" where
  "is_full_attention_layer c l =
     (if 0 \<le> l \<and> l < int (length (layer_types c)) then layer_types c ! nat l = ''full_attention''
      else l smod default_interval c = default_interval c - 1)"

definition create_kv_cache_config :: "model_config \<Rightarrow> u64 \<Rightarrow> bool \<Rightarrow> kv_config" where
  "create_kv_cache_config c max_len use_int8_kv =
     \<lparr>max_seq_len = max_len,
      num_full_layers = word_of_int (count_full_layers c),
      num_linear_layers = word_of_int (count_linear_layers c),
      num_kv_heads = word_of_int (num_key_value_heads c),
      head_dim = word_of_int (cfg_head_dim c),
      linear_num_v_heads = word_of_int (cfg_linear_num_v_heads c),
      linear_head_k_dim = word_of_int (cfg_linear_head_k_dim c),
      linear_head_v_dim = word_of_int (cfg_linear_head_v_dim c),
      linear_conv_channels = word_of_int (cfg_linear_conv_channels c),
      linear_conv_kernel_dim = word_of_int (cfg_linear_conv_kernel_dim c),
      kv_dtype = (if use_int8_kv \<or> is_int8_kv c then INT8 else FP16),
      artifact_quant_scheme = cfg_quant_scheme c\<rparr>"


section \<open>Failures and the state of loading\<close>

datatype weights_error =
    Context_null
  | Artifact_not_open
  | Quant_scheme_mismatch int
  | Missing_property string
  | Property_mismatch string
  | Malformed_property string conv_error
  | Interval_not_positive int
  | Section_unreadable string reader_error
  | Section_size_mismatch string u64 nat
  | Null_allocation string
  | Layer_types_count nat
  | Layer_type_mismatch nat string string

text \<open>
  \<^verbatim>\<open>load_from_artifact\<close> returns \<^verbatim>\<open>nullptr\<close>, lets an exception escape, or is undefined (a section
  name that is not terminated, see \<^verbatim>\<open>reader.cpp\<close>).
\<close>

datatype load_fault = Returns_null weights_error | Throws_conversion conv_error | Throws_bad_alloc | Undefined_read

record load_state =
  ls_reader :: artifact_reader
  ls_ptrs :: "u64 list"
  ls_calls :: nat
  ls_device :: "(u64 \<times> bytes) list"

type_synonym 'a loader = "load_state \<Rightarrow> (load_fault + 'a) \<times> load_state"

definition load_bind :: "'a loader \<Rightarrow> ('a \<Rightarrow> 'b loader) \<Rightarrow> 'b loader" where
  "load_bind m f = (\<lambda>s. case m s of (Inl e, s') \<Rightarrow> (Inl e, s') | (Inr x, s') \<Rightarrow> f x s')"

definition load_return :: "'a \<Rightarrow> 'a loader" where
  "load_return x = (\<lambda>s. (Inr x, s))"

definition load_fail :: "weights_error \<Rightarrow> 'a loader" where
  "load_fail e = (\<lambda>s. (Inl (Returns_null e), s))"

definition load_guard :: "weights_error option \<Rightarrow> unit loader" where
  "load_guard e = (case e of None \<Rightarrow> load_return () | Some e \<Rightarrow> load_fail e)"


section \<open>Metadata checks\<close>

text \<open>
  A property that is required to have a given integer value, one that is only checked when it is
  present, and one that is a float.
\<close>

definition validate_int_prop :: "artifact_metadata \<Rightarrow> string \<Rightarrow> int \<Rightarrow> weights_error option" where
  "validate_int_prop meta key expected_val =
     (case map_of (properties meta) key of
        None \<Rightarrow> Some (Missing_property key)
      | Some v \<Rightarrow>
          if v = [] then Some (Missing_property key)
          else (case stoll v of
                  Inl e \<Rightarrow> Some (Malformed_property key e)
                | Inr actual_val \<Rightarrow> if actual_val \<noteq> expected_val then Some (Property_mismatch key) else None))"

definition validate_optional_int_prop :: "artifact_metadata \<Rightarrow> string \<Rightarrow> int \<Rightarrow> weights_error option" where
  "validate_optional_int_prop meta key expected_val =
     (case map_of (properties meta) key of
        None \<Rightarrow> None
      | Some v \<Rightarrow> if v = [] then None else validate_int_prop meta key expected_val)"

datatype f32_value = Finite rat | Infinite | Not_a_number

definition validate_float_prop ::
    "(string \<Rightarrow> conv_error + f32_value) \<Rightarrow> (rat \<Rightarrow> rat) \<Rightarrow> artifact_metadata \<Rightarrow> string \<Rightarrow> rat \<Rightarrow> rat
     \<Rightarrow> weights_error option" where
  "validate_float_prop stof f32 meta key expected_val tol =
     (case map_of (properties meta) key of
        None \<Rightarrow> Some (Missing_property key)
      | Some v \<Rightarrow>
          if v = [] then Some (Missing_property key)
          else (case stof v of
                  Inl e \<Rightarrow> Some (Malformed_property key e)
                | Inr (Finite q) \<Rightarrow>
                    if tol < \<bar>f32 (q - expected_val)\<bar> then Some (Property_mismatch key) else None
                | Inr Infinite \<Rightarrow> Some (Property_mismatch key)
                | Inr Not_a_number \<Rightarrow> None))"

definition first_error :: "weights_error option list \<Rightarrow> weights_error option" where
  "first_error es = (case filter (\<lambda>e. e \<noteq> None) es of [] \<Rightarrow> None | e # _ \<Rightarrow> e)"

definition required_props ::
    "(string \<Rightarrow> conv_error + f32_value) \<Rightarrow> (rat \<Rightarrow> rat) \<Rightarrow> artifact_metadata \<Rightarrow> model_config
     \<Rightarrow> weights_error option" where
  "required_props stof f32 meta c = first_error
     [validate_int_prop meta ''hidden_size'' (hidden_size c),
      validate_int_prop meta ''intermediate_size'' (intermediate_size c),
      validate_int_prop meta ''num_hidden_layers'' (num_hidden_layers c),
      validate_int_prop meta ''num_attention_heads'' (num_attention_heads c),
      validate_int_prop meta ''num_key_value_heads'' (num_key_value_heads c),
      validate_int_prop meta ''head_dim'' (cfg_head_dim c),
      validate_int_prop meta ''vocab_size'' (vocab_size c),
      validate_float_prop stof f32 meta ''rms_norm_eps'' (rms_norm_eps c) (f32 (1 / 10 ^ 7)),
      validate_float_prop stof f32 meta ''rope_theta'' (rope_theta c) 1,
      validate_int_prop meta ''full_attention_interval'' (full_attention_interval c)]"

definition optional_props :: "artifact_metadata \<Rightarrow> model_config \<Rightarrow> weights_error option" where
  "optional_props meta c = first_error
     [validate_optional_int_prop meta ''linear_conv_channels'' (cfg_linear_conv_channels c),
      validate_optional_int_prop meta ''linear_conv_kernel_dim'' (cfg_linear_conv_kernel_dim c),
      validate_optional_int_prop meta ''linear_num_v_heads'' (cfg_linear_num_v_heads c),
      validate_optional_int_prop meta ''linear_num_k_heads'' (linear_num_k_heads c),
      validate_optional_int_prop meta ''linear_head_k_dim'' (cfg_linear_head_k_dim c),
      validate_optional_int_prop meta ''linear_head_v_dim'' (cfg_linear_head_v_dim c),
      validate_optional_int_prop meta ''linear_z_dim'' (linear_z_dim c)]"

text \<open>The group size in a scheme \<^verbatim>\<open>INT4-G<n>-SYM...\<close>; \<^verbatim>\<open>std::stoi\<close> may throw here.\<close>

definition scheme_group_size :: "string \<Rightarrow> (conv_error + int) option" where
  "scheme_group_size scheme =
     (if starts_with scheme ''INT4-G''
      then (case find_sub_from ''-SYM'' scheme 6 of
              None \<Rightarrow> None
            | Some end_pos \<Rightarrow> Some (stoi (slice 6 (end_pos - 6) scheme)))
      else None)"

definition scheme_check :: "artifact_metadata \<Rightarrow> model_config \<Rightarrow> load_fault option" where
  "scheme_check meta c =
     (if quant_scheme meta = [] then None
      else case scheme_group_size (quant_scheme meta) of
             None \<Rightarrow> None
           | Some (Inl e) \<Rightarrow> Some (Throws_conversion e)
           | Some (Inr g) \<Rightarrow> if g \<noteq> group_size c then Some (Returns_null (Quant_scheme_mismatch g)) else None)"

definition int8_kv_scheme :: "artifact_metadata \<Rightarrow> bool" where
  "int8_kv_scheme meta \<longleftrightarrow> contains (quant_scheme meta) ''INT8-KV''
     \<or> map_of (properties meta) ''kv_quant_scheme'' = Some ''INT8-KV''"

text \<open>
  Everything \<^verbatim>\<open>load_from_artifact\<close> decides from the metadata alone: the configuration, or why not.
  The checks of the vision properties only log.
\<close>

definition configure ::
    "(string \<Rightarrow> conv_error + f32_value) \<Rightarrow> (rat \<Rightarrow> rat) \<Rightarrow> artifact_metadata \<Rightarrow> load_fault + model_config" where
  "configure stof f32 meta =
     (let c0 = (ModelConfig f32)\<lparr>cfg_quant_scheme := quant_scheme meta, is_int8_kv := int8_kv_scheme meta\<rparr> in
      case scheme_check meta c0 of
        Some e \<Rightarrow> Inl e
      | None \<Rightarrow>
          (case map_of (properties meta) ''full_attention_interval'' of
             None \<Rightarrow> Inl (Returns_null (Missing_property ''full_attention_interval''))
           | Some v \<Rightarrow>
               if v = [] then Inl (Returns_null (Missing_property ''full_attention_interval''))
               else
                 (case stoll v of
                    Inl e \<Rightarrow> Inl (Returns_null (Malformed_property ''full_attention_interval'' e))
                  | Inr i \<Rightarrow>
                      if i \<le> 0 then Inl (Returns_null (Interval_not_positive i))
                      else
                        let c1 = c0\<lparr>full_attention_interval := i\<rparr> in
                        case required_props stof f32 meta c1 of
                          Some e \<Rightarrow> Inl (Returns_null e)
                        | None \<Rightarrow>
                            (case optional_props meta c1 of
                               Some e \<Rightarrow> Inl (Returns_null e)
                             | None \<Rightarrow>
                                 Inr (case map_of (properties meta) ''has_vision'' of
                                        None \<Rightarrow> c1
                                      | Some b \<Rightarrow> c1\<lparr>has_vision := (b = ''true'' \<or> b = ''1'')\<rparr>)))))"


section \<open>Sections into device memory\<close>

record load_env =
  env_max_alloc :: nat
  env_usm :: "nat \<Rightarrow> u64 \<Rightarrow> u64 \<Rightarrow> u64"
  env_add_one :: "u32 \<Rightarrow> u32"

definition load_section :: "load_env \<Rightarrow> string \<Rightarrow> bytes loader" where
  "load_section env name = (\<lambda>s.
     case read_section (env_max_alloc env) (ls_reader s) name of
       (Done bs, r) \<Rightarrow> (Inr bs, s\<lparr>ls_reader := r\<rparr>)
     | (Error e, r) \<Rightarrow> (Inl (Returns_null (Section_unreadable name e)), s\<lparr>ls_reader := r\<rparr>)
     | (Throws_alloc, r) \<Rightarrow> (Inl Throws_bad_alloc, s\<lparr>ls_reader := r\<rparr>)
     | (Overread, r) \<Rightarrow> (Inl Undefined_read, s\<lparr>ls_reader := r\<rparr>))"

definition alloc_dev :: "load_env \<Rightarrow> nat \<Rightarrow> u64 loader" where
  "alloc_dev env bytes = (\<lambda>s.
     case allocate_device (env_usm env (ls_calls s)) (word_of_nat bytes) 64 of
       Inl _ \<Rightarrow> (Inl Throws_bad_alloc, s\<lparr>ls_calls := Suc (ls_calls s)\<rparr>)
     | Inr ptr \<Rightarrow> (Inr ptr, s\<lparr>ls_calls := Suc (ls_calls s),
                     ls_ptrs := (if ptr \<noteq> 0 then ls_ptrs s @ [ptr] else ls_ptrs s)\<rparr>))"

definition copy_host_to_device :: "u64 \<Rightarrow> bytes \<Rightarrow> unit loader" where
  "copy_host_to_device dst src = (\<lambda>s.
     (Inr (), if src = [] \<or> dst = 0 then s else s\<lparr>ls_device := ls_device s @ [(dst, src)]\<rparr>))"

definition expect_size :: "string \<Rightarrow> u64 \<Rightarrow> bytes \<Rightarrow> unit loader" where
  "expect_size name expected bs =
     load_guard (if word_of_nat (length bs) \<noteq> expected
                 then Some (Section_size_mismatch name expected (length bs)) else None)"

text \<open>Allocate and copy; a null pointer makes the view invalid, and every caller then gives up.\<close>

definition to_device :: "load_env \<Rightarrow> string \<Rightarrow> bytes \<Rightarrow> u64 loader" where
  "to_device env name bs =
     load_bind (alloc_dev env (length bs)) (\<lambda>ptr.
     load_bind (copy_host_to_device ptr bs) (\<lambda>_.
     if ptr = 0 then load_fail (Null_allocation name) else load_return ptr))"

record linear_view =
  d_weights_int4 :: u64
  d_scales :: u64
  in_features :: int
  out_features :: int
  view_group_size :: int

definition LinearWeightView :: linear_view where
  "LinearWeightView = \<lparr>d_weights_int4 = 0, d_scales = 0, in_features = 0, out_features = 0, view_group_size = 128\<rparr>"

definition is_valid :: "linear_view \<Rightarrow> bool" where
  "is_valid v \<longleftrightarrow> d_weights_int4 v \<noteq> 0 \<and> d_scales v \<noteq> 0"

definition weight_bytes :: "int \<Rightarrow> int \<Rightarrow> u64" where
  "weight_bytes out_f in_f = word_of_int out_f * word_of_int (in_f sdiv 2)"

definition scale_section_bytes :: "int \<Rightarrow> int \<Rightarrow> int \<Rightarrow> u64" where
  "scale_section_bytes out_f in_f g = word_of_int out_f * word_of_int (in_f sdiv g) * 2"

definition load_linear :: "load_env \<Rightarrow> model_config \<Rightarrow> string \<Rightarrow> int \<Rightarrow> int \<Rightarrow> linear_view loader" where
  "load_linear env c name out_f in_f =
     load_bind (load_section env name) (\<lambda>host_w.
     load_bind (expect_size name (weight_bytes out_f in_f) host_w) (\<lambda>_.
     load_bind (to_device env name host_w) (\<lambda>w_ptr.
     load_bind (load_section env (name @ ''.scales'')) (\<lambda>host_s.
     load_bind (expect_size (name @ ''.scales'') (scale_section_bytes out_f in_f (group_size c)) host_s) (\<lambda>_.
     load_bind (to_device env (name @ ''.scales'') host_s) (\<lambda>s_ptr.
     load_return \<lparr>d_weights_int4 = w_ptr, d_scales = s_ptr, in_features = in_f, out_features = out_f,
       view_group_size = group_size c\<rparr>))))))"

definition bf16_to_fp32 :: "u16 \<Rightarrow> u32" where
  "bf16_to_fp32 b = push_bit 16 (ucast b)"

fun u16s :: "bytes \<Rightarrow> u16 list" where
  "u16s (a # b # bs) = (ucast a OR push_bit 8 (ucast b)) # u16s bs"
| "u16s _ = []"

definition widen_bf16 :: "load_env \<Rightarrow> bool \<Rightarrow> bytes \<Rightarrow> bytes" where
  "widen_bf16 env add_unit_offset raw =
     concat (map (\<lambda>b. le_bytes 4 (let v = bf16_to_fp32 b in if add_unit_offset then env_add_one env v else v))
       (u16s raw))"

definition load_bf16_as_fp32 :: "load_env \<Rightarrow> string \<Rightarrow> int \<Rightarrow> bool \<Rightarrow> u64 loader" where
  "load_bf16_as_fp32 env name num_elements add_unit_offset =
     load_bind (load_section env name) (\<lambda>host_raw.
     load_bind (expect_size name (word_of_int num_elements * 2) host_raw) (\<lambda>_.
     to_device env name (widen_bf16 env add_unit_offset host_raw)))"

text \<open>A vision tensor: a missing or mis-sized section gives a null pointer and loading goes on.\<close>

definition load_fp16 :: "load_env \<Rightarrow> string \<Rightarrow> int \<Rightarrow> u64 loader" where
  "load_fp16 env name num_elements = (\<lambda>s.
     case load_bind (load_section env name) (\<lambda>host_raw.
          load_bind (expect_size name (word_of_int num_elements * 2) host_raw) (\<lambda>_.
          load_bind (alloc_dev env (length host_raw)) (\<lambda>ptr.
          load_bind (copy_host_to_device ptr host_raw) (\<lambda>_. load_return ptr)))) s of
       (Inl (Returns_null _), s') \<Rightarrow> (Inr 0, s')
     | res \<Rightarrow> res)"


section \<open>Layers\<close>

record layer_weights =
  layer_idx :: nat
  layer_type :: string
  d_input_layernorm :: u64
  d_post_attention_layernorm :: u64
  q_proj :: linear_view
  k_proj :: linear_view
  v_proj :: linear_view
  o_proj :: linear_view
  d_q_norm :: u64
  d_k_norm :: u64
  in_proj_qkv :: linear_view
  in_proj_z :: linear_view
  in_proj_b :: linear_view
  in_proj_a :: linear_view
  out_proj :: linear_view
  d_conv1d_weight :: u64
  d_A_log :: u64
  d_dt_bias :: u64
  d_norm_weight :: u64
  gate_proj :: linear_view
  up_proj :: linear_view
  down_proj :: linear_view

definition LayerWeights :: layer_weights where
  "LayerWeights = \<lparr>layer_idx = 0, layer_type = [], d_input_layernorm = 0, d_post_attention_layernorm = 0,
     q_proj = LinearWeightView, k_proj = LinearWeightView, v_proj = LinearWeightView, o_proj = LinearWeightView,
     d_q_norm = 0, d_k_norm = 0, in_proj_qkv = LinearWeightView, in_proj_z = LinearWeightView,
     in_proj_b = LinearWeightView, in_proj_a = LinearWeightView, out_proj = LinearWeightView,
     d_conv1d_weight = 0, d_A_log = 0, d_dt_bias = 0, d_norm_weight = 0, gate_proj = LinearWeightView,
     up_proj = LinearWeightView, down_proj = LinearWeightView\<rparr>"

text \<open>\<^verbatim>\<open>parse_layer_types_json\<close>: the string after an opening quote, and the list.\<close>

fun lt_scan :: "string \<Rightarrow> string \<times> string" where
  "lt_scan [] = ([], [])"
| "lt_scan [c] = (if c = CHR 0x22 then ([], [c]) else ([c], []))"
| "lt_scan (c # d # s) =
     (if c = CHR 0x22 then ([], c # d # s)
      else if c = CHR 0x5C then (case lt_scan s of (a, r) \<Rightarrow> (c # d # a, r))
      else (case lt_scan (d # s) of (a, r) \<Rightarrow> (c # a, r)))"

lemma lt_scan_length: "length (snd (lt_scan s)) \<le> length s"
  by (induction s rule: lt_scan.induct) (auto split: prod.splits)

function lt_loop :: "string \<Rightarrow> string list" where
  "lt_loop s =
     (case dropWhile (\<lambda>c. c \<in> {CHR '' '', CHR 0x09, CHR 0x0D, CHR 0x0A, CHR '',''}) s of
        [] \<Rightarrow> []
      | c # r \<Rightarrow>
          if c = CHR '']'' then []
          else if c = CHR 0x22 then fst (lt_scan r) # lt_loop (tl (snd (lt_scan r)))
          else lt_loop r)"
  by pat_completeness auto
termination
proof (relation "measure length", goal_cases)
  case (2 s c r)
  then have "length (c # r) \<le> length s" by (metis length_dropWhile_le)
  then show ?case using lt_scan_length [of r] by simp
next
  case (3 s c r)
  then have "length (c # r) \<le> length s" by (metis length_dropWhile_le)
  then show ?case by simp
qed simp

definition parse_layer_types_json :: "string \<Rightarrow> string list" where
  "parse_layer_types_json s = (case dropWhile (\<lambda>c. c \<noteq> CHR ''['') s of [] \<Rightarrow> [] | _ # r \<Rightarrow> lt_loop r)"

definition layer_prefix :: "nat \<Rightarrow> string" where
  "layer_prefix l = ''model.language_model.layers.'' @ to_string l"

definition expected_by_interval :: "model_config \<Rightarrow> nat \<Rightarrow> string" where
  "expected_by_interval c l =
     (if int l mod full_attention_interval c = full_attention_interval c - 1
      then ''full_attention'' else ''linear_attention'')"

definition detect_layer_type :: "model_config \<Rightarrow> string list \<Rightarrow> artifact_reader \<Rightarrow> nat \<Rightarrow> string" where
  "detect_layer_type c meta_layer_types r l =
     (let full = has_section r (layer_prefix l @ ''.self_attn.q_proj.weight'');
          linear = has_section r (layer_prefix l @ ''.linear_attn.in_proj_qkv.weight'')
      in if full \<and> \<not> linear then ''full_attention''
         else if linear \<and> \<not> full then ''linear_attention''
         else if l < length meta_layer_types then meta_layer_types ! l
         else expected_by_interval c l)"

definition check_layer_type ::
    "model_config \<Rightarrow> string list \<Rightarrow> artifact_reader \<Rightarrow> nat \<Rightarrow> weights_error option" where
  "check_layer_type c meta_layer_types r l =
     (if full_attention_interval c \<le> 0 then Some (Interval_not_positive (full_attention_interval c))
      else
        let detected = detect_layer_type c meta_layer_types r l;
            required = (if l < length meta_layer_types then meta_layer_types ! l else expected_by_interval c l)
        in if detected \<noteq> required then Some (Layer_type_mismatch l detected required) else None)"

text \<open>The three groups of tensors of a layer, in the order they are read.\<close>

definition load_common :: "load_env \<Rightarrow> model_config \<Rightarrow> nat \<Rightarrow> layer_weights loader" where
  "load_common env c l =
     (let prefix = layer_prefix l in
     load_bind (load_bf16_as_fp32 env (prefix @ ''.input_layernorm.weight'') (hidden_size c) True) (\<lambda>inorm.
     load_bind (load_bf16_as_fp32 env (prefix @ ''.post_attention_layernorm.weight'') (hidden_size c) True) (\<lambda>pnorm.
     load_bind (load_linear env c (prefix @ ''.mlp.gate_proj.weight'') (intermediate_size c) (hidden_size c)) (\<lambda>gate.
     load_bind (load_linear env c (prefix @ ''.mlp.up_proj.weight'') (intermediate_size c) (hidden_size c)) (\<lambda>up.
     load_bind (load_linear env c (prefix @ ''.mlp.down_proj.weight'') (hidden_size c) (intermediate_size c)) (\<lambda>down.
     load_return (LayerWeights\<lparr>layer_idx := l, d_input_layernorm := inorm, d_post_attention_layernorm := pnorm,
       gate_proj := gate, up_proj := up, down_proj := down\<rparr>)))))))"

definition load_full_attention :: "load_env \<Rightarrow> model_config \<Rightarrow> layer_weights \<Rightarrow> layer_weights loader" where
  "load_full_attention env c lw =
     (let prefix = layer_prefix (layer_idx lw) in
     load_bind (load_linear env c (prefix @ ''.self_attn.q_proj.weight'') (full_q_gate_dim c) (hidden_size c)) (\<lambda>q.
     load_bind (load_linear env c (prefix @ ''.self_attn.k_proj.weight'') (full_k_dim c) (hidden_size c)) (\<lambda>k.
     load_bind (load_linear env c (prefix @ ''.self_attn.v_proj.weight'') (full_v_dim c) (hidden_size c)) (\<lambda>v.
     load_bind (load_linear env c (prefix @ ''.self_attn.o_proj.weight'') (hidden_size c) (full_out_dim c)) (\<lambda>out.
     load_bind (load_bf16_as_fp32 env (prefix @ ''.self_attn.q_norm.weight'') (cfg_head_dim c) True) (\<lambda>qn.
     load_bind (load_bf16_as_fp32 env (prefix @ ''.self_attn.k_norm.weight'') (cfg_head_dim c) True) (\<lambda>kn.
     load_return (lw\<lparr>q_proj := q, k_proj := k, v_proj := v, o_proj := out, d_q_norm := qn, d_k_norm := kn\<rparr>))))))))"

definition load_linear_attention :: "load_env \<Rightarrow> model_config \<Rightarrow> layer_weights \<Rightarrow> layer_weights loader" where
  "load_linear_attention env c lw =
     (let prefix = layer_prefix (layer_idx lw) in
     load_bind (load_linear env c (prefix @ ''.linear_attn.in_proj_qkv.weight'') (cfg_linear_conv_channels c) (hidden_size c)) (\<lambda>qkv.
     load_bind (load_linear env c (prefix @ ''.linear_attn.in_proj_z.weight'') (linear_z_dim c) (hidden_size c)) (\<lambda>z.
     load_bind (load_linear env c (prefix @ ''.linear_attn.in_proj_b.weight'') (linear_b_dim c) (hidden_size c)) (\<lambda>b.
     load_bind (load_linear env c (prefix @ ''.linear_attn.in_proj_a.weight'') (linear_a_dim c) (hidden_size c)) (\<lambda>a.
     load_bind (load_linear env c (prefix @ ''.linear_attn.out_proj.weight'') (hidden_size c) (linear_z_dim c)) (\<lambda>out.
     load_bind (load_bf16_as_fp32 env (prefix @ ''.linear_attn.conv1d.weight'')
       (cfg_linear_conv_channels c * cfg_linear_conv_kernel_dim c) False) (\<lambda>conv.
     load_bind (load_bf16_as_fp32 env (prefix @ ''.linear_attn.A_log'') (cfg_linear_num_v_heads c) False) (\<lambda>alog.
     load_bind (load_bf16_as_fp32 env (prefix @ ''.linear_attn.dt_bias'') (cfg_linear_num_v_heads c) False) (\<lambda>dt.
     load_bind (load_bf16_as_fp32 env (prefix @ ''.linear_attn.norm.weight'') (linear_norm_dim c) False) (\<lambda>nw.
     load_return (lw\<lparr>layer_type := ''linear_attention'', in_proj_qkv := qkv, in_proj_z := z, in_proj_b := b,
       in_proj_a := a, out_proj := out, d_conv1d_weight := conv, d_A_log := alog, d_dt_bias := dt,
       d_norm_weight := nw\<rparr>)))))))))))"

definition get_reader :: "artifact_reader loader" where
  "get_reader = (\<lambda>s. (Inr (ls_reader s), s))"

text \<open>One layer; the result is the entry of \<^verbatim>\<open>config_.layer_types\<close> and the weights.\<close>

definition load_layer ::
    "load_env \<Rightarrow> model_config \<Rightarrow> string list \<Rightarrow> nat \<Rightarrow> (string \<times> layer_weights) loader" where
  "load_layer env c meta_layer_types l =
     load_bind (load_common env c l) (\<lambda>lw.
     load_bind get_reader (\<lambda>r.
     load_bind (load_guard (check_layer_type c meta_layer_types r l)) (\<lambda>_.
     let t = detect_layer_type c meta_layer_types r l; lw' = lw\<lparr>layer_type := t\<rparr> in
     load_bind (if t = ''full_attention'' then load_full_attention env c lw' else load_linear_attention env c lw')
       (\<lambda>done_lw. load_return (t, done_lw)))))"

fun load_layers ::
    "load_env \<Rightarrow> model_config \<Rightarrow> string list \<Rightarrow> nat list \<Rightarrow> (string \<times> layer_weights) list loader" where
  "load_layers env c meta_layer_types [] = load_return []"
| "load_layers env c meta_layer_types (l # ls) =
     load_bind (load_layer env c meta_layer_types l) (\<lambda>x.
     load_bind (load_layers env c meta_layer_types ls) (\<lambda>xs. load_return (x # xs)))"


section \<open>The model\<close>

record vision_weights =
  vis_valid :: bool
  d_patch_embed_weight :: u64
  d_patch_embed_bias :: u64
  d_pos_embed :: u64
  d_projector_fc1_weight :: u64
  d_projector_fc1_bias :: u64

definition VisionWeights :: vision_weights where
  "VisionWeights = \<lparr>vis_valid = False, d_patch_embed_weight = 0, d_patch_embed_bias = 0, d_pos_embed = 0,
     d_projector_fc1_weight = 0, d_projector_fc1_bias = 0\<rparr>"

record loaded_model =
  lm_config :: model_config
  d_embed_tokens :: u64
  d_final_norm :: u64
  lm_head :: linear_view
  lm_layers :: "layer_weights list"
  lm_vision :: vision_weights

definition if_section :: "load_env \<Rightarrow> string \<Rightarrow> int \<Rightarrow> u64 loader" where
  "if_section env name n = load_bind get_reader (\<lambda>r.
     if has_section r name then load_fp16 env name n else load_return 0)"

definition load_vision :: "load_env \<Rightarrow> model_config \<Rightarrow> (model_config \<times> vision_weights) loader" where
  "load_vision env c =
     load_bind get_reader (\<lambda>r.
     if \<not> (has_vision c \<or> has_section r ''visual.patch_embed.weight'') then load_return (c, VisionWeights)
     else
     load_bind (if_section env ''visual.patch_embed.weight''
       (vision_width c * (3 * vision_patch_size c * vision_patch_size c))) (\<lambda>pw.
     load_bind (if_section env ''visual.patch_embed.bias'' (vision_width c)) (\<lambda>pb.
     load_bind (if_section env ''visual.pos_embed'' (cfg_patches_per_image c * vision_width c)) (\<lambda>pos.
     load_bind (if_section env ''visual.projector.weight'' (hidden_size c * vision_width c)) (\<lambda>fw.
     load_bind (if_section env ''visual.projector.bias'' (hidden_size c)) (\<lambda>fb.
     load_return (c\<lparr>has_vision := (pw \<noteq> 0)\<rparr>, \<lparr>vis_valid = (pw \<noteq> 0), d_patch_embed_weight = pw,
       d_patch_embed_bias = pb, d_pos_embed = pos, d_projector_fc1_weight = fw,
       d_projector_fc1_bias = fb\<rparr>)))))))"

definition meta_types :: "artifact_metadata \<Rightarrow> string list" where
  "meta_types meta =
     (case map_of (properties meta) ''layer_types'' of
        None \<Rightarrow> []
      | Some v \<Rightarrow> if v = [] then [] else parse_layer_types_json v)"

definition load_tensors :: "load_env \<Rightarrow> artifact_metadata \<Rightarrow> model_config \<Rightarrow> loaded_model loader" where
  "load_tensors env meta c =
     (let embed_name = ''model.language_model.embed_tokens.weight''; types = meta_types meta in
     load_bind (load_section env embed_name) (\<lambda>host_embed.
     load_bind (expect_size embed_name (word_of_int (vocab_size c) * word_of_int (hidden_size c) * 2) host_embed) (\<lambda>_.
     load_bind (alloc_dev env (length host_embed)) (\<lambda>embed.
     load_bind (copy_host_to_device embed host_embed) (\<lambda>_.
     load_bind (load_bf16_as_fp32 env ''model.language_model.norm.weight'' (hidden_size c) True) (\<lambda>fnorm.
     load_bind (load_linear env c ''lm_head.weight'' (vocab_size c) (hidden_size c)) (\<lambda>head.
     load_bind (load_guard (if types \<noteq> [] \<and> length types \<noteq> nat (num_hidden_layers c)
                            then Some (Layer_types_count (length types)) else None)) (\<lambda>_.
     load_bind (load_layers env c types [0..<nat (num_hidden_layers c)]) (\<lambda>ls.
     load_bind (load_vision env (c\<lparr>layer_types := map fst ls\<rparr>)) (\<lambda>(c', vis).
     load_return \<lparr>lm_config = c', d_embed_tokens = embed, d_final_norm = fnorm, lm_head = head,
       lm_layers = map snd ls, lm_vision = vis\<rparr>))))))))))"

text \<open>The destructor: the pointers it frees.\<close>

definition LoadedModel_destroy :: "bool \<Rightarrow> u64 list \<Rightarrow> u64 list" where
  "LoadedModel_destroy ctx ptrs = (if ctx then filter (\<lambda>p. p \<noteq> 0) ptrs else [])"

text \<open>
  The whole function: what it returns, the state it leaves, and the device pointers freed on the
  way out. On every failure the local \<^verbatim>\<open>unique_ptr\<close> destroys the model.
\<close>

definition load_from_artifact ::
    "load_env \<Rightarrow> (string \<Rightarrow> conv_error + f32_value) \<Rightarrow> (rat \<Rightarrow> rat) \<Rightarrow> bool \<Rightarrow> artifact_reader
     \<Rightarrow> (load_fault + loaded_model) \<times> load_state \<times> u64 list" where
  "load_from_artifact env stof f32 ctx reader =
     (let s0 = \<lparr>ls_reader = reader, ls_ptrs = [], ls_calls = 0, ls_device = []\<rparr> in
      if \<not> ctx then (Inl (Returns_null Context_null), s0, [])
      else if \<not> is_open reader then (Inl (Returns_null Artifact_not_open), s0, [])
      else
        case configure stof f32 (metadata reader) of
          Inl e \<Rightarrow> (Inl e, s0, [])
        | Inr c \<Rightarrow>
            (case load_tensors env (metadata reader) c s0 of
               (Inl e, s) \<Rightarrow> (Inl e, s, LoadedModel_destroy ctx (ls_ptrs s))
             | (Inr m, s) \<Rightarrow> (Inr m, s, [])))"

end
