(* ===== verification/Weights_Correct.thy ===== *)
theory Weights_Correct
  imports Weights
begin

text \<open>
  What \<^verbatim>\<open>LoadedModel::load_from_artifact\<close> establishes. Every loader only appends to the tracked
  allocations and to the device copies; a successful run of the part that reads the language
  model leaves the reader as it was and puts the checked bytes of each section at the pointer that
  the model stores. The rules for \<open>loads\<close> compose these facts along the loader.
\<close>

definition tracked :: "load_state \<Rightarrow> bool" where
  "tracked s \<longleftrightarrow> 0 \<notin> set (ls_ptrs s) \<and> (\<forall>p bs. (p, bs) \<in> set (ls_device s) \<longrightarrow> p \<in> set (ls_ptrs s))"

definition grows :: "load_state \<Rightarrow> load_state \<Rightarrow> bool" where
  "grows s s' \<longleftrightarrow> set (ls_ptrs s) \<subseteq> set (ls_ptrs s') \<and> set (ls_device s) \<subseteq> set (ls_device s')
     \<and> (tracked s \<longrightarrow> tracked s')"

lemma grows_refl [simp, intro]: "grows s s"
  by (simp add: grows_def)

lemma grows_trans: "grows s s' \<Longrightarrow> grows s' s'' \<Longrightarrow> grows s s''"
  by (auto simp: grows_def)

text \<open>\<open>loads m Q\<close>: success keeps the reader and establishes \<open>Q\<close>; any run only grows the state.\<close>

definition loads :: "'a loader \<Rightarrow> (artifact_reader \<Rightarrow> load_state \<Rightarrow> 'a \<Rightarrow> bool) \<Rightarrow> bool" where
  "loads m Q \<longleftrightarrow> (\<forall>s res s'. m s = (res, s') \<longrightarrow> grows s s' \<and>
     (\<forall>x. res = Inr x \<longrightarrow> ls_reader s' = ls_reader s \<and> Q (ls_reader s) s' x))"

definition persists :: "(artifact_reader \<Rightarrow> load_state \<Rightarrow> 'a \<Rightarrow> bool) \<Rightarrow> bool" where
  "persists P \<longleftrightarrow> (\<forall>r s s' x. P r s x \<longrightarrow> grows s s' \<longrightarrow> P r s' x)"

lemma persistsD: "persists P \<Longrightarrow> P r s x \<Longrightarrow> grows s s' \<Longrightarrow> P r s' x"
  by (auto simp: persists_def)

lemma loads_bind:
  assumes "loads m P" "persists P" "\<And>x. loads (f x) (\<lambda>r s y. P r s x \<longrightarrow> Q r s y)"
  shows "loads (load_bind m f) Q"
  unfolding loads_def
proof (intro allI impI)
  fix s res s' assume run: "load_bind m f s = (res, s')"
  obtain r1 s1 where m: "m s = (r1, s1)" by fastforce
  have g: "grows s s1" using assms(1) m by (simp add: loads_def)
  show "grows s s' \<and> (\<forall>x. res = Inr x \<longrightarrow> ls_reader s' = ls_reader s \<and> Q (ls_reader s) s' x)"
  proof (cases r1)
    case (Inl e)
    then show ?thesis using run m g by (auto simp: load_bind_def)
  next
    case (Inr x)
    then have f: "f x s1 = (res, s')" using run m by (simp add: load_bind_def)
    have P: "ls_reader s1 = ls_reader s" "P (ls_reader s) s1 x"
      using assms(1) m Inr by (auto simp: loads_def)
    have "grows s1 s'" using assms(3) f by (auto simp: loads_def)
    then show ?thesis
      using assms(2) assms(3) [of x] f P g grows_trans by (fastforce simp: loads_def persists_def)
  qed
qed

lemma loads_return: "(\<And>r s. Q r s x) \<Longrightarrow> loads (load_return x) Q"
  by (simp add: loads_def load_return_def)

lemma loads_fail: "loads (load_fail e) Q"
  by (simp add: loads_def load_fail_def)

lemma loads_weaken: "loads m P \<Longrightarrow> (\<And>r s x. P r s x \<Longrightarrow> Q r s x) \<Longrightarrow> loads m Q"
  unfolding loads_def by blast

lemma loads_guard: "loads (load_guard e) (\<lambda>r s _. e = None)"
  by (cases e) (auto simp: load_guard_def loads_def load_return_def load_fail_def)

lemma loads_get_reader: "loads get_reader (\<lambda>r s x. x = r)"
  by (simp add: loads_def get_reader_def)


section \<open>Sections and tensors\<close>

definition section_is :: "load_env \<Rightarrow> artifact_reader \<Rightarrow> string \<Rightarrow> bytes \<Rightarrow> bool" where
  "section_is env r name bs \<longleftrightarrow> fst (read_section (env_max_alloc env) r name) = Done bs"

definition on_device :: "load_state \<Rightarrow> u64 \<Rightarrow> bytes \<Rightarrow> bool" where
  "on_device s p bs \<longleftrightarrow> p \<noteq> 0 \<and> p \<in> set (ls_ptrs s) \<and> (p, bs) \<in> set (ls_device s)"

definition tensor_loaded ::
    "load_env \<Rightarrow> artifact_reader \<Rightarrow> load_state \<Rightarrow> string \<Rightarrow> u64 \<Rightarrow> (bytes \<Rightarrow> bytes) \<Rightarrow> u64 \<Rightarrow> bool" where
  "tensor_loaded env r s name expected f p \<longleftrightarrow>
     (\<exists>bs. section_is env r name bs \<and> word_of_nat (length bs) = expected \<and> on_device s p (f bs))"

definition view_loaded ::
    "load_env \<Rightarrow> artifact_reader \<Rightarrow> load_state \<Rightarrow> model_config \<Rightarrow> string \<Rightarrow> int \<Rightarrow> int \<Rightarrow> linear_view \<Rightarrow> bool" where
  "view_loaded env r s c name out_f in_f v \<longleftrightarrow>
     tensor_loaded env r s name (weight_bytes out_f in_f) (\<lambda>bs. bs) (d_weights_int4 v)
     \<and> tensor_loaded env r s (name @ ''.scales'') (scale_section_bytes out_f in_f (group_size c)) (\<lambda>bs. bs) (d_scales v)
     \<and> in_features v = in_f \<and> out_features v = out_f \<and> view_group_size v = group_size c"

lemma read_section_Done: "read_section n r name = (Done bs, r') \<Longrightarrow> r' = r"
  by (auto simp: read_section_def read_section_into_def Let_def split: option.splits if_splits)

lemma grows_reader [simp]: "grows s (s\<lparr>ls_reader := r\<rparr>)"
  by (simp add: grows_def tracked_def)

lemma loads_section: "loads (load_section env name) (\<lambda>r s bs. section_is env r name bs)"
  unfolding loads_def load_section_def section_is_def
  by (auto split: prod.splits outcome.splits dest: read_section_Done)

lemma loads_expect: "loads (expect_size name n bs) (\<lambda>r s _. word_of_nat (length bs) = n)"
  by (rule loads_weaken [OF loads_guard [of "if word_of_nat (length bs) \<noteq> n
        then Some (Section_size_mismatch name n (length bs)) else None", folded expect_size_def]])
    (simp split: if_splits)

lemma grows_alloc: "alloc_dev env n s = (res, s') \<Longrightarrow> grows s s'"
  by (auto simp: alloc_dev_def grows_def tracked_def split: sum.splits if_splits; blast)

lemma alloc_dev_Inr:
  "alloc_dev env n s = (Inr p, s') \<Longrightarrow> p \<noteq> 0 \<Longrightarrow> p \<in> set (ls_ptrs s') \<and> ls_reader s' = ls_reader s"
  by (auto simp: alloc_dev_def split: sum.splits)

lemma alloc_dev_reader: "ls_reader (snd (alloc_dev env n s)) = ls_reader s"
  by (auto simp: alloc_dev_def split: sum.splits)

lemma alloc_dev_empty: "alloc_dev env 0 s = (Inr p, s') \<Longrightarrow> p = 0"
  by (auto simp: alloc_dev_def allocate_device_def)

lemma alloc_dev_null: "alloc_dev env n s = (Inr 0, s') \<Longrightarrow> word_of_nat n = (0 :: u64)"
  by (auto simp: alloc_dev_def allocate_device_def Let_def split: sum.splits if_splits)

lemma grows_copy:
  assumes "dst = 0 \<or> dst \<in> set (ls_ptrs s)"
  shows "grows s (snd (copy_host_to_device dst bs s))"
  using assms by (auto simp: copy_host_to_device_def grows_def tracked_def)

lemma alloc_copy:
  assumes "alloc_dev env (length bs) s = (Inr p, s1)"
  shows "grows s (snd (copy_host_to_device p bs s1))"
    and "ls_reader (snd (copy_host_to_device p bs s1)) = ls_reader s"
    and "p \<noteq> 0 \<Longrightarrow> on_device (snd (copy_host_to_device p bs s1)) p bs"
proof -
  have "p = 0 \<or> p \<in> set (ls_ptrs s1)" using alloc_dev_Inr assms by blast
  then show "grows s (snd (copy_host_to_device p bs s1))"
    using grows_copy grows_alloc [OF assms] grows_trans by blast
  show "ls_reader (snd (copy_host_to_device p bs s1)) = ls_reader s"
    using alloc_dev_reader [of env "length bs" s] assms by (simp add: copy_host_to_device_def)
  assume p: "p \<noteq> 0"
  then have "bs \<noteq> []" using alloc_dev_empty assms by fastforce
  then show "on_device (snd (copy_host_to_device p bs s1)) p bs"
    using p alloc_dev_Inr [OF assms] by (simp add: on_device_def copy_host_to_device_def)
qed

lemma loads_alloc_copy:
  "loads (load_bind (alloc_dev env (length bs)) (\<lambda>p. load_bind (copy_host_to_device p bs) (\<lambda>_. load_return p)))
     (\<lambda>r s p. (p = 0 \<and> word_of_nat (length bs) = (0 :: u64)) \<or> on_device s p bs)"
proof -
  have "\<exists>s''. copy_host_to_device p bs s' = (Inr (), s'')" for p s'
    by (simp add: copy_host_to_device_def)
  then show ?thesis
    unfolding loads_def load_bind_def load_return_def
    by (auto split: prod.splits sum.splits dest: grows_alloc alloc_copy)
      (metis alloc_copy(3) alloc_dev_null snd_conv)
qed

lemma to_device_eq:
  "to_device env name bs =
     load_bind (load_bind (alloc_dev env (length bs)) (\<lambda>p. load_bind (copy_host_to_device p bs) (\<lambda>_. load_return p)))
       (\<lambda>p. if p = 0 then load_fail (Null_allocation name) else load_return p)"
  by (rule ext) (auto simp: to_device_def load_bind_def load_return_def split: prod.splits sum.splits)

lemma stable_on_device: "on_device s p bs \<Longrightarrow> grows s s' \<Longrightarrow> on_device s' p bs"
  by (auto simp: on_device_def grows_def)

lemma loads_to_device: "loads (to_device env name bs) (\<lambda>r s p. on_device s p bs)"
  unfolding to_device_eq
proof (rule loads_bind [OF loads_alloc_copy])
  show "persists (\<lambda>r s p. (p = 0 \<and> word_of_nat (length bs) = (0 :: u64)) \<or> on_device s p bs)" by (auto simp: persists_def intro: stable_on_device)
  fix p
  show "loads (if p = 0 then load_fail (Null_allocation name) else load_return p)
      (\<lambda>r s y. (p = 0 \<and> word_of_nat (length bs) = (0 :: u64)) \<or> on_device s p bs \<longrightarrow> on_device s y bs)"
    by (auto intro: loads_fail loads_return)
qed

lemma stable_section: "persists (\<lambda>r s bs. section_is env r name bs)"
  and stable_const: "persists (\<lambda>r s x. P r x)"
  by (auto simp: persists_def)

lemma stable_device: "persists (\<lambda>r s p. on_device s p bs)"
  by (auto simp: persists_def intro: stable_on_device)

lemma loads_tensor:
  "loads (load_bind (load_section env name) (\<lambda>bs. load_bind (expect_size name n bs) (\<lambda>_. to_device env name (f bs))))
     (\<lambda>r s p. tensor_loaded env r s name n f p)"
  by (rule loads_bind [OF loads_section stable_section], rule loads_bind [OF loads_expect stable_const],
      rule loads_weaken [OF loads_to_device]) (auto simp: tensor_loaded_def)

lemma stable_tensor: "tensor_loaded env r s name n f p \<Longrightarrow> grows s s' \<Longrightarrow> tensor_loaded env r s' name n f p"
  by (auto simp: tensor_loaded_def intro: stable_on_device)

lemma stable_tensor': "persists (\<lambda>r s p. tensor_loaded env r s name n f p)"
  by (auto simp: persists_def intro: stable_tensor)

lemma load_bind_assoc: "load_bind (load_bind m f) g = load_bind m (\<lambda>x. load_bind (f x) g)"
  by (rule ext) (auto simp: load_bind_def split: prod.splits sum.splits)

lemma loads_linear:
  "loads (load_linear env c name out_f in_f) (\<lambda>r s v. view_loaded env r s c name out_f in_f v)"
proof -
  let ?t = "\<lambda>name n. load_bind (load_section env name) (\<lambda>bs. load_bind (expect_size name n bs) (\<lambda>_. to_device env name bs))"
  have eq: "load_linear env c name out_f in_f =
    load_bind (?t name (weight_bytes out_f in_f)) (\<lambda>w.
    load_bind (?t (name @ ''.scales'') (scale_section_bytes out_f in_f (group_size c))) (\<lambda>sc.
    load_return \<lparr>d_weights_int4 = w, d_scales = sc, in_features = in_f, out_features = out_f,
       view_group_size = group_size c\<rparr>))"
    by (simp add: load_linear_def load_bind_assoc)
  show ?thesis
    unfolding eq
    by (rule loads_bind [OF loads_tensor stable_tensor'], rule loads_bind [OF loads_tensor stable_tensor'],
        rule loads_return) (simp add: view_loaded_def)
qed

lemma stable_view:
  "persists (\<lambda>r s v. view_loaded env r s c name out_f in_f v)"
  by (auto simp: persists_def view_loaded_def intro: stable_tensor)

lemma loads_bf16:
  "loads (load_bf16_as_fp32 env name n unit_offset)
     (\<lambda>r s p. tensor_loaded env r s name (word_of_int n * 2) (widen_bf16 env unit_offset) p)"
  unfolding load_bf16_as_fp32_def by (rule loads_tensor)


section \<open>Layers\<close>

definition norm_loaded ::
    "load_env \<Rightarrow> artifact_reader \<Rightarrow> load_state \<Rightarrow> string \<Rightarrow> int \<Rightarrow> bool \<Rightarrow> u64 \<Rightarrow> bool" where
  "norm_loaded env r s name n unit_offset p \<longleftrightarrow>
     tensor_loaded env r s name (word_of_int n * 2) (widen_bf16 env unit_offset) p"

definition common_loaded ::
    "load_env \<Rightarrow> artifact_reader \<Rightarrow> load_state \<Rightarrow> model_config \<Rightarrow> nat \<Rightarrow> layer_weights \<Rightarrow> bool" where
  "common_loaded env r s c l lw \<longleftrightarrow>
     (let p = layer_prefix l in
      layer_idx lw = l
      \<and> norm_loaded env r s (p @ ''.input_layernorm.weight'') (hidden_size c) True (d_input_layernorm lw)
      \<and> norm_loaded env r s (p @ ''.post_attention_layernorm.weight'') (hidden_size c) True (d_post_attention_layernorm lw)
      \<and> view_loaded env r s c (p @ ''.mlp.gate_proj.weight'') (intermediate_size c) (hidden_size c) (gate_proj lw)
      \<and> view_loaded env r s c (p @ ''.mlp.up_proj.weight'') (intermediate_size c) (hidden_size c) (up_proj lw)
      \<and> view_loaded env r s c (p @ ''.mlp.down_proj.weight'') (hidden_size c) (intermediate_size c) (down_proj lw))"

definition full_loaded ::
    "load_env \<Rightarrow> artifact_reader \<Rightarrow> load_state \<Rightarrow> model_config \<Rightarrow> nat \<Rightarrow> layer_weights \<Rightarrow> bool" where
  "full_loaded env r s c l lw \<longleftrightarrow>
     (let p = layer_prefix l in
      view_loaded env r s c (p @ ''.self_attn.q_proj.weight'') (full_q_gate_dim c) (hidden_size c) (q_proj lw)
      \<and> view_loaded env r s c (p @ ''.self_attn.k_proj.weight'') (full_k_dim c) (hidden_size c) (k_proj lw)
      \<and> view_loaded env r s c (p @ ''.self_attn.v_proj.weight'') (full_v_dim c) (hidden_size c) (v_proj lw)
      \<and> view_loaded env r s c (p @ ''.self_attn.o_proj.weight'') (hidden_size c) (full_out_dim c) (o_proj lw)
      \<and> norm_loaded env r s (p @ ''.self_attn.q_norm.weight'') (cfg_head_dim c) True (d_q_norm lw)
      \<and> norm_loaded env r s (p @ ''.self_attn.k_norm.weight'') (cfg_head_dim c) True (d_k_norm lw))"

definition linear_loaded ::
    "load_env \<Rightarrow> artifact_reader \<Rightarrow> load_state \<Rightarrow> model_config \<Rightarrow> nat \<Rightarrow> layer_weights \<Rightarrow> bool" where
  "linear_loaded env r s c l lw \<longleftrightarrow>
     (let p = layer_prefix l in
      view_loaded env r s c (p @ ''.linear_attn.in_proj_qkv.weight'') (cfg_linear_conv_channels c) (hidden_size c) (in_proj_qkv lw)
      \<and> view_loaded env r s c (p @ ''.linear_attn.in_proj_z.weight'') (linear_z_dim c) (hidden_size c) (in_proj_z lw)
      \<and> view_loaded env r s c (p @ ''.linear_attn.in_proj_b.weight'') (linear_b_dim c) (hidden_size c) (in_proj_b lw)
      \<and> view_loaded env r s c (p @ ''.linear_attn.in_proj_a.weight'') (linear_a_dim c) (hidden_size c) (in_proj_a lw)
      \<and> view_loaded env r s c (p @ ''.linear_attn.out_proj.weight'') (hidden_size c) (linear_z_dim c) (out_proj lw)
      \<and> norm_loaded env r s (p @ ''.linear_attn.conv1d.weight'')
          (cfg_linear_conv_channels c * cfg_linear_conv_kernel_dim c) False (d_conv1d_weight lw)
      \<and> norm_loaded env r s (p @ ''.linear_attn.A_log'') (cfg_linear_num_v_heads c) False (d_A_log lw)
      \<and> norm_loaded env r s (p @ ''.linear_attn.dt_bias'') (cfg_linear_num_v_heads c) False (d_dt_bias lw)
      \<and> norm_loaded env r s (p @ ''.linear_attn.norm.weight'') (linear_norm_dim c) False (d_norm_weight lw))"

lemma loads_norm: "loads (load_bf16_as_fp32 env name n u) (\<lambda>r s p. norm_loaded env r s name n u p)"
  unfolding norm_loaded_def by (rule loads_bf16)

lemma stable_norm: "persists (\<lambda>r s p. norm_loaded env r s name n u p)"
  unfolding norm_loaded_def by (rule stable_tensor')

lemmas norm_step = loads_bind [OF loads_norm stable_norm]
lemmas view_step = loads_bind [OF loads_linear stable_view]

lemma loads_common: "loads (load_common env c l) (\<lambda>r s lw. common_loaded env r s c l lw)"
  unfolding load_common_def Let_def
  by (rule norm_step, rule norm_step, rule view_step, rule view_step, rule view_step, rule loads_return)
    (simp add: common_loaded_def Let_def)

definition common_part :: "layer_weights \<Rightarrow> nat \<times> u64 \<times> u64 \<times> linear_view \<times> linear_view \<times> linear_view" where
  "common_part lw = (layer_idx lw, d_input_layernorm lw, d_post_attention_layernorm lw, gate_proj lw,
     up_proj lw, down_proj lw)"

lemma common_part_loaded:
  "common_part lw' = common_part lw \<Longrightarrow> common_loaded env r s c l lw' = common_loaded env r s c l lw"
  by (simp add: common_part_def common_loaded_def)

lemma loads_full:
  "loads (load_full_attention env c lw)
     (\<lambda>r s lw'. full_loaded env r s c (layer_idx lw) lw' \<and> layer_type lw' = layer_type lw
        \<and> common_part lw' = common_part lw)"
  unfolding load_full_attention_def Let_def
  by (rule view_step, rule view_step, rule view_step, rule view_step, rule norm_step, rule norm_step,
      rule loads_return) (simp add: full_loaded_def common_part_def Let_def)

lemma loads_linear_attention:
  "loads (load_linear_attention env c lw)
     (\<lambda>r s lw'. linear_loaded env r s c (layer_idx lw) lw' \<and> layer_type lw' = ''linear_attention''
        \<and> common_part lw' = common_part lw)"
  unfolding load_linear_attention_def Let_def
  by (rule view_step, rule view_step, rule view_step, rule view_step, rule view_step, rule norm_step,
      rule norm_step, rule norm_step, rule norm_step, rule loads_return)
    (simp add: linear_loaded_def common_part_def Let_def)

text \<open>A layer of the model agrees with the artifact and with its type.\<close>

definition layer_loaded ::
    "load_env \<Rightarrow> artifact_reader \<Rightarrow> load_state \<Rightarrow> model_config \<Rightarrow> nat \<Rightarrow> layer_weights \<Rightarrow> bool" where
  "layer_loaded env r s c l lw \<longleftrightarrow> common_loaded env r s c l lw
     \<and> (if layer_type lw = ''full_attention'' then full_loaded env r s c l lw
        else layer_type lw = ''linear_attention'' \<and> linear_loaded env r s c l lw)"

lemma stable_common: "common_loaded env r s c l lw \<Longrightarrow> grows s s' \<Longrightarrow> common_loaded env r s' c l lw"
  and stable_full: "full_loaded env r s c l lw \<Longrightarrow> grows s s' \<Longrightarrow> full_loaded env r s' c l lw"
  and stable_linear: "linear_loaded env r s c l lw \<Longrightarrow> grows s s' \<Longrightarrow> linear_loaded env r s' c l lw"
  by (auto simp: common_loaded_def full_loaded_def linear_loaded_def view_loaded_def norm_loaded_def Let_def
      intro: stable_tensor)

lemma stable_layer: "layer_loaded env r s c l lw \<Longrightarrow> grows s s' \<Longrightarrow> layer_loaded env r s' c l lw"
  using stable_common stable_full stable_linear by (auto simp: layer_loaded_def split: if_splits)

definition type_agrees :: "string \<Rightarrow> layer_weights \<Rightarrow> bool" where
  "type_agrees t lw \<longleftrightarrow> (t = ''full_attention'' \<longleftrightarrow> layer_type lw = ''full_attention'')"

definition mixer_loaded ::
    "load_env \<Rightarrow> artifact_reader \<Rightarrow> load_state \<Rightarrow> model_config \<Rightarrow> nat \<Rightarrow> string \<Rightarrow> layer_weights \<Rightarrow> bool" where
  "mixer_loaded env r s c l t lw \<longleftrightarrow>
     (if t = ''full_attention'' then layer_type lw = ''full_attention'' \<and> full_loaded env r s c l lw
      else layer_type lw = ''linear_attention'' \<and> linear_loaded env r s c l lw)"

lemma loads_mixer:
  assumes "layer_type lw = t"
  shows "loads (if t = ''full_attention'' then load_full_attention env c lw else load_linear_attention env c lw)
    (\<lambda>r s w. mixer_loaded env r s c (layer_idx lw) t w \<and> common_part w = common_part lw)"
  using assms
  by (auto simp: mixer_loaded_def intro: loads_weaken [OF loads_full] loads_weaken [OF loads_linear_attention])

lemma stable_mixer: "persists (\<lambda>r s w. mixer_loaded env r s c l t w \<and> common_part w = k)"
  using stable_full stable_linear by (auto simp: persists_def mixer_loaded_def)

lemma stable_common': "persists (\<lambda>r s lw. common_loaded env r s c l lw)"
  using stable_common by (auto simp: persists_def)

lemma mixer_layer:
  assumes "mixer_loaded env r s c (layer_idx lw) t w" "common_part w = common_part (lw\<lparr>layer_type := t\<rparr>)"
    "common_loaded env r s c l lw"
  shows "layer_loaded env r s c l w \<and> type_agrees t w"
proof -
  have "layer_idx lw = l" using assms(3) by (simp add: common_loaded_def Let_def)
  moreover have "common_loaded env r s c l w"
    using assms(2,3) common_part_loaded [of w lw] by (simp add: common_part_def)
  ultimately show ?thesis
    using assms(1) by (auto simp: layer_loaded_def mixer_loaded_def type_agrees_def split: if_splits)
qed

lemma loads_layer:
  "loads (load_layer env c types l) (\<lambda>r s tl. layer_loaded env r s c l (snd tl) \<and> type_agrees (fst tl) (snd tl))"
  unfolding load_layer_def Let_def
  by (rule loads_bind [OF loads_common stable_common'], rule loads_bind [OF loads_get_reader stable_const],
      rule loads_bind [OF loads_guard stable_const], rule loads_bind [OF loads_mixer stable_mixer], simp,
      rule loads_return) (use mixer_layer in auto)

definition layers_loaded ::
    "load_env \<Rightarrow> artifact_reader \<Rightarrow> load_state \<Rightarrow> model_config \<Rightarrow> nat list \<Rightarrow> (string \<times> layer_weights) list \<Rightarrow> bool" where
  "layers_loaded env r s c ls xs \<longleftrightarrow>
     list_all2 (\<lambda>l tl. layer_loaded env r s c l (snd tl) \<and> type_agrees (fst tl) (snd tl)) ls xs"

lemma stable_layers: "persists (\<lambda>r s xs. layers_loaded env r s c ls xs)"
  using stable_layer by (fastforce simp: persists_def layers_loaded_def elim: list_all2_mono)

lemma stable_typed_layer:
  "persists (\<lambda>r s tl. layer_loaded env r s c l (snd tl) \<and> type_agrees (fst tl) (snd tl))"
  using stable_layer by (auto simp: persists_def)

lemma loads_layers: "loads (load_layers env c types ls) (\<lambda>r s xs. layers_loaded env r s c ls xs)"
proof (induction ls)
  case (Cons l ls)
  show ?case
    unfolding load_layers.simps
    by (rule loads_bind [OF loads_layer stable_typed_layer], rule loads_bind [OF Cons stable_layers],
        rule loads_return) (simp add: layers_loaded_def)
qed (auto simp: layers_loaded_def intro: loads_return)


section \<open>The model\<close>

text \<open>The vision tensors may leave the reader in another state, but still only add to the device.\<close>

definition yields :: "'a loader \<Rightarrow> ('a \<Rightarrow> bool) \<Rightarrow> bool" where
  "yields m R \<longleftrightarrow> (\<forall>s res s'. m s = (res, s') \<longrightarrow> grows s s' \<and> (\<forall>x. res = Inr x \<longrightarrow> R x))"

lemma yields_bind:
  assumes "yields m P" "\<And>x. yields (f x) R"
  shows "yields (load_bind m f) R"
  using assms unfolding yields_def load_bind_def
  by (auto split: prod.splits sum.splits) (meson grows_trans)

lemma yields_return: "R x \<Longrightarrow> yields (load_return x) R"
  by (simp add: yields_def load_return_def)

lemma loads_yields: "loads m Q \<Longrightarrow> yields m (\<lambda>_. True)"
  by (auto simp: loads_def yields_def)

lemma yields_fp16: "yields (load_fp16 env name n) (\<lambda>_. True)"
proof -
  let ?m = "load_bind (load_section env name) (\<lambda>bs. load_bind (expect_size name (word_of_int n * 2) bs) (\<lambda>_.
    load_bind (alloc_dev env (length bs)) (\<lambda>p. load_bind (copy_host_to_device p bs) (\<lambda>_. load_return p))))"
  have "yields ?m (\<lambda>_. True)"
    by (intro yields_bind [OF loads_yields [OF loads_section]] yields_bind [OF loads_yields [OF loads_expect]]
        loads_yields [OF loads_alloc_copy])
  then show ?thesis
    unfolding yields_def load_fp16_def by (auto split: prod.splits sum.splits load_fault.splits)
qed

lemma yields_if_section: "yields (if_section env name n) (\<lambda>_. True)"
  unfolding if_section_def
  by (rule yields_bind [OF loads_yields [OF loads_get_reader]]) (auto intro: yields_fp16 yields_return)

lemma yields_vision: "yields (load_vision env c) (\<lambda>cv. fst cv = c \<or> (\<exists>b. fst cv = c\<lparr>has_vision := b\<rparr>))"
  unfolding load_vision_def
  by (rule yields_bind [OF loads_yields [OF loads_get_reader]])
    (auto intro!: yields_bind [OF yields_if_section] yields_return)

text \<open>Everything before the vision tensors.\<close>

definition load_core ::
    "load_env \<Rightarrow> artifact_metadata \<Rightarrow> model_config
     \<Rightarrow> (u64 \<times> u64 \<times> linear_view \<times> (string \<times> layer_weights) list) loader" where
  "load_core env meta c =
     (let embed_name = ''model.language_model.embed_tokens.weight''; types = meta_types meta in
     load_bind (load_section env embed_name) (\<lambda>host_embed.
     load_bind (expect_size embed_name (word_of_int (vocab_size c) * word_of_int (hidden_size c) * 2) host_embed) (\<lambda>_.
     load_bind (load_bind (alloc_dev env (length host_embed)) (\<lambda>p.
       load_bind (copy_host_to_device p host_embed) (\<lambda>_. load_return p))) (\<lambda>embed.
     load_bind (load_bf16_as_fp32 env ''model.language_model.norm.weight'' (hidden_size c) True) (\<lambda>fnorm.
     load_bind (load_linear env c ''lm_head.weight'' (vocab_size c) (hidden_size c)) (\<lambda>head.
     load_bind (load_guard (if types \<noteq> [] \<and> length types \<noteq> nat (num_hidden_layers c)
                            then Some (Layer_types_count (length types)) else None)) (\<lambda>_.
     load_bind (load_layers env c types [0..<nat (num_hidden_layers c)]) (\<lambda>ls.
     load_return (embed, fnorm, head, ls)))))))))"

lemma load_bind_return [simp]: "load_bind (load_return x) f = f x"
  by (rule ext) (simp add: load_bind_def load_return_def)

lemma load_tensors_core:
  "load_tensors env meta c = load_bind (load_core env meta c) (\<lambda>(embed, fnorm, head, ls).
     load_bind (load_vision env (c\<lparr>layer_types := map fst ls\<rparr>)) (\<lambda>(c', vis).
     load_return \<lparr>lm_config = c', d_embed_tokens = embed, d_final_norm = fnorm, lm_head = head,
       lm_layers = map snd ls, lm_vision = vis\<rparr>))"
  by (simp add: load_tensors_def load_core_def Let_def load_bind_assoc)

definition core_loaded ::
    "load_env \<Rightarrow> artifact_reader \<Rightarrow> load_state \<Rightarrow> model_config
     \<Rightarrow> u64 \<times> u64 \<times> linear_view \<times> (string \<times> layer_weights) list \<Rightarrow> bool" where
  "core_loaded env r s c = (\<lambda>(embed, fnorm, head, ls).
     (\<exists>bs. section_is env r ''model.language_model.embed_tokens.weight'' bs
        \<and> word_of_nat (length bs) = (word_of_int (vocab_size c) * word_of_int (hidden_size c) * 2 :: u64)
        \<and> ((embed = 0 \<and> word_of_nat (length bs) = (0 :: u64)) \<or> on_device s embed bs))
     \<and> norm_loaded env r s ''model.language_model.norm.weight'' (hidden_size c) True fnorm
     \<and> view_loaded env r s c ''lm_head.weight'' (vocab_size c) (hidden_size c) head
     \<and> layers_loaded env r s c [0..<nat (num_hidden_layers c)] ls)"

lemma stable_or: "persists (\<lambda>r s p. (p = 0 \<and> word_of_nat (length bs) = (0 :: u64)) \<or> on_device s p bs)"
  by (auto simp: persists_def intro: stable_on_device)

lemma loads_core: "loads (load_core env meta c) (\<lambda>r s x. core_loaded env r s c x)"
  unfolding load_core_def Let_def
  by (rule loads_bind [OF loads_section stable_section], rule loads_bind [OF loads_expect stable_const],
      rule loads_bind [OF loads_alloc_copy stable_or], rule norm_step, rule view_step,
      rule loads_bind [OF loads_guard stable_const], rule loads_bind [OF loads_layers stable_layers],
      rule loads_return) (auto simp: core_loaded_def)

lemma stable_core: "persists (\<lambda>r s x. core_loaded env r s c x)"
proof (unfold persists_def, intro allI impI)
  fix r s s' x assume *: "core_loaded env r s c x" "grows s s'"
  obtain emb fnorm head ls where x: "x = (emb, fnorm, head, ls)" by (cases x)
  show "core_loaded env r s' c x"
    using *(1) unfolding x core_loaded_def
    by (auto intro: stable_on_device [OF _ *(2)] persistsD [OF stable_norm _ *(2)]
        persistsD [OF stable_view _ *(2)] persistsD [OF stable_layers _ *(2)])
qed

text \<open>What the artifact must agree on with the configuration compiled into the program.\<close>

definition default_dims_ok :: "model_config \<Rightarrow> bool" where
  "default_dims_ok c \<longleftrightarrow> hidden_size c = 5120 \<and> vocab_size c = 248320 \<and> num_hidden_layers c = 64
     \<and> num_key_value_heads c = 4 \<and> cfg_head_dim c = 256 \<and> cfg_linear_num_v_heads c = 48
     \<and> cfg_linear_head_k_dim c = 128 \<and> cfg_linear_head_v_dim c = 128
     \<and> cfg_linear_conv_channels c = 10240 \<and> cfg_linear_conv_kernel_dim c = 4"

lemma configure_dims: "configure stof f32 meta = Inr c \<Longrightarrow> default_dims_ok c"
  by (auto simp: configure_def Let_def ModelConfig_def default_dims_ok_def
      split: option.splits sum.splits if_splits)

definition model_loaded :: "load_env \<Rightarrow> artifact_reader \<Rightarrow> load_state \<Rightarrow> loaded_model \<Rightarrow> bool" where
  "model_loaded env r s m \<longleftrightarrow>
     (let c = lm_config m in
      default_dims_ok c
      \<and> tensor_loaded env r s ''model.language_model.embed_tokens.weight''
          (word_of_int (vocab_size c) * word_of_int (hidden_size c) * 2) (\<lambda>bs. bs) (d_embed_tokens m)
      \<and> norm_loaded env r s ''model.language_model.norm.weight'' (hidden_size c) True (d_final_norm m)
      \<and> view_loaded env r s c ''lm_head.weight'' (vocab_size c) (hidden_size c) (lm_head m)
      \<and> length (lm_layers m) = 64
      \<and> (\<forall>l < 64. layer_loaded env r s c l (lm_layers m ! l))
      \<and> count_full_layers c = int (length (filter (\<lambda>lw. layer_type lw = ''full_attention'') (lm_layers m))))"

lemma view_loaded_cong:
  "group_size c' = group_size c \<Longrightarrow> view_loaded env r s c' = view_loaded env r s c"
  by (intro ext) (simp add: view_loaded_def)

lemma layer_loaded_update:
  "layer_loaded env r s (c\<lparr>layer_types := ts\<rparr>) = layer_loaded env r s c"
  "layer_loaded env r s (c\<lparr>has_vision := b\<rparr>) = layer_loaded env r s c"
  by (intro ext, simp add: layer_loaded_def common_loaded_def full_loaded_def linear_loaded_def Let_def
      full_q_gate_dim_def full_k_dim_def full_v_dim_def full_out_dim_def
      view_loaded_cong [of "c\<lparr>layer_types := ts\<rparr>" c] view_loaded_cong [of "c\<lparr>has_vision := b\<rparr>" c])+

lemma agreeing_types:
  assumes "list_all (\<lambda>tl. type_agrees (fst tl) (snd tl)) xs"
  shows "length (filter (\<lambda>t. t = ''full_attention'') (map fst xs))
    = length (filter (\<lambda>lw. layer_type lw = ''full_attention'') (map snd xs))"
  using assms by (induction xs) (auto simp: type_agrees_def)

lemma core_model_loaded:
  assumes "core_loaded env r s c (emb, fnorm, head, ls)" "default_dims_ok c"
    and "c' = c\<lparr>layer_types := map fst ls\<rparr> \<or> (\<exists>b. c' = c\<lparr>layer_types := map fst ls, has_vision := b\<rparr>)"
  shows "model_loaded env r s \<lparr>lm_config = c', d_embed_tokens = emb, d_final_norm = fnorm, lm_head = head,
     lm_layers = map snd ls, lm_vision = vis\<rparr>"
proof -
  have ls: "list_all2 (\<lambda>l tl. layer_loaded env r s c l (snd tl) \<and> type_agrees (fst tl) (snd tl)) [0..<64] ls"
    using assms(1,2) by (simp add: core_loaded_def layers_loaded_def default_dims_ok_def)
  then have len: "length ls = 64" by (simp add: list_all2_lengthD [symmetric])
  have "list_all (\<lambda>tl. type_agrees (fst tl) (snd tl)) ls"
    using ls by (auto simp: list_all2_conv_all_nth list_all_length)
  note count = agreeing_types [OF this]
  have layer: "\<forall>l < 64. layer_loaded env r s c' l (snd (ls ! l))"
    using ls assms(3) by (auto simp: list_all2_conv_all_nth layer_loaded_update)
  have types: "layer_types c' = map fst ls" "ls \<noteq> []" using assms(3) len by auto
  have dims: "default_dims_ok c'" "vocab_size c' = vocab_size c" "hidden_size c' = hidden_size c"
    "view_loaded env r s c' = view_loaded env r s c"
    using assms(2,3) by (auto simp: default_dims_ok_def intro!: view_loaded_cong)
  have "word_of_int (vocab_size c) * word_of_int (hidden_size c) * 2 \<noteq> (0 :: u64)"
    using assms(2) by (simp add: default_dims_ok_def)
  then have "tensor_loaded env r s ''model.language_model.embed_tokens.weight''
      (word_of_int (vocab_size c) * word_of_int (hidden_size c) * 2) (\<lambda>bs. bs) emb"
    using assms(1) by (auto simp: core_loaded_def tensor_loaded_def)
  then show ?thesis
    using assms(1) dims layer len count types
    by (simp add: model_loaded_def core_loaded_def count_full_layers_def Let_def)
qed

lemma load_tensors_correct:
  assumes run: "load_tensors env meta c s0 = (res, s)" and "default_dims_ok c" and "tracked s0"
  shows "tracked s \<and> (\<forall>m. res = Inr m \<longrightarrow> model_loaded env (ls_reader s0) s m)"
proof -
  obtain r1 s1 where core: "load_core env meta c s0 = (r1, s1)" by fastforce
  have g1: "grows s0 s1" using loads_core core by (auto simp: loads_def)
  show ?thesis
  proof (cases r1)
    case (Inl e)
    then have "(res, s) = (Inl e, s1)" using run core by (simp add: load_tensors_core load_bind_def)
    then show ?thesis using g1 assms(3) by (simp add: grows_def)
  next
    case (Inr x)
    obtain emb fnorm head ls where x: "x = (emb, fnorm, head, ls)" by (cases x)
    have c1: "core_loaded env (ls_reader s0) s1 c (emb, fnorm, head, ls)"
      using loads_core core Inr x by (auto simp: loads_def)
    obtain r2 s2 where vis: "load_vision env (c\<lparr>layer_types := map fst ls\<rparr>) s1 = (r2, s2)" by fastforce
    note v = yields_vision [unfolded yields_def, rule_format, OF vis]
    have "core_loaded env (ls_reader s0) s2 c (emb, fnorm, head, ls)"
      using persistsD [OF stable_core c1] v by blast
    note model = core_model_loaded [OF this assms(2)]
    have s: "s = s2" using run core Inr x vis
      by (auto simp: load_tensors_core load_bind_def load_return_def split: sum.splits prod.splits)
    have "model_loaded env (ls_reader s0) s m" if "res = Inr m" for m
      using run core Inr x vis that v
      by (auto simp: load_tensors_core load_bind_def load_return_def s split: sum.splits prod.splits
          intro!: model)
    moreover have "tracked s" using g1 v assms(3) s by (auto simp: grows_def)
    ultimately show ?thesis by blast
  qed
qed

lemma load_from_artifact_result:
  "case load_from_artifact env stof f32 ctx r of (res, s, freed) \<Rightarrow>
     fst ` set (ls_device s) \<subseteq> set (ls_ptrs s) \<and>
     (case res of Inl e \<Rightarrow> freed = ls_ptrs s | Inr m \<Rightarrow> freed = [] \<and> model_loaded env r s m)"
proof -
  let ?s0 = "\<lparr>ls_reader = r, ls_ptrs = [], ls_calls = 0, ls_device = []\<rparr>"
  have t0: "tracked ?s0" by (simp add: tracked_def)
  have tr: "tracked s \<Longrightarrow> fst ` set (ls_device s) \<subseteq> set (ls_ptrs s)" for s by (auto simp: tracked_def)
  have freed: "tracked s \<Longrightarrow> filter (\<lambda>p. p \<noteq> 0) (ls_ptrs s) = ls_ptrs s" for s
    by (auto simp: tracked_def intro!: filter_True)
  show ?thesis
  proof (cases "\<not> ctx \<or> \<not> is_open r \<or> (\<exists>e. configure stof f32 (metadata r) = Inl e)")
    case True
    then show ?thesis by (auto simp: load_from_artifact_def Let_def)
  next
    case False
    then obtain c where c: "configure stof f32 (metadata r) = Inr c" and ok: "ctx" "is_open r"
      by (cases "configure stof f32 (metadata r)") auto
    obtain res s where run: "load_tensors env (metadata r) c ?s0 = (res, s)" by fastforce
    note * = load_tensors_correct [OF run configure_dims [OF c] t0]
    show ?thesis
      using * tr freed
      by (auto simp: load_from_artifact_def Let_def c ok run LoadedModel_destroy_def split: sum.splits)
  qed
qed


end
