(* ===== verification/Sampling.thy ===== *)
theory Sampling
  imports Prelude
begin

text \<open>
  \<^verbatim>\<open>src/ops/sampling.cpp\<close>: the greedy argmax over the logits (a reduction of 256-element
  work-groups in local memory, then a loop on the host) and the acceptance test of speculative
  decoding. A \<^verbatim>\<open>float\<close> is its IEEE-754 bit pattern, so that comparison, infinities and NaN are
  those of the hardware; float arithmetic, which only the stochastic acceptance test uses, is a
  parameter. Between two barriers the work-items of a group may run in any order: the order is a
  parameter of the reduction, and the result is shown not to depend on it.
\<close>


section \<open>Single-precision comparison on bit patterns\<close>

type_synonym f32_bits = u32

definition f32_mag :: "f32_bits \<Rightarrow> int" where
  "f32_mag w = uint (w AND 0x7FFFFFFF)"

definition f32_nan :: "f32_bits \<Rightarrow> bool" where
  "f32_nan w \<longleftrightarrow> 0x7F800000 < f32_mag w"

text \<open>Sign and magnitude as an integer; both zeros have the key 0.\<close>

definition f32_key :: "f32_bits \<Rightarrow> int" where
  "f32_key w = (if w AND 0x80000000 \<noteq> 0 then - f32_mag w else f32_mag w)"

definition f32_gt :: "f32_bits \<Rightarrow> f32_bits \<Rightarrow> bool" where
  "f32_gt a b \<longleftrightarrow> \<not> f32_nan a \<and> \<not> f32_nan b \<and> f32_key b < f32_key a"

definition f32_le :: "f32_bits \<Rightarrow> f32_bits \<Rightarrow> bool" where
  "f32_le a b \<longleftrightarrow> \<not> f32_nan a \<and> \<not> f32_nan b \<and> f32_key a \<le> f32_key b"

definition NEG_INF :: f32_bits where
  "NEG_INF = 0xFF800000"

lemma f32_key_bounds: "\<bar>f32_key w\<bar> = f32_mag w"
  by (simp add: f32_key_def f32_mag_def)

lemma NEG_INF_key: "f32_key NEG_INF = - 0x7F800000"
  by (simp add: f32_key_def f32_mag_def NEG_INF_def)

lemma NEG_INF_least: "\<not> f32_nan a \<Longrightarrow> f32_key NEG_INF \<le> f32_key a"
  using f32_key_bounds [of a] NEG_INF_key by (simp add: f32_nan_def)

lemma NEG_INF_never_greater [simp]: "\<not> f32_gt NEG_INF a"
  using NEG_INF_least [of a] by (auto simp: f32_gt_def)

lemma f32_not_gt: "\<not> f32_nan a \<Longrightarrow> \<not> f32_nan b \<Longrightarrow> \<not> f32_gt a b \<longleftrightarrow> f32_key a \<le> f32_key b"
  by (auto simp: f32_gt_def)


section \<open>argmax\<close>

text \<open>A slot of local memory: \<^verbatim>\<open>local_max[i]\<close> and \<^verbatim>\<open>local_idx[i]\<close>.\<close>

type_synonym slot = "f32_bits \<times> int"

definition WG_SIZE :: nat where "WG_SIZE = 256"

definition argmax_scratch_size :: "int \<Rightarrow> nat" where
  "argmax_scratch_size vocab_size =
     (if vocab_size \<le> 0 then 0 else (nat vocab_size + WG_SIZE - 1) div WG_SIZE)"

text \<open>What each work-item of group \<open>wg\<close> writes before the first barrier.\<close>

definition wg_load :: "f32_bits list \<Rightarrow> nat \<Rightarrow> nat \<Rightarrow> slot list" where
  "wg_load logits vocab wg =
     map (\<lambda>local_i. let global_i = wg * WG_SIZE + local_i in
            if global_i < vocab then (logits ! global_i, int global_i) else (NEG_INF, - 1))
       [0..<WG_SIZE]"

text \<open>One work-item between two barriers.\<close>

definition item_step :: "nat \<Rightarrow> slot list \<Rightarrow> nat \<Rightarrow> slot list" where
  "item_step stride slots local_i =
     (if local_i < stride \<and> f32_gt (fst (slots ! (local_i + stride))) (fst (slots ! local_i))
      then slots[local_i := slots ! (local_i + stride)] else slots)"

text \<open>The tree reduction; \<open>order stride\<close> is the order in which the work-items run.\<close>

function tree_reduce :: "(nat \<Rightarrow> nat list) \<Rightarrow> nat \<Rightarrow> slot list \<Rightarrow> slot list" where
  "tree_reduce order stride slots =
     (if stride = 0 then slots
      else tree_reduce order (stride div 2) (foldl (item_step stride) slots (order stride)))"
  by pat_completeness auto
termination by (relation "measure (\<lambda>(_, stride, _). stride)") auto

declare tree_reduce.simps [simp del]

text \<open>Stage 2, on the host.\<close>

fun host_reduce :: "slot \<Rightarrow> slot list \<Rightarrow> slot" where
  "host_reduce best [] = best"
| "host_reduce best (p # ps) = host_reduce (if f32_gt (fst p) (fst best) then p else best) ps"

definition argmax :: "(nat \<Rightarrow> nat \<Rightarrow> nat list) \<Rightarrow> f32_bits list option \<Rightarrow> int \<Rightarrow> int" where
  "argmax order logits vocab_size =
     (case logits of
        None \<Rightarrow> 0
      | Some xs \<Rightarrow>
          if vocab_size \<le> 0 then 0
          else if vocab_size = 1 then 0
          else
            let num_wgs = (nat vocab_size + WG_SIZE - 1) div WG_SIZE;
                partial = map (\<lambda>wg. hd (tree_reduce (order wg) (WG_SIZE div 2)
                                (wg_load xs (nat vocab_size) wg))) [0..<num_wgs]
            in snd (host_reduce (hd partial) (tl partial)))"

text \<open>Every order of the work-items of a group, for every round.\<close>

definition fair_order :: "(nat \<Rightarrow> nat list) \<Rightarrow> bool" where
  "fair_order order \<longleftrightarrow> (\<forall>s. distinct (order s) \<and> set (order s) = {0..<WG_SIZE})"


section \<open>The reduction does not depend on the order\<close>

definition pick :: "slot \<Rightarrow> slot \<Rightarrow> slot" where
  "pick a b = (if f32_gt (fst b) (fst a) then b else a)"

text \<open>All work-items at once.\<close>

definition par_step :: "nat \<Rightarrow> slot list \<Rightarrow> slot list" where
  "par_step stride slots =
     map (\<lambda>i. if i < stride then pick (slots ! i) (slots ! (i + stride)) else slots ! i) [0..<length slots]"

lemma item_step_simps:
  assumes "2 * stride \<le> length slots"
  shows "length (item_step stride slots i) = length slots"
    and "item_step stride slots i = (if i < stride then slots[i := pick (slots ! i) (slots ! (i + stride))] else slots)"
  using assms by (auto simp: item_step_def pick_def)

lemma fold_items:
  assumes "2 * stride \<le> length slots" "distinct is"
  shows "length (foldl (item_step stride) slots is) = length slots \<and>
    (\<forall>i < length slots. foldl (item_step stride) slots is ! i =
       (if i < stride \<and> i \<in> set is then pick (slots ! i) (slots ! (i + stride)) else slots ! i))"
  using assms(2)
proof (induction "is" rule: rev_induct)
  case (snoc k ks)
  let ?s = "foldl (item_step stride) slots ks"
  have IH: "length ?s = length slots"
    "\<And>i. i < length slots \<Longrightarrow> ?s ! i =
       (if i < stride \<and> i \<in> set ks then pick (slots ! i) (slots ! (i + stride)) else slots ! i)"
    using snoc by auto
  have "k \<notin> set ks" using snoc.prems by simp
  then show ?case
    using IH assms(1) item_step_simps [of stride ?s k] by (auto simp: nth_list_update)
qed simp

lemma fold_items_par_step:
  assumes "2 * stride \<le> length slots" "fair_order order" "length slots = WG_SIZE"
  shows "foldl (item_step stride) slots (order s) = par_step stride slots"
  using fold_items [OF assms(1), of "order s"] assms(2,3)
  by (intro nth_equalityI) (auto simp: fair_order_def par_step_def)


section \<open>What the reduction computes\<close>

lemma par_step_length [simp]: "length (par_step stride slots) = length slots"
  by (simp add: par_step_def)

lemma par_step_nth:
  "i < length slots \<Longrightarrow> par_step stride slots ! i =
     (if i < stride then pick (slots ! i) (slots ! (i + stride)) else slots ! i)"
  by (simp add: par_step_def)

text \<open>
  A slot wins over another when it is not smaller. The winner is one of the two, a winner over a
  real number is a real number, and a padding slot (\<open>NEG_INF\<close>) never replaces anything.
\<close>

lemma pick_cases: "pick a b = a \<or> (pick a b = b \<and> f32_gt (fst b) (fst a))"
  by (simp add: pick_def)

lemma pick_not_smaller:
  assumes "\<not> f32_nan (fst a)" "\<not> f32_nan (fst b)"
  shows "f32_key (fst a) \<le> f32_key (fst (pick a b))" "f32_key (fst b) \<le> f32_key (fst (pick a b))"
  using assms by (auto simp: pick_def f32_gt_def)

definition padding_ok :: "slot list \<Rightarrow> bool" where
  "padding_ok ps \<longleftrightarrow> (\<forall>p \<in> set ps. snd p < 0 \<longrightarrow> fst p = NEG_INF)"

lemma pick_real: "\<lbrakk>snd b < 0 \<longrightarrow> fst b = NEG_INF; 0 \<le> snd a\<rbrakk> \<Longrightarrow> 0 \<le> snd (pick a b)"
  by (auto simp: pick_def not_le)

text \<open>The result of a round among the first \<open>2 * stride\<close> slots is found among the first \<open>stride\<close>.\<close>

definition best_of :: "slot \<Rightarrow> slot list \<Rightarrow> bool" where
  "best_of p ps \<longleftrightarrow> p \<in> set ps
     \<and> ((\<forall>q \<in> set ps. \<not> f32_nan (fst q)) \<longrightarrow> (\<forall>q \<in> set ps. f32_key (fst q) \<le> f32_key (fst p)))
     \<and> (padding_ok ps \<and> 0 \<le> snd (hd ps) \<longrightarrow> 0 \<le> snd p)"

lemma in_take_nth: "x \<in> set (take n xs) \<longleftrightarrow> (\<exists>i < min n (length xs). x = xs ! i)"
  by (auto simp: in_set_conv_nth)

lemma par_step_best:
  assumes "2 * stride \<le> length slots" "0 < stride"
    and "best_of p (take stride (par_step stride slots))"
  shows "best_of p (take (2 * stride) slots)"
proof -
  let ?old = "take (2 * stride) slots" and ?new = "take stride (par_step stride slots)"
  have new: "?new ! i = pick (slots ! i) (slots ! (i + stride))" if "i < stride" for i
    using assms(1) that by (simp add: par_step_nth)
  have old: "slots ! i \<in> set ?old" if "i < 2 * stride" for i
    using that assms(1) by (auto simp: in_take_nth)
  have sub: "set ?new \<subseteq> set ?old"
  proof
    fix x assume "x \<in> set ?new"
    then obtain i where "i < stride" "x = ?new ! i" by (auto simp: in_set_conv_nth)
    then show "x \<in> set ?old"
      using pick_cases [of "slots ! i" "slots ! (i + stride)"] old [of i] old [of "i + stride"] new by auto
  qed
  have dom: "f32_key (fst q) \<le> f32_key (fst p)"
    if nan: "\<forall>q \<in> set ?old. \<not> f32_nan (fst q)" and q: "q \<in> set ?old" for q
  proof -
    obtain i where i: "i < 2 * stride" "q = slots ! i" using q by (auto simp: in_take_nth)
    let ?j = "if i < stride then i else i - stride"
    have j: "?j < stride" using i(1) by auto
    have "q = slots ! ?j \<or> q = slots ! (?j + stride)" using i by auto
    then have "f32_key (fst q) \<le> f32_key (fst (?new ! ?j))"
      using pick_not_smaller [of "slots ! ?j" "slots ! (?j + stride)"] nan old [of ?j]
        old [of "?j + stride"] new [OF j] j by auto
    moreover have "?new ! ?j \<in> set ?new" using j assms(1) by (intro nth_mem) simp
    ultimately show ?thesis
      using assms(3) sub nan unfolding best_of_def by (meson dual_order.trans subsetD)
  qed
  have real: "0 \<le> snd p" if pad: "padding_ok ?old" and hd0: "0 \<le> snd (hd ?old)"
  proof -
    have "?new \<noteq> []" "?old \<noteq> []"
      using assms(1,2) by (auto simp flip: length_greater_0_conv)
    then have "hd ?new = pick (slots ! 0) (slots ! stride)" "hd ?old = slots ! 0"
      using new [of 0] assms(1,2) by (auto simp: hd_conv_nth simp del: hd_take)
    moreover have "padding_ok ?new" using pad sub by (auto simp: padding_ok_def)
    ultimately show ?thesis
      using assms(3) pad hd0 pick_real old [of stride] assms(2) by (auto simp: best_of_def padding_ok_def)
  qed
  show ?thesis using assms(3) sub dom real by (auto simp: best_of_def)
qed

lemma tree_reduce_best:
  assumes "fair_order order" "length slots = WG_SIZE" "2 ^ Suc k \<le> WG_SIZE"
  shows "best_of (hd (tree_reduce order (2 ^ k) slots)) (take (2 ^ Suc k) slots)"
  using assms(2,3)
proof (induction k arbitrary: slots)
  case 0
  have "foldl (item_step 1) slots (order 1) = par_step 1 slots"
    using 0 assms(1) by (intro fold_items_par_step) (auto simp: WG_SIZE_def)
  then have "tree_reduce order 1 slots = par_step 1 slots"
    by (subst tree_reduce.simps, subst tree_reduce.simps) simp
  moreover have "best_of (hd (par_step 1 slots)) (take 1 (par_step 1 slots))"
    using 0 by (cases "par_step 1 slots") (auto simp: best_of_def WG_SIZE_def dest: arg_cong [where f = length])
  ultimately show ?case
    using par_step_best [of 1 slots] 0 by (simp add: WG_SIZE_def numeral_2_eq_2)
next
  case (Suc k)
  have le: "2 * 2 ^ Suc k \<le> length slots" using Suc.prems by simp
  have "tree_reduce order (2 ^ Suc k) slots = tree_reduce order (2 ^ k) (par_step (2 ^ Suc k) slots)"
    using fold_items_par_step [OF le assms(1) Suc.prems(1)]
    by (subst tree_reduce.simps) simp
  moreover have "best_of (hd (tree_reduce order (2 ^ k) (par_step (2 ^ Suc k) slots)))
      (take (2 ^ Suc k) (par_step (2 ^ Suc k) slots))"
    using Suc.prems by (intro Suc.IH) auto
  ultimately show ?case
    using par_step_best [OF le] by simp
qed

lemma host_reduce_pick: "host_reduce best (p # ps) = host_reduce (pick best p) ps"
  by (simp add: pick_def)

text \<open>The fold over the partial results keeps a slot that nothing seen so far beats.\<close>

lemma host_reduce_best: "best_of (host_reduce best ps) (best # ps)"
proof (induction ps arbitrary: best)
  case (Cons p ps)
  note IH = Cons [of "pick best p"]
  have mem: "pick best p \<in> set (best # p # ps)" using pick_cases [of best p] by auto
  have dom: "f32_key (fst q) \<le> f32_key (fst (host_reduce (pick best p) ps))"
    if "\<forall>q \<in> set (best # p # ps). \<not> f32_nan (fst q)" "q \<in> set (best # p # ps)" for q
  proof -
    have *: "\<forall>q \<in> set (pick best p # ps). f32_key (fst q) \<le> f32_key (fst (host_reduce (pick best p) ps))"
      using IH that(1) mem by (auto simp: best_of_def)
    then show ?thesis
      using that pick_not_smaller [of best p] by (auto intro: order.trans)
  qed
  show ?case
    using IH mem dom pick_real [of p best] pick_cases [of best p]
    unfolding host_reduce_pick best_of_def by (auto simp: padding_ok_def)
qed (auto simp: best_of_def)

lemma wg_load_slots:
  assumes "vocab \<le> length logits" "p \<in> set (wg_load logits vocab wg)"
  shows "(0 \<le> snd p \<and> snd p < int vocab \<and> fst p = logits ! nat (snd p)) \<or> p = (NEG_INF, - 1)"
  using assms by (auto simp: wg_load_def Let_def simp del: of_nat_add of_nat_mult)

lemma nan_free_nth:
  "\<lbrakk>\<forall>x \<in> set (take vocab logits). \<not> f32_nan x; vocab \<le> length logits; 0 \<le> k; k < int vocab\<rbrakk>
    \<Longrightarrow> \<not> f32_nan (logits ! nat k)"
  by (drule bspec [of _ _ "logits ! nat k"]) (auto simp: in_take_nth intro: exI [of _ "nat k"])

lemma wg_load_nth:
  assumes "local_i < WG_SIZE" "wg * WG_SIZE + local_i < vocab"
  shows "wg_load logits vocab wg ! local_i
    = (logits ! (wg * WG_SIZE + local_i), int (wg * WG_SIZE + local_i))"
  using assms by (simp add: wg_load_def)

lemma NEG_INF_not_nan [simp]: "\<not> f32_nan NEG_INF"
  by (simp add: f32_nan_def f32_mag_def NEG_INF_def)

lemma wg_result_best:
  assumes "fair_order order"
  shows "best_of (hd (tree_reduce order (WG_SIZE div 2) (wg_load logits vocab wg))) (wg_load logits vocab wg)"
proof -
  have "length (wg_load logits vocab wg) = WG_SIZE" by (simp add: wg_load_def)
  then show ?thesis
    using tree_reduce_best [OF assms, of "wg_load logits vocab wg" 7] by (simp add: WG_SIZE_def)
qed

lemma wg_result:
  assumes "fair_order order" "vocab \<le> length logits" "wg * WG_SIZE < vocab"
  defines "r \<equiv> hd (tree_reduce order (WG_SIZE div 2) (wg_load logits vocab wg))"
  shows "0 \<le> snd r" "snd r < int vocab" "fst r = logits ! nat (snd r)"
    and "\<lbrakk>\<forall>x \<in> set (take vocab logits). \<not> f32_nan x; local_i < WG_SIZE; wg * WG_SIZE + local_i < vocab\<rbrakk>
      \<Longrightarrow> f32_key (logits ! (wg * WG_SIZE + local_i)) \<le> f32_key (fst r)"
proof -
  let ?s = "wg_load logits vocab wg"
  have best: "best_of r ?s" using wg_result_best [OF assms(1)] by (simp add: r_def)
  have "hd ?s = ?s ! 0" by (intro hd_conv_nth) (simp add: wg_load_def WG_SIZE_def)
  then have "0 \<le> snd (hd ?s)" using wg_load_nth [of 0 wg vocab logits] assms(3) by (simp add: WG_SIZE_def)
  moreover have "padding_ok ?s" using wg_load_slots [OF assms(2)] by (fastforce simp: padding_ok_def)
  ultimately show pos: "0 \<le> snd r" using best by (auto simp: best_of_def)
  have "r \<in> set ?s" using best by (simp add: best_of_def)
  from wg_load_slots [OF assms(2) this] pos
  show "snd r < int vocab" "fst r = logits ! nat (snd r)" by auto
  assume nan: "\<forall>x \<in> set (take vocab logits). \<not> f32_nan x"
    and i: "local_i < WG_SIZE" "wg * WG_SIZE + local_i < vocab"
  have "\<not> f32_nan (fst q)" if "q \<in> set ?s" for q
    using wg_load_slots [OF assms(2) that] nan_free_nth [OF nan assms(2)] by auto
  moreover have "?s ! local_i \<in> set ?s" using i by (intro nth_mem) (simp add: wg_load_def)
  ultimately show "f32_key (logits ! (wg * WG_SIZE + local_i)) \<le> f32_key (fst r)"
    using best wg_load_nth [OF i] unfolding best_of_def by (metis fst_conv)
qed

lemma argmax_best:
  assumes "\<And>wg. fair_order (order wg)" "0 < vocab_size" "nat vocab_size \<le> length logits"
  defines "r \<equiv> argmax order (Some logits) vocab_size"
  shows "0 \<le> r \<and> r < vocab_size \<and>
    ((\<forall>x \<in> set (take (nat vocab_size) logits). \<not> f32_nan x) \<longrightarrow>
     (\<forall>i < nat vocab_size. \<not> f32_gt (logits ! i) (logits ! nat r)))"
proof (cases "vocab_size = 1")
  case True
  then show ?thesis by (auto simp: r_def argmax_def f32_gt_def)
next
  case False
  let ?v = "nat vocab_size"
  let ?res = "\<lambda>wg. hd (tree_reduce (order wg) (WG_SIZE div 2) (wg_load logits ?v wg))"
  let ?n = "(?v + WG_SIZE - 1) div WG_SIZE"
  let ?ps = "map ?res [0..<?n]"
  have n: "0 < ?n" using assms(2) by (auto simp: WG_SIZE_def)
  then have ps: "hd ?ps # tl ?ps = ?ps" by (simp add: upt_conv_Cons)
  define b where "b = host_reduce (hd ?ps) (tl ?ps)"
  have best: "best_of b ?ps" using host_reduce_best [of "hd ?ps" "tl ?ps"] ps by (simp add: b_def)
  have r: "r = snd b" using assms(2) False by (simp add: r_def argmax_def b_def Let_def del: One_nat_def)
  have wg: "wg * WG_SIZE < ?v" if "wg < ?n" for wg
    using that by (auto simp: WG_SIZE_def)
  have "b \<in> set ?ps" using best by (simp only: best_of_def)
  then obtain w where w: "w < ?n" "b = ?res w" by auto
  note res = wg_result [OF assms(1) assms(3) wg]
  have "\<not> f32_gt (logits ! i) (logits ! nat r)"
    if nan: "\<forall>x \<in> set (take ?v logits). \<not> f32_nan x" and i: "i < ?v" for i
  proof -
    have g: "i div WG_SIZE < ?n" using i by (auto simp: WG_SIZE_def)
    have "f32_key (logits ! i) \<le> f32_key (fst (?res (i div WG_SIZE)))"
      using res(4) [OF g nan, of "i mod WG_SIZE"] i by (simp add: WG_SIZE_def)
    moreover have nan': "\<not> f32_nan (fst (?res wg))" if "wg < ?n" for wg
      using res(1,2,3) [OF that] nan_free_nth [OF nan assms(3)] by simp
    then have "f32_key (fst (?res (i div WG_SIZE))) \<le> f32_key (fst b)"
      using best g by (auto simp: best_of_def)
    ultimately show ?thesis using res(3) [OF w(1)] w(2) r by (auto simp: f32_gt_def)
  qed
  then show ?thesis using res(1,2) [OF w(1)] w(2) r assms(2) by auto
qed

text \<open>
  C19. On every logit vector, under every order in which the work-items of a group run between
  two barriers, \<^verbatim>\<open>argmax\<close> returns a token of the vocabulary, never the padding index; and when no
  logit is a NaN, no logit is greater than the one at the returned index.
\<close>

theorem argmax_correct:
  assumes "\<And>wg. fair_order (order wg)" "0 < vocab_size" "nat vocab_size \<le> length logits"
  defines "r \<equiv> argmax order (Some logits) vocab_size"
  shows "0 \<le> r \<and> r < vocab_size \<and>
    ((\<forall>x \<in> set (take (nat vocab_size) logits). \<not> f32_nan x) \<longrightarrow>
     (\<forall>i < nat vocab_size. \<not> f32_gt (logits ! i) (logits ! nat r)))"
  unfolding r_def using argmax_best [OF assms(1-3)] .

definition seq_order :: "nat \<Rightarrow> nat \<Rightarrow> nat list" where
  "seq_order wg stride = [0..<WG_SIZE]"

lemma seq_order_fair: "fair_order (seq_order wg)"
  by (simp add: fair_order_def seq_order_def)

theorem argmax_correct_witness:
  "argmax seq_order (Some [0x3F800000, 0x40400000, 0x40000000]) 3 = 1"
proof -
  let ?l = "[0x3F800000, 0x40400000, 0x40000000] :: f32_bits list"
  define r where "r = argmax seq_order (Some ?l) 3"
  have *: "0 \<le> r \<and> r < 3 \<and> (\<forall>i < 3. \<not> f32_gt (?l ! i) (?l ! nat r))"
    using argmax_correct [of seq_order 3 ?l] seq_order_fair
    by (simp add: r_def f32_nan_def f32_mag_def)
  then have "\<forall>i < 3. \<not> f32_gt (?l ! i) (?l ! nat r)" by simp
  note this [rule_format, of 1]
  moreover have "r \<in> {0, 1, 2}" using * by auto
  ultimately show ?thesis by (auto simp: r_def f32_gt_def f32_nan_def f32_key_def f32_mag_def)
qed


section \<open>Speculative acceptance\<close>

text \<open>Float arithmetic of the stochastic branch: \<^verbatim>\<open>-\<close>, \<^verbatim>\<open>+\<close>, \<^verbatim>\<open>/\<close> and \<^verbatim>\<open>std::exp\<close> on floats.\<close>

record f32_ops =
  f32_sub :: "f32_bits \<Rightarrow> f32_bits \<Rightarrow> f32_bits"
  f32_add :: "f32_bits \<Rightarrow> f32_bits \<Rightarrow> f32_bits"
  f32_div :: "f32_bits \<Rightarrow> f32_bits \<Rightarrow> f32_bits"
  f32_exp :: "f32_bits \<Rightarrow> f32_bits"

record acceptance =
  accepted_tokens :: "int list"
  bonus_or_resampled_token :: int
  has_rejected_token :: bool
  rejected_token :: int
  num_accepted :: nat
  num_rejected :: nat
  num_resampled :: nat
  num_remaining :: nat

definition SpeculativeAcceptanceResult :: acceptance where
  "SpeculativeAcceptanceResult = \<lparr>accepted_tokens = [], bonus_or_resampled_token = - 1,
     has_rejected_token = False, rejected_token = - 1, num_accepted = 0, num_rejected = 0,
     num_resampled = 0, num_remaining = 0\<rparr>"

datatype acceptance_error = Contract_violated

text \<open>\<^verbatim>\<open>p_target / p_draft\<close> for one position: the softmax of the logits at the draft token.\<close>

definition target_ratio :: "f32_ops \<Rightarrow> f32_bits list \<Rightarrow> int \<Rightarrow> int \<Rightarrow> f32_bits \<Rightarrow> f32_bits" where
  "target_ratio ops logits vocab_size draft_tok p_draft =
     (let max_val = foldl (\<lambda>m x. if f32_gt x m then x else m) NEG_INF logits;
          sum_exp = foldl (\<lambda>s x. f32_add ops s (f32_exp ops (f32_sub ops x max_val))) 0 logits;
          p_target = (if 0 \<le> draft_tok \<and> draft_tok < vocab_size \<and> f32_gt sum_exp 0
                      then f32_div ops (f32_exp ops (f32_sub ops (logits ! nat draft_tok) max_val)) sum_exp
                      else 0)
      in f32_div ops p_target p_draft)"

definition accept_token ::
    "f32_ops \<Rightarrow> f32_bits list option \<Rightarrow> f32_bits list option \<Rightarrow> int \<Rightarrow> nat \<Rightarrow> f32_bits list \<Rightarrow> int
     \<Rightarrow> int \<Rightarrow> bool" where
  "accept_token ops draft_probs rand_uniform vocab_size i logits draft_tok target_argmax_tok =
     (case draft_probs of
        None \<Rightarrow> draft_tok = target_argmax_tok
      | Some probs \<Rightarrow>
          let p_draft = probs ! i;
              r = (case rand_uniform of Some rs \<Rightarrow> rs ! i | None \<Rightarrow> 0)
          in
          if f32_le p_draft 0 then draft_tok = target_argmax_tok
          else if draft_tok = target_argmax_tok \<and> f32_le r 0 then True
          else f32_gt (target_ratio ops logits vocab_size draft_tok p_draft) r)"

definition row :: "f32_bits list \<Rightarrow> int \<Rightarrow> nat \<Rightarrow> f32_bits list" where
  "row target_logits vocab_size i = take (nat vocab_size) (drop (i * nat vocab_size) target_logits)"

text \<open>The loop over the draft tokens from index \<open>i\<close>; the flag is \<^verbatim>\<open>rejection_occurred\<close>.\<close>

fun accept_loop ::
    "(nat \<Rightarrow> int \<Rightarrow> int \<Rightarrow> bool) \<Rightarrow> (nat \<Rightarrow> int) \<Rightarrow> nat \<Rightarrow> nat \<Rightarrow> int list \<Rightarrow> acceptance
     \<Rightarrow> bool \<times> acceptance" where
  "accept_loop acc target n i [] res = (False, res)"
| "accept_loop acc target n i (draft_tok # ds) res =
     (if acc i draft_tok (target i)
      then accept_loop acc target n (Suc i) ds
             (res\<lparr>accepted_tokens := accepted_tokens res @ [draft_tok],
                  num_accepted := num_accepted res + 1\<rparr>)
      else (True, res\<lparr>has_rejected_token := True, rejected_token := draft_tok, num_rejected := 1,
                  bonus_or_resampled_token := target i, num_resampled := 1,
                  num_remaining := n - (num_accepted res + 1)\<rparr>))"

definition speculative_accept_reject ::
    "(nat \<Rightarrow> nat \<Rightarrow> nat list) \<Rightarrow> f32_ops \<Rightarrow> int list option \<Rightarrow> nat \<Rightarrow> f32_bits list option \<Rightarrow> int
     \<Rightarrow> f32_bits list option \<Rightarrow> f32_bits list option \<Rightarrow> acceptance_error + acceptance" where
  "speculative_accept_reject order ops draft_tokens num_draft_tokens target_logits vocab_size
       draft_probs rand_uniform =
     (case (draft_tokens, target_logits) of
        (Some draft, Some logits) \<Rightarrow>
          if num_draft_tokens = 0 \<or> vocab_size \<le> 0 then Inr SpeculativeAcceptanceResult
          else
            let target = (\<lambda>i. argmax order (Some (row logits vocab_size i)) vocab_size);
                acc = (\<lambda>i. accept_token ops draft_probs rand_uniform vocab_size i (row logits vocab_size i));
                (rejection_occurred, res) =
                  accept_loop acc target num_draft_tokens 0 (take num_draft_tokens draft)
                    SpeculativeAcceptanceResult
            in
            if rejection_occurred then
              if num_accepted res + num_rejected res + num_remaining res \<noteq> num_draft_tokens
              then Inl Contract_violated else Inr res
            else if num_accepted res \<noteq> num_draft_tokens then Inl Contract_violated
            else Inr (res\<lparr>bonus_or_resampled_token := target (num_draft_tokens - 1)\<rparr>)
      | _ \<Rightarrow> Inr SpeculativeAcceptanceResult)"

text \<open>How many draft tokens a run of the loop accepts.\<close>

fun accepted_count :: "(nat \<Rightarrow> int \<Rightarrow> int \<Rightarrow> bool) \<Rightarrow> (nat \<Rightarrow> int) \<Rightarrow> nat \<Rightarrow> int list \<Rightarrow> nat" where
  "accepted_count acc target i [] = 0"
| "accepted_count acc target i (d # ds) =
     (if acc i d (target i) then Suc (accepted_count acc target (Suc i) ds) else 0)"

lemma accepted_count_le: "accepted_count acc target i ds \<le> length ds"
  by (induction ds arbitrary: i) auto

lemma accepted_count_accepts:
  "j < accepted_count acc target i ds \<Longrightarrow> acc (i + j) (ds ! j) (target (i + j))"
proof (induction ds arbitrary: i j)
  case (Cons d ds)
  then show ?case by (cases j) (auto split: if_splits dest: Cons.IH [of _ "Suc i"])
qed simp

lemma accepted_count_rejects:
  "accepted_count acc target i ds < length ds \<Longrightarrow>
     \<not> acc (i + accepted_count acc target i ds) (ds ! accepted_count acc target i ds)
       (target (i + accepted_count acc target i ds))"
proof (induction ds arbitrary: i)
  case (Cons d ds)
  then show ?case using Cons.IH [of "Suc i"] by auto
qed simp

lemma accept_loop_eq:
  defines "k \<equiv> accepted_count"
  shows "accept_loop acc target n i ds res =
    (k acc target i ds < length ds,
     let c = k acc target i ds;
         res' = res\<lparr>accepted_tokens := accepted_tokens res @ take c ds, num_accepted := num_accepted res + c\<rparr>
     in if c < length ds
        then res'\<lparr>has_rejected_token := True, rejected_token := ds ! c, num_rejected := 1,
                  bonus_or_resampled_token := target (i + c), num_resampled := 1,
                  num_remaining := n - (num_accepted res + c + 1)\<rparr>
        else res')"
  unfolding k_def
proof (induction ds arbitrary: i res)
  case (Cons d ds)
  then show ?case by (simp add: Let_def)
qed (simp add: Let_def)

lemma acceptance_spec:
  fixes order ops draft logits vocab_size probs rand
  assumes "draft \<noteq> []" "0 < vocab_size"
  defines "n \<equiv> length draft"
    and "target \<equiv> \<lambda>i. argmax order (Some (row logits vocab_size i)) vocab_size"
    and "test \<equiv> \<lambda>i. accept_token ops probs rand vocab_size i (row logits vocab_size i)"
  shows "\<exists>k res. speculative_accept_reject order ops (Some draft) n (Some logits) vocab_size probs rand = Inr res
    \<and> k \<le> n \<and> accepted_tokens res = take k draft \<and> num_accepted res = k
    \<and> (\<forall>j < k. test j (draft ! j) (target j))
    \<and> (probs = None \<longrightarrow> accepted_tokens res = map target [0..<k])
    \<and> (if k < n
       then has_rejected_token res \<and> rejected_token res = draft ! k \<and> \<not> test k (draft ! k) (target k)
         \<and> bonus_or_resampled_token res = target k \<and> num_accepted res + 1 + num_remaining res = n
       else \<not> has_rejected_token res \<and> bonus_or_resampled_token res = target (n - 1))"
proof -
  define k where "k = accepted_count test target 0 draft"
  have k: "k \<le> n" by (simp add: k_def n_def accepted_count_le)
  have acc: "\<forall>j < k. test j (draft ! j) (target j)"
    using accepted_count_accepts [of _ test target 0 draft] by (simp add: k_def)
  have rej: "\<not> test k (draft ! k) (target k)" if "k < n"
    using accepted_count_rejects [of test target 0 draft] that by (simp add: k_def n_def)
  have greedy: "take k draft = map target [0..<k]" if "probs = None"
    using acc k that by (intro nth_equalityI) (auto simp: n_def test_def accept_token_def)
  have loop: "accept_loop test target n 0 draft SpeculativeAcceptanceResult = (k < n,
     let res' = SpeculativeAcceptanceResult\<lparr>accepted_tokens := take k draft, num_accepted := k\<rparr>
     in if k < n
        then res'\<lparr>has_rejected_token := True, rejected_token := draft ! k, num_rejected := 1,
                  bonus_or_resampled_token := target k, num_resampled := 1, num_remaining := n - (k + 1)\<rparr>
        else res')"
    by (simp add: accept_loop_eq k_def n_def SpeculativeAcceptanceResult_def Let_def)
  have n0: "n \<noteq> 0" "take n draft = draft" using assms(1) by (auto simp: n_def)
  show ?thesis
    using n0 assms(2) k acc rej greedy loop
    by (intro exI [of _ k])
      (auto simp: speculative_accept_reject_def Let_def SpeculativeAcceptanceResult_def
         simp flip: target_def test_def split: if_splits)
qed

text \<open>
  C20. \<^verbatim>\<open>speculative_accept_reject\<close> never fails its own accounting check, for greedy and for
  stochastic acceptance. It accepts a prefix of the draft, every token of it by the test at its
  position. Either some token remains, and the first one fails the test, is reported as rejected,
  is replaced by the target's choice at that position, and accepted, rejected and remaining tokens
  add up to the length of the draft; or all tokens are accepted and the bonus token is the target's
  choice at the last position. In greedy mode the accepted tokens are the target's own choices.
\<close>

theorem speculative_acceptance_correct:
  fixes order ops draft logits vocab_size probs rand
  assumes "draft \<noteq> []" "0 < vocab_size"
  defines "n \<equiv> length draft"
    and "target \<equiv> \<lambda>i. argmax order (Some (row logits vocab_size i)) vocab_size"
    and "test \<equiv> \<lambda>i. accept_token ops probs rand vocab_size i (row logits vocab_size i)"
  shows "\<exists>k res. speculative_accept_reject order ops (Some draft) n (Some logits) vocab_size probs rand = Inr res
    \<and> k \<le> n \<and> accepted_tokens res = take k draft \<and> num_accepted res = k
    \<and> (\<forall>j < k. test j (draft ! j) (target j))
    \<and> (probs = None \<longrightarrow> accepted_tokens res = map target [0..<k])
    \<and> (if k < n
       then has_rejected_token res \<and> rejected_token res = draft ! k \<and> \<not> test k (draft ! k) (target k)
         \<and> bonus_or_resampled_token res = target k \<and> num_accepted res + 1 + num_remaining res = n
       else \<not> has_rejected_token res \<and> bonus_or_resampled_token res = target (n - 1))"
  unfolding n_def target_def test_def by (rule acceptance_spec [OF assms(1,2)])

theorem speculative_acceptance_correct_witness:
  "\<forall>ops. \<exists>res. speculative_accept_reject seq_order ops (Some [0, 0]) 2 (Some [0x3F800000, 0x40000000]) 1
     None None = Inr res \<and> accepted_tokens res = [0, 0] \<and> \<not> has_rejected_token res"
proof
  fix ops
  have 0: "argmax seq_order (Some xs) 1 = 0" for xs by (simp add: argmax_def)
  have 1: "k < Suc (Suc 0) \<Longrightarrow> [0, 0 :: int] ! k = 0" for k by (cases k) auto
  obtain k res where res: "speculative_accept_reject seq_order ops (Some [0, 0]) (length [0::int, 0])
      (Some [0x3F800000, 0x40000000]) 1 None None = Inr res" "k \<le> length [0::int, 0]"
    "accepted_tokens res = take k [0, 0]"
    "if k < length [0::int, 0] then \<not> accept_token ops None None 1 k (row [0x3F800000, 0x40000000] 1 k) ([0, 0] ! k) 0
     else \<not> has_rejected_token res"
    using speculative_acceptance_correct [of "[0, 0]" 1 seq_order ops "[0x3F800000, 0x40000000]" None None]
    unfolding 0 by (metis list.distinct(1) zero_less_one)
  have "\<not> k < length [0::int, 0]"
    using res(4) 1 [of k] by (auto simp: accept_token_def)
  with res show "\<exists>res. speculative_accept_reject seq_order ops (Some [0, 0]) 2
      (Some [0x3F800000, 0x40000000]) 1 None None = Inr res
      \<and> accepted_tokens res = [0, 0] \<and> \<not> has_rejected_token res"
    by (auto simp: numeral_2_eq_2)
qed

end
