(* ===== verification/Forward.thy ===== *)
theory Forward
  imports Weights Sampling
begin

text \<open>
  The host side of \<^verbatim>\<open>src/targets/qwen3_8/forward.cpp\<close> and \<^verbatim>\<open>decode_graph.cpp\<close>: which kernels the
  forward pass submits, in which order and with which buffers, dimensions, positions and cache
  slices. A submission is a value of type \<open>kernel\<close>; the queue is in order, so a pass is a list of
  them. What a kernel computes is a parameter \<open>exec\<close> on the device memory and the recurrent state
  of the KV cache, and \<open>logits_at\<close> reads a row of logits back. Buffer addresses come from the
  device arena.
\<close>


section \<open>Kernel submissions\<close>

text \<open>Where a position comes from: the host at submission, or device memory at replay.\<close>

datatype kv_pos = Static_pos int | Dynamic_pos u64

datatype kv_slice = Slice_fp16 u64 u64 | Slice_int8 u64 u64 u64 u64 u64 u64

datatype kernel =
    Copy_tokens u64 "int list"
  | Copy_indices u64 "int list"
  | Fill_positions u64 int int
  | Copy_positions u64 "int list"
  | Embed_lookup u64 u64 u64 int int int u64 int int u64
  | Rmsnorm u64 u64 u64 int int
  | Linear_fused u64 "(u64 \<times> linear_view \<times> int) list" int int
  | Split_q u64 u64 int int int
  | Rope u64 u64 int int int int u64 rat int
  | Write_kv kv_slice u64 u64 kv_pos int int int u64
  | Sdpa u64 u64 kv_slice kv_pos int int int int u64
  | Gate_output u64 u64 int int int
  | Linear_int4 u64 u64 linear_view int int int
  | Conv1d_silu u64 u64 u64 int u64 int
  | Delta_net u64 u64 u64 u64 u64 u64 u64 u64 u64 int bool
  | Add_inplace u64 u64 int
  | Mlp_swiglu u64 u64 linear_view linear_view int int int

record layer_buffers =
  act_x :: u64
  act_normed :: u64
  act_proj_out :: u64
  act_mlp_gate :: u64
  act_q_gate :: u64
  act_q :: u64
  act_k :: u64
  act_v :: u64
  act_attn_out :: u64
  act_qkv_raw :: u64
  act_qkv_conv :: u64
  act_z :: u64
  act_b :: u64
  act_a :: u64
  act_delta_out :: u64

text \<open>The cache slice of a full-attention layer; the accessors throw.\<close>

definition slice_of :: "kv_cache \<Rightarrow> nat \<Rightarrow> kv_error + kv_slice" where
  "slice_of kv i =
     (if is_int8 kv then
        (case (k_cache_int8 kv i, v_cache_int8 kv i, k_scale kv i, v_scale kv i, k_zero_point kv i, v_zero_point kv i) of
           (Inr a, Inr b, Inr c, Inr d, Inr e, Inr f) \<Rightarrow> Inr (Slice_int8 a b c d e f)
         | _ \<Rightarrow> Inl Layer_out_of_range)
      else
        (case (k_cache kv i, v_cache kv i) of
           (Inr a, Inr b) \<Rightarrow> Inr (Slice_fp16 a b)
         | _ \<Rightarrow> Inl Layer_out_of_range))"

definition full_attention_kernels ::
    "model_config \<Rightarrow> layer_weights \<Rightarrow> kv_cache \<Rightarrow> kv_slice \<Rightarrow> layer_buffers \<Rightarrow> int \<Rightarrow> u64 \<Rightarrow> kv_pos \<Rightarrow> kernel list" where
  "full_attention_kernels cfg layer kv sl b n d_positions pos =
     [Split_q (act_q b) (act_q_gate b) n (num_attention_heads cfg) (cfg_head_dim cfg),
      Rmsnorm (act_q b) (act_q b) (d_q_norm layer) (n * num_attention_heads cfg) (cfg_head_dim cfg),
      Rmsnorm (act_k b) (act_k b) (d_k_norm layer) (n * num_key_value_heads cfg) (cfg_head_dim cfg),
      Rope (act_q b) (act_k b) n (num_attention_heads cfg) (num_key_value_heads cfg) (cfg_head_dim cfg)
        d_positions (rope_theta cfg) (rope_dim cfg),
      Write_kv sl (act_k b) (act_v b) pos n (num_key_value_heads cfg) (cfg_head_dim cfg) (max_seq_len (config kv)),
      Sdpa (act_attn_out b) (act_q b) sl pos n (num_attention_heads cfg) (num_key_value_heads cfg)
        (cfg_head_dim cfg) (max_seq_len (config kv)),
      Gate_output (act_attn_out b) (act_q_gate b) n (num_attention_heads cfg) (cfg_head_dim cfg),
      Linear_int4 (act_proj_out b) (act_attn_out b) (o_proj layer) n (hidden_size cfg) (full_out_dim cfg)]"

definition mlp_kernels :: "model_config \<Rightarrow> layer_weights \<Rightarrow> layer_buffers \<Rightarrow> int \<Rightarrow> kernel list" where
  "mlp_kernels cfg layer b n =
     [Add_inplace (act_x b) (act_proj_out b) (n * hidden_size cfg),
      Rmsnorm (act_normed b) (act_x b) (d_post_attention_layernorm layer) n (hidden_size cfg),
      Mlp_swiglu (act_mlp_gate b) (act_normed b) (gate_proj layer) (up_proj layer) n (intermediate_size cfg)
        (hidden_size cfg),
      Linear_int4 (act_proj_out b) (act_mlp_gate b) (down_proj layer) n (hidden_size cfg) (intermediate_size cfg),
      Add_inplace (act_x b) (act_proj_out b) (n * hidden_size cfg)]"

text \<open>
  \<^verbatim>\<open>forward_layer\<close>: the submissions made before it returns or throws, and the new values of the two
  layer counters.
\<close>

definition forward_layer ::
    "model_config \<Rightarrow> layer_weights \<Rightarrow> kv_cache \<Rightarrow> nat \<times> nat \<Rightarrow> layer_buffers \<Rightarrow> int \<Rightarrow> u64 \<Rightarrow> int \<Rightarrow> u64 \<Rightarrow> bool
     \<Rightarrow> (kv_error + nat \<times> nat) \<times> kernel list" where
  "forward_layer cfg layer kv idx b n d_positions start_pos d_dynamic_pos zero_linear_state =
     (let full_idx = fst idx; linear_idx = snd idx;
          pos = (if d_dynamic_pos \<noteq> 0 then Dynamic_pos d_dynamic_pos else Static_pos start_pos);
          norm = Rmsnorm (act_normed b) (act_x b) (d_input_layernorm layer) n (hidden_size cfg)
      in
      if layer_type layer = ''full_attention'' then
        let pre = [norm, Linear_fused (act_normed b)
              [(act_q_gate b, q_proj layer, full_q_gate_dim cfg), (act_k b, k_proj layer, full_k_dim cfg),
               (act_v b, v_proj layer, full_v_dim cfg)] n (hidden_size cfg)]
        in
        (case slice_of kv full_idx of
           Inl e \<Rightarrow> (Inl e, pre @ take 4 (full_attention_kernels cfg layer kv (Slice_fp16 0 0) b n d_positions pos))
         | Inr sl \<Rightarrow> (Inr (Suc full_idx, linear_idx),
             pre @ full_attention_kernels cfg layer kv sl b n d_positions pos @ mlp_kernels cfg layer b n))
      else
        let pre = [norm, Linear_fused (act_normed b)
              [(act_qkv_raw b, in_proj_qkv layer, cfg_linear_conv_channels cfg), (act_z b, in_proj_z layer, linear_z_dim cfg),
               (act_b b, in_proj_b layer, linear_b_dim cfg), (act_a b, in_proj_a layer, linear_a_dim cfg)]
              n (hidden_size cfg)]
        in
        (case conv_state kv linear_idx of
           Inl e \<Rightarrow> (Inl e, pre)
         | Inr conv \<Rightarrow>
             let pre' = pre @ [Conv1d_silu (act_qkv_conv b) (act_qkv_raw b) (d_conv1d_weight layer) n conv
                                 (cfg_linear_conv_channels cfg)]
             in
             (case linear_state kv linear_idx of
                Inl e \<Rightarrow> (Inl e, pre')
              | Inr st \<Rightarrow> (Inr (full_idx, Suc linear_idx),
                  pre' @ [Delta_net (act_delta_out b) (act_qkv_conv b) (act_z b) (act_b b) (act_a b) (d_A_log layer)
                            (d_dt_bias layer) (d_norm_weight layer) st n zero_linear_state,
                          Linear_int4 (act_proj_out b) (act_delta_out b) (out_proj layer) n (hidden_size cfg)
                            (linear_z_dim cfg)] @ mlp_kernels cfg layer b n))))"

fun forward_layers ::
    "model_config \<Rightarrow> layer_weights list \<Rightarrow> kv_cache \<Rightarrow> nat \<times> nat \<Rightarrow> layer_buffers \<Rightarrow> int \<Rightarrow> u64 \<Rightarrow> int \<Rightarrow> u64 \<Rightarrow> bool
     \<Rightarrow> (kv_error + nat \<times> nat) \<times> kernel list" where
  "forward_layers cfg [] kv idx b n d_positions start_pos dyn z = (Inr idx, [])"
| "forward_layers cfg (l # ls) kv idx b n d_positions start_pos dyn z =
     (case forward_layer cfg l kv idx b n d_positions start_pos dyn z of
        (Inl e, ks) \<Rightarrow> (Inl e, ks)
      | (Inr idx', ks) \<Rightarrow>
          (case forward_layers cfg ls kv idx' b n d_positions start_pos dyn z of (r, ks') \<Rightarrow> (r, ks @ ks')))"

definition forward_lm_head :: "loaded_model \<Rightarrow> u64 \<Rightarrow> u64 \<Rightarrow> u64 \<Rightarrow> kernel list" where
  "forward_lm_head m normed x_last out_logits =
     [Rmsnorm normed x_last (d_final_norm m) 1 (hidden_size (lm_config m)),
      Linear_int4 out_logits normed (lm_head m) 1 (vocab_size (lm_config m)) (hidden_size (lm_config m))]"


section \<open>Running a pass\<close>

datatype vision_error =
    Not_a_multiple nat nat
  | Image_without_tag nat
  | Tag_without_image nat
  | Image_count nat nat
  | Patch_count nat nat
  | Null_embeddings

datatype fw_error =
    FW_alloc alloc_error
  | FW_cache kv_error
  | Context_length_exceeded
  | Vision_format_error vision_error
  | Draft_token_range nat
  | Graph_not_captured

record 'd gpu =
  gpu_arena :: device_arena
  gpu_kv :: kv_cache
  gpu_dev :: 'd

text \<open>
  The parameters: what a kernel does, how logits are read back, the order of the work-items of
  \<^verbatim>\<open>argmax\<close>, and device allocations outside the arena's block.
\<close>

record 'd device_ops =
  exec :: "kernel \<Rightarrow> 'd \<times> bytes \<Rightarrow> 'd \<times> bytes"
  logits_at :: "'d \<Rightarrow> u64 \<Rightarrow> nat \<Rightarrow> f32_bits list"
  item_order :: "nat \<Rightarrow> nat \<Rightarrow> nat list"
  arena_usm :: "u64 \<Rightarrow> u64 \<Rightarrow> u64"

definition submit :: "'d device_ops \<Rightarrow> kernel list \<Rightarrow> 'd gpu \<Rightarrow> 'd gpu" where
  "submit dv ks g =
     (case fold (exec dv) ks (gpu_dev g, recurrent_mem (gpu_kv g)) of
        (d, rec) \<Rightarrow> g\<lparr>gpu_dev := d, gpu_kv := (gpu_kv g)\<lparr>recurrent_mem := rec\<rparr>\<rparr>)"

definition arena_alloc :: "u64 \<Rightarrow> 'd gpu \<Rightarrow> (fw_error + u64) \<times> 'd gpu" where
  "arena_alloc bytes g =
     (case allocate (gpu_arena g) bytes 0 of
        (Inl e, a) \<Rightarrow> (Inl (FW_alloc e), g\<lparr>gpu_arena := a\<rparr>)
      | (Inr p, a) \<Rightarrow> (Inr p, g\<lparr>gpu_arena := a\<rparr>))"

fun arena_allocs :: "u64 list \<Rightarrow> 'd gpu \<Rightarrow> (fw_error + u64 list) \<times> 'd gpu" where
  "arena_allocs [] g = (Inr [], g)"
| "arena_allocs (n # ns) g =
     (case arena_alloc n g of
        (Inl e, g') \<Rightarrow> (Inl e, g')
      | (Inr p, g') \<Rightarrow>
          (case arena_allocs ns g' of (Inl e, g'') \<Rightarrow> (Inl e, g'') | (Inr ps, g'') \<Rightarrow> (Inr (p # ps), g'')))"

fun persistent_allocs :: "'d device_ops \<Rightarrow> u64 list \<Rightarrow> 'd gpu \<Rightarrow> (fw_error + u64 list) \<times> 'd gpu" where
  "persistent_allocs dv [] g = (Inr [], g)"
| "persistent_allocs dv (n # ns) g =
     (case allocate_persistent (arena_usm dv) (gpu_arena g) n 0 of
        (Inl e, a) \<Rightarrow> (Inl (FW_alloc e), g\<lparr>gpu_arena := a\<rparr>)
      | (Inr p, a) \<Rightarrow>
          (case persistent_allocs dv ns (g\<lparr>gpu_arena := a\<rparr>) of
             (Inl e, g'') \<Rightarrow> (Inl e, g'')
           | (Inr ps, g'') \<Rightarrow> (Inr (p # ps), g'')))"

text \<open>The fifteen activation buffers for \<open>n\<close> tokens of \<^verbatim>\<open>sycl::half\<close>, in the order of their members.\<close>

definition buffer_dims :: "model_config \<Rightarrow> int list" where
  "buffer_dims cfg =
     [hidden_size cfg, hidden_size cfg, hidden_size cfg, intermediate_size cfg,
      full_q_gate_dim cfg, full_q_dim cfg, full_k_dim cfg, full_v_dim cfg, full_out_dim cfg,
      cfg_linear_conv_channels cfg, cfg_linear_conv_channels cfg, linear_z_dim cfg, linear_b_dim cfg,
      linear_a_dim cfg, linear_z_dim cfg]"

definition buffer_sizes :: "model_config \<Rightarrow> int \<Rightarrow> u64 list" where
  "buffer_sizes cfg n = map (\<lambda>d. word_of_int (n * d) * 2) (buffer_dims cfg)"

definition buffers_of :: "u64 list \<Rightarrow> layer_buffers" where
  "buffers_of p = \<lparr>act_x = p ! 0, act_normed = p ! 1, act_proj_out = p ! 2, act_mlp_gate = p ! 3,
     act_q_gate = p ! 4, act_q = p ! 5, act_k = p ! 6, act_v = p ! 7, act_attn_out = p ! 8,
     act_qkv_raw = p ! 9, act_qkv_conv = p ! 10, act_z = p ! 11, act_b = p ! 12, act_a = p ! 13,
     act_delta_out = p ! 14\<rparr>"

record vision_input =
  d_vit_embeddings :: u64
  num_patches :: nat
  num_images :: nat

text \<open>The submissions of a chunk once its buffers are there.\<close>

definition chunk_kernels ::
    "loaded_model \<Rightarrow> kv_cache \<Rightarrow> layer_buffers \<Rightarrow> u64 \<Rightarrow> u64 \<Rightarrow> int \<Rightarrow> int \<Rightarrow> u64 \<Rightarrow> bool \<Rightarrow> u64 \<Rightarrow> u64 \<Rightarrow> u64
     \<Rightarrow> (kv_error + nat \<times> nat) \<times> kernel list" where
  "chunk_kernels m kv b d_tok d_pos n start_pos dyn zero vit visual_indices logits =
     (let cfg = lm_config m;
          emb = Embed_lookup (act_x b) (d_embed_tokens m) d_tok n (hidden_size cfg) (vocab_size cfg) vit
                  (visual_token_start cfg) (visual_token_end cfg) visual_indices
      in
      case forward_layers cfg (lm_layers m) kv (0, 0) b n d_pos start_pos dyn zero of
        (Inl e, ks) \<Rightarrow> (Inl e, emb # ks)
      | (Inr idx, ks) \<Rightarrow> (Inr idx, emb # ks @
          (if logits = 0 then []
           else forward_lm_head m (act_normed b) (act_x b + word_of_int ((n - 1) * hidden_size cfg) * 2) logits)))"

definition forward_chunk ::
    "'d device_ops \<Rightarrow> loaded_model \<Rightarrow> int list \<Rightarrow> int \<Rightarrow> bool \<Rightarrow> u64 \<Rightarrow> bool \<Rightarrow> layer_buffers option \<Rightarrow> u64 \<Rightarrow> u64
     \<Rightarrow> vision_input option \<Rightarrow> u64 \<Rightarrow> 'd gpu \<Rightarrow> (fw_error + unit) \<times> 'd gpu" where
  "forward_chunk dv m tokens start_pos zero logits is_capture pre_bufs pre_tok pre_pos vision visual_indices g =
     (let n = int (length tokens) in
      if n \<le> 0 then (Inr (), g)
      else if start_pos < 0 \<or> uint (max_seq_len (config (gpu_kv g))) < start_pos + n then (Inr (), g)
      else
        let g1 = (if \<not> is_capture \<and> pre_bufs = None then g\<lparr>gpu_arena := arena_reset (gpu_arena g)\<rparr> else g) in
        case (if pre_tok \<noteq> 0 then (Inr pre_tok, g1) else arena_alloc (word_of_int (n * 8)) g1) of
          (Inl e, g2) \<Rightarrow> (Inl e, g2)
        | (Inr d_tok, g2) \<Rightarrow>
            let g3 = submit dv [Copy_tokens d_tok tokens] g2 in
            (case (if pre_pos \<noteq> 0 then (Inr pre_pos, g3) else arena_alloc (word_of_int (n * 8)) g3) of
               (Inl e, g4) \<Rightarrow> (Inl e, g4)
             | (Inr d_pos, g4) \<Rightarrow>
                 let g5 = submit dv [Fill_positions d_pos start_pos n] g4 in
                 (case (case pre_bufs of
                          Some b \<Rightarrow> (Inr b, g5)
                        | None \<Rightarrow>
                            (case arena_allocs (buffer_sizes (lm_config m) n) g5 of
                               (Inl e, g6) \<Rightarrow> (Inl e, g6)
                             | (Inr ps, g6) \<Rightarrow> (Inr (buffers_of ps), g6))) of
                    (Inl e, g6) \<Rightarrow> (Inl e, g6)
                  | (Inr b, g6) \<Rightarrow>
                      let vit = (case vision of Some v \<Rightarrow> d_vit_embeddings v | None \<Rightarrow> 0) in
                      (case chunk_kernels m (gpu_kv g6) b d_tok d_pos n start_pos 0 zero vit visual_indices logits of
                         (r, ks) \<Rightarrow>
                           (case r of Inl e \<Rightarrow> Inl (FW_cache e) | Inr _ \<Rightarrow> Inr (), submit dv ks g6)))))"


section \<open>Prefill\<close>

definition is_visual :: "model_config \<Rightarrow> int \<Rightarrow> bool" where
  "is_visual cfg tok \<longleftrightarrow> visual_token_start cfg \<le> tok \<and> tok \<le> visual_token_end cfg"

text \<open>\<^verbatim>\<open>visual_indices_host\<close>: consecutive numbers at the visual tokens, -1 elsewhere.\<close>

fun visual_indices :: "model_config \<Rightarrow> nat \<Rightarrow> int list \<Rightarrow> int list" where
  "visual_indices cfg n [] = []"
| "visual_indices cfg n (t # ts) =
     (if is_visual cfg t then int n # visual_indices cfg (Suc n) ts else - 1 # visual_indices cfg n ts)"

definition visual_count :: "model_config \<Rightarrow> int list \<Rightarrow> nat" where
  "visual_count cfg ts = length (filter (is_visual cfg) ts)"

definition patches_per_img :: "model_config \<Rightarrow> nat" where
  "patches_per_img cfg = (if 0 < cfg_patches_per_image cfg then nat (cfg_patches_per_image cfg) else 256)"

definition vision_check :: "model_config \<Rightarrow> int list \<Rightarrow> vision_input option \<Rightarrow> vision_error option" where
  "vision_check cfg ts vision =
     (let count = visual_count cfg ts;
          per = patches_per_img cfg;
          expected = count div per;
          provided = (case vision of Some v \<Rightarrow> num_images v | None \<Rightarrow> 0)
      in
      if 0 < count \<and> count mod per \<noteq> 0 then Some (Not_a_multiple count per)
      else if 0 < provided \<and> expected = 0 then Some (Image_without_tag provided)
      else if provided = 0 \<and> 0 < expected then Some (Tag_without_image expected)
      else
        case vision of
          None \<Rightarrow> None
        | Some v \<Rightarrow>
            if 0 < provided then
              if provided \<noteq> expected then Some (Image_count provided expected)
              else if num_patches v \<noteq> count then Some (Patch_count (num_patches v) count)
              else if d_vit_embeddings v = 0 then Some Null_embeddings
              else None
            else None)"

text \<open>The chunk loop from \<open>offset\<close>; \<open>chunk_size\<close> is not zero here.\<close>

function prefill_loop ::
    "'d device_ops \<Rightarrow> loaded_model \<Rightarrow> int list \<Rightarrow> nat \<Rightarrow> u64 \<Rightarrow> bool \<Rightarrow> layer_buffers option \<Rightarrow> u64 \<Rightarrow> u64
     \<Rightarrow> vision_input option \<Rightarrow> u64 \<Rightarrow> nat \<Rightarrow> 'd gpu \<Rightarrow> (fw_error + unit) \<times> 'd gpu" where
  "prefill_loop dv m ts chunk_size d_logits is_capture bufs d_tok d_pos vision d_vis offset g =
     (if length ts \<le> offset \<or> chunk_size = 0 then (Inr (), g)
      else
        let cur_chunk = min chunk_size (length ts - offset);
            is_last = (offset + cur_chunk = length ts)
        in
        case forward_chunk dv m (slice offset cur_chunk ts) (int offset) (offset = 0)
               (if is_last then d_logits else 0) is_capture bufs d_tok d_pos vision
               (if d_vis \<noteq> 0 then d_vis + word_of_nat (offset * 8) else 0) g of
          (Inl e, g') \<Rightarrow> (Inl e, g')
        | (Inr _, g') \<Rightarrow>
            prefill_loop dv m ts chunk_size d_logits is_capture bufs d_tok d_pos vision d_vis (offset + cur_chunk) g')"
  by pat_completeness auto
termination
  by (relation "measure (\<lambda>(_, _, ts, _, _, _, _, _, _, _, _, offset, _). length ts - offset)") auto

declare prefill_loop.simps [simp del]

definition sample :: "'d device_ops \<Rightarrow> loaded_model \<Rightarrow> u64 \<Rightarrow> 'd gpu \<Rightarrow> int" where
  "sample dv m d_logits g =
     (let v = vocab_size (lm_config m) in
      argmax (item_order dv) (Some (logits_at dv (gpu_dev g) d_logits (nat v))) v)"

definition logits_buffer :: "'d device_ops \<Rightarrow> u64 \<Rightarrow> 'd gpu \<Rightarrow> (fw_error + u64) \<times> 'd gpu" where
  "logits_buffer dv bytes g =
     (case persistent_buffer (arena_usm dv) (gpu_arena g) bytes 0 of
        (Inl e, a) \<Rightarrow> (Inl (FW_alloc e), g\<lparr>gpu_arena := a\<rparr>)
      | (Inr p, a) \<Rightarrow> (Inr p, g\<lparr>gpu_arena := a\<rparr>))"

text \<open>Allocations before the loop: visual indices, and all buffers when a graph is captured.\<close>

definition prefill_buffers ::
    "'d device_ops \<Rightarrow> loaded_model \<Rightarrow> int list \<Rightarrow> nat \<Rightarrow> bool \<Rightarrow> 'd gpu
     \<Rightarrow> (fw_error + u64 \<times> u64 \<times> u64 \<times> layer_buffers option) \<times> 'd gpu" where
  "prefill_buffers dv m ts chunk_size is_capture g =
     (let cfg = lm_config m in
      case (if 0 < visual_count cfg ts
            then (case arena_alloc (word_of_nat (length ts * 8)) g of
                    (Inl e, g1) \<Rightarrow> (Inl e, g1)
                  | (Inr p, g1) \<Rightarrow> (Inr p, submit dv [Copy_indices p (visual_indices cfg 0 ts)] g1))
            else (Inr 0, g)) of
        (Inl e, g1) \<Rightarrow> (Inl e, g1)
      | (Inr d_vis, g1) \<Rightarrow>
          if is_capture then
            (case persistent_allocs dv
                    (word_of_nat (chunk_size * 8) # word_of_nat (chunk_size * 8) # buffer_sizes cfg (int chunk_size)) g1 of
               (Inl e, g2) \<Rightarrow> (Inl e, g2)
             | (Inr ps, g2) \<Rightarrow> (Inr (d_vis, ps ! 0, ps ! 1, Some (buffers_of (drop 2 ps))), g2))
          else (Inr (d_vis, 0, 0, None), g1))"

definition prefill_prompt ::
    "'d device_ops \<Rightarrow> loaded_model \<Rightarrow> int list \<Rightarrow> nat \<Rightarrow> bool \<Rightarrow> vision_input option \<Rightarrow> 'd gpu
     \<Rightarrow> (fw_error + int) \<times> 'd gpu" where
  "prefill_prompt dv m ts chunk_size0 is_capture vision g =
     (let cfg = lm_config m; max_len = unat (max_seq_len (config (gpu_kv g))) in
      if ts = [] then (Inr 0, g)
      else if max_len < length ts then (Inl Context_length_exceeded, g)
      else
        case vision_check cfg ts vision of
          Some e \<Rightarrow> (Inl (Vision_format_error e), g)
        | None \<Rightarrow>
            if list_ex (\<lambda>t. t < 0 \<or> vocab_size cfg \<le> t) ts then (Inr (- 1), g)
            else
              let chunk_size = (if chunk_size0 = 0 then 512 else chunk_size0);
                  g1 = g\<lparr>gpu_kv := clear (gpu_kv g)\<rparr>
              in
              (case logits_buffer dv (word_of_int (vocab_size cfg) * 4) g1 of
                 (Inl e, g2) \<Rightarrow> (Inl e, g2)
               | (Inr d_logits, g2) \<Rightarrow>
                   (case prefill_buffers dv m ts chunk_size is_capture g2 of
                      (Inl e, g3) \<Rightarrow> (Inl e, g3)
                    | (Inr (d_vis, d_tok, d_pos, bufs), g3) \<Rightarrow>
                        (case prefill_loop dv m ts chunk_size d_logits is_capture bufs d_tok d_pos vision d_vis 0 g3 of
                           (Inl e, g4) \<Rightarrow> (Inl e, g4)
                         | (Inr _, g4) \<Rightarrow>
                             let g5 = g4\<lparr>gpu_kv := set_seq_len (gpu_kv g4) (word_of_nat (length ts))\<rparr>
                             in (Inr (sample dv m d_logits g5), g5)))))"


section \<open>Decode and draft steps\<close>

definition decode_step :: "'d device_ops \<Rightarrow> loaded_model \<Rightarrow> int \<Rightarrow> u64 \<Rightarrow> 'd gpu \<Rightarrow> (fw_error + int) \<times> 'd gpu" where
  "decode_step dv m tok d_logits0 g =
     (let kv = gpu_kv g; cfg = lm_config m in
      if max_seq_len (config kv) \<le> current_seq_len kv then (Inr (- 1), g)
      else if tok < 0 \<or> vocab_size cfg \<le> tok then (Inr (- 1), g)
      else
        case (if d_logits0 = 0 then logits_buffer dv (word_of_int (vocab_size cfg) * 4) g else (Inr d_logits0, g)) of
          (Inl e, g1) \<Rightarrow> (Inl e, g1)
        | (Inr d_logits, g1) \<Rightarrow>
            (case forward_chunk dv m [tok] (uint (current_seq_len kv)) False d_logits False None 0 0 None 0 g1 of
               (Inl e, g2) \<Rightarrow> (Inl e, g2)
             | (Inr _, g2) \<Rightarrow>
                 (case advance (gpu_kv g2) 1 of
                    (False, kv') \<Rightarrow> (Inr (- 1), g2\<lparr>gpu_kv := kv'\<rparr>)
                  | (True, kv') \<Rightarrow>
                      let g3 = g2\<lparr>gpu_kv := kv'\<rparr> in (Inr (sample dv m d_logits g3), g3))))"


section \<open>The captured decode graph\<close>

text \<open>
  \<^verbatim>\<open>DecodeGraph\<close>: fixed buffers and, once captured, the recorded submissions. Its memory does not
  come from the arena; the pointers are those \<^verbatim>\<open>sycl::malloc_device\<close> returned.
\<close>

record decode_graph =
  dg_token_ids :: u64
  dg_positions :: u64
  dg_logits :: u64
  dg_sample_max :: u64
  dg_sample_idx :: u64
  dg_bufs :: layer_buffers
  is_captured :: bool
  exec_graph :: "kernel list option"

definition DecodeGraph :: "u64 list \<Rightarrow> decode_graph" where
  "DecodeGraph p = \<lparr>dg_token_ids = p ! 0, dg_positions = p ! 1, dg_logits = p ! 2, dg_sample_max = p ! 3,
     dg_sample_idx = p ! 4, dg_bufs = buffers_of (drop 5 p), is_captured = False, exec_graph = None\<rparr>"

text \<open>The destructor frees every pointer that is not null.\<close>

definition buffer_ptrs :: "layer_buffers \<Rightarrow> u64 list" where
  "buffer_ptrs b = [act_x b, act_normed b, act_proj_out b, act_mlp_gate b, act_q_gate b, act_q b, act_k b,
     act_v b, act_attn_out b, act_qkv_raw b, act_qkv_conv b, act_z b, act_b b, act_a b, act_delta_out b]"

definition DecodeGraph_destroy :: "decode_graph \<Rightarrow> u64 list" where
  "DecodeGraph_destroy dg = filter (\<lambda>p. p \<noteq> 0)
     ([dg_token_ids dg, dg_positions dg, dg_logits dg, dg_sample_max dg, dg_sample_idx dg] @ buffer_ptrs (dg_bufs dg))"

definition graph_kernels :: "loaded_model \<Rightarrow> kv_cache \<Rightarrow> decode_graph \<Rightarrow> (kv_error + nat \<times> nat) \<times> kernel list" where
  "graph_kernels m kv dg =
     (let cfg = lm_config m; b = dg_bufs dg;
          emb = Embed_lookup (act_x b) (d_embed_tokens m) (dg_token_ids dg) 1 (hidden_size cfg) (vocab_size cfg)
                  0 (- 1) (- 1) 0
      in
      case forward_layers cfg (lm_layers m) kv (0, 0) b 1 (dg_positions dg) 0 (dg_positions dg) False of
        (Inl e, ks) \<Rightarrow> (Inl e, emb # ks)
      | (Inr idx, ks) \<Rightarrow> (Inr idx, emb # ks @ forward_lm_head m (act_normed b) (act_x b) (dg_logits dg)))"

text \<open>
  \<^verbatim>\<open>capture\<close>: \<open>has_graph\<close> is the device aspect, \<open>sycl_ok\<close> whether recording and finalising pass
  without a \<^verbatim>\<open>sycl::exception\<close>. An exception of the cache accessors is not caught.
\<close>

definition capture ::
    "'d device_ops \<Rightarrow> bool \<Rightarrow> bool \<Rightarrow> loaded_model \<Rightarrow> decode_graph \<Rightarrow> 'd gpu
     \<Rightarrow> (fw_error + bool) \<times> decode_graph \<times> 'd gpu" where
  "capture dv has_graph sycl_ok m dg g =
     (if \<not> has_graph then (Inr False, dg, g)
      else
        let g1 = submit dv [Copy_tokens (dg_token_ids dg) [0], Copy_positions (dg_positions dg) [0]] g in
        if \<not> sycl_ok then (Inr False, dg\<lparr>is_captured := False\<rparr>, g1)
        else
          case graph_kernels m (gpu_kv g1) dg of
            (Inl e, _) \<Rightarrow> (Inl (FW_cache e), dg, g1)
          | (Inr _, ks) \<Rightarrow> (Inr True, dg\<lparr>exec_graph := Some ks, is_captured := True\<rparr>, g1))"

definition graph_decode_step ::
    "'d device_ops \<Rightarrow> loaded_model \<Rightarrow> decode_graph \<Rightarrow> int \<Rightarrow> u64 \<Rightarrow> 'd gpu \<Rightarrow> (fw_error + int) \<times> 'd gpu" where
  "graph_decode_step dv m dg tok cur_pos g =
     (case (is_captured dg, exec_graph dg) of
        (True, Some ks) \<Rightarrow>
          if tok < 0 \<or> vocab_size (lm_config m) \<le> tok then (Inr (- 1), g)
          else if max_seq_len (config (gpu_kv g)) \<le> cur_pos then (Inr (- 1), g)
          else
            let g1 = submit dv ([Copy_tokens (dg_token_ids dg) [tok],
                       Copy_positions (dg_positions dg) [uint cur_pos]] @ ks) g
            in (Inr (sample dv m (dg_logits dg) g1), g1)
      | _ \<Rightarrow> (Inl Graph_not_captured, g))"


section \<open>Speculative decoding\<close>

text \<open>\<^verbatim>\<open>draft_decode_loop\<close>: tokens drafted so far and whether it succeeded; exceptions pass through.\<close>

fun draft_steps ::
    "'d device_ops \<Rightarrow> loaded_model \<Rightarrow> decode_graph option \<Rightarrow> nat \<Rightarrow> int \<Rightarrow> int list \<Rightarrow> 'd gpu
     \<Rightarrow> (fw_error + bool \<times> int list) \<times> 'd gpu" where
  "draft_steps dv m dg 0 tok acc g = (Inr (True, acc), g)"
| "draft_steps dv m dg (Suc n) tok acc g =
     (if max_seq_len (config (gpu_kv g)) \<le> current_seq_len (gpu_kv g) then (Inr (True, acc), g)
      else
        case (case dg of Some d \<Rightarrow> if is_captured d then Some d else None | None \<Rightarrow> None) of
          Some d \<Rightarrow>
            (case graph_decode_step dv m d tok (current_seq_len (gpu_kv g)) g of
               (Inl e, g1) \<Rightarrow> (Inl e, g1)
             | (Inr next_tok, g1) \<Rightarrow>
                 if next_tok < 0 then (Inr (False, acc), g1)
                 else
                   (case advance (gpu_kv g1) 1 of
                      (False, kv') \<Rightarrow> (Inr (False, acc), g1\<lparr>gpu_kv := kv'\<rparr>)
                    | (True, kv') \<Rightarrow> draft_steps dv m dg n next_tok (acc @ [next_tok]) (g1\<lparr>gpu_kv := kv'\<rparr>)))
        | None \<Rightarrow>
            (case decode_step dv m tok 0 g of
               (Inl e, g1) \<Rightarrow> (Inl e, g1)
             | (Inr next_tok, g1) \<Rightarrow>
                 if next_tok < 0 then (Inr (False, acc), g1)
                 else draft_steps dv m dg n next_tok (acc @ [next_tok]) g1))"

definition draft_decode_loop ::
    "'d device_ops \<Rightarrow> loaded_model \<Rightarrow> decode_graph option \<Rightarrow> int \<Rightarrow> u64 \<Rightarrow> 'd gpu
     \<Rightarrow> (fw_error + bool \<times> int list) \<times> 'd gpu" where
  "draft_decode_loop dv m dg tok num_draft_tokens g =
     (if num_draft_tokens = 0 then (Inr (True, []), g)
      else if max_seq_len (config (gpu_kv g)) < current_seq_len (gpu_kv g) + num_draft_tokens
      then (Inr (False, []), g)
      else draft_steps dv m dg (unat num_draft_tokens) tok [] g)"

text \<open>The index of the first element with a property.\<close>

fun index_where :: "('a \<Rightarrow> bool) \<Rightarrow> 'a list \<Rightarrow> nat option" where
  "index_where P [] = None"
| "index_where P (x # xs) = (if P x then Some 0 else map_option Suc (index_where P xs))"

definition forward_verify ::
    "'d device_ops \<Rightarrow> loaded_model \<Rightarrow> int list \<Rightarrow> int \<Rightarrow> u64 \<Rightarrow> 'd gpu \<Rightarrow> (fw_error + unit) \<times> 'd gpu" where
  "forward_verify dv m draft prefix_len out_logits g =
     (let n = int (length draft); cfg = lm_config m in
      if n \<le> 0 \<or> out_logits = 0 then (Inr (), g)
      else if prefix_len < 0 \<or> uint (max_seq_len (config (gpu_kv g))) < prefix_len + n
      then (Inl Context_length_exceeded, g)
      else
        case index_where (\<lambda>t. t < 0 \<or> vocab_size cfg \<le> t) draft of
          Some i \<Rightarrow> (Inl (Draft_token_range i), g)
        | None \<Rightarrow>
            (case arena_alloc (word_of_int (n * 8)) g of
               (Inl e, g1) \<Rightarrow> (Inl e, g1)
             | (Inr d_tok, g1) \<Rightarrow>
                 let g2 = submit dv [Copy_tokens d_tok draft] g1 in
                 (case arena_alloc (word_of_int (n * 8)) g2 of
                    (Inl e, g3) \<Rightarrow> (Inl e, g3)
                  | (Inr d_pos, g3) \<Rightarrow>
                      let g4 = submit dv [Copy_positions d_pos (map (\<lambda>i. prefix_len + int i) [0..<length draft])] g3 in
                      (case arena_allocs (buffer_sizes cfg n) g4 of
                         (Inl e, g5) \<Rightarrow> (Inl e, g5)
                       | (Inr ps, g5) \<Rightarrow>
                           let b = buffers_of ps;
                               emb = Embed_lookup (act_x b) (d_embed_tokens m) d_tok n (hidden_size cfg)
                                       (vocab_size cfg) 0 (- 1) (- 1) 0
                           in
                           (case forward_layers cfg (lm_layers m) (gpu_kv g5) (0, 0) b n d_pos prefix_len 0 False of
                              (Inl e, ks) \<Rightarrow> (Inl (FW_cache e), submit dv (emb # ks) g5)
                            | (Inr _, ks) \<Rightarrow>
                                (Inr (), submit dv (emb # ks @
                                   [Rmsnorm (act_normed b) (act_x b) (d_final_norm m) n (hidden_size cfg),
                                    Linear_int4 out_logits (act_normed b) (lm_head m) n (vocab_size cfg)
                                      (hidden_size cfg)]) g5))))))"

definition forward_next_token ::
    "'d device_ops \<Rightarrow> (u64 \<Rightarrow> u64) \<Rightarrow> (u64 \<Rightarrow> u64) \<Rightarrow> loaded_model \<Rightarrow> int list \<Rightarrow> 'd gpu \<Rightarrow> (fw_error + int) \<times> 'd gpu" where
  "forward_next_token dv kv_malloc rec_malloc m ts g =
     (let cfg = create_kv_cache_config (lm_config m) (max 8192 (word_of_nat (length ts + 1))) False in
      case kv_allocate kv_malloc rec_malloc (KVCache True cfg) of
        (Inl e, kv) \<Rightarrow> (Inl (FW_cache e), g)
      | (Inr _, kv) \<Rightarrow>
          (case prefill_prompt dv m ts (length ts) False None (g\<lparr>gpu_kv := kv\<rparr>) of
             (r, g') \<Rightarrow> (r, g'\<lparr>gpu_kv := gpu_kv g\<rparr>)))"

end
