(* ===== verification/Forward_Correct.thy ===== *)
theory Forward_Correct
  imports Forward Weights_Correct
begin

text \<open>
  Properties of the forward pass: the layer loop uses each cache slice once and never leaves the
  cache, the captured graph is the eager single-token pass, prefill covers the prompt, and decode
  steps keep to the cache and the vocabulary.
\<close>


section \<open>Cache slices\<close>

text \<open>The cache has a slice and a recurrent state for each layer of its kind.\<close>

definition kv_fits :: "kv_cache \<Rightarrow> nat \<Rightarrow> nat \<Rightarrow> bool" where
  "kv_fits kv nf nl \<longleftrightarrow>
     (case kv_dtype (config kv) of
        INT8 \<Rightarrow> nf = length (k_caches_int8 kv) \<and> nf = length (v_caches_int8 kv) \<and> nf = length (k_scales kv)
          \<and> nf = length (v_scales kv) \<and> nf = length (k_zero_points kv) \<and> nf = length (v_zero_points kv)
      | FP16 \<Rightarrow> nf = length (k_caches kv) \<and> nf = length (v_caches kv))
     \<and> nl = length (linear_states kv) \<and> nl = length (conv_states kv)"

definition kv_slice_at :: "kv_cache \<Rightarrow> nat \<Rightarrow> kv_slice" where
  "kv_slice_at kv i =
     (case kv_dtype (config kv) of
        INT8 \<Rightarrow> Slice_int8 (k_caches_int8 kv ! i) (v_caches_int8 kv ! i) (k_scales kv ! i) (v_scales kv ! i)
                  (k_zero_points kv ! i) (v_zero_points kv ! i)
      | FP16 \<Rightarrow> Slice_fp16 (k_caches kv ! i) (v_caches kv ! i))"

lemmas kv_accessor_defs = k_cache_def v_cache_def k_cache_int8_def v_cache_int8_def k_scale_def v_scale_def
  k_zero_point_def v_zero_point_def layer_ptr_def linear_state_def conv_state_def is_int8_def

lemma slice_of_fits: "kv_fits kv nf nl \<Longrightarrow> i < nf \<Longrightarrow> slice_of kv i = Inr (kv_slice_at kv i)"
  by (cases "kv_dtype (config kv)") (auto simp: kv_fits_def slice_of_def kv_slice_at_def kv_accessor_defs)

fun kv_write :: "kernel \<Rightarrow> (kv_slice \<times> kv_pos \<times> int) option" where
  "kv_write (Write_kv sl a b pos n h d m) = Some (sl, pos, n)"
| "kv_write k = None"

fun state_update :: "kernel \<Rightarrow> (u64 \<times> bool) option" where
  "state_update (Delta_net a b c d e f g h st n z) = Some (st, z)"
| "state_update k = None"

definition is_full :: "layer_weights \<Rightarrow> bool" where
  "is_full l \<longleftrightarrow> layer_type l = ''full_attention''"

definition pos_of :: "int \<Rightarrow> u64 \<Rightarrow> kv_pos" where
  "pos_of start_pos dyn = (if dyn \<noteq> 0 then Dynamic_pos dyn else Static_pos start_pos)"

lemma map_filter_Cons_None [simp]: "f x = None \<Longrightarrow> List.map_filter f (x # xs) = List.map_filter f xs"
  and map_filter_Cons_Some [simp]: "f x = Some y \<Longrightarrow> List.map_filter f (x # xs) = y # List.map_filter f xs"
  and map_filter_Nil [simp]: "List.map_filter f [] = []"
  and map_filter_append [simp]: "List.map_filter f (xs @ ys) = List.map_filter f xs @ List.map_filter f ys"
  by (simp_all add: List.map_filter_def)

lemma forward_layer_fits:
  assumes "kv_fits kv nf nl" "is_full l \<Longrightarrow> i < nf" "\<not> is_full l \<Longrightarrow> j < nl"
  shows "\<exists>ks. forward_layer cfg l kv (i, j) b n d_pos start_pos dyn z
        = (Inr (if is_full l then (Suc i, j) else (i, Suc j)), ks)
      \<and> List.map_filter kv_write ks = (if is_full l then [(kv_slice_at kv i, pos_of start_pos dyn, n)] else [])
      \<and> List.map_filter state_update ks = (if is_full l then [] else [(linear_states kv ! j, z)])"
proof (cases "is_full l")
  case True
  then have "slice_of kv i = Inr (kv_slice_at kv i)" using assms slice_of_fits by blast
  with True show ?thesis
    by (simp add: is_full_def forward_layer_def Let_def full_attention_kernels_def mlp_kernels_def pos_of_def)
next
  case False
  then have "conv_state kv j = Inr (conv_states kv ! j)" "linear_state kv j = Inr (linear_states kv ! j)"
    using assms by (auto simp: kv_fits_def kv_accessor_defs)
  with False show ?thesis
    by (simp add: is_full_def forward_layer_def Let_def mlp_kernels_def)
qed

lemma forward_layers_fits:
  assumes "kv_fits kv nf nl" "i + length (filter is_full ls) \<le> nf"
    "j + length (filter (\<lambda>l. \<not> is_full l) ls) \<le> nl"
  defines "i' \<equiv> i + length (filter is_full ls)" and "j' \<equiv> j + length (filter (\<lambda>l. \<not> is_full l) ls)"
  shows "\<exists>ks. forward_layers cfg ls kv (i, j) b n d_pos start_pos dyn z = (Inr (i', j'), ks)
      \<and> List.map_filter kv_write ks = map (\<lambda>k. (kv_slice_at kv k, pos_of start_pos dyn, n)) [i..<i']
      \<and> List.map_filter state_update ks = map (\<lambda>k. (linear_states kv ! k, z)) [j..<j']"
  using assms(2,3) unfolding i'_def j'_def
proof (induction ls arbitrary: i j)
  case (Cons l ls)
  obtain ks1 where l: "forward_layer cfg l kv (i, j) b n d_pos start_pos dyn z
        = (Inr (if is_full l then (Suc i, j) else (i, Suc j)), ks1)"
      "List.map_filter kv_write ks1 = (if is_full l then [(kv_slice_at kv i, pos_of start_pos dyn, n)] else [])"
      "List.map_filter state_update ks1 = (if is_full l then [] else [(linear_states kv ! j, z)])"
    using forward_layer_fits [OF assms(1), of l i j] Cons.prems by fastforce
  show ?case
  proof (cases "is_full l")
    case True
    then show ?thesis using Cons.IH [of "Suc i" j] Cons.prems l by (auto simp: upt_conv_Cons simp del: upt_Suc)
  next
    case False
    then show ?thesis using Cons.IH [of i "Suc j"] Cons.prems l by (auto simp: upt_conv_Cons simp del: upt_Suc)
  qed
qed simp

text \<open>A model whose layer list and configuration agree, as loading establishes.\<close>

definition layers_consistent :: "loaded_model \<Rightarrow> bool" where
  "layers_consistent m \<longleftrightarrow> default_dims_ok (lm_config m) \<and> length (lm_layers m) = 64
     \<and> count_full_layers (lm_config m) = int (length (filter is_full (lm_layers m)))"

lemma model_loaded_consistent: "model_loaded env r s m \<Longrightarrow> layers_consistent m"
  by (simp add: model_loaded_def layers_consistent_def is_full_def [abs_def] Let_def)

lemma layer_ptrs_count [simp]: "length (layer_ptrs n p sizes) = n"
  by (induction n arbitrary: p) auto

lemma kv_fits_clear: "kv_fits kv nf nl \<Longrightarrow> kv_fits (clear kv) nf nl"
  by (simp add: kv_fits_def clear_def split: kv_dtype.splits)

lemma length_filter_complement:
  "length (filter P xs) + length (filter (\<lambda>x. \<not> P x) xs) = length xs"
  by (induction xs) auto

lemma kv_allocate_fits:
  assumes "layers_consistent m"
    and "kv_allocate kv_malloc rec_malloc (KVCache True (create_kv_cache_config (lm_config m) len int8)) = (Inr True, kv)"
  shows "kv_fits kv (length (filter is_full (lm_layers m))) (length (filter (\<lambda>l. \<not> is_full l) (lm_layers m)))"
proof -
  let ?nf = "length (filter is_full (lm_layers m))"
  let ?nl = "length (filter (\<lambda>l. \<not> is_full l) (lm_layers m))"
  let ?cfg = "create_kv_cache_config (lm_config m) len int8"
  have sum: "?nf + ?nl = 64"
    using assms(1) length_filter_complement [of is_full "lm_layers m"] by (simp add: layers_consistent_def)
  have full: "num_full_layers ?cfg = word_of_nat ?nf" and lin: "num_linear_layers ?cfg = word_of_nat ?nl"
  proof -
    have "count_full_layers (lm_config m) = int ?nf" "count_linear_layers (lm_config m) = int ?nl"
      using assms(1) sum by (auto simp: layers_consistent_def count_linear_layers_def default_dims_ok_def)
    then show "num_full_layers ?cfg = word_of_nat ?nf" "num_linear_layers ?cfg = word_of_nat ?nl"
      by (simp_all add: create_kv_cache_config_def)
  qed
  have n: "unat (num_full_layers ?cfg) = ?nf" "unat (num_linear_layers ?cfg) = ?nl"
    using sum by (simp_all add: full lin unat_of_nat)
  have per: "s_bytes_per_layer ?cfg + conv_bytes_per_layer ?cfg = 3268608"
    using assms(1)
    by (simp add: layers_consistent_def default_dims_ok_def create_kv_cache_config_def s_bytes_per_layer_def
        conv_bytes_per_layer_def)
  have "0 < num_linear_layers ?cfg * (s_bytes_per_layer ?cfg + conv_bytes_per_layer ?cfg) \<or> ?nl = 0"
  proof (cases "?nl = 0")
    case False
    have "unat (word_of_nat ?nl * 3268608 :: u64) = ?nl * 3268608"
      using sum by (simp add: unat_word_ariths unat_of_nat)
    then show ?thesis using False by (simp add: per lin word_less_nat_alt)
  qed simp
  then show ?thesis
    using assms(2) n
    by (cases "kv_dtype ?cfg")
      (auto simp: kv_allocate_def allocate_kv_def allocate_recurrent_def KVCache_def Let_def kv_fits_def clear_def
        split: sum.splits if_splits prod.splits bool.splits)
qed


definition sample_layers :: "layer_weights list" where
  "sample_layers = map (\<lambda>l. LayerWeights\<lparr>layer_idx := l, layer_type :=
     (if l mod 4 = 3 then ''full_attention'' else ''linear_attention'')\<rparr>) [0..<64]"

definition sample_model :: loaded_model where
  "sample_model = \<lparr>lm_config = (ModelConfig id)\<lparr>layer_types := map layer_type sample_layers\<rparr>,
     d_embed_tokens = 1, d_final_norm = 2, lm_head = LinearWeightView, lm_layers = sample_layers,
     lm_vision = VisionWeights\<rparr>"

lemma sample_model_consistent: "layers_consistent sample_model"
proof -
  have "length (filter (\<lambda>t. t = ''full_attention'') (map layer_type sample_layers))
      = length (filter is_full sample_layers)"
    by (simp add: filter_map comp_def is_full_def [abs_def])
  moreover have "sample_layers \<noteq> []" by (simp add: sample_layers_def)
  ultimately show ?thesis
    by (simp add: layers_consistent_def sample_model_def default_dims_ok_def ModelConfig_def count_full_layers_def)
      (simp add: sample_layers_def)
qed

lemma sample_cache:
  "\<exists>kv. kv_allocate (\<lambda>_. 4096) (\<lambda>_. 8192) (KVCache True (create_kv_cache_config (lm_config sample_model) 2048 False))
     = (Inr True, kv)"
  by (simp add: kv_allocate_def KVCache_def create_kv_cache_config_def sample_model_def ModelConfig_def init_def
      allocate_kv_def allocate_recurrent_def Let_def)



section \<open>The captured graph\<close>

text \<open>An eager submission as the graph records it: the position is read from device memory.\<close>

fun at_replay :: "u64 \<Rightarrow> kernel \<Rightarrow> kernel" where
  "at_replay d (Write_kv sl a b pos n h w m) = Write_kv sl a b (Dynamic_pos d) n h w m"
| "at_replay d (Sdpa a b sl pos n h kh w m) = Sdpa a b sl (Dynamic_pos d) n h kh w m"
| "at_replay d (Embed_lookup a t i n h v vit vs ve vi) = Embed_lookup a t i n h v vit (- 1) (- 1) vi"
| "at_replay d k = k"

lemma forward_layer_replay:
  assumes "d \<noteq> 0"
  shows "forward_layer cfg l kv idx b n d_pos p0 d z
    = map_prod (\<lambda>r. r) (map (at_replay d)) (forward_layer cfg l kv idx b n d_pos p 0 z)"
  using assms
  by (simp add: forward_layer_def full_attention_kernels_def mlp_kernels_def Let_def
      split: sum.splits)

lemma forward_layers_replay:
  assumes "d \<noteq> 0"
  shows "forward_layers cfg ls kv idx b n d_pos p0 d z
    = map_prod (\<lambda>r. r) (map (at_replay d)) (forward_layers cfg ls kv idx b n d_pos p 0 z)"
proof (induction ls arbitrary: idx)
  case (Cons l ls)
  obtain r ks where l: "forward_layer cfg l kv idx b n d_pos p 0 z = (r, ks)" by fastforce
  show ?case
    using Cons forward_layer_replay [OF assms, of cfg l kv idx b n d_pos p0 z p] l
    by (cases r) (auto split: prod.splits)
qed simp




section \<open>Submissions of a pass\<close>

text \<open>\<open>runs dv ks g g'\<close>: between \<open>g\<close> and \<open>g'\<close> exactly the submissions \<open>ks\<close> were executed, and the
  cache changed in nothing but its recurrent state.\<close>

definition runs :: "'d device_ops \<Rightarrow> kernel list \<Rightarrow> 'd gpu \<Rightarrow> 'd gpu \<Rightarrow> bool" where
  "runs dv ks g g' \<longleftrightarrow>
     (gpu_dev g', recurrent_mem (gpu_kv g')) = fold (exec dv) ks (gpu_dev g, recurrent_mem (gpu_kv g))
     \<and> gpu_kv g' = (gpu_kv g)\<lparr>recurrent_mem := recurrent_mem (gpu_kv g')\<rparr>"

lemma runs_trans:
  assumes "runs dv ks g g'" "runs dv ks' g' g''"
  shows "runs dv (ks @ ks') g g''"
proof -
  have "gpu_kv g'' = ((gpu_kv g)\<lparr>recurrent_mem := recurrent_mem (gpu_kv g')\<rparr>)\<lparr>recurrent_mem := recurrent_mem (gpu_kv g'')\<rparr>"
    using assms by (simp add: runs_def)
  then show ?thesis using assms by (simp add: runs_def)
qed

lemma runs_submit: "runs dv ks g (submit dv ks g)"
  by (simp add: runs_def submit_def split: prod.splits)

lemma runs_arena: "gpu_dev g' = gpu_dev g \<Longrightarrow> gpu_kv g' = gpu_kv g \<Longrightarrow> runs dv [] g g'"
  by (simp add: runs_def)

lemma runs_kv:
  assumes "runs dv ks g g'"
  shows "config (gpu_kv g') = config (gpu_kv g)" "current_seq_len (gpu_kv g') = current_seq_len (gpu_kv g)"
proof -
  have eq: "gpu_kv g' = (gpu_kv g)\<lparr>recurrent_mem := recurrent_mem (gpu_kv g')\<rparr>" using assms by (simp add: runs_def)
  show "config (gpu_kv g') = config (gpu_kv g)" "current_seq_len (gpu_kv g') = current_seq_len (gpu_kv g)"
    using arg_cong [OF eq, of config] arg_cong [OF eq, of current_seq_len] by simp_all
qed

lemma arena_alloc_frame: "arena_alloc n g = (r, g') \<Longrightarrow> gpu_dev g' = gpu_dev g \<and> gpu_kv g' = gpu_kv g"
  by (auto simp: arena_alloc_def split: prod.splits sum.splits)

lemma arena_allocs_frame: "arena_allocs ns g = (r, g') \<Longrightarrow> gpu_dev g' = gpu_dev g \<and> gpu_kv g' = gpu_kv g"
proof (induction ns arbitrary: g r)
  case (Cons n ns)
  then show ?case by (auto split: prod.splits sum.splits dest!: arena_alloc_frame Cons.IH)
qed simp

lemma persistent_allocs_frame:
  "persistent_allocs dv ns g = (r, g') \<Longrightarrow> gpu_dev g' = gpu_dev g \<and> gpu_kv g' = gpu_kv g"
proof (induction ns arbitrary: g r)
  case (Cons n ns)
  then show ?case by (auto split: prod.splits sum.splits dest!: Cons.IH)
qed simp

lemma logits_buffer_frame: "logits_buffer dv n g = (r, g') \<Longrightarrow> gpu_dev g' = gpu_dev g \<and> gpu_kv g' = gpu_kv g"
  by (auto simp: logits_buffer_def split: prod.splits sum.splits)

text \<open>The host input of a pass: token copies and position fills.\<close>

fun token_copy :: "kernel \<Rightarrow> int list option" where
  "token_copy (Copy_tokens p ts) = Some ts"
| "token_copy k = None"

fun position_fill :: "kernel \<Rightarrow> int list option" where
  "position_fill (Fill_positions p start n) = Some [start..start + n - 1]"
| "position_fill k = None"

definition quiet :: "kernel list \<Rightarrow> bool" where
  "quiet ks \<longleftrightarrow> List.map_filter token_copy ks = [] \<and> List.map_filter position_fill ks = []"

lemma quiet_append [simp]: "quiet (ks @ ks') \<longleftrightarrow> quiet ks \<and> quiet ks'"
  by (auto simp: quiet_def)

lemma quiet_layer: "forward_layer cfg l kv idx b n d_pos p dyn z = (r, ks) \<Longrightarrow> quiet ks"
  by (auto simp: forward_layer_def full_attention_kernels_def mlp_kernels_def quiet_def Let_def
      split: sum.splits if_splits)

lemma quiet_layers: "forward_layers cfg ls kv idx b n d_pos p dyn z = (r, ks) \<Longrightarrow> quiet ks"
proof (induction ls arbitrary: idx r ks)
  case (Cons l ls)
  then show ?case by (auto split: prod.splits sum.splits dest: quiet_layer)
qed (simp add: quiet_def)

lemma quiet_chunk:
  "chunk_kernels m kv b d_tok d_pos n p dyn z vit vi logits = (r, ks) \<Longrightarrow> quiet ks"
  by (auto simp: chunk_kernels_def forward_lm_head_def Let_def quiet_def
      split: prod.splits sum.splits if_splits dest!: quiet_layers)

text \<open>A step that leaves a state reached by \<open>ks\<close> and whose input submissions are \<open>ts\<close> and \<open>ps\<close>.\<close>

definition reaches ::
    "'d device_ops \<Rightarrow> 'd gpu \<Rightarrow> 'd gpu \<Rightarrow> int list list \<Rightarrow> int list list \<Rightarrow> bool" where
  "reaches dv g g' ts ps \<longleftrightarrow>
     (\<exists>ks. runs dv ks g g' \<and> List.map_filter token_copy ks = ts \<and> List.map_filter position_fill ks = ps)"

lemma reaches_trans: "reaches dv g g' ts ps \<Longrightarrow> reaches dv g' g'' ts' ps' \<Longrightarrow> reaches dv g g'' (ts @ ts') (ps @ ps')"
  unfolding reaches_def by (metis map_filter_append runs_trans)

lemma reaches_frame: "gpu_dev g' = gpu_dev g \<Longrightarrow> gpu_kv g' = gpu_kv g \<Longrightarrow> reaches dv g g' [] []"
  unfolding reaches_def using runs_arena map_filter_Nil by blast

lemma reaches_submit:
  "reaches dv g (submit dv ks g) (List.map_filter token_copy ks) (List.map_filter position_fill ks)"
  unfolding reaches_def using runs_submit by blast

lemma reaches_quiet: "quiet ks \<Longrightarrow> reaches dv g (submit dv ks g) [] []"
  using reaches_submit [of dv g ks] by (simp add: quiet_def)

lemma reaches_kv:
  "reaches dv g g' ts ps \<Longrightarrow> config (gpu_kv g') = config (gpu_kv g) \<and> current_seq_len (gpu_kv g') = current_seq_len (gpu_kv g)"
  unfolding reaches_def using runs_kv by blast

text \<open>\<open>forward_chunk\<close> as a sequence of stages; a stage that fails ends it.\<close>

lemma forward_chunk_reaches:
  assumes run: "forward_chunk dv m tokens start z logits cap bufs pt pp vis vi g = (Inr (), g')"
    and ne: "tokens \<noteq> []" and lo: "0 \<le> start"
    and hi: "start + int (length tokens) \<le> uint (max_seq_len (config (gpu_kv g)))"
  shows "reaches dv g g' [tokens] [[start..start + int (length tokens) - 1]]"
proof -
  let ?n = "int (length tokens)"
  define g1 where "g1 = (if \<not> cap \<and> bufs = None then g\<lparr>gpu_arena := arena_reset (gpu_arena g)\<rparr> else g)"
  have r1: "reaches dv g g1 [] []" by (rule reaches_frame) (simp_all add: g1_def)
  obtain a2 g2 where s2: "(if pt \<noteq> 0 then (Inr pt, g1) else arena_alloc (word_of_int (?n * 8)) g1) = (a2, g2)"
    by fastforce
  then have r2: "reaches dv g1 g2 [] []"
    using arena_alloc_frame [of _ g1 a2 g2] by (intro reaches_frame) (auto split: if_splits)
  have guards: "\<not> ?n \<le> 0" "\<not> (start < 0 \<or> uint (max_seq_len (config (gpu_kv g))) < start + ?n)"
    using ne lo hi by auto
  note run1 = run [unfolded forward_chunk_def Let_def if_not_P [OF guards(1)] if_not_P [OF guards(2)],
      folded g1_def, unfolded s2]
  then obtain d_tok where a2: "a2 = Inr d_tok" by (cases a2) auto
  define g3 where "g3 = submit dv [Copy_tokens d_tok tokens] g2"
  have r3: "reaches dv g2 g3 [tokens] []" using reaches_submit [of dv g2 "[Copy_tokens d_tok tokens]"] by (simp add: g3_def)
  obtain a4 g4 where s4: "(if pp \<noteq> 0 then (Inr pp, g3) else arena_alloc (word_of_int (?n * 8)) g3) = (a4, g4)"
    by fastforce
  then have r4: "reaches dv g3 g4 [] []"
    using arena_alloc_frame [of _ g3 a4 g4] by (intro reaches_frame) (auto split: if_splits)
  note run2 = run1 [unfolded a2, simplified, folded g3_def, unfolded s4]
  then obtain d_pos where a4: "a4 = Inr d_pos" by (cases a4) auto
  define g5 where "g5 = submit dv [Fill_positions d_pos start ?n] g4"
  have r5: "reaches dv g4 g5 [] [[start..start + ?n - 1]]"
    using reaches_submit [of dv g4 "[Fill_positions d_pos start ?n]"] by (simp add: g5_def)
  note run3 = run2 [unfolded a4, simplified, folded g5_def]
  obtain b g6 where s6: "reaches dv g5 g6 [] []" and run4:
    "(case chunk_kernels m (gpu_kv g6) b d_tok d_pos ?n start 0 z
        (case vis of Some v \<Rightarrow> d_vit_embeddings v | None \<Rightarrow> 0) vi logits of
       (r, ks) \<Rightarrow> (case r of Inl e \<Rightarrow> Inl (FW_cache e) | Inr _ \<Rightarrow> Inr (), submit dv ks g6)) = (Inr (), g')"
  proof (cases bufs)
    case (Some b)
    show ?thesis
      by (rule that [of g5 b]) (use run3 Some in \<open>auto intro: reaches_frame\<close>)
  next
    case None
    obtain r g6 where s: "arena_allocs (buffer_sizes (lm_config m) ?n) g5 = (r, g6)" by fastforce
    then obtain ps where r: "r = Inr ps" using run3 None by (cases r) auto
    show ?thesis
      by (rule that [of g6 "buffers_of ps"])
        (use run3 None s r arena_allocs_frame [OF s] in \<open>auto intro: reaches_frame\<close>)
  qed
  then obtain ks where "g' = submit dv ks g6" "quiet ks"
    by (auto split: prod.splits dest: quiet_chunk)
  then have r7: "reaches dv g6 g' [] []" using reaches_quiet by blast
  show ?thesis
    using reaches_trans [OF reaches_trans [OF reaches_trans [OF reaches_trans [OF reaches_trans
      [OF reaches_trans [OF r1 r2] r3] r4] r5] s6] r7] by simp
qed


section \<open>Prefill and decode\<close>

lemma upto_append: "a \<le> b \<Longrightarrow> b \<le> c \<Longrightarrow> [a..b - 1] @ [b..c - 1] = [a..c - 1 :: int]"
  using upto_split1 [of a "b - 1" "c - 1"] by (cases "b \<le> c - 1") (auto simp: upto_split1)

lemma prefill_loop_reaches:
  assumes "prefill_loop dv m ts chunk_size d_logits cap bufs d_tok d_pos vis d_vis offset g = (Inr (), g')"
    and "0 < chunk_size" "offset \<le> length ts" "length ts \<le> unat (max_seq_len (config (gpu_kv g)))"
  shows "\<exists>css pss. reaches dv g g' css pss \<and> concat css = drop offset ts
    \<and> concat pss = [int offset..int (length ts) - 1]"
  using assms
proof (induction dv m ts chunk_size d_logits cap bufs d_tok d_pos vis d_vis offset g rule: prefill_loop.induct)
  case (1 dv m ts chunk_size d_logits cap bufs d_tok d_pos vis d_vis offset g)
  show ?case
  proof (cases "length ts \<le> offset")
    case True
    then have "g' = g" using "1.prems" by (simp add: prefill_loop.simps)
    then have "reaches dv g g' [] []" by (auto intro: reaches_frame)
    then show ?thesis using True by (intro exI [of _ "[]"]) simp
  next
    case False
    let ?n = "min chunk_size (length ts - offset)"
    let ?c = "slice offset ?n ts"
    have n: "length ?c = ?n" "0 < ?n" using False "1.prems"(2) by auto
    obtain r g1 where c: "forward_chunk dv m ?c (int offset) (offset = 0)
        (if offset + ?n = length ts then d_logits else 0) cap bufs d_tok d_pos vis
        (if d_vis \<noteq> 0 then d_vis + word_of_nat (offset * 8) else 0) g = (r, g1)" by fastforce
    then obtain u where r: "r = Inr ()" and rest: "prefill_loop dv m ts chunk_size d_logits cap bufs d_tok d_pos
        vis d_vis (offset + ?n) g1 = (Inr (), g')"
      using "1.prems"(1) False "1.prems"(2)
      by (subst (asm) prefill_loop.simps) (auto simp: Let_def split: sum.splits)
    have max: "int offset + int (length ?c) \<le> uint (max_seq_len (config (gpu_kv g)))"
    proof -
      have "offset + ?n \<le> unat (max_seq_len (config (gpu_kv g)))" using "1.prems"(3,4) by auto
      then show ?thesis unfolding n(1) by (metis of_nat_add of_nat_mono uint_nat)
    qed
    have "?c \<noteq> []" using n by (metis length_greater_0_conv)
    then have r1: "reaches dv g g1 [?c] [[int offset..int offset + int ?n - 1]]"
      using forward_chunk_reaches [OF c [unfolded r] _ _ max] n(1) by simp
    have ih: "\<exists>css pss. reaches dv g1 g' css pss \<and> concat css = drop (offset + ?n) ts
        \<and> concat pss = [int (offset + ?n)..int (length ts) - 1]"
      using False "1.prems" rest reaches_kv [OF r1]
      by (intro "1.IH" [OF _ refl refl c [symmetric] r]) (auto simp: min_def)
    then obtain css pss where css: "reaches dv g1 g' css pss" "concat css = drop (offset + ?n) ts"
      "concat pss = [int (offset + ?n)..int (length ts) - 1]" by blast
    have "?c @ drop (offset + ?n) ts = drop offset ts"
      using append_take_drop_id [of ?n "drop offset ts"] by (simp add: slice_def add.commute)
    moreover have "[int offset..int offset + int ?n - 1] @ [int (offset + ?n)..int (length ts) - 1]
        = [int offset..int (length ts) - 1]"
      using upto_append [of "int offset" "int (offset + ?n)" "int (length ts)"] False by simp
    ultimately show ?thesis
      using reaches_trans [OF r1 css(1)] css(2,3) by (intro exI conjI) (assumption, simp_all)
  qed
qed

text \<open>What the device is expected to give back: as many logits as are asked for.\<close>

definition device_ok :: "'d device_ops \<Rightarrow> bool" where
  "device_ok dv \<longleftrightarrow> (\<forall>wg. fair_order (item_order dv wg)) \<and> (\<forall>d p n. n \<le> length (logits_at dv d p n))"

lemma sample_range:
  assumes "device_ok dv" "0 < vocab_size (lm_config m)"
  shows "0 \<le> sample dv m p g \<and> sample dv m p g < vocab_size (lm_config m)"
  using assms argmax_best [of "item_order dv" "vocab_size (lm_config m)"
      "logits_at dv (gpu_dev g) p (nat (vocab_size (lm_config m)))"]
  by (simp add: device_ok_def sample_def Let_def)

lemma prefill_buffers_reaches:
  assumes "prefill_buffers dv m ts n cap g = (r, g')"
  shows "reaches dv g g' [] []"
proof -
  let ?cfg = "lm_config m"
  obtain r1 g1 where s1: "(if 0 < visual_count ?cfg ts
       then (case arena_alloc (word_of_nat (length ts * 8)) g of
               (Inl e, g1) \<Rightarrow> (Inl e, g1)
             | (Inr p, g1) \<Rightarrow> (Inr p, submit dv [Copy_indices p (visual_indices ?cfg 0 ts)] g1))
       else (Inr 0, g)) = (r1, g1)" by fastforce
  have r1: "reaches dv g g1 [] []"
  proof (cases "0 < visual_count ?cfg ts")
    case True
    obtain r0 g0 where a: "arena_alloc (word_of_nat (length ts * 8)) g = (r0, g0)" by fastforce
    have r0: "reaches dv g g0 [] []" using arena_alloc_frame [OF a] by (auto intro: reaches_frame)
    have "g1 = g0 \<or> (\<exists>p. g1 = submit dv [Copy_indices p (visual_indices ?cfg 0 ts)] g0)"
      using s1 True a by (cases r0) auto
    then show ?thesis
      using r0 reaches_trans [OF r0 reaches_quiet, of "[Copy_indices _ _]"] by (auto simp: quiet_def)
  next
    case False
    then show ?thesis using s1 by (auto intro: reaches_frame)
  qed
  have "gpu_dev g' = gpu_dev g1 \<and> gpu_kv g' = gpu_kv g1"
    using assms unfolding prefill_buffers_def Let_def s1
    by (auto split: sum.splits if_splits prod.splits dest!: persistent_allocs_frame)
  then show ?thesis using reaches_trans [OF r1 reaches_frame] by auto
qed


text \<open>
  A small model and device for the examples: no layers, one dimension, and a device that remembers
  the tokens copied last and predicts the successor of the last one modulo the vocabulary.
\<close>

definition toy_model :: "int \<Rightarrow> loaded_model" where
  "toy_model vocab = \<lparr>lm_config = (ModelConfig id)\<lparr>vocab_size := vocab, hidden_size := 1, intermediate_size := 1,
       num_hidden_layers := 0, num_attention_heads := 1, num_key_value_heads := 1, cfg_head_dim := 1,
       cfg_linear_conv_channels := 1, linear_z_dim := 1, linear_b_dim := 1, linear_a_dim := 1\<rparr>,
     d_embed_tokens = 1, d_final_norm = 2, lm_head = LinearWeightView, lm_layers = [], lm_vision = VisionWeights\<rparr>"

fun toy_exec :: "kernel \<Rightarrow> int list \<times> bytes \<Rightarrow> int list \<times> bytes" where
  "toy_exec (Copy_tokens p ts) (d, r) = (ts, r)"
| "toy_exec k (d, r) = (d, r)"

definition toy_device :: "int \<Rightarrow> int list device_ops" where
  "toy_device vocab = \<lparr>exec = toy_exec,
     logits_at = (\<lambda>d p n. concat (map (\<lambda>t. map (\<lambda>i. if int i = (t + 1) mod vocab then 0x3F800000 else 0)
                    [0..<nat vocab]) d) @ replicate n 0),
     item_order = seq_order, arena_usm = (\<lambda>_ _. 0x100000)\<rparr>"

definition toy_gpu :: "int list gpu" where
  "toy_gpu = \<lparr>gpu_arena = \<lparr>arena_ctx = True, base_ptr = 4096, capacity = 65536, arena_offset = 0, peak_offset = 0,
       default_alignment = 64, persistent_allocations = [], persistent_buffer_ptr = 0, persistent_buffer_capacity = 0\<rparr>,
     gpu_kv = KVCache True (create_kv_cache_config (lm_config (toy_model 1)) 16 False), gpu_dev = []\<rparr>"

lemma toy_device_ok: "device_ok (toy_device vocab)"
  by (auto simp: device_ok_def toy_device_def seq_order_fair)

lemma toy_prefill:
  "fst (prefill_prompt (toy_device 1) (toy_model 1) [0, 0, 0] 2 False None toy_gpu) = Inr 0"
  by code_simp


end
