(* ===== verification/Engine.thy ===== *)
theory Engine
  imports Forward_Correct Protocol Tokenizer_Correct Chat_Template
begin

text \<open>
  \<^verbatim>\<open>src/runtime/engine.cpp\<close>: generation. A run encodes the prompt, prefills the cache, and decodes
  until a stop token, the token limit, the end of the cache or a callback that returns false, with
  or without speculative drafting; every exception ends it with an error result and a reset
  engine. The caller's token callback is a function on a state of its own. Times are not modelled;
  the text of an exception is a parameter.
\<close>


section \<open>Configuration, results and state\<close>

record generation_config =
  max_new_tokens :: int
  temperature :: rat
  top_p :: rat
  gen_eos_token_id :: int
  gen_im_end_token_id :: int
  gen_apply_chat_template :: bool
  gen_draft_tokens_num :: int

definition GenerationConfig :: generation_config where
  "GenerationConfig = \<lparr>max_new_tokens = 256, temperature = 0, top_p = 1, gen_eos_token_id = - 1,
     gen_im_end_token_id = - 1, gen_apply_chat_template = True, gen_draft_tokens_num = 0\<rparr>"

record engine_config =
  artifact_path :: string
  tokenizer_path :: string
  chat_template_path :: string
  prefer_b60 :: bool
  arena_capacity_bytes :: u64
  cfg_max_seq_len :: u64
  prefill_chunk_size :: nat
  cfg_validate_checksum :: bool
  use_int8_kv :: bool
  enable_speculative :: bool
  cfg_draft_tokens_num :: u64

record generation_result =
  gen_text :: string
  gen_reasoning :: string
  token_ids :: "int list"
  gen_prompt_tokens :: nat
  generated_tokens :: nat
  finish_reason :: string
  success :: bool
  error_msg :: string
  error_code :: string

definition GenerationResult :: generation_result where
  "GenerationResult = \<lparr>gen_text = [], gen_reasoning = [], token_ids = [], gen_prompt_tokens = 0,
     generated_tokens = 0, finish_reason = ''stop'', success = True, error_msg = [], error_code = []\<rparr>"

datatype engine_exn =
    Exn_fw fw_error
  | Exn_template render_error
  | Exn_accept acceptance_error

record draft_context =
  draft_arena :: device_arena
  draft_graph :: decode_graph

record 'd engine =
  eng_config :: engine_config
  eng_tokenizer :: tokenizer
  eng_template :: chat_template
  eng_model :: "loaded_model option"
  eng_kv_present :: bool
  eng_gpu :: "'d gpu"
  eng_graph :: "decode_graph option"
  eng_draft :: "draft_context option"
  eng_loaded :: bool

text \<open>Device and library behaviour: kernels, float operations, memory for checkpoints, exception texts.\<close>

record 'd engine_env =
  env_dv :: "'d device_ops"
  env_f32 :: f32_ops
  ckpt_malloc :: "u64 \<Rightarrow> u64"
  what :: "engine_exn \<Rightarrow> string"

definition eng_is_loaded :: "'d engine \<Rightarrow> bool" where
  "eng_is_loaded e \<longleftrightarrow> eng_loaded e \<and> eng_model e \<noteq> None \<and> eng_kv_present e"

definition eng_max_seq_len :: "'d engine \<Rightarrow> u64" where
  "eng_max_seq_len e =
     (if eng_kv_present e then max_seq_len (config (gpu_kv (eng_gpu e))) else cfg_max_seq_len (eng_config e))"

definition eng_reset :: "'d engine \<Rightarrow> 'd engine" where
  "eng_reset e =
     e\<lparr>eng_gpu := (eng_gpu e)\<lparr>gpu_kv := (if eng_kv_present e then clear (gpu_kv (eng_gpu e)) else gpu_kv (eng_gpu e)),
                   gpu_arena := arena_reset (gpu_arena (eng_gpu e))\<rparr>,
       eng_draft := map_option (\<lambda>d. d\<lparr>draft_arena := arena_reset (draft_arena d)\<rparr>) (eng_draft e)\<rparr>"


section \<open>Checks before generation\<close>

text \<open>\<^verbatim>\<open>validate_tokens\<close>: the error message, if any.\<close>

definition validate_tokens :: "u64 \<Rightarrow> u64 \<Rightarrow> int \<Rightarrow> string option" where
  "validate_tokens limit n_prompt max_new =
     (if max_new \<le> 0 then Some ''Invalid max_new_tokens: must be greater than 0''
      else if limit < n_prompt then
        Some (''This model'' @ [CHR 0x27] @ ''s maximum context length is '' @ to_string (unat limit)
          @ '' tokens. However, your messages resulted in '' @ to_string (unat n_prompt)
          @ '' tokens. Please reduce the length of the messages.'')
      else if limit < n_prompt + word_of_int max_new then
        Some (''This model'' @ [CHR 0x27] @ ''s maximum context length is '' @ to_string (unat limit)
          @ '' tokens. However, you requested '' @ to_string (unat (n_prompt + word_of_int max_new))
          @ '' tokens ('' @ to_string (unat n_prompt) @ '' in the messages, '' @ to_string_int max_new
          @ '' in the completion). Please reduce the length of the messages or completion.'')
      else None)"

definition config_error :: "(rat \<Rightarrow> string) \<Rightarrow> generation_config \<Rightarrow> (string \<times> string) option" where
  "config_error print_float c =
     (if max_new_tokens c \<le> 0 then Some (''invalid_parameter'', ''Invalid max_new_tokens: must be greater than 0'')
      else if temperature c < 0 then Some (''invalid_parameter'', ''Invalid temperature: must be >= 0.0'')
      else if temperature c \<noteq> 0 then
        Some (''unsupported_parameter'', ''Currently only greedy decoding (temperature=0.0) is supported. Received temperature=''
          @ print_float (temperature c) @ ''. Non-zero temperature sampling is not yet supported.'')
      else if top_p c \<noteq> 1 then
        Some (''unsupported_parameter'', ''Currently only greedy decoding (top_p=1.0) is supported. Received top_p=''
          @ print_float (top_p c) @ ''. Nucleus (top-p) sampling is not yet supported.'')
      else None)"

text \<open>\<^verbatim>\<open>count_tokens\<close> on a formatted prompt; \<open>None\<close> when the tokenizer does not return.\<close>

definition count_tokens :: "'d engine \<Rightarrow> string \<Rightarrow> (nat \<times> 'd engine) option" where
  "count_tokens e input =
     (if \<not> is_loaded (eng_tokenizer e) then Some (0, e)
      else map_option (\<lambda>(ts, t). (length ts, e\<lparr>eng_tokenizer := t\<rparr>)) (encode (eng_tokenizer e) input))"


section \<open>The decode loop\<close>

text \<open>What the loop changes: the GPU state, the draft context, the last token, the result so far, the
  \<^verbatim>\<open>in_thinking\<close> flag and the state of the caller's callback.\<close>

record ('d, 'c) run =
  run_gpu :: "'d gpu"
  run_draft :: "draft_context option"
  run_tok :: int
  run_res :: generation_result
  run_thinking :: bool
  run_cb :: 'c

type_synonym 'c token_callback = "('c \<Rightarrow> string \<Rightarrow> int \<Rightarrow> bool \<times> 'c) option"

text \<open>The fixed values of a run.\<close>

record ('d, 'c) run_env =
  re_env :: "'d engine_env"
  re_model :: loaded_model
  re_tokenizer :: tokenizer
  re_graph :: "decode_graph option"
  re_eos :: int
  re_im_end :: int
  re_max_new :: int
  re_speculative :: bool
  re_draft_n :: u64
  re_callback :: "'c token_callback"

definition is_stop :: "('d, 'c) run_env \<Rightarrow> int \<Rightarrow> bool" where
  "is_stop re tok \<longleftrightarrow> tok = re_eos re \<or> (0 \<le> re_im_end re \<and> tok = re_im_end re)"

definition finish :: "string \<Rightarrow> ('d, 'c) run \<Rightarrow> ('d, 'c) run" where
  "finish why r = r\<lparr>run_res := (run_res r)\<lparr>finish_reason := why\<rparr>\<rparr>"

text \<open>\<^verbatim>\<open>process_token\<close>: false when the callback asks to stop.\<close>

definition process_token :: "('d, 'c) run_env \<Rightarrow> int \<Rightarrow> ('d, 'c) run \<Rightarrow> bool \<times> ('d, 'c) run" where
  "process_token re tok r =
     (let res = (run_res r)\<lparr>token_ids := token_ids (run_res r) @ [tok]\<rparr>;
          piece = decode_token (re_tokenizer re) tok
      in
      if tok = think_start_token_id (re_tokenizer re) \<or> piece = ''<think>''
      then (True, r\<lparr>run_res := res, run_thinking := True\<rparr>)
      else if tok = think_end_token_id (re_tokenizer re) \<or> piece = ''</think>''
      then (True, r\<lparr>run_res := res, run_thinking := False\<rparr>)
      else
        let res' = (if run_thinking r then res\<lparr>gen_reasoning := gen_reasoning res @ piece\<rparr>
                    else res\<lparr>gen_text := gen_text res @ piece\<rparr>)
        in
        case re_callback re of
          None \<Rightarrow> (True, r\<lparr>run_res := res'\<rparr>)
        | Some cb \<Rightarrow> (case cb (run_cb r) piece tok of (go, c) \<Rightarrow> (go, r\<lparr>run_res := res', run_cb := c\<rparr>)))"

text \<open>Emit the accepted tokens; true when generation stops there.\<close>

fun emit_tokens :: "('d, 'c) run_env \<Rightarrow> int list \<Rightarrow> ('d, 'c) run \<Rightarrow> bool \<times> ('d, 'c) run" where
  "emit_tokens re [] r = (False, r)"
| "emit_tokens re (tok # toks) r =
     (if is_stop re tok then (True, finish ''stop'' r)
      else
        case process_token re tok r of
          (False, r') \<Rightarrow> (True, finish ''stop'' r')
        | (True, r') \<Rightarrow> emit_tokens re toks r')"

text \<open>How an iteration ends: go round again, leave the loop, or an exception.\<close>

datatype iteration = Again | Leave | Raise engine_exn

text \<open>
  Emit one more token and advance the cache by one: the resampled and the bonus token, and the end
  of a speculative round.
\<close>

definition emit_and_advance :: "('d, 'c) run_env \<Rightarrow> int \<Rightarrow> ('d, 'c) run \<Rightarrow> iteration \<times> ('d, 'c) run" where
  "emit_and_advance re tok r =
     (if is_stop re tok then (Leave, finish ''stop'' r)
      else
        case process_token re tok r of
          (False, r') \<Rightarrow> (Leave, finish ''stop'' r')
        | (True, r') \<Rightarrow>
            (case advance (gpu_kv (run_gpu r')) 1 of
               (False, kv) \<Rightarrow> (Leave, finish ''length'' (r'\<lparr>run_gpu := (run_gpu r')\<lparr>gpu_kv := kv\<rparr>\<rparr>))
             | (True, kv) \<Rightarrow> (Again, r'\<lparr>run_gpu := (run_gpu r')\<lparr>gpu_kv := kv\<rparr>, run_tok := tok\<rparr>)))"

text \<open>What follows a verified draft.\<close>

definition after_verify ::
    "('d, 'c) run_env \<Rightarrow> nat \<Rightarrow> acceptance \<Rightarrow> ('d, 'c) run \<Rightarrow> iteration \<times> ('d, 'c) run" where
  "after_verify re n acc r =
     (if has_rejected_token acc then
        (case rollback (gpu_kv (run_gpu r)) (word_of_nat (n - num_accepted acc)) of
           Inl e \<Rightarrow> (Raise (Exn_fw (FW_cache e)), r)
         | Inr kv \<Rightarrow>
             (case emit_tokens re (accepted_tokens acc) (r\<lparr>run_gpu := (run_gpu r)\<lparr>gpu_kv := kv\<rparr>\<rparr>) of
                (True, r1) \<Rightarrow> (Leave, r1)
              | (False, r1) \<Rightarrow>
                  if 0 \<le> bonus_or_resampled_token acc
                  then emit_and_advance re (bonus_or_resampled_token acc) r1
                  else (Again, r1)))
      else
        (case emit_tokens re (accepted_tokens acc) r of
           (True, r1) \<Rightarrow> (Leave, r1)
         | (False, r1) \<Rightarrow>
             if 0 \<le> bonus_or_resampled_token acc \<and> length (token_ids (run_res r1)) < nat (re_max_new re)
             then emit_and_advance re (bonus_or_resampled_token acc) r1
             else if accepted_tokens acc \<noteq> [] then (Again, r1\<lparr>run_tok := last (accepted_tokens acc)\<rparr>)
             else (Again, r1)))"

text \<open>The single-token step.\<close>

definition single_step :: "('d, 'c) run_env \<Rightarrow> ('d, 'c) run \<Rightarrow> iteration \<times> ('d, 'c) run" where
  "single_step re r =
     (let dv = env_dv (re_env re); m = re_model re; g = run_gpu r;
          stepped = (case re_graph re of
             Some dg \<Rightarrow>
               if is_captured dg then
                 (case graph_decode_step dv m dg (run_tok r) (current_seq_len (gpu_kv g)) g of
                    (Inl e, g1) \<Rightarrow> (Inl e, g1)
                  | (Inr next_tok, g1) \<Rightarrow>
                      if next_tok < 0 then (Inr (- 1), g1)
                      else (case advance (gpu_kv g1) 1 of
                              (False, kv) \<Rightarrow> (Inr (- 1), g1\<lparr>gpu_kv := kv\<rparr>)
                            | (True, kv) \<Rightarrow> (Inr next_tok, g1\<lparr>gpu_kv := kv\<rparr>)))
               else decode_step dv m (run_tok r) 0 g
           | None \<Rightarrow> decode_step dv m (run_tok r) 0 g)
      in
      case stepped of
        (Inl e, g1) \<Rightarrow> (Raise (Exn_fw e), r\<lparr>run_gpu := g1\<rparr>)
      | (Inr next_tok, g1) \<Rightarrow>
          let r1 = r\<lparr>run_gpu := g1\<rparr> in
          if next_tok < 0 then (Leave, finish ''length'' r1)
          else if is_stop re next_tok then (Leave, finish ''stop'' r1)
          else
            case process_token re next_tok r1 of
              (False, r2) \<Rightarrow> (Leave, finish ''stop'' r2)
            | (True, r2) \<Rightarrow> (Again, r2\<lparr>run_tok := next_tok\<rparr>))"

text \<open>
  A speculative round: checkpoint, draft on the draft context's arena, verify, accept. A draft that
  failed falls through to the single step, with the cache as the draft left it.
\<close>

definition speculative_round ::
    "('d, 'c) run_env \<Rightarrow> draft_context \<Rightarrow> nat \<Rightarrow> ('d, 'c) run \<Rightarrow> iteration \<times> ('d, 'c) run" where
  "speculative_round re dc n r =
     (let dv = env_dv (re_env re); m = re_model re; g = run_gpu r; vocab = vocab_size (lm_config m);
          prefix_len = uint (current_seq_len (gpu_kv g))
      in
      case checkpoint_recurrent_state (ckpt_malloc (re_env re)) (gpu_kv g) of
        Inl e \<Rightarrow> (Raise (Exn_fw (FW_cache e)), r)
      | Inr kv1 \<Rightarrow>
          (case draft_decode_loop dv m (Some (draft_graph dc)) (run_tok r) (word_of_nat n)
                  (g\<lparr>gpu_kv := kv1, gpu_arena := draft_arena dc\<rparr>) of
             (drafted, g2) \<Rightarrow>
               let r2 = r\<lparr>run_gpu := g2\<lparr>gpu_arena := gpu_arena g\<rparr>,
                          run_draft := Some (dc\<lparr>draft_arena := gpu_arena g2\<rparr>)\<rparr>
               in
               (case drafted of
                  Inl e \<Rightarrow> (Raise (Exn_fw e), r2)
                | Inr (ok, toks) \<Rightarrow>
                    if \<not> ok \<or> toks = [] then single_step re r2
                    else
                      (case logits_buffer dv (word_of_nat (length toks) * word_of_int vocab * 4) (run_gpu r2) of
                         (Inl e, g3) \<Rightarrow> (Raise (Exn_fw e), r2\<lparr>run_gpu := g3\<rparr>)
                       | (Inr d_verify, g3) \<Rightarrow>
                           (case forward_verify dv m toks prefix_len d_verify g3 of
                              (Inl e, g4) \<Rightarrow> (Raise (Exn_fw e), r2\<lparr>run_gpu := g4\<rparr>)
                            | (Inr _, g4) \<Rightarrow>
                                (case speculative_accept_reject (item_order dv) (env_f32 (re_env re)) (Some toks)
                                        (length toks)
                                        (Some (logits_at dv (gpu_dev g4) d_verify (length toks * nat vocab)))
                                        vocab None None of
                                   Inl e \<Rightarrow> (Raise (Exn_accept e), r2\<lparr>run_gpu := g4\<rparr>)
                                 | Inr acc \<Rightarrow> after_verify re (length toks) acc (r2\<lparr>run_gpu := g4\<rparr>)))))))"

definition decode_iteration :: "('d, 'c) run_env \<Rightarrow> ('d, 'c) run \<Rightarrow> iteration \<times> ('d, 'c) run" where
  "decode_iteration re r =
     (let kv = gpu_kv (run_gpu r); remaining = nat (re_max_new re) - length (token_ids (run_res r)) in
      if max_seq_len (config kv) \<le> current_seq_len kv then (Leave, finish ''length'' r)
      else
        case run_draft r of
          Some dc \<Rightarrow>
            if re_speculative re \<and> 1 < remaining \<and> current_seq_len kv + re_draft_n re \<le> max_seq_len (config kv)
            then speculative_round re dc (min (unat (re_draft_n re)) (remaining - 1)) r
            else single_step re r
        | None \<Rightarrow> single_step re r)"

text \<open>The loop with fuel; \<open>None\<close> when the fuel is used up.\<close>

fun decode_loop :: "nat \<Rightarrow> ('d, 'c) run_env \<Rightarrow> ('d, 'c) run \<Rightarrow> (engine_exn option \<times> ('d, 'c) run) option" where
  "decode_loop fuel re r =
     (if nat (re_max_new re) \<le> length (token_ids (run_res r)) then Some (None, r)
      else case fuel of
        0 \<Rightarrow> None
      | Suc fuel' \<Rightarrow>
          (case decode_iteration re r of
             (Again, r') \<Rightarrow> decode_loop fuel' re r'
           | (Leave, r') \<Rightarrow> Some (None, r')
           | (Raise e, r') \<Rightarrow> Some (Some e, r')))"

declare decode_loop.simps [simp del]


section \<open>Post-processing\<close>

definition THINK_START :: string where "THINK_START = ''<think>''"
definition THINK_END :: string where "THINK_END = ''</think>''"

text \<open>Cut the first \<^verbatim>\<open><think>\<close> block out of the text, keeping it as reasoning if there is none yet.\<close>

definition cut_think_block :: "string \<times> string \<Rightarrow> string \<times> string" where
  "cut_think_block tr =
     (case tr of (txt_part, reasoning) \<Rightarrow>
      case find_sub THINK_START txt_part of
        None \<Rightarrow> (txt_part, reasoning)
      | Some t_start \<Rightarrow>
          (case find_sub THINK_END txt_part of
             Some t_end \<Rightarrow>
               if t_start \<le> t_end then
                 (take t_start txt_part @ drop (t_end + 8) txt_part,
                  if reasoning = [] then slice (t_start + 7) (t_end - (t_start + 7)) txt_part else reasoning)
               else (take t_start txt_part, if reasoning = [] then drop (t_start + 7) txt_part else reasoning)
           | None \<Rightarrow> (take t_start txt_part, if reasoning = [] then drop (t_start + 7) txt_part else reasoning)))"

text \<open>Erase every closing tag.\<close>

function erase_stray :: "string \<Rightarrow> string" where
  "erase_stray s =
     (case find_sub THINK_END s of None \<Rightarrow> s | Some i \<Rightarrow> erase_stray (take i s @ drop (i + 8) s))"
  by pat_completeness auto
termination
proof (relation "measure length", goal_cases)
  case (2 s i)
  then show ?case using find_sub_Some_D [of THINK_END s i] by (simp add: THINK_END_def) arith
qed simp

declare erase_stray.simps [simp del]

definition post_process :: "string \<Rightarrow> string \<Rightarrow> string \<times> string" where
  "post_process txt_part reasoning =
     (let (t1, reason) = cut_think_block (txt_part, reasoning);
          t2 = erase_stray t1
      in (if reason \<noteq> [] then dropWhile (\<lambda>c. c = CHR 0x0D \<or> c = CHR 0x0A) t2 else t2, reason))"


section \<open>generate\<close>

definition fail_result :: "string \<Rightarrow> string \<Rightarrow> generation_result \<Rightarrow> generation_result" where
  "fail_result code msg r = r\<lparr>success := False, error_code := code, error_msg := msg\<rparr>"

text \<open>The exception handlers.\<close>

definition exn_code :: "engine_exn \<Rightarrow> string" where
  "exn_code e =
     (case e of
        Exn_fw Context_length_exceeded \<Rightarrow> ''context_length_exceeded''
      | Exn_fw (FW_alloc Bad_alloc) \<Rightarrow> ''bad_alloc''
      | _ \<Rightarrow> ''internal_error'')"

definition exn_message :: "(engine_exn \<Rightarrow> string) \<Rightarrow> engine_exn \<Rightarrow> string" where
  "exn_message what_text e =
     (case e of
        Exn_fw Context_length_exceeded \<Rightarrow> what_text e
      | Exn_fw (FW_alloc Bad_alloc) \<Rightarrow> ''Memory allocation failed (out of memory or arena overflow) during generation''
      | _ \<Rightarrow> ''Exception during generation: '' @ what_text e)"

definition catch_exn ::
    "'d engine_env \<Rightarrow> engine_exn \<Rightarrow> generation_result \<Rightarrow> 'd engine \<Rightarrow> generation_result \<times> 'd engine" where
  "catch_exn env x res e = (fail_result (exn_code x) (exn_message (what env) x) res, eng_reset e)"

text \<open>After the loop: tags are cut out and the tokens counted.\<close>

definition finish_result :: "generation_result \<Rightarrow> generation_result" where
  "finish_result res =
     (case post_process (gen_text res) (gen_reasoning res) of
        (t, reason) \<Rightarrow> res\<lparr>gen_text := t, gen_reasoning := reason, generated_tokens := length (token_ids res)\<rparr>)"

definition make_run_env ::
    "'d engine_env \<Rightarrow> 'd engine \<Rightarrow> loaded_model \<Rightarrow> generation_config \<Rightarrow> 'c token_callback \<Rightarrow> ('d, 'c) run_env" where
  "make_run_env env e m cfg cb =
     (let dn = (if 0 < gen_draft_tokens_num cfg then word_of_int (gen_draft_tokens_num cfg)
                else cfg_draft_tokens_num (eng_config e))
      in \<lparr>re_env = env, re_model = m, re_tokenizer = eng_tokenizer e, re_graph = eng_graph e,
         re_eos = (if 0 \<le> gen_eos_token_id cfg then gen_eos_token_id cfg else eos_token_id (eng_tokenizer e)),
         re_im_end = (if 0 \<le> gen_im_end_token_id cfg then gen_im_end_token_id cfg
                      else im_end_token_id (eng_tokenizer e)),
         re_max_new = max_new_tokens cfg,
         re_speculative = (enable_speculative (eng_config e) \<or> 0 < gen_draft_tokens_num cfg),
         re_draft_n = (if dn = 0 then 4 else dn), re_callback = cb\<rparr>)"

text \<open>From the first token on; \<open>None\<close> is the loop out of fuel.\<close>

definition generate_from ::
    "('d, 'c) run_env \<Rightarrow> 'd engine \<Rightarrow> generation_result \<Rightarrow> int \<Rightarrow> 'c
     \<Rightarrow> (generation_result \<times> 'd engine \<times> 'c) option" where
  "generate_from re e res tok cb =
     (let r0 = \<lparr>run_gpu = eng_gpu e, run_draft = eng_draft e, run_tok = tok, run_res = res, run_thinking = False, run_cb = cb\<rparr>
      in
      if re_eos re < 0 then
        Some (fail_result ''missing_eos_token'' ''No valid EOS token ID configured or found in loaded tokenizer'' res, e, cb)
      else if is_stop re tok then Some (res\<lparr>generated_tokens := 0, finish_reason := ''stop''\<rparr>, e, cb)
      else
        case process_token re tok r0 of
          (False, r1) \<Rightarrow> Some ((run_res r1)\<lparr>generated_tokens := 1, finish_reason := ''stop''\<rparr>, e, run_cb r1)
        | (True, r1) \<Rightarrow>
            (case decode_loop (nat (re_max_new re)) re (finish ''length'' r1) of
               None \<Rightarrow> None
             | Some (x, r2) \<Rightarrow>
                 let e' = e\<lparr>eng_gpu := run_gpu r2, eng_draft := run_draft r2\<rparr> in
                 (case x of
                    None \<Rightarrow> Some (finish_result (run_res r2), e', run_cb r2)
                  | Some x \<Rightarrow> (case catch_exn (re_env re) x (run_res r2) e' of (res', e'') \<Rightarrow> Some (res', e'', run_cb r2)))))"

definition generate ::
    "'d engine_env \<Rightarrow> (rat \<Rightarrow> string) \<Rightarrow> 'd engine \<Rightarrow> string \<Rightarrow> generation_config \<Rightarrow> 'c token_callback \<Rightarrow> 'c
     \<Rightarrow> (generation_result \<times> 'd engine \<times> 'c) option" where
  "generate env print_float e prompt cfg callback cb =
     (let res = GenerationResult in
      if \<not> eng_is_loaded e then Some (fail_result ''model_not_loaded'' ''Model is not loaded'' res, e, cb)
      else
        case config_error print_float cfg of
          Some (code, msg) \<Rightarrow> Some (fail_result code msg res, e, cb)
        | None \<Rightarrow>
            (case (if gen_apply_chat_template cfg then render_prompt (eng_template e) prompt [] default_options
                   else Inr prompt) of
               Inl x \<Rightarrow> (case catch_exn env (Exn_template x) res e of (res', e') \<Rightarrow> Some (res', e', cb))
             | Inr input_text \<Rightarrow>
                 (case encode (eng_tokenizer e) input_text of
                    None \<Rightarrow> None
                  | Some (ts, t) \<Rightarrow>
                      let e1 = e\<lparr>eng_tokenizer := t\<rparr>; res1 = res\<lparr>gen_prompt_tokens := length ts\<rparr> in
                      if ts = [] then Some (fail_result ''empty_prompt'' ''Tokenizer produced 0 tokens'' res, e1, cb)
                      else
                        (case validate_tokens (eng_max_seq_len e1) (word_of_nat (length ts)) (max_new_tokens cfg) of
                           Some msg \<Rightarrow> Some (fail_result ''context_length_exceeded'' msg res1, e1, cb)
                         | None \<Rightarrow>
                             let m = the (eng_model e1) in
                             (case prefill_prompt (env_dv env) m ts (prefill_chunk_size (eng_config e1)) False None
                                     (eng_gpu e1) of
                                (Inl x, g) \<Rightarrow>
                                  (case catch_exn env (Exn_fw x) res1 (e1\<lparr>eng_gpu := g\<rparr>) of (res', e') \<Rightarrow> Some (res', e', cb))
                              | (Inr tok, g) \<Rightarrow>
                                  let e2 = e1\<lparr>eng_gpu := g\<rparr> in
                                  if tok < 0 then
                                    Some (fail_result ''prefill_failed'' ''Prefill failed: context length exceeded'' res1, e2, cb)
                                  else generate_from (make_run_env env e2 m cfg callback) e2 res1 tok cb)))))"

end
