(* ===== verification/Engine_Correct.thy ===== *)
theory Engine_Correct
  imports Engine
begin

text \<open>
  Properties of generation: it touches the KV cache only through the cache's own operations, every
  iteration of the decode loop makes progress, and the result respects the limits of the request.
\<close>


section \<open>The cache is only stepped\<close>

text \<open>Kernels write the recurrent state in place.\<close>

definition exec_ok :: "'d device_ops \<Rightarrow> bool" where
  "exec_ok dv \<longleftrightarrow> (\<forall>k d r. length (snd (exec dv k (d, r))) = length r)"

definition kvs :: "'d gpu \<Rightarrow> 'd gpu \<Rightarrow> bool" where
  "kvs g g' \<longleftrightarrow> kv_step\<^sup>*\<^sup>* (gpu_kv g) (gpu_kv g')"

named_theorems kvs_intros

lemma kvs_refl [kvs_intros, simp]: "gpu_kv g' = gpu_kv g \<Longrightarrow> kvs g g'"
  by (simp add: kvs_def)

lemma kvs_trans: "kvs g g' \<Longrightarrow> kvs g' g'' \<Longrightarrow> kvs g g''"
  by (auto simp: kvs_def)

lemma kvs_one: "kv_step (gpu_kv g) (gpu_kv g') \<Longrightarrow> kvs g g'"
  by (auto simp: kvs_def)

lemma exec_ok_fold: "exec_ok dv \<Longrightarrow> length (snd (fold (exec dv) ks x)) = length (snd x)"
  by (induction ks arbitrary: x) (auto simp: exec_ok_def)

lemma kvs_submit [kvs_intros]: "exec_ok dv \<Longrightarrow> kvs g (submit dv ks g)"
proof -
  assume "exec_ok dv"
  obtain d r where *: "fold (exec dv) ks (gpu_dev g, recurrent_mem (gpu_kv g)) = (d, r)" by fastforce
  then have "length r = length (recurrent_mem (gpu_kv g))"
    using exec_ok_fold [OF \<open>exec_ok dv\<close>, of ks "(gpu_dev g, recurrent_mem (gpu_kv g))"] by simp
  then show "kvs g (submit dv ks g)" by (intro kvs_one) (simp add: submit_def * kv_step.kernel)
qed

lemma kvs_advance: "advance (gpu_kv g) n = (ok, kv) \<Longrightarrow> kvs g (g\<lparr>gpu_kv := kv\<rparr>)"
  by (intro kvs_one) (simp add: kv_step.adv)

lemma kvs_frame: "gpu_dev g' = gpu_dev g \<and> gpu_kv g' = gpu_kv g \<Longrightarrow> kvs g g'"
  by simp

lemmas frame_kvs = arena_alloc_frame [THEN kvs_frame] arena_allocs_frame [THEN kvs_frame]
  persistent_allocs_frame [THEN kvs_frame] logits_buffer_frame [THEN kvs_frame]

text \<open>A stage that steps the cache, followed by another one.\<close>

lemma forward_chunk_kvs:
  assumes "exec_ok dv" "forward_chunk dv m tokens start z logits cap bufs pt pp vis vi g = (r, g')"
  shows "kvs g g'"
proof -
  let ?n = "int (length tokens)"
  note S = kvs_submit [OF assms(1)]
  define g1 where "g1 = (if \<not> cap \<and> bufs = None then g\<lparr>gpu_arena := arena_reset (gpu_arena g)\<rparr> else g)"
  have k1: "kvs g g1" by (simp add: g1_def)
  obtain a2 g2 where s2: "(if pt \<noteq> 0 then (Inr pt, g1) else arena_alloc (word_of_int (?n * 8)) g1) = (a2, g2)"
    by fastforce
  then have k2: "kvs g1 g2" using arena_alloc_frame [of _ g1 a2 g2] by (auto split: if_splits)
  show ?thesis
  proof (cases "?n \<le> 0 \<or> start < 0 \<or> uint (max_seq_len (config (gpu_kv g))) < start + ?n")
    case True
    then have "g' = g" using assms(2) by (auto simp: forward_chunk_def Let_def split: if_splits)
    then show ?thesis by simp
  next
    case False
    then have f: "\<not> ?n \<le> 0" "\<not> (start < 0 \<or> uint (max_seq_len (config (gpu_kv g))) < start + ?n)" by auto
    note run1 = assms(2) [unfolded forward_chunk_def Let_def if_not_P [OF f(1)] if_not_P [OF f(2)],
      folded g1_def, unfolded s2]
    show ?thesis
    proof (cases a2)
      case (Inl e)
      then show ?thesis using run1 k1 k2 kvs_trans by auto
    next
      case (Inr d_tok)
      define g3 where "g3 = submit dv [Copy_tokens d_tok tokens] g2"
      have k3: "kvs g g3" using kvs_trans [OF kvs_trans [OF k1 k2] S] by (simp add: g3_def)
      obtain a4 g4 where s4: "(if pp \<noteq> 0 then (Inr pp, g3) else arena_alloc (word_of_int (?n * 8)) g3) = (a4, g4)"
        by fastforce
      then have "kvs g3 g4" using arena_alloc_frame [of _ g3 a4 g4] by (auto split: if_splits)
      then have k4: "kvs g g4" using k3 kvs_trans by blast
      note run2 = run1 [unfolded Inr, simplified, folded g3_def, unfolded s4]
      show ?thesis
      proof (cases a4)
        case (Inl e)
        then show ?thesis using run2 k4 by auto
      next
        case (Inr d_pos)
        define g5 where "g5 = submit dv [Fill_positions d_pos start ?n] g4"
        have k5: "kvs g g5" using kvs_trans [OF k4 S] by (simp add: g5_def)
        note run3 = run2 [unfolded Inr, simplified, folded g5_def]
        show ?thesis
        proof (cases bufs)
          case (Some b)
          then show ?thesis using run3 kvs_trans [OF k5 S] by (auto split: prod.splits)
        next
          case None
          obtain a6 g6 where s6: "arena_allocs (buffer_sizes (lm_config m) ?n) g5 = (a6, g6)" by fastforce
          have k6: "kvs g g6" using kvs_trans [OF k5] arena_allocs_frame [OF s6] by auto
          then show ?thesis
            using run3 None s6 kvs_trans [OF k6 S] by (auto split: prod.splits sum.splits)
        qed
      qed
    qed
  qed
qed

lemma decode_step_kvs:
  assumes "exec_ok dv" "decode_step dv m tok p g = (r, g')"
  shows "kvs g g'"
proof -
  let ?b = "if p = 0 then logits_buffer dv (word_of_int (vocab_size (lm_config m)) * 4) g else (Inr p, g)"
  obtain a1 g1 where s1: "?b = (a1, g1)" by fastforce
  then have k1: "kvs g g1" using logits_buffer_frame [of dv _ g a1 g1] by (auto split: if_splits)
  show ?thesis
  proof (cases a1)
    case (Inl e)
    then show ?thesis using assms(2) s1 k1 by (auto simp: decode_step_def Let_def split: if_splits)
  next
    case (Inr d)
    obtain a2 g2 where c: "forward_chunk dv m [tok] (uint (current_seq_len (gpu_kv g))) False d False None 0 0
        None 0 g1 = (a2, g2)" by fastforce
    have k2: "kvs g g2" using kvs_trans [OF k1 forward_chunk_kvs [OF assms(1) c]] .
    obtain ok kv where a: "advance (gpu_kv g2) 1 = (ok, kv)" by fastforce
    have "kvs g (g2\<lparr>gpu_kv := kv\<rparr>)" using kvs_trans [OF k2 kvs_advance [OF a]] .
    then show ?thesis
      using assms(2) s1 Inr c a k2
      by (auto simp: decode_step_def Let_def split: if_splits sum.splits bool.splits)
  qed
qed

lemma decode_step_token:
  assumes "device_ok dv" "0 < vocab_size (lm_config m)" "decode_step dv m tok p g = (Inr t, g')" "0 \<le> t"
  shows "t < vocab_size (lm_config m)"
  using assms(3,4) sample_range [OF assms(1,2)]
  by (auto simp: decode_step_def Let_def split: if_splits prod.splits sum.splits bool.splits)

lemma graph_decode_step_kvs:
  "exec_ok dv \<Longrightarrow> graph_decode_step dv m dg tok pos g = (r, g') \<Longrightarrow> kvs g g'"
  by (auto simp: graph_decode_step_def Let_def split: if_splits option.splits bool.splits intro: kvs_submit)

lemma graph_decode_step_token:
  assumes "device_ok dv" "0 < vocab_size (lm_config m)" "graph_decode_step dv m dg tok pos g = (Inr t, g')" "0 \<le> t"
  shows "t < vocab_size (lm_config m)"
  using assms(3,4) sample_range [OF assms(1,2)]
  by (auto simp: graph_decode_step_def Let_def split: if_splits option.splits bool.splits)

text \<open>The draft only steps the cache; it adds at most \<open>n\<close> tokens, all in the vocabulary.\<close>

lemma draft_steps_kvs:
  assumes "exec_ok dv" "draft_steps dv m dg n tok acc g = (r, g')"
  shows "kvs g g'"
  using assms(2)
proof (induction n arbitrary: tok acc g)
  case (Suc n)
  define dg' where "dg' = (case dg of Some d \<Rightarrow> if is_captured d then Some d else None | None \<Rightarrow> None)"
  show ?case
  proof (cases "max_seq_len (config (gpu_kv g)) \<le> current_seq_len (gpu_kv g)")
    case True
    then show ?thesis using Suc.prems by simp
  next
    case False
    note run = Suc.prems [unfolded draft_steps.simps if_not_P [OF False], folded dg'_def]
    show ?thesis
    proof (cases dg')
      case (Some d)
      obtain a1 g1 where s: "graph_decode_step dv m d tok (current_seq_len (gpu_kv g)) g = (a1, g1)" by fastforce
      have k1: "kvs g g1" using graph_decode_step_kvs [OF assms(1) s] .
      obtain ok kv where a: "advance (gpu_kv g1) 1 = (ok, kv)" by fastforce
      have k2: "kvs g (g1\<lparr>gpu_kv := kv\<rparr>)" using kvs_trans [OF k1 kvs_advance [OF a]] .
      show ?thesis
        using run Some s a k1 k2 kvs_trans [OF k2 Suc.IH]
        by (auto split: sum.splits if_splits bool.splits)
    next
      case None
      obtain a1 g1 where s: "decode_step dv m tok 0 g = (a1, g1)" by fastforce
      have k1: "kvs g g1" using decode_step_kvs [OF assms(1) s] .
      show ?thesis
        using run None s k1 kvs_trans [OF k1 Suc.IH] by (auto split: sum.splits if_splits)
    qed
  qed
qed simp

lemma draft_steps_tokens:
  assumes "device_ok dv" "0 < vocab_size (lm_config m)" "draft_steps dv m dg n tok acc g = (Inr (ok, toks), g')"
  shows "length acc \<le> length toks \<and> length toks \<le> length acc + n \<and> take (length acc) toks = acc"
  using assms(3)
proof (induction n arbitrary: tok acc g)
  case (Suc n)
  have *: "length acc \<le> length toks \<and> length toks \<le> length acc + Suc n \<and> take (length acc) toks = acc"
    if "draft_steps dv m dg n t (acc @ [t]) g1 = (Inr (ok, toks), g')" for t g1
    using Suc.IH [OF that] by (auto dest: arg_cong [of _ _ "take (length acc)"] simp: min_def)
  show ?case
    using Suc.prems * by (auto split: if_splits option.splits sum.splits prod.splits bool.splits)
qed simp

lemma draft_decode_loop_kvs:
  "exec_ok dv \<Longrightarrow> draft_decode_loop dv m dg tok n g = (r, g') \<Longrightarrow> kvs g g'"
  by (auto simp: draft_decode_loop_def split: if_splits intro: draft_steps_kvs)

lemma draft_decode_loop_tokens:
  assumes "device_ok dv" "0 < vocab_size (lm_config m)" "draft_decode_loop dv m dg tok n g = (Inr (ok, toks), g')"
  shows "length toks \<le> unat n"
  using assms(3) draft_steps_tokens [OF assms(1,2)]
  by (fastforce simp: draft_decode_loop_def split: if_splits)

lemma forward_verify_kvs:
  assumes "exec_ok dv" "forward_verify dv m draft prefix_len p g = (r, g')"
  shows "kvs g g'"
proof -
  let ?n = "int (length draft)"
  note S = kvs_submit [OF assms(1)]
  obtain a1 g1 where s1: "arena_alloc (word_of_int (?n * 8)) g = (a1, g1)" by fastforce
  have k1: "kvs g g1" using arena_alloc_frame [OF s1] by simp
  define g2 where "g2 = (\<lambda>d_tok. submit dv [Copy_tokens d_tok draft] g1)"
  have k2: "kvs g (g2 d)" for d using kvs_trans [OF k1 S] by (simp add: g2_def)
  have k3: "kvs g g3" if "arena_alloc (word_of_int (?n * 8)) (g2 d) = (a3, g3)" for d a3 g3
    using kvs_trans [OF k2 kvs_frame [OF arena_alloc_frame [OF that]]] .
  have k5: "kvs g g5" if "arena_alloc (word_of_int (?n * 8)) (g2 d) = (a3, g3)"
    "arena_allocs sizes (submit dv ks g3) = (a5, g5)" for d a3 g3 sizes ks a5 g5
    using kvs_trans [OF kvs_trans [OF k3 [OF that(1)] S] kvs_frame [OF arena_allocs_frame [OF that(2)]]] .
  have k6: "kvs g (submit dv ks' g5)" if "arena_alloc (word_of_int (?n * 8)) (g2 d) = (a3, g3)"
    "arena_allocs sizes (submit dv ks g3) = (a5, g5)" for d a3 g3 sizes ks a5 g5 ks'
    using kvs_trans [OF k5 [OF that] S] .
  show ?thesis
    using assms(2) s1 k1 unfolding forward_verify_def Let_def g2_def [symmetric]
    by (auto simp: g2_def [symmetric] split: if_splits option.splits sum.splits prod.splits
        intro: k3 k5 k6 [unfolded g2_def] k3 [unfolded g2_def] k5 [unfolded g2_def])
qed

lemma prefill_loop_kvs:
  assumes "exec_ok dv"
    "prefill_loop dv m ts chunk_size d_logits cap bufs d_tok d_pos vis d_vis offset g = (r, g')"
  shows "kvs g g'"
  using assms
proof (induction dv m ts chunk_size d_logits cap bufs d_tok d_pos vis d_vis offset g rule: prefill_loop.induct)
  case (1 dv m ts chunk_size d_logits cap bufs d_tok d_pos vis d_vis offset g)
  show ?case
  proof (cases "length ts \<le> offset \<or> chunk_size = 0")
    case True
    then show ?thesis using "1.prems"(2) by (subst (asm) prefill_loop.simps) auto
  next
    case False
    let ?n = "min chunk_size (length ts - offset)"
    obtain a g1 where c: "forward_chunk dv m (slice offset ?n ts) (int offset) (offset = 0)
        (if offset + ?n = length ts then d_logits else 0) cap bufs d_tok d_pos vis
        (if d_vis \<noteq> 0 then d_vis + word_of_nat (offset * 8) else 0) g = (a, g1)" by fastforce
    have k1: "kvs g g1" using forward_chunk_kvs [OF "1.prems"(1) c] .
    show ?thesis
    proof (cases a)
      case (Inl e)
      then show ?thesis
        using "1.prems"(2) False c k1 by (subst (asm) prefill_loop.simps) (simp add: Let_def)
    next
      case (Inr u)
      have "prefill_loop dv m ts chunk_size d_logits cap bufs d_tok d_pos vis d_vis (offset + ?n) g1 = (r, g')"
        using "1.prems"(2) False c Inr by (subst (asm) prefill_loop.simps) (simp add: Let_def)
      from "1.IH" [OF False refl refl c [symmetric] Inr "1.prems"(1) this]
      show ?thesis using kvs_trans [OF k1] by blast
    qed
  qed
qed

lemma prefill_buffers_kvs:
  assumes "exec_ok dv" "prefill_buffers dv m ts n cap g = (r, g')"
  shows "kvs g g'"
proof -
  let ?cfg = "lm_config m"
  obtain a0 g0 where a: "arena_alloc (word_of_nat (length ts * 8)) g = (a0, g0)" by fastforce
  have k0: "kvs g g0" using arena_alloc_frame [OF a] by simp
  obtain r1 g1 where s1: "(if 0 < visual_count ?cfg ts
       then (case arena_alloc (word_of_nat (length ts * 8)) g of
               (Inl e, g1) \<Rightarrow> (Inl e, g1)
             | (Inr p, g1) \<Rightarrow> (Inr p, submit dv [Copy_indices p (visual_indices ?cfg 0 ts)] g1))
       else (Inr 0, g)) = (r1, g1)" by fastforce
  have k1: "kvs g g1"
    using s1 a k0 kvs_trans [OF k0 kvs_submit [OF assms(1)]] by (auto split: if_splits sum.splits)
  have "gpu_kv g' = gpu_kv g1"
    using assms(2) unfolding prefill_buffers_def Let_def s1
    by (auto split: sum.splits if_splits prod.splits dest!: persistent_allocs_frame)
  then show ?thesis using kvs_trans [OF k1] by simp
qed

lemma prefill_prompt_kvs:
  assumes "exec_ok dv" "prefill_prompt dv m ts cs cap vis g = (r, g')"
  shows "kvs g g'"
proof -
  let ?cs = "if cs = 0 then 512 else cs" and ?cfg = "lm_config m"
  define g1 where "g1 = g\<lparr>gpu_kv := clear (gpu_kv g)\<rparr>"
  have k1: "kvs g g1" by (rule kvs_one) (simp add: g1_def kv_step.clear)
  obtain r2 g2 where s2: "logits_buffer dv (word_of_int (vocab_size ?cfg) * 4) g1 = (r2, g2)" by fastforce
  have k2: "kvs g g2" using kvs_trans [OF k1 kvs_frame [OF logits_buffer_frame [OF s2]]] .
  obtain r3 g3 where s3: "prefill_buffers dv m ts ?cs cap g2 = (r3, g3)" by fastforce
  have k3: "kvs g g3" using kvs_trans [OF k2 prefill_buffers_kvs [OF assms(1) s3]] .
  have k4: "kvs g g4" if "prefill_loop dv m ts ?cs p cap bufs d_tok d_pos vis d_vis 0 g3 = (r4, g4)"
    for p bufs d_tok d_pos d_vis r4 g4
    using kvs_trans [OF k3 prefill_loop_kvs [OF assms(1) that]] .
  have k5: "kvs g (g4\<lparr>gpu_kv := set_seq_len (gpu_kv g4) n\<rparr>)"
    if "prefill_loop dv m ts ?cs p cap bufs d_tok d_pos vis d_vis 0 g3 = (r4, g4)"
    for p bufs d_tok d_pos d_vis r4 g4 n
    using kvs_trans [OF k4 [OF that] kvs_one, of "g4\<lparr>gpu_kv := set_seq_len (gpu_kv g4) n\<rparr>"]
    by (simp add: kv_step.set_len)
  show ?thesis
    using assms(2) s2 s3 k2 k3
    unfolding prefill_prompt_def Let_def g1_def [symmetric]
    by (auto split: if_splits option.splits sum.splits prod.splits intro: k4 k5)
qed


section \<open>Emitting tokens\<close>

lemma process_token_res:
  "process_token re tok r = (go, r') \<Longrightarrow>
     token_ids (run_res r') = token_ids (run_res r) @ [tok] \<and> run_gpu r' = run_gpu r \<and> run_draft r' = run_draft r"
  by (auto simp: process_token_def Let_def split: if_splits option.splits prod.splits)

lemma finish_simps [simp]:
  "token_ids (run_res (finish w r)) = token_ids (run_res r)" "run_gpu (finish w r) = run_gpu r"
  "run_draft (finish w r) = run_draft r"
  by (simp_all add: finish_def)

lemma emit_tokens_res:
  "emit_tokens re toks r = (stopped, r') \<Longrightarrow>
     \<exists>n \<le> length toks. token_ids (run_res r') = token_ids (run_res r) @ take n toks
       \<and> run_gpu r' = run_gpu r \<and> run_draft r' = run_draft r \<and> (\<not> stopped \<longrightarrow> n = length toks)"
proof (induction toks arbitrary: r)
  case (Cons t ts)
  show ?case
  proof (cases "is_stop re t")
    case True
    then show ?thesis using Cons.prems by (auto intro: exI [of _ 0])
  next
    case False
    obtain go r1 where p: "process_token re t r = (go, r1)" by fastforce
    note p' = process_token_res [OF p]
    show ?thesis
    proof (cases go)
      case True
      then have "emit_tokens re ts r1 = (stopped, r')" using Cons.prems False p by simp
      from Cons.IH [OF this] p' obtain n where "n \<le> length ts"
        "token_ids (run_res r') = token_ids (run_res r) @ t # take n ts" "run_gpu r' = run_gpu r"
        "run_draft r' = run_draft r" "\<not> stopped \<longrightarrow> n = length ts" by auto
      then show ?thesis by (intro exI [of _ "Suc n"]) auto
    next
      case no: False
      then have "r' = finish ''stop'' r1" "stopped" using Cons.prems False p by auto
      then show ?thesis using p' by (intro exI [of _ 1]) auto
    qed
  qed
qed auto

text \<open>One outcome of an iteration: tokens appended, the cache stepped, progress if it goes on.\<close>

definition advances :: "nat \<Rightarrow> ('d, 'c) run \<Rightarrow> iteration \<times> ('d, 'c) run \<Rightarrow> bool" where
  "advances room r = (\<lambda>(it, r').
     (\<exists>ts. token_ids (run_res r') = token_ids (run_res r) @ ts \<and> length ts \<le> room \<and> (it = Again \<longrightarrow> ts \<noteq> []))
     \<and> kvs (run_gpu r) (run_gpu r'))"

lemma emit_and_advance_advances: "advances 1 r (emit_and_advance re tok r)"
proof -
  have adv: "kvs g (g\<lparr>gpu_kv := kv\<rparr>)" if "advance (gpu_kv g) 1 = (ok, kv)" for g :: "'a gpu" and ok kv
    using kvs_advance [OF that] .
  show ?thesis
    by (auto simp: advances_def emit_and_advance_def split: prod.splits bool.splits
        dest!: process_token_res intro: adv)
qed

lemma advances_weaken: "advances n r x \<Longrightarrow> n \<le> k \<Longrightarrow> advances k r x"
  by (fastforce simp: advances_def)

lemma advances_after:
  assumes "token_ids (run_res r1) = token_ids (run_res r) @ ts" "length ts \<le> a" "kvs (run_gpu r) (run_gpu r1)"
    "advances b r1 x"
  shows "advances (a + b) r x"
proof -
  obtain it r' where x: "x = (it, r')" by (cases x)
  from assms(4) obtain us where "token_ids (run_res r') = token_ids (run_res r1) @ us" "length us \<le> b"
    "it = Again \<longrightarrow> us \<noteq> []" "kvs (run_gpu r1) (run_gpu r')" by (auto simp: advances_def x)
  then show ?thesis
    using assms(1-3) kvs_trans by (auto simp: advances_def x intro!: exI [of _ "ts @ us"])
qed

lemma advances_emitted:
  assumes "token_ids (run_res r1) = token_ids (run_res r) @ ts" "length ts \<le> a" "kvs (run_gpu r) (run_gpu r1)"
    "it = Again \<longrightarrow> ts \<noteq> []"
  shows "advances a r (it, r1)"
  using assms by (auto simp: advances_def)

lemma single_step_advances:
  assumes "exec_ok (env_dv (re_env re))"
  shows "advances 1 r (single_step re r)"
proof -
  let ?dv = "env_dv (re_env re)" and ?m = "re_model re" and ?g = "run_gpu r"
  obtain a g1 where st: "(case re_graph re of
       Some dg \<Rightarrow>
         if is_captured dg then
           (case graph_decode_step ?dv ?m dg (run_tok r) (current_seq_len (gpu_kv ?g)) ?g of
              (Inl e, g1) \<Rightarrow> (Inl e, g1)
            | (Inr next_tok, g1) \<Rightarrow>
                if next_tok < 0 then (Inr (- 1), g1)
                else (case advance (gpu_kv g1) 1 of
                        (False, kv) \<Rightarrow> (Inr (- 1), g1\<lparr>gpu_kv := kv\<rparr>)
                      | (True, kv) \<Rightarrow> (Inr next_tok, g1\<lparr>gpu_kv := kv\<rparr>)))
         else decode_step ?dv ?m (run_tok r) 0 ?g
     | None \<Rightarrow> decode_step ?dv ?m (run_tok r) 0 ?g) = (a, g1)" by fastforce
  have "kvs ?g g1"
  proof (cases "\<exists>dg. re_graph re = Some dg \<and> is_captured dg")
    case True
    then obtain dg where dg: "re_graph re = Some dg" "is_captured dg" by blast
    obtain b g2 where s: "graph_decode_step ?dv ?m dg (run_tok r) (current_seq_len (gpu_kv ?g)) ?g = (b, g2)"
      by fastforce
    note k = graph_decode_step_kvs [OF assms s]
    obtain ok kv where adv: "advance (gpu_kv g2) 1 = (ok, kv)" by fastforce
    show ?thesis
      using st dg s k kvs_trans [OF k kvs_advance [OF adv]] adv
      by (auto split: sum.splits if_splits bool.splits)
  next
    case False
    then have "decode_step ?dv ?m (run_tok r) 0 ?g = (a, g1)" using st by (auto split: option.splits if_splits)
    then show ?thesis using decode_step_kvs [OF assms] by blast
  qed
  then show ?thesis
    unfolding single_step_def Let_def st
    by (auto simp: advances_def split: sum.splits if_splits prod.splits bool.splits dest!: process_token_res)
qed

lemma kvs_rollback: "rollback (gpu_kv g) n = Inr kv \<Longrightarrow> kvs g (g\<lparr>gpu_kv := kv\<rparr>)"
  by (intro kvs_one) (simp add: kv_step.roll)

text \<open>A verified draft of \<open>n\<close> tokens adds at least one token or stops, and at most \<open>n + 1\<close>.\<close>

lemma after_verify_advances:
  assumes acc: "k \<le> n" "0 < n" "accepted_tokens acc = take k toks" "length toks = n"
    and rej: "if k < n then has_rejected_token acc \<and> 0 \<le> bonus_or_resampled_token acc else \<not> has_rejected_token acc"
  shows "advances (Suc n) r (after_verify re n acc r)"
proof (cases "k < n")
  case True
  show ?thesis
  proof (cases "rollback (gpu_kv (run_gpu r)) (word_of_nat (n - num_accepted acc))")
    case (Inl e)
    then show ?thesis using True rej by (auto simp: after_verify_def intro!: advances_emitted)
  next
    case (Inr kv)
    let ?r0 = "r\<lparr>run_gpu := (run_gpu r)\<lparr>gpu_kv := kv\<rparr>\<rparr>"
    have k0: "kvs (run_gpu r) (run_gpu ?r0)" using kvs_rollback [OF Inr] by simp
    obtain stopped r1 where e: "emit_tokens re (accepted_tokens acc) ?r0 = (stopped, r1)" by fastforce
    from emit_tokens_res [OF e] acc obtain j where j: "j \<le> k" "token_ids (run_res r1) = token_ids (run_res r) @ take j toks"
      "run_gpu r1 = run_gpu ?r0" by (auto simp: min_def split: if_splits; blast)
    have len: "length (take j toks) \<le> n" using j(1) acc(1) by auto
    have k1: "kvs (run_gpu r) (run_gpu r1)" using k0 j(3) by simp
    have "advances (n + 1) r (emit_and_advance re (bonus_or_resampled_token acc) r1)"
      by (rule advances_after [OF j(2) len k1 emit_and_advance_advances])
    moreover have "advances (Suc n) r (Leave, r1)" using j(2) len k1 by (auto intro!: advances_emitted)
    ultimately show ?thesis using True rej Inr e by (cases stopped) (auto simp: after_verify_def)
  qed
next
  case False
  obtain stopped r1 where e: "emit_tokens re (accepted_tokens acc) r = (stopped, r1)" by fastforce
  from emit_tokens_res [OF e] acc False obtain j where j: "j \<le> n"
    "token_ids (run_res r1) = token_ids (run_res r) @ take j toks" "run_gpu r1 = run_gpu r" "\<not> stopped \<longrightarrow> j = n"
    by auto
  have len: "length (take j toks) \<le> n" using j(1) by auto
  have k1: "kvs (run_gpu r) (run_gpu r1)" using j(3) by simp
  have b: "advances (n + 1) r (emit_and_advance re (bonus_or_resampled_token acc) r1)"
    by (rule advances_after [OF j(2) len k1 emit_and_advance_advances])
  have l: "advances (Suc n) r (Leave, r1)" using j(2) len k1 by (auto intro!: advances_emitted)
  have a: "advances (Suc n) r (Again, r1\<lparr>run_tok := t\<rparr>)" if "\<not> stopped" for t
    using j that len k1 acc by (intro advances_emitted [of _ _ "take j toks"]) auto
  have a': "advances (Suc n) r (Again, r1)" if "\<not> stopped"
    using j that len k1 acc by (intro advances_emitted [of _ _ "take j toks"]) auto
  show ?thesis
    using False rej e b l a a' by (cases stopped) (auto simp: after_verify_def)
qed

lemma row_length:
  assumes "n * nat v \<le> length xs" "i < n"
  shows "length (row xs v i) = nat v"
proof -
  have "(i + 1) * nat v \<le> n * nat v" using assms(2) by (intro mult_right_mono) auto
  then show ?thesis using assms(1) by (simp add: row_def)
qed

text \<open>The acceptance of a draft, as the round uses it.\<close>

lemma accepted_draft:
  assumes "device_ok dv" "0 < v" "toks \<noteq> []" "length toks * nat v \<le> length logits"
    and run: "speculative_accept_reject (item_order dv) ops (Some toks) (length toks) (Some logits) v None None = Inr acc"
  shows "\<exists>k \<le> length toks. accepted_tokens acc = take k toks
    \<and> (if k < length toks then has_rejected_token acc \<and> 0 \<le> bonus_or_resampled_token acc
       else \<not> has_rejected_token acc)"
proof -
  let ?target = "\<lambda>i. argmax (item_order dv) (Some (row logits v i)) v"
  have "0 \<le> ?target i" if "i < length toks" for i
    using argmax_best [of "item_order dv" v "row logits v i"] assms(1,2) row_length [OF assms(4) that]
    by (simp add: device_ok_def Let_def)
  moreover obtain k res where "speculative_accept_reject (item_order dv) ops (Some toks) (length toks)
      (Some logits) v None None = Inr res" "k \<le> length toks" "accepted_tokens res = take k toks"
    "if k < length toks then has_rejected_token res \<and> bonus_or_resampled_token res = ?target k
     else \<not> has_rejected_token res"
    using acceptance_spec [OF assms(3,2), of "item_order dv" ops logits None None] by metis
  moreover from this run have "res = acc" by simp
  ultimately show ?thesis by (intro exI [of _ k]) (auto split: if_splits)
qed

lemma checkpoint_kvs: "checkpoint_recurrent_state malloc (gpu_kv g) = Inr kv \<Longrightarrow> kvs g (g\<lparr>gpu_kv := kv, gpu_arena := a\<rparr>)"
  by (intro kvs_one) (simp add: kv_step.checkpoint)

lemma speculative_round_advances:
  assumes "exec_ok (env_dv (re_env re))" "device_ok (env_dv (re_env re))" "0 < vocab_size (lm_config (re_model re))"
    and "0 < n" "n < 2 ^ 64"
  shows "advances (Suc n) r (speculative_round re dc n r)"
proof -
  let ?dv = "env_dv (re_env re)" and ?m = "re_model re" and ?g = "run_gpu r"
  let ?v = "vocab_size (lm_config (re_model re))"
  show ?thesis
  proof (cases "checkpoint_recurrent_state (ckpt_malloc (re_env re)) (gpu_kv ?g)")
    case (Inl e)
    then show ?thesis by (auto simp: speculative_round_def Let_def intro!: advances_emitted)
  next
    case (Inr kv1)
    let ?g1 = "?g\<lparr>gpu_kv := kv1, gpu_arena := draft_arena dc\<rparr>"
    obtain drafted g2 where d: "draft_decode_loop ?dv ?m (Some (draft_graph dc)) (run_tok r) (word_of_nat n) ?g1
        = (drafted, g2)" by fastforce
    define r2 where "r2 = r\<lparr>run_gpu := g2\<lparr>gpu_arena := gpu_arena ?g\<rparr>,
        run_draft := Some (dc\<lparr>draft_arena := gpu_arena g2\<rparr>)\<rparr>"
    have k2: "kvs ?g (run_gpu r2)" "token_ids (run_res r2) = token_ids (run_res r) @ []"
      using kvs_trans [OF checkpoint_kvs [OF Inr] draft_decode_loop_kvs [OF assms(1) d]]
      by (auto simp: r2_def kvs_def)
    note run = speculative_round_def [of re dc n r, unfolded Let_def Inr d sum.case prod.case, folded r2_def]
    have single: "advances (Suc n) r (single_step re r2)"
      using advances_after [OF k2(2) _ k2(1) single_step_advances [OF assms(1)], of 0] advances_weaken by fastforce
    have raise: "advances (Suc n) r (Raise x, r2\<lparr>run_gpu := g3\<rparr>)" if "kvs (run_gpu r2) g3" for x g3
      using k2 kvs_trans [OF k2(1) that] by (auto intro!: advances_emitted)
    show ?thesis
    proof (cases drafted)
      case (Inl e)
      then show ?thesis using run k2 by (auto intro!: advances_emitted)
    next
      case dr: (Inr okt)
      obtain ok toks where okt: "okt = (ok, toks)" by (cases okt)
      have len: "length toks \<le> n"
        using draft_decode_loop_tokens [OF assms(2,3) d [unfolded dr okt]] assms(5) by (simp add: unat_of_nat)
      show ?thesis
      proof (cases "\<not> ok \<or> toks = []")
        case True
        then show ?thesis using run dr okt single by auto
      next
        case False
        obtain a3 g3 where l: "logits_buffer ?dv (word_of_nat (length toks) * word_of_int ?v * 4) (run_gpu r2) = (a3, g3)"
          by fastforce
        have k3: "kvs (run_gpu r2) g3" using logits_buffer_frame [OF l] by simp
        show ?thesis
        proof (cases a3)
          case (Inl e)
          then show ?thesis using run dr okt False l raise [OF k3] by simp
        next
          case a3: (Inr p)
          obtain a4 g4 where f: "forward_verify ?dv ?m toks (uint (current_seq_len (gpu_kv ?g))) p g3 = (a4, g4)"
            by fastforce
          have k4: "kvs (run_gpu r2) g4" using kvs_trans [OF k3 forward_verify_kvs [OF assms(1) f]] .
          show ?thesis
          proof (cases a4)
            case (Inl e)
            then show ?thesis using run dr okt False l a3 f raise [OF k4] by simp
          next
            case a4: (Inr u)
            let ?logits = "logits_at ?dv (gpu_dev g4) p (length toks * nat ?v)"
            obtain res where s: "speculative_accept_reject (item_order ?dv) (env_f32 (re_env re)) (Some toks) (length toks)
                (Some ?logits) ?v None None = res" by blast
            show ?thesis
            proof (cases res)
              case (Inl e)
              then show ?thesis using run dr okt False l a3 f a4 s raise [OF k4] by simp
            next
              case acc: (Inr acc)
              have "length toks * nat ?v \<le> length ?logits" using assms(2) by (simp add: device_ok_def)
              from accepted_draft [OF assms(2,3) _ this s [unfolded acc]] False
              obtain k where k: "k \<le> length toks" "accepted_tokens acc = take k toks"
                "if k < length toks then has_rejected_token acc \<and> 0 \<le> bonus_or_resampled_token acc
                 else \<not> has_rejected_token acc" by blast
              have "advances (Suc (length toks)) (r2\<lparr>run_gpu := g4\<rparr>)
                  (after_verify re (length toks) acc (r2\<lparr>run_gpu := g4\<rparr>))"
                by (rule after_verify_advances [OF k(1) _ k(2) refl k(3)]) (use False in simp)
              then have "advances (0 + Suc (length toks)) r (after_verify re (length toks) acc (r2\<lparr>run_gpu := g4\<rparr>))"
                by (rule advances_after [rotated 3]) (use k2 kvs_trans [OF k2(1) k4] in auto)
              then show ?thesis
                using run dr okt False l a3 f a4 s acc len by (auto elim: advances_weaken)
            qed
          qed
        qed
      qed
    qed
  qed
qed


section \<open>The loop\<close>

definition run_env_ok :: "('d, 'c) run_env \<Rightarrow> bool" where
  "run_env_ok re \<longleftrightarrow> exec_ok (env_dv (re_env re)) \<and> device_ok (env_dv (re_env re))
     \<and> 0 < vocab_size (lm_config (re_model re)) \<and> re_draft_n re \<noteq> 0"

lemma decode_iteration_advances:
  assumes "run_env_ok re" "length (token_ids (run_res r)) < nat (re_max_new re)"
  shows "advances (nat (re_max_new re) - length (token_ids (run_res r))) r (decode_iteration re r)"
proof -
  let ?room = "nat (re_max_new re) - length (token_ids (run_res r))"
  have room: "1 \<le> ?room" using assms(2) by simp
  have single: "advances ?room r (single_step re r)"
    by (rule advances_weaken [OF single_step_advances room]) (use assms(1) in \<open>simp_all add: run_env_ok_def\<close>)
  have stop: "advances ?room r (Leave, finish ''length'' r)"
    by (simp add: advances_def kvs_refl finish_def)
  have spec: "advances ?room r (speculative_round re dc (min (unat (re_draft_n re)) (?room - 1)) r)"
    if "1 < ?room" for dc
  proof -
    let ?n = "min (unat (re_draft_n re)) (?room - 1)"
    have "0 < unat (re_draft_n re)" using assms(1) by (simp add: run_env_ok_def unat_gt_0)
    then have "0 < ?n" using that by simp
    moreover have "?n < 2 ^ 64"
      by (rule le_less_trans [OF min.cobounded1]) (use unsigned_less [of "re_draft_n re", where 'a = nat] in simp)
    ultimately have "advances (Suc ?n) r (speculative_round re dc ?n r)"
      using assms(1) by (intro speculative_round_advances) (simp_all add: run_env_ok_def)
    then show ?thesis by (rule advances_weaken) (use that in simp)
  qed
  show ?thesis
    unfolding decode_iteration_def Let_def
    by (cases "run_draft r") (simp_all only: single stop spec option.case if_cancel split: if_split, (blast intro: spec)+)
qed

text \<open>With as much fuel as tokens may still be emitted the loop ends by itself.\<close>

lemma decode_loop_ends:
  assumes "run_env_ok re" "nat (re_max_new re) - length (token_ids (run_res r)) \<le> fuel"
    and "length (token_ids (run_res r)) \<le> nat (re_max_new re)"
  shows "\<exists>x r'. decode_loop fuel re r = Some (x, r') \<and> length (token_ids (run_res r')) \<le> nat (re_max_new re)
    \<and> (\<exists>ts. token_ids (run_res r') = token_ids (run_res r) @ ts) \<and> kvs (run_gpu r) (run_gpu r')"
  using assms(2,3)
proof (induction fuel arbitrary: r)
  case 0
  then show ?case by (subst decode_loop.simps) auto
next
  case (Suc fuel)
  show ?case
  proof (cases "nat (re_max_new re) \<le> length (token_ids (run_res r))")
    case True
    then show ?thesis using Suc.prems by (subst decode_loop.simps) auto
  next
    case False
    obtain it r1 where it: "decode_iteration re r = (it, r1)" by fastforce
    from decode_iteration_advances [OF assms(1), of r] False it
    obtain ts where ts: "token_ids (run_res r1) = token_ids (run_res r) @ ts"
      "length ts \<le> nat (re_max_new re) - length (token_ids (run_res r))" "it = Again \<longrightarrow> ts \<noteq> []"
      and k: "kvs (run_gpu r) (run_gpu r1)" by (auto simp: advances_def)
    have len: "length (token_ids (run_res r1)) \<le> nat (re_max_new re)" using ts False by auto
    show ?thesis
    proof (cases it)
      case Again
      then have "nat (re_max_new re) - length (token_ids (run_res r1)) \<le> fuel"
        using ts Suc.prems(1) False by (cases ts) auto
      from Suc.IH [OF this len] obtain x r' us where "decode_loop fuel re r1 = Some (x, r')"
        "length (token_ids (run_res r')) \<le> nat (re_max_new re)" "token_ids (run_res r') = token_ids (run_res r1) @ us"
        "kvs (run_gpu r1) (run_gpu r')" by blast
      then show ?thesis
        using False it Again ts k kvs_trans by (subst decode_loop.simps) auto
    next
      case Leave
      then show ?thesis using False it ts k len by (subst decode_loop.simps) auto
    next
      case (Raise e)
      then show ?thesis using False it ts k len by (subst decode_loop.simps) auto
    qed
  qed
qed


section \<open>Requests\<close>

definition engine_kv :: "'d engine \<Rightarrow> kv_cache" where
  "engine_kv e = gpu_kv (eng_gpu e)"

definition kv_stepped :: "'d engine \<Rightarrow> 'd engine \<Rightarrow> bool" where
  "kv_stepped e e' \<longleftrightarrow> kv_step\<^sup>*\<^sup>* (engine_kv e) (engine_kv e')"

lemma kv_stepped_gpu: "kvs (eng_gpu e) g \<Longrightarrow> kv_stepped e (e'\<lparr>eng_gpu := g\<rparr>)"
  by (simp add: kv_stepped_def engine_kv_def kvs_def)

lemma kv_stepped_reset: "kv_stepped e e' \<Longrightarrow> kv_stepped e (eng_reset e')"
  by (auto simp: kv_stepped_def engine_kv_def eng_reset_def intro: rtranclp.rtrancl_into_rtrancl kv_step.clear)

lemma eng_reset_tokenizer [simp]: "eng_tokenizer (eng_reset e) = eng_tokenizer e"
  by (simp add: eng_reset_def)

lemma finish_result_simps [simp]:
  "token_ids (finish_result res) = token_ids res" "success (finish_result res) = success res"
  "generated_tokens (finish_result res) = length (token_ids res)"
  by (auto simp: finish_result_def split: prod.splits)

lemma fail_result_simps [simp]:
  "token_ids (fail_result c m res) = token_ids res" "success (fail_result c m res) = False"
  "generated_tokens (fail_result c m res) = generated_tokens res"
  by (auto simp: fail_result_def)

lemma process_token_fields:
  "process_token re tok r = (go, r') \<Longrightarrow> success (run_res r') = success (run_res r)"
  by (auto simp: process_token_def Let_def split: if_splits option.splits prod.splits)

text \<open>The device and the model are in order, and no special token is empty.\<close>

definition engine_ok :: "'d engine_env \<Rightarrow> 'd engine \<Rightarrow> bool" where
  "engine_ok env e \<longleftrightarrow> exec_ok (env_dv env) \<and> device_ok (env_dv env)
     \<and> (\<forall>m. eng_model e = Some m \<longrightarrow> 0 < vocab_size (lm_config m))
     \<and> list_all (\<lambda>(c, i). c \<noteq> []) (special_tokens (eng_tokenizer e))"

lemma generate_from_bounded:
  assumes "run_env_ok re" "token_ids res = []" "1 \<le> nat (re_max_new re)"
  shows "\<exists>res' e' cb'. generate_from re e res tok cb = Some (res', e', cb')
    \<and> length (token_ids res') \<le> nat (re_max_new re) \<and> kv_stepped e e'"
proof -
  let ?r0 = "\<lparr>run_gpu = eng_gpu e, run_draft = eng_draft e, run_tok = tok, run_res = res, run_thinking = False, run_cb = cb\<rparr>"
  have refl: "kv_stepped e e" by (simp add: kv_stepped_def)
  obtain go r1 where p: "process_token re tok ?r0 = (go, r1)" by fastforce
  note p' = process_token_res [OF p]
  have one: "length (token_ids (run_res (finish ''length'' r1))) \<le> nat (re_max_new re)" using p' assms(2,3) by simp
  obtain x r2 where l: "decode_loop (nat (re_max_new re)) re (finish ''length'' r1) = Some (x, r2)"
    "length (token_ids (run_res r2)) \<le> nat (re_max_new re)" "kvs (run_gpu (finish ''length'' r1)) (run_gpu r2)"
    using decode_loop_ends [OF assms(1) _ one, of "nat (re_max_new re)"] by auto
  have "kvs (eng_gpu e) (run_gpu r2)" using l(3) p' by simp
  then have s: "kv_stepped e (e\<lparr>eng_gpu := run_gpu r2, eng_draft := run_draft r2\<rparr>)"
    by (simp add: kv_stepped_def engine_kv_def kvs_def)
  show ?thesis
    using p p' l(1,2) s refl kv_stepped_reset [OF s] assms(2,3)
    unfolding generate_from_def Let_def
    by (auto simp: catch_exn_def split: bool.splits option.splits prod.splits)
qed

text \<open>
  How a request ends: the tokenizer does not return; it fails before the first token; or it goes on
  from the first token with an engine that has only been stepped.
\<close>

lemma GenerationResult_simps [simp]:
  "token_ids GenerationResult = []" "success GenerationResult = True" "gen_text GenerationResult = []"
  "gen_reasoning GenerationResult = []"
  by (simp_all add: GenerationResult_def)

text \<open>Encoding changes nothing of the tokenizer but its cache.\<close>

definition same_tokens :: "tokenizer \<Rightarrow> tokenizer \<Rightarrow> bool" where
  "same_tokens t t' \<longleftrightarrow> (\<exists>x. t' = t\<lparr>bpe_cache := x\<rparr>)"

lemma same_tokens_refl [simp]: "same_tokens t t"
  by (auto simp: same_tokens_def intro: exI [of _ "bpe_cache t"])

lemma encode_same_tokens: "encode t input = Some (ids, t') \<Longrightarrow> same_tokens t t'"
  by (auto simp: encode_def same_tokens_def split: if_splits intro: exI [of _ "bpe_cache t"])

lemma generate_cases:
  obtains (hangs) input where "generate env print_float e prompt cfg callback c = None" "encode (eng_tokenizer e) input = None"
  | (fails) res e' where "generate env print_float e prompt cfg callback c = Some (res, e', c)"
      "success res = False" "token_ids res = []" "exec_ok (env_dv env) \<longrightarrow> kv_stepped e e'"
      "same_tokens (eng_tokenizer e) (eng_tokenizer e')"
  | (runs) e2 m n tok where "generate env print_float e prompt cfg callback c
        = generate_from (make_run_env env e2 m cfg callback) e2 (GenerationResult\<lparr>gen_prompt_tokens := n\<rparr>) tok c"
      "eng_model e = Some m" "exec_ok (env_dv env) \<longrightarrow> kv_stepped e e2" "1 \<le> nat (max_new_tokens cfg)"
      "same_tokens (eng_tokenizer e) (eng_tokenizer e2)"
proof (cases "\<not> eng_is_loaded e \<or> config_error print_float cfg \<noteq> None")
  case True
  have refl: "kv_stepped e e" by (simp add: kv_stepped_def)
  from True consider "\<not> eng_is_loaded e" | code msg where "eng_is_loaded e" "config_error print_float cfg = Some (code, msg)"
    by (cases "config_error print_float cfg") auto
  then show ?thesis
  proof cases
    case 1
    then show ?thesis
      by (intro fails [of "fail_result ''model_not_loaded'' ''Model is not loaded'' GenerationResult" e])
        (simp_all add: generate_def Let_def refl)
  next
    case 2
    then show ?thesis
      by (intro fails [of "fail_result code msg GenerationResult" e]) (simp_all add: generate_def Let_def refl)
  qed
next
  case False
  then have ok: "eng_is_loaded e" "config_error print_float cfg = None" by blast+
  then obtain m where m: "eng_model e = Some m" by (auto simp: eng_is_loaded_def)
  have pos: "1 \<le> nat (max_new_tokens cfg)" using ok(2) by (auto simp: config_error_def split: if_splits)
  have refl: "kv_stepped e e" "kv_stepped e (e\<lparr>eng_tokenizer := t\<rparr>)" for t by (simp_all add: kv_stepped_def engine_kv_def)
  note early = generate_def Let_def GenerationResult_def catch_exn_def kv_stepped_reset [OF refl(1)] refl eng_reset_tokenizer
  show ?thesis
  proof (cases "if gen_apply_chat_template cfg then render_prompt (eng_template e) prompt [] default_options else Inr prompt")
    case (Inl x)
    then show ?thesis using ok by (intro fails) (auto simp: early)
  next
    case inp: (Inr input)
    show ?thesis
    proof (cases "encode (eng_tokenizer e) input")
      case None
      then show ?thesis using ok inp by (intro hangs) (auto simp: early)
    next
      case enc: (Some tst)
      obtain ts t where tst: "tst = (ts, t)" by (cases tst)
      let ?e1 = "e\<lparr>eng_tokenizer := t\<rparr>"
      let ?v = "validate_tokens (eng_max_seq_len ?e1) (word_of_nat (length ts)) (max_new_tokens cfg)"
      obtain a g where p: "prefill_prompt (env_dv env) (the (eng_model ?e1)) ts
          (prefill_chunk_size (eng_config ?e1)) False None (eng_gpu ?e1) = (a, g)" by fastforce
      let ?e2 = "?e1\<lparr>eng_gpu := g\<rparr>"
      have s: "exec_ok (env_dv env) \<longrightarrow> kv_stepped e ?e2 \<and> kv_stepped e (eng_reset ?e2)"
        using prefill_prompt_kvs [OF _ p] by (auto simp: kv_stepped_gpu kv_stepped_reset)
      have st: "same_tokens (eng_tokenizer e) t" using enc tst by (auto intro: encode_same_tokens)
      note ctx = ok inp enc tst p s st
      show ?thesis
      proof (cases "ts = [] \<or> ?v \<noteq> None \<or> (\<forall>tok. a = Inr tok \<longrightarrow> tok < 0)")
        case True
        then show ?thesis using ctx by (cases ?v; cases a; cases "ts = []"; intro fails) (auto simp: early)
      next
        case go: False
        then obtain tok where a: "a = Inr tok" "\<not> tok < 0" by blast
        show ?thesis
          by (rule runs [of ?e2 m "length ts" tok]) (use ctx go a m pos in \<open>simp_all add: generate_def Let_def\<close>)
      qed
    qed
  qed
qed

lemma generate_steps:
  assumes "engine_ok env e"
  shows "\<exists>res e' c'. generate env print_float e prompt cfg callback c = Some (res, e', c')
    \<and> length (token_ids res) \<le> nat (max_new_tokens cfg) \<and> kv_stepped e e'"
proof -
  have "exec_ok (env_dv env)" using assms by (simp add: engine_ok_def)
  show ?thesis
  proof (cases rule: generate_cases [of env print_float e prompt cfg callback c])
    case (hangs input)
    have "list_all (\<lambda>(c, i). c \<noteq> []) (special_tokens (eng_tokenizer e))" using assms by (simp add: engine_ok_def)
    from encode_returns [OF this, of input] hangs show ?thesis by simp
  next
    case (fails res e')
    then show ?thesis using \<open>exec_ok (env_dv env)\<close> by simp
  next
    case (runs e2 m n tok)
    have env: "run_env_ok (make_run_env env e2 m cfg callback)"
      using assms runs(2) by (auto simp: engine_ok_def run_env_ok_def make_run_env_def Let_def)
    moreover have "re_max_new (make_run_env env e2 m cfg callback) = max_new_tokens cfg" by (simp add: make_run_env_def Let_def)
    ultimately obtain res e' c' where "generate_from (make_run_env env e2 m cfg callback) e2
        (GenerationResult\<lparr>gen_prompt_tokens := n\<rparr>) tok c = Some (res, e', c')"
      "length (token_ids res) \<le> nat (max_new_tokens cfg)" "kv_stepped e2 e'"
      using generate_from_bounded [OF env, of "GenerationResult\<lparr>gen_prompt_tokens := n\<rparr>" e2 tok c] runs(4)
      by (auto simp: GenerationResult_def)
    then show ?thesis using runs(1,3) \<open>exec_ok (env_dv env)\<close> by (auto simp: kv_stepped_def)
  qed
qed

text \<open>
  C6. Generation returns and respects its limits, for every device, model, callback, prompt and
  configuration, with and without speculative drafting: the decode loop ends within
  \<open>max_new_tokens\<close> iterations, the result never holds more than \<open>max_new_tokens\<close> tokens,
  and the KV cache changes only by its own operations: its invariant is kept (the length stays
  within the sequence limit) and its configuration and storage are those of before.
\<close>

theorem generate_respects_limits:
  assumes "engine_ok env e" "kv_inv (engine_kv e)"
  shows "\<exists>res e' c'. generate env print_float e prompt cfg callback c = Some (res, e', c')
    \<and> length (token_ids res) \<le> nat (max_new_tokens cfg)
    \<and> kv_inv (engine_kv e') \<and> kv_frame (engine_kv e') = kv_frame (engine_kv e)"
proof -
  obtain res e' c' where g: "generate env print_float e prompt cfg callback c = Some (res, e', c')"
    "length (token_ids res) \<le> nat (max_new_tokens cfg)" "kv_stepped e e'"
    using generate_steps [OF assms(1), where print_float = print_float and prompt = prompt and cfg = cfg
      and callback = callback and c = c] by blast
  then show ?thesis
    using kv_reachable_inv [of "engine_kv e" "engine_kv e'"] assms(2) by (simp add: kv_stepped_def)
qed

text \<open>A small engine: one token, the device of the examples, speculative drafting on.\<close>

definition toy_tokenizer :: tokenizer where
  "toy_tokenizer = \<lparr>vocab = [(''a'', 0)], id_to_token = [(0, ''a'')], byte_to_unicode = [(0x61, ''a'')],
     unicode_to_byte = [(''a'', 0x61)], bpe_ranks = [(''a a'', 0)], bpe_cache = [], special_tokens = [(''a'', 0)],
     eos_token_id = 4, im_start_token_id = -1, im_end_token_id = -1, think_start_token_id = -1,
     think_end_token_id = -1\<rparr>"

definition toy_env :: "int list engine_env" where
  "toy_env = \<lparr>env_dv = toy_device 5, env_f32 = \<lparr>f32_sub = (+), f32_add = (+), f32_div = (+), f32_exp = id\<rparr>,
     ckpt_malloc = (\<lambda>_. 4096), what = (\<lambda>_. [])\<rparr>"

definition toy_engine :: "int list engine" where
  "toy_engine = \<lparr>eng_config = \<lparr>artifact_path = [], tokenizer_path = [], chat_template_path = [], prefer_b60 = True,
       arena_capacity_bytes = 0, cfg_max_seq_len = 16, prefill_chunk_size = 2, cfg_validate_checksum = True,
       use_int8_kv = False, enable_speculative = True, cfg_draft_tokens_num = 3\<rparr>,
     eng_tokenizer = toy_tokenizer, eng_template = QwenChatTemplate, eng_model = Some (toy_model 5),
     eng_kv_present = True, eng_gpu = toy_gpu, eng_graph = None,
     eng_draft = Some \<lparr>draft_arena = gpu_arena toy_gpu, draft_graph = DecodeGraph (replicate 20 0)\<rparr>,
     eng_loaded = True\<rparr>"

lemma toy_engine_ok: "engine_ok toy_env toy_engine" "kv_inv (engine_kv toy_engine)"
proof -
  have "exec_ok (toy_device 5)"
  proof -
    have "length (snd (toy_exec k (d, r))) = length r" for k d r by (cases k) simp_all
    then show ?thesis by (simp add: exec_ok_def toy_device_def)
  qed
  then show "engine_ok toy_env toy_engine"
    by (simp add: engine_ok_def toy_env_def toy_engine_def toy_device_ok toy_model_def toy_tokenizer_def)
  show "kv_inv (engine_kv toy_engine)" by code_simp
qed

theorem generate_respects_limits_witness:
  "\<exists>res e'. generate toy_env (\<lambda>_. []) toy_engine ''aa'' (GenerationConfig\<lparr>max_new_tokens := 7\<rparr>)
      (Some (\<lambda>n piece tok. (n < 3, Suc n))) (0 :: nat) = Some (res, e')
    \<and> length (token_ids res) \<le> 7"
  using generate_respects_limits [OF toy_engine_ok, where print_float = "\<lambda>_. []" and prompt = "''aa''"
      and cfg = "GenerationConfig\<lparr>max_new_tokens := 7\<rparr>" and callback = "Some (\<lambda>n piece tok. (n < 3, Suc n))" and c = 0]
  by auto

section \<open>The verification buffer\<close>

text \<open>
  Prefill asks for the persistent buffer first, for one row of logits. Verification asks the same
  arena for one row per draft token, which is refused: a round that has drafted two or more tokens
  ends in an exception, whatever was drafted.
\<close>

lemma rows_exceed_one:
  assumes "0 < v" "1 < n" "int n * v * 4 < 2 ^ 64"
  shows "(word_of_int v * 4 :: u64) < word_of_nat n * word_of_int v * 4"
    and "(0 :: u64) < word_of_nat n * word_of_int v * 4"
proof -
  have le: "2 * v \<le> int n * v" using assms(1,2) by (intro mult_right_mono) auto
  have r: "(word_of_nat n * word_of_int v * 4 :: u64) = word_of_int (int n * v * 4)"
    and o: "(word_of_int v * 4 :: u64) = word_of_int (v * 4)" by simp_all
  have "v * 4 < 2 ^ 64" using assms le by linarith
  then have t: "int n * v * 4 \<in> {0..<2 ^ 64}" "v * 4 \<in> {0..<2 ^ 64}" using assms(1,3) by simp_all
  have u: "uint (word_of_int x :: u64) = x" if "x \<in> {0..<2 ^ 64}" for x
    using that by (simp only: uint_word_of_int_eq take_bit_int_eq_self_iff) simp
  show "(word_of_int v * 4 :: u64) < word_of_nat n * word_of_int v * 4"
    unfolding r o word_less_def u [OF t(1)] u [OF t(2)] using assms(1) le by linarith
  show "(0 :: u64) < word_of_nat n * word_of_int v * 4"
    unfolding r word_less_def u [OF t(1)] unsigned_0 using assms(1) le by linarith
qed

lemma verification_buffer_refused:
  fixes re :: "('d, 'c) run_env" and r :: "('d, 'c) run"
  defines "v \<equiv> vocab_size (lm_config (re_model re))"
  assumes "persistent_buffer_ptr (gpu_arena (run_gpu r)) \<noteq> 0"
    and "persistent_buffer_capacity (gpu_arena (run_gpu r)) = word_of_int v * 4"
    and "0 < v" "1 < length toks" "int (length toks) * v * 4 < 2 ^ 64"
    and "checkpoint_recurrent_state (ckpt_malloc (re_env re)) (gpu_kv (run_gpu r)) = Inr kv1"
    and "draft_decode_loop (env_dv (re_env re)) (re_model re) (Some (draft_graph dc)) (run_tok r) (word_of_nat n)
           ((run_gpu r)\<lparr>gpu_kv := kv1, gpu_arena := draft_arena dc\<rparr>) = (Inr (True, toks), g2)"
  shows "fst (speculative_round re dc n r) = Raise (Exn_fw (FW_alloc Invalid_argument))"
  using assms rows_exceed_one [OF assms(4-6)]
  by (auto simp: speculative_round_def logits_buffer_def persistent_buffer_def Let_def)

end
