(* ===== verification/Weights_Complete.thy ===== *)
theory Weights_Complete
  imports Weights_Correct
begin

text \<open>
  The converse of Weights_Correct.thy: an artifact that holds every required section in its required
  size loads, when the allocator has memory. \<open>completes r m P\<close> is the total-correctness
  counterpart of \<open>loads\<close>: from every state with the reader \<open>r\<close> the loader returns a result with \<open>P\<close>
  and leaves the reader as it was.
\<close>


section \<open>Loaders that succeed\<close>

definition completes :: "artifact_reader \<Rightarrow> 'a loader \<Rightarrow> ('a \<Rightarrow> bool) \<Rightarrow> bool" where
  "completes r m P \<longleftrightarrow> (\<forall>s. ls_reader s = r \<longrightarrow> (\<exists>x s'. m s = (Inr x, s') \<and> ls_reader s' = r \<and> P x))"

lemma completes_bind:
  assumes "completes r m P" "\<And>x. P x \<Longrightarrow> completes r (f x) Q"
  shows "completes r (load_bind m f) Q"
  unfolding completes_def
proof (intro allI impI)
  fix s :: load_state assume "ls_reader s = r"
  then obtain x s1 where m: "m s = (Inr x, s1)" "ls_reader s1 = r" "P x"
    using assms(1) unfolding completes_def by blast
  then obtain y s2 where "f x s1 = (Inr y, s2)" "ls_reader s2 = r" "Q y"
    using assms(2) [OF m(3)] unfolding completes_def by blast
  then show "\<exists>x s'. load_bind m f s = (Inr x, s') \<and> ls_reader s' = r \<and> Q x"
    using m by (simp add: load_bind_def)
qed

lemma completes_return: "P x \<Longrightarrow> completes r (load_return x) P"
  by (simp add: completes_def load_return_def)

lemma completes_guard: "e = None \<Longrightarrow> completes r (load_guard e) (\<lambda>_. True)"
  by (simp add: completes_def load_guard_def load_return_def)

lemma completes_reader: "completes r get_reader (\<lambda>x. x = r)"
  by (simp add: completes_def get_reader_def)

lemma completes_weaken: "completes r m P \<Longrightarrow> (\<And>x. P x \<Longrightarrow> Q x) \<Longrightarrow> completes r m Q"
  unfolding completes_def by blast

text \<open>The allocator never fails.\<close>

definition allocates :: "load_env \<Rightarrow> bool" where
  "allocates env \<longleftrightarrow> (\<forall>k al n. env_usm env k al n \<noteq> 0)"

lemma completes_alloc:
  assumes "allocates env"
  shows "completes r (alloc_dev env n) (\<lambda>p. (p = 0) = (word_of_nat n = (0 :: u64)))"
  using assms by (simp add: completes_def alloc_dev_def allocate_device_def allocates_def Let_def)

lemma completes_copy: "completes r (copy_host_to_device p bs) (\<lambda>_. True)"
  by (simp add: completes_def copy_host_to_device_def)

lemma completes_to_device:
  assumes "allocates env" "word_of_nat (length bs) \<noteq> (0 :: u64)"
  shows "completes r (to_device env name bs) (\<lambda>_. True)"
  unfolding to_device_def
  by (rule completes_bind [OF completes_alloc [OF assms(1)]], rule completes_bind [OF completes_copy])
    (use assms(2) in \<open>simp add: completes_return\<close>)


section \<open>Sections of the required size\<close>

definition section_sized :: "load_env \<Rightarrow> artifact_reader \<Rightarrow> string \<times> nat \<Rightarrow> bool" where
  "section_sized env r = (\<lambda>(name, n). 0 < n \<and> n < 2 ^ 62 \<and> (\<exists>bs. section_is env r name bs \<and> length bs = n))"

lemma completes_section: "section_is env r name bs \<Longrightarrow> completes r (load_section env name) (\<lambda>x. x = bs)"
  using read_section_Done [of "env_max_alloc env" r name bs]
  by (auto simp: completes_def load_section_def section_is_def split: prod.splits)

lemma small_word: "0 < n \<Longrightarrow> n < 2 ^ 63 \<Longrightarrow> word_of_nat n \<noteq> (0 :: u64)"
  using unat_of_small [of n] by (metis unat_0 less_irrefl)

lemma completes_expect: "word_of_nat (length bs) = e \<Longrightarrow> completes r (expect_size name e bs) (\<lambda>_. True)"
  by (simp add: expect_size_def completes_guard)

lemma completes_tensor:
  assumes "allocates env" "section_sized env r (name, n)" "\<And>bs. length bs = n \<Longrightarrow> length (f bs) \<in> {n, 2 * n}"
  shows "completes r (load_bind (load_section env name) (\<lambda>bs.
           load_bind (expect_size name (word_of_nat n) bs) (\<lambda>_. to_device env name (f bs)))) (\<lambda>_. True)"
proof -
  obtain bs where bs: "0 < n" "n < 2 ^ 62" "section_is env r name bs" "length bs = n"
    using assms(2) by (auto simp: section_sized_def)
  have "0 < length (f bs)" "length (f bs) < 2 ^ 63" using assms(3) [OF bs(4)] bs by auto
  note dev = completes_to_device [OF assms(1) small_word [OF this]]
  show ?thesis
    by (rule completes_bind [OF completes_section [OF bs(3)]])
      (use bs(4) in \<open>auto simp: expect_size_def intro!: completes_bind [OF completes_guard dev]\<close>)
qed

lemma sdiv_nonneg: "0 \<le> i \<Longrightarrow> 0 < g \<Longrightarrow> i sdiv g = i div (g :: int)"
  by (cases "i = 0") (simp_all add: signed_divide_int_def)

lemma word_products:
  "0 \<le> i \<Longrightarrow> weight_bytes out i = word_of_int (out * (i div 2))"
  "0 \<le> i \<Longrightarrow> 0 < g \<Longrightarrow> scale_section_bytes out i g = word_of_int (out * (i div g) * 2)"
  by (simp_all add: weight_bytes_def scale_section_bytes_def sdiv_nonneg)

lemma word_of_sized: "section_sized env r (name, nat k) \<Longrightarrow> word_of_int k = (word_of_nat (nat k) :: u64)"
  by (cases "0 < k") (auto simp: section_sized_def)

text \<open>What a quantised projection and a vector need.\<close>

definition linear_sections :: "model_config \<Rightarrow> string \<Rightarrow> int \<Rightarrow> int \<Rightarrow> (string \<times> nat) list" where
  "linear_sections c name out_f in_f =
     [(name, nat (out_f * (in_f div 2))), (name @ ''.scales'', nat (out_f * (in_f div group_size c) * 2))]"

definition vector_section :: "string \<Rightarrow> int \<Rightarrow> (string \<times> nat) list" where
  "vector_section name n = [(name, nat (n * 2))]"

lemma completes_linear:
  assumes "allocates env" "list_all (section_sized env r) (linear_sections c name out_f in_f)" "0 \<le> in_f" "0 < group_size c"
  shows "completes r (load_linear env c name out_f in_f) (\<lambda>_. True)"
proof -
  let ?t = "\<lambda>name n. load_bind (load_section env name) (\<lambda>bs. load_bind (expect_size name n bs) (\<lambda>_. to_device env name bs))"
  let ?w = "nat (out_f * (in_f div 2))" and ?s = "nat (out_f * (in_f div group_size c) * 2)"
  have sized: "section_sized env r (name, ?w)" "section_sized env r (name @ ''.scales'', ?s)"
    using assms(2) by (simp_all add: linear_sections_def)
  have "load_linear env c name out_f in_f =
    load_bind (?t name (word_of_nat ?w)) (\<lambda>w. load_bind (?t (name @ ''.scales'') (word_of_nat ?s)) (\<lambda>sc.
    load_return \<lparr>d_weights_int4 = w, d_scales = sc, in_features = in_f, out_features = out_f,
       view_group_size = group_size c\<rparr>))"
    using assms(3,4) by (simp only: load_linear_def load_bind_assoc word_products word_of_sized [OF sized(1)]
        word_of_sized [OF sized(2)])
  then show ?thesis
    by (simp only:) (rule completes_bind [OF completes_tensor [OF assms(1) sized(1), of "\<lambda>bs. bs"]], simp,
        rule completes_bind [OF completes_tensor [OF assms(1) sized(2), of "\<lambda>bs. bs"]], simp, simp add: completes_return)
qed

lemma length_u16s: "length (u16s bs) = length bs div 2"
  by (induction bs rule: u16s.induct) auto

lemma length_widen: "length (widen_bf16 env u bs) = 4 * (length bs div 2)"
  by (simp add: widen_bf16_def length_concat comp_def length_u16s sum_list_triv)

lemma completes_bf16:
  assumes "allocates env" "list_all (section_sized env r) (vector_section name k)"
  shows "completes r (load_bf16_as_fp32 env name k u) (\<lambda>_. True)"
proof -
  have sized: "section_sized env r (name, nat (k * 2))" using assms(2) by (simp add: vector_section_def)
  then have "0 < k" by (auto simp: section_sized_def)
  then have "even (nat (k * 2))" by (simp add: nat_mult_distrib)
  then have "length (widen_bf16 env u bs) \<in> {nat (k * 2), 2 * nat (k * 2)}" if "length bs = nat (k * 2)" for bs
    using that by (auto simp: length_widen)
  from completes_tensor [OF assms(1) sized this] show ?thesis
    using word_of_sized [OF sized] by (simp add: load_bf16_as_fp32_def)
qed


section \<open>Layers\<close>

definition common_sections :: "model_config \<Rightarrow> nat \<Rightarrow> (string \<times> nat) list" where
  "common_sections c l =
     (let p = layer_prefix l in
      vector_section (p @ ''.input_layernorm.weight'') (hidden_size c)
      @ vector_section (p @ ''.post_attention_layernorm.weight'') (hidden_size c)
      @ linear_sections c (p @ ''.mlp.gate_proj.weight'') (intermediate_size c) (hidden_size c)
      @ linear_sections c (p @ ''.mlp.up_proj.weight'') (intermediate_size c) (hidden_size c)
      @ linear_sections c (p @ ''.mlp.down_proj.weight'') (hidden_size c) (intermediate_size c))"

definition full_sections :: "model_config \<Rightarrow> nat \<Rightarrow> (string \<times> nat) list" where
  "full_sections c l =
     (let p = layer_prefix l in
      linear_sections c (p @ ''.self_attn.q_proj.weight'') (full_q_gate_dim c) (hidden_size c)
      @ linear_sections c (p @ ''.self_attn.k_proj.weight'') (full_k_dim c) (hidden_size c)
      @ linear_sections c (p @ ''.self_attn.v_proj.weight'') (full_v_dim c) (hidden_size c)
      @ linear_sections c (p @ ''.self_attn.o_proj.weight'') (hidden_size c) (full_out_dim c)
      @ vector_section (p @ ''.self_attn.q_norm.weight'') (cfg_head_dim c)
      @ vector_section (p @ ''.self_attn.k_norm.weight'') (cfg_head_dim c))"

definition recurrent_sections :: "model_config \<Rightarrow> nat \<Rightarrow> (string \<times> nat) list" where
  "recurrent_sections c l =
     (let p = layer_prefix l in
      linear_sections c (p @ ''.linear_attn.in_proj_qkv.weight'') (cfg_linear_conv_channels c) (hidden_size c)
      @ linear_sections c (p @ ''.linear_attn.in_proj_z.weight'') (linear_z_dim c) (hidden_size c)
      @ linear_sections c (p @ ''.linear_attn.in_proj_b.weight'') (linear_b_dim c) (hidden_size c)
      @ linear_sections c (p @ ''.linear_attn.in_proj_a.weight'') (linear_a_dim c) (hidden_size c)
      @ linear_sections c (p @ ''.linear_attn.out_proj.weight'') (hidden_size c) (linear_z_dim c)
      @ vector_section (p @ ''.linear_attn.conv1d.weight'') (cfg_linear_conv_channels c * cfg_linear_conv_kernel_dim c)
      @ vector_section (p @ ''.linear_attn.A_log'') (cfg_linear_num_v_heads c)
      @ vector_section (p @ ''.linear_attn.dt_bias'') (cfg_linear_num_v_heads c)
      @ vector_section (p @ ''.linear_attn.norm.weight'') (linear_norm_dim c))"

text \<open>The type a layer must have: as the metadata says, or by the interval.\<close>

definition layer_kind :: "model_config \<Rightarrow> string list \<Rightarrow> nat \<Rightarrow> string" where
  "layer_kind c types l = (if l < length types then types ! l else expected_by_interval c l)"

definition layer_sections :: "model_config \<Rightarrow> string list \<Rightarrow> nat \<Rightarrow> (string \<times> nat) list" where
  "layer_sections c types l = common_sections c l
     @ (if layer_kind c types l = ''full_attention'' then full_sections c l else recurrent_sections c l)"

definition dims_usable :: "model_config \<Rightarrow> bool" where
  "dims_usable c \<longleftrightarrow> 0 \<le> hidden_size c \<and> 0 \<le> intermediate_size c \<and> 0 \<le> full_out_dim c \<and> 0 \<le> linear_z_dim c
     \<and> 0 < group_size c"

lemmas completes_steps = completes_bind [OF completes_linear] completes_bind [OF completes_bf16]

lemma completes_common:
  assumes "allocates env" "dims_usable c" "list_all (section_sized env r) (common_sections c l)"
  shows "completes r (load_common env c l) (\<lambda>lw. layer_idx lw = l)"
  using assms
  by (auto simp: load_common_def common_sections_def Let_def dims_usable_def
      intro!: completes_steps completes_return)

lemma completes_full:
  assumes "allocates env" "dims_usable c" "list_all (section_sized env r) (full_sections c (layer_idx lw))"
  shows "completes r (load_full_attention env c lw) (\<lambda>_. True)"
  using assms
  by (auto simp: load_full_attention_def full_sections_def Let_def dims_usable_def
      intro!: completes_steps completes_return)

lemma completes_recurrent:
  assumes "allocates env" "dims_usable c" "list_all (section_sized env r) (recurrent_sections c (layer_idx lw))"
  shows "completes r (load_linear_attention env c lw) (\<lambda>_. True)"
  using assms
  by (auto simp: load_linear_attention_def recurrent_sections_def Let_def dims_usable_def
      intro!: completes_steps completes_return)

lemma sized_has_section: "section_sized env r (name, n) \<Longrightarrow> has_section r name"
  by (auto simp: section_sized_def section_is_def read_section_def get_section_info_def has_section_def
      split: option.splits)

lemma detect_required:
  assumes "list_all (section_sized env r) (layer_sections c types l)"
    and "layer_kind c types l \<in> {''full_attention'', ''linear_attention''}"
  shows "detect_layer_type c types r l = layer_kind c types l"
proof (cases "layer_kind c types l = ''full_attention''")
  case True
  then have "section_sized env r (layer_prefix l @ ''.self_attn.q_proj.weight'', nat (full_q_gate_dim c * (hidden_size c div 2)))"
    using assms(1) by (simp add: layer_sections_def full_sections_def linear_sections_def Let_def)
  from sized_has_section [OF this] show ?thesis
    using True by (auto simp: detect_layer_type_def layer_kind_def Let_def)
next
  case False
  then have "section_sized env r (layer_prefix l @ ''.linear_attn.in_proj_qkv.weight'',
      nat (cfg_linear_conv_channels c * (hidden_size c div 2)))"
    using assms(1) by (simp add: layer_sections_def recurrent_sections_def linear_sections_def Let_def)
  from sized_has_section [OF this] show ?thesis
    using False assms(2) by (auto simp: detect_layer_type_def layer_kind_def Let_def)
qed

lemma completes_layer:
  assumes "allocates env" "dims_usable c" "0 < full_attention_interval c"
    and "list_all (section_sized env r) (layer_sections c types l)"
    and "layer_kind c types l \<in> {''full_attention'', ''linear_attention''}"
  shows "completes r (load_layer env c types l) (\<lambda>_. True)"
proof -
  note detect = detect_required [OF assms(4,5)]
  have check: "check_layer_type c types r l = None"
    using assms(3) detect by (simp add: check_layer_type_def layer_kind_def)
  have rest: "completes r (load_bind (if layer_kind c types l = ''full_attention''
        then load_full_attention env c (lw\<lparr>layer_type := layer_kind c types l\<rparr>)
        else load_linear_attention env c (lw\<lparr>layer_type := layer_kind c types l\<rparr>))
      (\<lambda>d. load_return (layer_kind c types l, d))) (\<lambda>_. True)" if "layer_idx lw = l" for lw
    using assms(1,2,4) that
    by (auto simp: layer_sections_def
        intro!: completes_bind [OF completes_full] completes_bind [OF completes_recurrent] completes_return)
  show ?thesis
    unfolding load_layer_def
  proof (rule completes_bind [OF completes_common [OF assms(1,2)]])
    show "list_all (section_sized env r) (common_sections c l)" using assms(4) by (simp add: layer_sections_def)
    fix lw :: layer_weights assume lw: "layer_idx lw = l"
    show "completes r (load_bind get_reader (\<lambda>r. load_bind (load_guard (check_layer_type c types r l)) (\<lambda>_.
        let t = detect_layer_type c types r l; lw' = lw\<lparr>layer_type := t\<rparr> in
        load_bind (if t = ''full_attention'' then load_full_attention env c lw' else load_linear_attention env c lw')
          (\<lambda>done_lw. load_return (t, done_lw))))) (\<lambda>_. True)"
      by (rule completes_bind [OF completes_reader], simp only: check detect Let_def,
          rule completes_bind [OF completes_guard [OF refl]], rule rest [OF lw])
  qed
qed

lemma completes_layers:
  assumes "\<And>l. l \<in> set ls \<Longrightarrow> completes r (load_layer env c types l) (\<lambda>_. True)"
  shows "completes r (load_layers env c types ls) (\<lambda>_. True)"
  using assms by (induction ls) (auto intro!: completes_return completes_bind [where P = "\<lambda>_. True"])


section \<open>The artifact\<close>

definition model_sections :: "model_config \<Rightarrow> string list \<Rightarrow> (string \<times> nat) list" where
  "model_sections c types =
     (''model.language_model.embed_tokens.weight'', nat (vocab_size c * hidden_size c * 2))
     # vector_section ''model.language_model.norm.weight'' (hidden_size c)
     @ linear_sections c ''lm_head.weight'' (vocab_size c) (hidden_size c)
     @ concat (map (layer_sections c types) [0..<nat (num_hidden_layers c)])"

text \<open>The sections of the vision tower may be missing, but a present one can be read.\<close>

definition vision_readable :: "load_env \<Rightarrow> artifact_reader \<Rightarrow> bool" where
  "vision_readable env r \<longleftrightarrow> list_all (\<lambda>name. has_section r name \<longrightarrow> (\<exists>bs. section_is env r name bs))
     [''visual.patch_embed.weight'', ''visual.patch_embed.bias'', ''visual.pos_embed'', ''visual.projector.weight'',
      ''visual.projector.bias'']"

lemma completes_if_section:
  assumes "allocates env" "has_section r name \<longrightarrow> (\<exists>bs. section_is env r name bs)"
  shows "completes r (if_section env name n) (\<lambda>_. True)"
proof -
  have "completes r (load_fp16 env name n) (\<lambda>_. True)" if present: "section_is env r name bs" for bs
  proof -
    have sec: "load_section env name s = (Inr bs, s)" if "ls_reader s = r" for s
      using present that read_section_Done [of "env_max_alloc env" r name bs]
      by (auto simp: load_section_def section_is_def split: prod.splits)
    show ?thesis
      using assms(1)
      by (auto simp: completes_def load_fp16_def load_bind_def sec expect_size_def load_guard_def load_fail_def
          load_return_def alloc_dev_def allocate_device_def allocates_def copy_host_to_device_def Let_def)
  qed
  then show ?thesis
    using assms(2) unfolding if_section_def
    by (auto intro!: completes_bind [OF completes_reader] completes_return)
qed

definition same_scheme :: "model_config \<Rightarrow> model_config \<Rightarrow> bool" where
  "same_scheme c c' \<longleftrightarrow> cfg_quant_scheme c' = cfg_quant_scheme c \<and> is_int8_kv c' = is_int8_kv c"

lemma completes_vision:
  assumes "allocates env" "vision_readable env r"
  shows "completes r (load_vision env c) (\<lambda>(c', vis). same_scheme c c')"
  using assms(2) unfolding load_vision_def vision_readable_def
  by (auto simp: same_scheme_def intro!: completes_bind [OF completes_reader] completes_return
      completes_bind [OF completes_if_section [OF assms(1)]])

definition types_usable :: "model_config \<Rightarrow> string list \<Rightarrow> bool" where
  "types_usable c types \<longleftrightarrow> (types = [] \<or> length types = nat (num_hidden_layers c))
     \<and> list_all (\<lambda>t. t = ''full_attention'' \<or> t = ''linear_attention'') types"

lemma usable_kind: "types_usable c types \<Longrightarrow> layer_kind c types l \<in> {''full_attention'', ''linear_attention''}"
  by (auto simp: types_usable_def layer_kind_def expected_by_interval_def list_all_length)

lemma completes_tensors:
  assumes "allocates env" "dims_usable c" "0 < full_attention_interval c" "types_usable c (meta_types meta)"
    and "list_all (section_sized env r) (model_sections c (meta_types meta))" "vision_readable env r"
  shows "completes r (load_tensors env meta c) (\<lambda>m. same_scheme c (lm_config m))"
proof -
  let ?types = "meta_types meta"
  have sized: "section_sized env r (''model.language_model.embed_tokens.weight'', nat (vocab_size c * hidden_size c * 2))"
    and norm: "list_all (section_sized env r) (vector_section ''model.language_model.norm.weight'' (hidden_size c))"
    and head: "list_all (section_sized env r) (linear_sections c ''lm_head.weight'' (vocab_size c) (hidden_size c))"
    and layers: "\<And>l. l < nat (num_hidden_layers c) \<Longrightarrow> list_all (section_sized env r) (layer_sections c ?types l)"
    using assms(5) by (auto simp: model_sections_def list_all_iff)
  obtain bs where bs: "section_is env r ''model.language_model.embed_tokens.weight'' bs"
    "length bs = nat (vocab_size c * hidden_size c * 2)" using sized by (auto simp: section_sized_def)
  have size: "word_of_int (vocab_size c) * word_of_int (hidden_size c) * 2 = (word_of_nat (length bs) :: u64)"
    using word_of_sized [OF sized] bs(2) by simp
  have ls: "completes r (load_layers env c ?types [0..<nat (num_hidden_layers c)]) (\<lambda>_. True)"
    by (rule completes_layers, rule completes_layer [OF assms(1-3) layers usable_kind [OF assms(4)]]) simp
  have guard: "(if ?types \<noteq> [] \<and> length ?types \<noteq> nat (num_hidden_layers c) then Some (Layer_types_count (length ?types)) else None) = None"
    using assms(4) by (auto simp: types_usable_def)
  show ?thesis
    unfolding load_tensors_def Let_def
    by (rule completes_bind [OF completes_section [OF bs(1)]],
        rule completes_bind [OF completes_expect], simp add: size,
        rule completes_bind [OF completes_alloc [OF assms(1)]], rule completes_bind [OF completes_copy],
        rule completes_bind [OF completes_bf16 [OF assms(1) norm]],
        rule completes_bind [OF completes_linear [OF assms(1) head]], use assms(2) in \<open>simp add: dims_usable_def\<close>,
        use assms(2) in \<open>simp add: dims_usable_def\<close>, rule completes_bind [OF completes_guard [OF guard]],
        rule completes_bind [OF ls], rule completes_bind [OF completes_vision [OF assms(1,6)]])
      (auto simp: same_scheme_def intro: completes_return)
qed

lemma configure_usable: "configure stof f32 meta = Inr c \<Longrightarrow> dims_usable c \<and> 0 < full_attention_interval c"
  by (auto simp: configure_def Let_def ModelConfig_def dims_usable_def full_out_dim_def
      split: option.splits sum.splits if_splits)

lemma complete_artifact_loads:
  assumes "allocates env" "is_open r" "configure stof f32 (metadata r) = Inr c"
    and "types_usable c (meta_types (metadata r))" "vision_readable env r"
    and "list_all (section_sized env r) (model_sections c (meta_types (metadata r)))"
  shows "\<exists>m s. load_from_artifact env stof f32 True r = (Inr m, s, []) \<and> model_loaded env r s m
    \<and> same_scheme c (lm_config m)"
proof -
  let ?s0 = "\<lparr>ls_reader = r, ls_ptrs = [], ls_calls = 0, ls_device = []\<rparr>"
  have "completes r (load_tensors env (metadata r) c) (\<lambda>m. same_scheme c (lm_config m))"
    using completes_tensors configure_usable [OF assms(3)] assms by blast
  then obtain m s where run: "load_tensors env (metadata r) c ?s0 = (Inr m, s)" and m: "same_scheme c (lm_config m)"
    by (auto simp: completes_def dest: spec [of _ ?s0])
  have "tracked ?s0" by (simp add: tracked_def)
  from load_tensors_correct [OF run configure_dims [OF assms(3)] this] have "model_loaded env r s m" by simp
  then show ?thesis using run m assms(2,3) by (simp add: load_from_artifact_def Let_def)
qed


section \<open>A written artifact\<close>

text \<open>The section of a pending section of the writer, once the file is opened.\<close>

lemma written_section:
  assumes "writable (env_max_alloc env) w" "sec \<in> set (pending w)"
  shows "section_is env (opened_reader w m path) (sec_name sec) (sec_data sec)"
  using assms opened_reader_section [OF assms(1), of _ m path] by (auto simp: section_is_def in_set_conv_nth)

definition provides :: "artifact_writer \<Rightarrow> string \<times> nat \<Rightarrow> bool" where
  "provides w = (\<lambda>(name, n). 0 < n \<and> n < 2 ^ 62 \<and> list_ex (\<lambda>s. sec_name s = name \<and> length (sec_data s) = n) (pending w))"

lemma written_sized:
  assumes "writable (env_max_alloc env) w" "provides w x"
  shows "section_sized env (opened_reader w m path) x"
  using assms(2) written_section [OF assms(1)]
  by (fastforce simp: provides_def section_sized_def list_ex_iff split: prod.splits)

lemma written_readable:
  assumes "writable (env_max_alloc env) w"
  shows "vision_readable env (opened_reader w m path)"
proof -
  have "\<exists>bs. section_is env (opened_reader w m path) name bs" if "has_section (opened_reader w m path) name" for name
  proof -
    have "name \<in> set (map sec_name (pending w))"
      using that by (auto simp: has_section_def opened_reader_def dest!: map_of_SomeD in_set_zipE)
    then show ?thesis using written_section [OF assms] by auto
  qed
  then show ?thesis by (simp add: vision_readable_def)
qed

lemma written_model_loads:
  assumes "allocates env" "writable (env_max_alloc env) w" "configure stof f32 m = Inr c"
    and "types_usable c (meta_types m)" "list_all (provides w) (model_sections c (meta_types m))"
  shows "\<exists>lm s. load_from_artifact env stof f32 True (opened_reader w m path) = (Inr lm, s, [])
    \<and> model_loaded env (opened_reader w m path) s lm \<and> same_scheme c (lm_config lm)"
proof -
  have "list_all (section_sized env (opened_reader w m path)) (model_sections c (meta_types m))"
    using assms(5) written_sized [OF assms(2)] by (auto simp: list_all_iff)
  then show ?thesis
    using complete_artifact_loads [of env "opened_reader w m path" stof f32 c] assms written_readable [OF assms(2)]
    by (simp add: opened_reader_def)
qed

end
