(* ===== verification/Engine_Load.thy ===== *)
theory Engine_Load
  imports Engine_Correct Tokenizer_Load Weights_Complete
begin

text \<open>
  \<^verbatim>\<open>EngineImpl::load\<close> of \<^verbatim>\<open>src/runtime/engine.cpp\<close> and the file loaders of the tokenizer: opening and
  validating the artifact, the embedded or external tokenizer and chat template, the weights, the
  arena, the KV cache, the decode graph and the draft context, with every early return and every
  handler. An engine that has loaded is shown to satisfy what generation relies on.
\<close>


section \<open>What the process offers\<close>

text \<open>
  Files and directories, device allocations and capabilities, and the conversions of the library.
  The lists are the addresses of the buffers that a \<^verbatim>\<open>DecodeGraph\<close> allocates.
\<close>

record 'd load_world =
  lw_ctx :: "bool \<Rightarrow> bool"
  lw_files :: "string \<rightharpoonup> bytes"
  lw_is_dir :: "string \<Rightarrow> bool"
  lw_join :: "string \<Rightarrow> string \<Rightarrow> string"
  lw_parent :: "string \<Rightarrow> string"
  lw_max_alloc :: nat
  lw_weights :: load_env
  lw_stof :: "string \<Rightarrow> conv_error + f32_value"
  lw_f32 :: "rat \<Rightarrow> rat"
  lw_kv_malloc :: "u64 \<Rightarrow> u64"
  lw_rec_malloc :: "u64 \<Rightarrow> u64"
  lw_graph_mem :: "u64 list"
  lw_draft_mem :: "u64 list"
  lw_has_graph :: bool
  lw_graph_ok :: bool
  lw_draft_ok :: bool
  lw_device :: "'d device_ops"

datatype tokenizer_file_error = Tokenizer_not_opened string | Tokenizer_rejected load_error | Config_rejected

datatype engine_load_error =
    No_device_context
  | Artifact_rejected reader_error
  | Checksum_rejected reader_error
  | Tokenizer_file string tokenizer_file_error
  | No_tokenizer string
  | No_eos_token
  | No_im_end_token
  | Weights_rejected weights_error
  | Kv_not_allocated
  | Load_bad_alloc
  | Load_conversion conv_error
  | Load_invalid_argument
  | Load_kv kv_error
  | Load_undefined


section \<open>Tokenizer files\<close>

text \<open>\<^verbatim>\<open>QwenTokenizer::load_from_file\<close>; \<open>None\<close> when the check of the configuration does not return.\<close>

definition sibling_template :: "'d load_world \<Rightarrow> string \<Rightarrow> chat_template \<Rightarrow> chat_template" where
  "sibling_template w dir tmpl =
     (case lw_files w (lw_join w dir ''chat_template.jinja'') of
        None \<Rightarrow> tmpl
      | Some bs \<Rightarrow> snd (load_from_string tmpl (string_of_bytes bs)))"

definition load_tokenizer_file ::
    "'d load_world \<Rightarrow> string \<Rightarrow> tokenizer \<Rightarrow> chat_template
     \<Rightarrow> (tokenizer_file_error option \<times> tokenizer \<times> chat_template) option" where
  "load_tokenizer_file w path t tmpl =
     (let tok_path = (if lw_is_dir w path then lw_join w path ''tokenizer.json'' else path) in
      case lw_files w tok_path of
        None \<Rightarrow> Some (Some (Tokenizer_not_opened tok_path), t, tmpl)
      | Some bs \<Rightarrow>
          (case load_from_json_buffer t (string_of_bytes bs) of
             (Some e, t1) \<Rightarrow> Some (Some (Tokenizer_rejected e), t1, tmpl)
           | (None, t1) \<Rightarrow>
               let dir = lw_parent w tok_path in
               (case lw_files w (lw_join w dir ''config.json'') of
                  None \<Rightarrow> Some (None, t1, sibling_template w dir tmpl)
                | Some json \<Rightarrow>
                    (case validate_against_config_buffer t1 (string_of_bytes json) of
                       None \<Rightarrow> None
                     | Some ok \<Rightarrow>
                         if ok then Some (None, t1, sibling_template w dir tmpl)
                         else Some (Some Config_rejected, t1, tmpl)))))"

text \<open>\<^verbatim>\<open>QwenChatTemplate::load_from_file\<close>: a file that does not open changes nothing.\<close>

definition load_template_file :: "'d load_world \<Rightarrow> string \<Rightarrow> chat_template \<Rightarrow> chat_template" where
  "load_template_file w path tmpl =
     (case lw_files w path of None \<Rightarrow> tmpl | Some bs \<Rightarrow> snd (load_from_string tmpl (string_of_bytes bs)))"


section \<open>The artifact\<close>

definition outcome_result :: "(reader_error \<Rightarrow> engine_load_error) \<Rightarrow> 'a outcome \<Rightarrow> engine_load_error + 'a" where
  "outcome_result f o' =
     (case o' of Done x \<Rightarrow> Inr x | Error e \<Rightarrow> Inl (f e) | Throws_alloc \<Rightarrow> Inl Load_bad_alloc | Overread \<Rightarrow> Inl Load_undefined)"

text \<open>Open and, unless the configuration skips it, validate.\<close>

definition open_and_validate :: "'d load_world \<Rightarrow> engine_config \<Rightarrow> engine_load_error + artifact_reader" where
  "open_and_validate w cfg =
     (case open_artifact (lw_max_alloc w) (lw_files w) reader_init (artifact_path cfg) of
        (res, r) \<Rightarrow>
          (case outcome_result Artifact_rejected res of
             Inl e \<Rightarrow> Inl e
           | Inr _ \<Rightarrow>
               if cfg_validate_checksum cfg then
                 (case validate_checksum r (4 * 1024 * 1024) of
                    (res', r') \<Rightarrow> map_sum id (\<lambda>_. r') (outcome_result Checksum_rejected res'))
               else Inr r))"

text \<open>
  An embedded section: if it is there and can be read, it is loaded, and a loader that rejects it
  does not end the load.
\<close>

definition load_embedded ::
    "'d load_world \<Rightarrow> string \<Rightarrow> (string \<Rightarrow> 'a \<Rightarrow> 'a) \<Rightarrow> 'a \<Rightarrow> artifact_reader \<Rightarrow> (engine_load_error + 'a) \<times> artifact_reader" where
  "load_embedded w name loader x r =
     (if \<not> has_section r name then (Inr x, r)
      else
        case read_section (lw_max_alloc w) r name of
          (Done bs, r') \<Rightarrow> (Inr (loader (string_of_bytes bs) x), r')
        | (Error e, r') \<Rightarrow> (Inr x, r')
        | (Throws_alloc, r') \<Rightarrow> (Inl Load_bad_alloc, r')
        | (Overread, r') \<Rightarrow> (Inl Load_undefined, r'))"


section \<open>Tokenizer and template\<close>

text \<open>From the artifact first; then the paths of the configuration, where something is still missing.\<close>

definition embedded_parts ::
    "'d load_world \<Rightarrow> artifact_reader \<Rightarrow> 'd engine \<Rightarrow> (engine_load_error + artifact_reader) \<times> 'd engine" where
  "embedded_parts w r e =
     (case load_embedded w ''tokenizer.data'' (\<lambda>s t. snd (load_from_json_buffer t s)) (eng_tokenizer e) r of
        (Inl err, r1) \<Rightarrow> (Inl err, e)
      | (Inr t, r1) \<Rightarrow>
          (case load_embedded w ''chat_template.jinja'' (\<lambda>s x. snd (load_from_string x s)) (eng_template e) r1 of
             (Inl err, r2) \<Rightarrow> (Inl err, e\<lparr>eng_tokenizer := t\<rparr>)
           | (Inr x, r2) \<Rightarrow> (Inr r2, e\<lparr>eng_tokenizer := t, eng_template := x\<rparr>)))"

definition external_tokenizer ::
    "'d load_world \<Rightarrow> engine_config \<Rightarrow> 'd engine \<Rightarrow> (engine_load_error option \<times> 'd engine) option" where
  "external_tokenizer w cfg e =
     (if is_loaded (eng_tokenizer e) then Some (None, e)
      else if tokenizer_path cfg = [] then Some (Some (No_tokenizer (artifact_path cfg)), e)
      else
        map_option (\<lambda>(err, t, x). (map_option (Tokenizer_file (tokenizer_path cfg)) err, e\<lparr>eng_tokenizer := t, eng_template := x\<rparr>))
          (load_tokenizer_file w (tokenizer_path cfg) (eng_tokenizer e) (eng_template e)))"

definition external_template :: "'d load_world \<Rightarrow> engine_config \<Rightarrow> 'd engine \<Rightarrow> 'd engine" where
  "external_template w cfg e =
     (if tmpl_loaded (eng_template e) \<or> chat_template_path cfg = [] then e
      else e\<lparr>eng_template := load_template_file w (chat_template_path cfg) (eng_template e)\<rparr>)"

definition required_tokens :: "tokenizer \<Rightarrow> engine_load_error option" where
  "required_tokens t =
     (if eos_token_id t < 0 then Some No_eos_token else if im_end_token_id t < 0 then Some No_im_end_token else None)"

definition load_tokenizers ::
    "'d load_world \<Rightarrow> engine_config \<Rightarrow> artifact_reader \<Rightarrow> 'd engine
     \<Rightarrow> ((engine_load_error + artifact_reader) \<times> 'd engine) option" where
  "load_tokenizers w cfg r e =
     (case embedded_parts w r e of
        (Inl err, e1) \<Rightarrow> Some (Inl err, e1)
      | (Inr r1, e1) \<Rightarrow>
          (case external_tokenizer w cfg e1 of
             None \<Rightarrow> None
           | Some (Some err, e2) \<Rightarrow> Some (Inl err, e2)
           | Some (None, e2) \<Rightarrow>
               let e3 = external_template w cfg e2 in
               (case required_tokens (eng_tokenizer e3) of
                  Some err \<Rightarrow> Some (Inl err, e3)
                | None \<Rightarrow> Some (Inr r1, e3))))"


section \<open>Model, memory and graphs\<close>

text \<open>
  A returned null pointer replaces the model; an exception leaves the old one.
\<close>

definition materialize_model :: "'d load_world \<Rightarrow> artifact_reader \<Rightarrow> 'd engine \<Rightarrow> (engine_load_error + loaded_model) \<times> 'd engine" where
  "materialize_model w r e =
     (case fst (load_from_artifact (lw_weights w) (lw_stof w) (lw_f32 w) True r) of
        Inr m \<Rightarrow> (Inr m, e\<lparr>eng_model := Some m\<rparr>)
      | Inl (Returns_null x) \<Rightarrow> (Inl (Weights_rejected x), e\<lparr>eng_model := None\<rparr>)
      | Inl (Throws_conversion x) \<Rightarrow> (Inl (Load_conversion x), e)
      | Inl Throws_bad_alloc \<Rightarrow> (Inl Load_bad_alloc, e)
      | Inl Undefined_read \<Rightarrow> (Inl Load_undefined, e))"

definition alloc_fault :: "alloc_error \<Rightarrow> engine_load_error" where
  "alloc_fault x = (case x of Bad_alloc \<Rightarrow> Load_bad_alloc | Invalid_argument \<Rightarrow> Load_invalid_argument)"

definition graph_fault :: "fw_error \<Rightarrow> engine_load_error" where
  "graph_fault x = (case x of FW_alloc a \<Rightarrow> alloc_fault a | FW_cache k \<Rightarrow> Load_kv k | _ \<Rightarrow> Load_undefined)"

definition init_arena :: "'d load_world \<Rightarrow> engine_config \<Rightarrow> 'd engine \<Rightarrow> engine_load_error option \<times> 'd engine" where
  "init_arena w cfg e =
     (case DeviceArena (arena_usm (lw_device w)) True (arena_capacity_bytes cfg) 64 of
        Inl x \<Rightarrow> (Some (alloc_fault x), e)
      | Inr a \<Rightarrow> (None, e\<lparr>eng_gpu := (eng_gpu e)\<lparr>gpu_arena := a\<rparr>\<rparr>))"

definition init_cache ::
    "'d load_world \<Rightarrow> engine_config \<Rightarrow> loaded_model \<Rightarrow> 'd engine \<Rightarrow> engine_load_error option \<times> 'd engine" where
  "init_cache w cfg m e =
     (case kv_allocate (lw_kv_malloc w) (lw_rec_malloc w)
             (KVCache True (create_kv_cache_config (lm_config m) (cfg_max_seq_len cfg) (use_int8_kv cfg))) of
        (res, kv) \<Rightarrow>
          (case res of
             Inl x \<Rightarrow> Some (Load_kv x)
           | Inr ok \<Rightarrow> if ok then None else Some Kv_not_allocated,
           e\<lparr>eng_kv_present := True, eng_gpu := (eng_gpu e)\<lparr>gpu_kv := kv\<rparr>\<rparr>))"

definition init_graph :: "'d load_world \<Rightarrow> loaded_model \<Rightarrow> 'd engine \<Rightarrow> engine_load_error option \<times> 'd engine" where
  "init_graph w m e =
     (case capture (lw_device w) (lw_has_graph w) (lw_graph_ok w) m (DecodeGraph (lw_graph_mem w)) (eng_gpu e) of
        (res, dg, g) \<Rightarrow>
          (case res of Inl x \<Rightarrow> Some (graph_fault x) | Inr _ \<Rightarrow> None, e\<lparr>eng_graph := Some dg, eng_gpu := g\<rparr>))"

text \<open>\<^verbatim>\<open>DraftContext::init\<close>; it counts as initialised only at its end.\<close>

definition init_draft ::
    "'d load_world \<Rightarrow> engine_config \<Rightarrow> loaded_model \<Rightarrow> 'd engine \<Rightarrow> engine_load_error option \<times> 'd engine" where
  "init_draft w cfg m e =
     (if \<not> enable_speculative cfg then (None, e)
      else
        case DeviceArena (arena_usm (lw_device w)) True (arena_capacity_bytes cfg) 64 of
          Inl x \<Rightarrow> (Some (alloc_fault x), e)
        | Inr a \<Rightarrow>
            (case capture (lw_device w) (lw_has_graph w) (lw_draft_ok w) m (DecodeGraph (lw_draft_mem w)) (eng_gpu e) of
               (Inr _, dg, g) \<Rightarrow> (None, e\<lparr>eng_draft := Some \<lparr>draft_arena = a, draft_graph = dg\<rparr>, eng_gpu := g\<rparr>)
             | (Inl x, dg, g) \<Rightarrow>
                 (Some (graph_fault x),
                  e\<lparr>eng_draft := map_option (\<lambda>_. \<lparr>draft_arena = a, draft_graph = dg\<rparr>) (eng_draft e), eng_gpu := g\<rparr>)))"

text \<open>One stage after the other, until one fails.\<close>

fun stages :: "('d engine \<Rightarrow> engine_load_error option \<times> 'd engine) list \<Rightarrow> 'd engine \<Rightarrow> engine_load_error option \<times> 'd engine" where
  "stages [] e = (None, e)"
| "stages (f # fs) e = (case f e of (Some err, e') \<Rightarrow> (Some err, e') | (None, e') \<Rightarrow> stages fs e')"

definition set_loaded :: "'d engine \<Rightarrow> engine_load_error option \<times> 'd engine" where
  "set_loaded e = (None, e\<lparr>eng_loaded := True\<rparr>)"


section \<open>The whole load\<close>

text \<open>The error, if any, and the engine it leaves; \<open>None\<close> when it does not return.\<close>

definition engine_load ::
    "'d load_world \<Rightarrow> engine_config \<Rightarrow> 'd engine \<Rightarrow> (engine_load_error option \<times> 'd engine) option" where
  "engine_load w cfg e0 =
     (let e = e0\<lparr>eng_config := cfg\<rparr> in
      if \<not> lw_ctx w (prefer_b60 cfg) then Some (Some No_device_context, e)
      else
        case open_and_validate w cfg of
          Inl err \<Rightarrow> Some (Some err, e)
        | Inr r \<Rightarrow>
            (case load_tokenizers w cfg r e of
               None \<Rightarrow> None
             | Some (Inl err, e1) \<Rightarrow> Some (Some err, e1)
             | Some (Inr r1, e1) \<Rightarrow>
                 (case materialize_model w r1 e1 of
                    (Inl err, e2) \<Rightarrow> Some (Some err, e2)
                  | (Inr m, e2) \<Rightarrow>
                      Some (stages [init_arena w cfg, init_cache w cfg m, init_graph w m, init_draft w cfg m, set_loaded] e2))))"



section \<open>What a load establishes\<close>

lemma submit_kv:
  "exec_ok dv \<Longrightarrow> \<exists>d x. length x = length (recurrent_mem (gpu_kv g))
     \<and> submit dv ks g = g\<lparr>gpu_dev := d, gpu_kv := (gpu_kv g)\<lparr>recurrent_mem := x\<rparr>\<rparr>"
  using exec_ok_fold [of dv ks "(gpu_dev g, recurrent_mem (gpu_kv g))"]
  by (auto simp: submit_def split: prod.splits; blast)

text \<open>Capturing writes only what the kernels write.\<close>

lemma capture_kv:
  assumes "exec_ok dv" "capture dv hg ok m dg g = (res, dg', g')"
  shows "gpu_arena g' = gpu_arena g
    \<and> (\<exists>x. length x = length (recurrent_mem (gpu_kv g)) \<and> gpu_kv g' = (gpu_kv g)\<lparr>recurrent_mem := x\<rparr>)"
proof (cases "hg")
  case False
  then have "g' = g" using assms(2) by (simp add: capture_def)
  then show ?thesis by (auto intro: exI [of _ "recurrent_mem (gpu_kv g)"])
next
  case True
  let ?ks = "[Copy_tokens (dg_token_ids dg) [0], Copy_positions (dg_positions dg) [0]]"
  have "g' = submit dv ?ks g"
    using assms(2) True by (auto simp: capture_def Let_def split: if_splits prod.splits sum.splits)
  then show ?thesis using submit_kv [OF assms(1), of g ?ks] by auto
qed

definition full_count :: "loaded_model \<Rightarrow> nat" where
  "full_count m = length (filter is_full (lm_layers m))"

definition recurrent_count :: "loaded_model \<Rightarrow> nat" where
  "recurrent_count m = length (filter (\<lambda>l. \<not> is_full l) (lm_layers m))"

lemma kv_fits_mem [simp]: "kv_fits (kv\<lparr>recurrent_mem := x\<rparr>) nf nl = kv_fits kv nf nl"
  by (simp add: kv_fits_def split: kv_dtype.splits)

lemma kv_inv_mem: "kv_inv kv \<Longrightarrow> length x = length (recurrent_mem kv) \<Longrightarrow> kv_inv (kv\<lparr>recurrent_mem := x\<rparr>)"
  by (simp add: kv_inv_def)

lemma graph_kernels_fit:
  assumes "kv_fits kv (full_count m) (recurrent_count m)"
  shows "\<exists>idx ks. graph_kernels m kv dg = (Inr idx, ks)"
proof -
  obtain idx ks where "forward_layers (lm_config m) (lm_layers m) kv (0, 0) (dg_bufs dg) 1 (dg_positions dg) 0
      (dg_positions dg) False = (Inr idx, ks)"
    using forward_layers_fits [OF assms, of 0 "lm_layers m" 0] by (fastforce simp: full_count_def recurrent_count_def)
  then show ?thesis by (simp add: graph_kernels_def Let_def)
qed

lemma capture_fits:
  assumes "exec_ok dv" "kv_fits (gpu_kv g) (full_count m) (recurrent_count m)" "capture dv hg ok m dg g = (res, dg', g')"
  shows "res = Inr (hg \<and> ok)" "is_captured dg' = (is_captured dg \<and> \<not> (hg \<and> \<not> ok) \<or> hg \<and> ok)"
proof -
  let ?ks = "[Copy_tokens (dg_token_ids dg) [0], Copy_positions (dg_positions dg) [0]]"
  obtain d x where s: "submit dv ?ks g = g\<lparr>gpu_dev := d, gpu_kv := (gpu_kv g)\<lparr>recurrent_mem := x\<rparr>\<rparr>"
    using submit_kv [OF assms(1), of g ?ks] by auto
  have "kv_fits (gpu_kv (submit dv ?ks g)) (full_count m) (recurrent_count m)" using assms(2) by (simp add: s)
  note graph_kernels_fit [OF this, of dg]
  then show "res = Inr (hg \<and> ok)" "is_captured dg' = (is_captured dg \<and> \<not> (hg \<and> \<not> ok) \<or> hg \<and> ok)"
    using assms(3) by (auto simp: capture_def Let_def split: if_splits)
qed

lemma sibling_template_cases: "load_tokenizer_file w path t x = Some (err, t', x') \<Longrightarrow> err = None \<Longrightarrow> is_loaded t'"
  by (auto simp: load_tokenizer_file_def load_from_json_buffer_def check_loaded_def is_loaded_def Let_def
      split: option.splits if_splits prod.splits)

lemma external_tokenizer_ready:
  assumes "external_tokenizer w cfg e = Some (err, e')"
  shows "eng_config e' = eng_config e \<and> eng_loaded e' = eng_loaded e \<and> (err = None \<longrightarrow> is_loaded (eng_tokenizer e'))"
  using assms sibling_template_cases [of w "tokenizer_path cfg"]
  by (auto simp: external_tokenizer_def split: if_splits)

lemma load_tokenizers_ready:
  assumes "load_tokenizers w cfg r e = Some (res, e')"
  shows "eng_config e' = eng_config e \<and> eng_loaded e' = eng_loaded e
    \<and> (\<forall>r'. res = Inr r' \<longrightarrow> is_loaded (eng_tokenizer e') \<and> 0 \<le> eos_token_id (eng_tokenizer e')
         \<and> 0 \<le> im_end_token_id (eng_tokenizer e'))"
proof -
  obtain res1 e1 where p: "embedded_parts w r e = (res1, e1)" by fastforce
  have e1: "eng_config e1 = eng_config e" "eng_loaded e1 = eng_loaded e"
    using p by (auto simp: embedded_parts_def split: prod.splits sum.splits)
  have x: "eng_config (external_template w cfg e2) = eng_config e2" "eng_loaded (external_template w cfg e2) = eng_loaded e2"
    "eng_tokenizer (external_template w cfg e2) = eng_tokenizer e2" for e2
    by (simp_all add: external_template_def)
  show ?thesis
  proof (cases res1)
    case (Inl err)
    then show ?thesis using assms p e1 by (auto simp: load_tokenizers_def)
  next
    case (Inr r1)
    then obtain err e2 where ext: "external_tokenizer w cfg e1 = Some (err, e2)"
      using assms p by (cases "external_tokenizer w cfg e1") (auto simp: load_tokenizers_def)
    note e2 = external_tokenizer_ready [OF ext]
    show ?thesis
    proof (cases err)
      case (Some a)
      then show ?thesis using assms p Inr ext e1 e2 by (auto simp: load_tokenizers_def)
    next
      case None
      then show ?thesis
        using assms p Inr ext e1 e2 x [of e2]
        by (auto simp: load_tokenizers_def required_tokens_def Let_def split: if_splits)
    qed
  qed
qed

lemma materialize_ready:
  assumes "materialize_model w r e = (res, e')"
  shows "eng_config e' = eng_config e \<and> eng_loaded e' = eng_loaded e \<and> eng_tokenizer e' = eng_tokenizer e
    \<and> (\<forall>m. res = Inr m \<longrightarrow> eng_model e' = Some m \<and> (\<exists>s. model_loaded (lw_weights w) r s m))"
  using assms load_from_artifact_result [of "lw_weights w" r "lw_stof w" "lw_f32 w" True]
  by (auto simp: materialize_model_def split: sum.splits load_fault.splits prod.splits)

text \<open>The stages that set up memory leave the rest of the engine as it was.\<close>

definition same_parts :: "'d engine \<Rightarrow> 'd engine \<Rightarrow> bool" where
  "same_parts e e' \<longleftrightarrow> eng_config e' = eng_config e \<and> eng_loaded e' = eng_loaded e
     \<and> eng_tokenizer e' = eng_tokenizer e \<and> eng_model e' = eng_model e"

definition memory_stages ::
    "'d load_world \<Rightarrow> engine_config \<Rightarrow> loaded_model \<Rightarrow> ('d engine \<Rightarrow> engine_load_error option \<times> 'd engine) list" where
  "memory_stages w cfg m = [init_arena w cfg, init_cache w cfg m, init_graph w m, init_draft w cfg m]"

definition keeps_parts :: "('d engine \<Rightarrow> engine_load_error option \<times> 'd engine) \<Rightarrow> bool" where
  "keeps_parts f \<longleftrightarrow> (\<forall>e. same_parts e (snd (f e)))"

lemma memory_stages_keep: "list_all keeps_parts (memory_stages w cfg m)"
  by (auto simp: memory_stages_def keeps_parts_def init_arena_def init_cache_def init_graph_def init_draft_def
      same_parts_def split: sum.splits prod.splits if_splits)

lemma stages_keep: "list_all keeps_parts fs \<Longrightarrow> same_parts e (snd (stages fs e))"
proof (induction fs arbitrary: e)
  case (Cons f fs)
  have "same_parts e (snd (f e))" using Cons.prems by (simp add: keeps_parts_def)
  then show ?case
    using Cons.IH [of "snd (f e)"] Cons.prems by (auto simp: same_parts_def split: prod.splits option.splits)
qed (simp add: same_parts_def)

lemma stages_append:
  "stages (fs @ gs) e = (case stages fs e of (Some err, e') \<Rightarrow> (Some err, e') | (None, e') \<Rightarrow> stages gs e')"
  by (induction fs arbitrary: e) (auto split: prod.splits option.splits)

text \<open>The cache of a loaded model: the invariant, the size of the configuration, a slice for each layer.\<close>

definition cache_ready :: "engine_config \<Rightarrow> loaded_model \<Rightarrow> kv_cache \<Rightarrow> bool" where
  "cache_ready cfg m kv \<longleftrightarrow> kv_inv kv \<and> current_seq_len kv = 0
     \<and> config kv = create_kv_cache_config (lm_config m) (cfg_max_seq_len cfg) (use_int8_kv cfg)
     \<and> kv_fits kv (full_count m) (recurrent_count m)"

lemma cache_ready_mem:
  "cache_ready cfg m kv \<Longrightarrow> length x = length (recurrent_mem kv) \<Longrightarrow> cache_ready cfg m (kv\<lparr>recurrent_mem := x\<rparr>)"
  by (simp add: cache_ready_def kv_inv_mem)

lemma allocate_ready:
  assumes "layers_consistent m"
    and "kv_allocate kvm recm (KVCache True (create_kv_cache_config (lm_config m) (cfg_max_seq_len cfg) (use_int8_kv cfg)))
      = (Inr True, kv)"
  shows "cache_ready cfg m kv"
proof -
  let ?kv0 = "KVCache True (create_kv_cache_config (lm_config m) (cfg_max_seq_len cfg) (use_int8_kv cfg))"
  obtain kv1 kv2 where a: "allocate_kv kvm ?kv0 = (True, kv1)" "allocate_recurrent recm kv1 = (True, kv2)" "kv = clear kv2"
    using assms(2) by (auto simp: kv_allocate_def split: if_splits sum.splits prod.splits bool.splits)
  have "current_seq_len kv1 = 0"
    using a(1) by (auto simp: allocate_kv_def KVCache_def Let_def split: kv_dtype.splits if_splits)
  then have "current_seq_len kv2 = 0"
    using a(2) by (auto simp: allocate_recurrent_def Let_def split: if_splits)
  then have "current_seq_len kv = 0" by (simp add: a(3) clear_def Let_def)
  then show ?thesis
    using kv_allocate_inv [OF assms(2)] kv_allocate_fits [OF assms]
    by (simp add: cache_ready_def full_count_def recurrent_count_def)
qed

lemma init_cache_ready:
  assumes "layers_consistent m" "init_cache w cfg m e = (None, e')"
  shows "cache_ready cfg m (engine_kv e') \<and> eng_kv_present e' \<and> gpu_arena (eng_gpu e') = gpu_arena (eng_gpu e)"
  using assms(2) allocate_ready [OF assms(1)]
  by (auto simp: init_cache_def engine_kv_def split: prod.splits sum.splits if_splits)

lemma capture_ready:
  assumes "exec_ok dv" "cache_ready cfg m (gpu_kv g)" "capture dv hg ok m dg g = (res, dg', g')"
  shows "cache_ready cfg m (gpu_kv g') \<and> gpu_arena g' = gpu_arena g \<and> res = Inr (hg \<and> ok)
    \<and> is_captured dg' = (is_captured dg \<and> \<not> (hg \<and> \<not> ok) \<or> hg \<and> ok)"
proof -
  have fits: "kv_fits (gpu_kv g) (full_count m) (recurrent_count m)" using assms(2) by (simp add: cache_ready_def)
  show ?thesis
    using capture_kv [OF assms(1,3)] capture_fits [OF assms(1) fits assms(3)] cache_ready_mem [OF assms(2)] by auto
qed

lemma fresh_graph [simp]: "is_captured (DecodeGraph p) = False"
  by (simp add: DecodeGraph_def)

lemma init_graph_ready:
  assumes "exec_ok (lw_device w)" "cache_ready cfg m (engine_kv e)" "init_graph w m e = (err, e')"
  shows "err = None \<and> cache_ready cfg m (engine_kv e') \<and> gpu_arena (eng_gpu e') = gpu_arena (eng_gpu e)
    \<and> eng_kv_present e' = eng_kv_present e
    \<and> (\<exists>dg. eng_graph e' = Some dg \<and> is_captured dg = (lw_has_graph w \<and> lw_graph_ok w))"
proof -
  obtain res dg g where c: "capture (lw_device w) (lw_has_graph w) (lw_graph_ok w) m (DecodeGraph (lw_graph_mem w)) (eng_gpu e)
      = (res, dg, g)" by (cases "capture (lw_device w) (lw_has_graph w) (lw_graph_ok w) m (DecodeGraph (lw_graph_mem w)) (eng_gpu e)")
  show ?thesis
    using capture_ready [OF assms(1) assms(2) [unfolded engine_kv_def] c] assms(3)
    by (auto simp: init_graph_def c engine_kv_def)
qed

lemma init_draft_ready:
  assumes "exec_ok (lw_device w)" "cache_ready cfg m (engine_kv e)" "init_draft w cfg m e = (err, e')"
  shows "cache_ready cfg m (engine_kv e') \<and> gpu_arena (eng_gpu e') = gpu_arena (eng_gpu e)
    \<and> eng_kv_present e' = eng_kv_present e \<and> eng_graph e' = eng_graph e
    \<and> (err = None \<longrightarrow> enable_speculative cfg \<longrightarrow> eng_draft e' \<noteq> None)"
proof -
  obtain res dg g where c: "capture (lw_device w) (lw_has_graph w) (lw_draft_ok w) m (DecodeGraph (lw_draft_mem w)) (eng_gpu e)
      = (res, dg, g)" by (cases "capture (lw_device w) (lw_has_graph w) (lw_draft_ok w) m (DecodeGraph (lw_draft_mem w)) (eng_gpu e)")
  show ?thesis
    using capture_ready [OF assms(1) assms(2) [unfolded engine_kv_def] c] assms(2,3)
    by (auto simp: init_draft_def c engine_kv_def split: if_splits sum.splits)
qed

text \<open>What generation finds after a load.\<close>

definition engine_ready :: "'d load_world \<Rightarrow> engine_config \<Rightarrow> 'd engine \<Rightarrow> bool" where
  "engine_ready w cfg e \<longleftrightarrow> eng_is_loaded e \<and> is_loaded (eng_tokenizer e)
     \<and> 0 \<le> eos_token_id (eng_tokenizer e) \<and> 0 \<le> im_end_token_id (eng_tokenizer e)
     \<and> (\<exists>m r s. eng_model e = Some m \<and> model_loaded (lw_weights w) r s m \<and> cache_ready cfg m (engine_kv e))
     \<and> capacity (gpu_arena (eng_gpu e)) = arena_capacity_bytes cfg \<and> arena_offset (gpu_arena (eng_gpu e)) = 0
     \<and> (\<exists>dg. eng_graph e = Some dg \<and> is_captured dg = (lw_has_graph w \<and> lw_graph_ok w))
     \<and> (enable_speculative cfg \<longrightarrow> eng_draft e \<noteq> None)"

lemma stages_ConsE:
  assumes "stages (f # fs) e = (None, e')"
  obtains e1 where "f e = (None, e1)" "stages fs e1 = (None, e')"
  using assms by (auto split: prod.splits option.splits)

lemma memory_stages_ready:
  assumes "exec_ok (lw_device w)" "model_loaded (lw_weights w) r s m" "eng_model e = Some m" "is_loaded (eng_tokenizer e)"
    and "0 \<le> eos_token_id (eng_tokenizer e)" "0 \<le> im_end_token_id (eng_tokenizer e)"
    and "stages (memory_stages w cfg m @ [set_loaded]) e = (None, e')"
  shows "engine_ready w cfg e'"
proof -
  obtain e1 e2 e3 e4 where st: "init_arena w cfg e = (None, e1)" "init_cache w cfg m e1 = (None, e2)"
    "init_graph w m e2 = (None, e3)" "init_draft w cfg m e3 = (None, e4)" "e' = e4\<lparr>eng_loaded := True\<rparr>"
    using assms(7) unfolding memory_stages_def append.simps
    by (elim stages_ConsE) (simp add: set_loaded_def)
  have "capacity (gpu_arena (eng_gpu e1)) = arena_capacity_bytes cfg \<and> arena_offset (gpu_arena (eng_gpu e1)) = 0"
    using st(1) by (auto simp: init_arena_def DeviceArena_def Let_def split: sum.splits if_splits)
  moreover note c2 = init_cache_ready [OF model_loaded_consistent [OF assms(2)] st(2)]
  moreover note c3 = init_graph_ready [OF assms(1) conjunct1 [OF c2] st(3)]
  moreover have c4: "cache_ready cfg m (engine_kv e4) \<and> gpu_arena (eng_gpu e4) = gpu_arena (eng_gpu e3)
      \<and> eng_kv_present e4 = eng_kv_present e3 \<and> eng_graph e4 = eng_graph e3
      \<and> (None = None \<longrightarrow> enable_speculative cfg \<longrightarrow> eng_draft e4 \<noteq> None)"
    using init_draft_ready [OF assms(1) _ st(4)] c3 by blast
  moreover have "same_parts e e4"
    using stages_keep [OF memory_stages_keep [of w cfg m], of e] st by (simp add: memory_stages_def)
  ultimately show ?thesis
    using assms(2-6) unfolding engine_ready_def st(5)
    by (auto simp: eng_is_loaded_def engine_kv_def same_parts_def)
qed

lemma engine_load_ready:
  assumes "exec_ok (lw_device w)" "engine_load w cfg e0 = Some (err, e)"
  shows "eng_config e = cfg \<and> (if err = None then engine_ready w cfg e else eng_loaded e = eng_loaded e0)"
proof -
  let ?e = "e0\<lparr>eng_config := cfg\<rparr>"
  show ?thesis
  proof (cases "\<not> lw_ctx w (prefer_b60 cfg) \<or> (\<exists>x. open_and_validate w cfg = Inl x)")
    case True
    then show ?thesis using assms(2) by (auto simp: engine_load_def Let_def split: if_splits)
  next
    case False
    then obtain r where r: "open_and_validate w cfg = Inr r" "lw_ctx w (prefer_b60 cfg)"
      by (cases "open_and_validate w cfg") auto
    obtain res e1 where t: "load_tokenizers w cfg r ?e = Some (res, e1)"
      using assms(2) r by (cases "load_tokenizers w cfg r ?e") (auto simp: engine_load_def)
    note t' = load_tokenizers_ready [OF t]
    show ?thesis
    proof (cases res)
      case (Inl x)
      then show ?thesis using assms(2) r t t' by (auto simp: engine_load_def)
    next
      case (Inr r1)
      obtain mres e2 where m: "materialize_model w r1 e1 = (mres, e2)" by fastforce
      note m' = materialize_ready [OF m]
      show ?thesis
      proof (cases mres)
        case (Inl x)
        then show ?thesis using assms(2) r t t' Inr m m' by (auto simp: engine_load_def)
      next
        case ml: (Inr mo)
        let ?ms = "memory_stages w cfg mo"
        have run: "stages (?ms @ [set_loaded]) e2 = (err, e)"
          using assms(2) r t Inr m ml by (simp add: engine_load_def memory_stages_def)
        have same: "same_parts e2 (snd (stages ?ms e2))" by (rule stages_keep [OF memory_stages_keep])
        have parts: "eng_config e = eng_config e2 \<and> (err \<noteq> None \<longrightarrow> eng_loaded e = eng_loaded e2)"
          using run same by (auto simp: stages_append set_loaded_def same_parts_def split: prod.splits option.splits)
        obtain s where s: "model_loaded (lw_weights w) r1 s mo" "eng_model e2 = Some mo" using m' ml by blast
        have "engine_ready w cfg e" if "err = None"
          by (rule memory_stages_ready [OF assms(1) s]) (use t' Inr m' run that in auto)
        then show ?thesis using parts t' m' by simp
      qed
    qed
  qed
qed

text \<open>Generation on an engine that has loaded, when no special token is empty.\<close>

lemma ready_engine_ok:
  assumes "engine_ready w cfg e" "exec_ok (env_dv env)" "device_ok (env_dv env)"
    and "list_all (\<lambda>(c, i). c \<noteq> []) (special_tokens (eng_tokenizer e))"
  shows "engine_ok env e" "kv_inv (engine_kv e)"
  using assms by (auto simp: engine_ready_def engine_ok_def cache_ready_def model_loaded_def default_dims_ok_def Let_def)

end
