(* ===== verification/Example_Model.thy ===== *)
theory Example_Model
  imports Weights_Complete Engine_Load
begin

text \<open>
  A complete model on which the theorems about loading are applied: the metadata of the supported
  configuration, a small tokenizer and every tensor of the 64 layers, filled with zeros. The file
  would have several gigabytes; its sections and names are handled symbolically.
\<close>


section \<open>Metadata\<close>

definition example_meta :: artifact_metadata where
  "example_meta = \<lparr>model_name = ''qwen3.8-27b'', quant_scheme = ''INT4-G128-SYM'', tokenizer_type = ''bpe'',
     properties = [(''full_attention_interval'', to_string_int 4), (''head_dim'', to_string_int 256),
       (''hidden_size'', to_string_int 5120), (''intermediate_size'', to_string_int 17408),
       (''num_attention_heads'', to_string_int 24), (''num_hidden_layers'', to_string_int 64),
       (''num_key_value_heads'', to_string_int 4), (''rms_norm_eps'', ''1e-06''), (''rope_theta'', ''10000000.0''),
       (''vocab_size'', to_string_int 248320)]\<rparr>"

definition example_stof :: "string \<Rightarrow> conv_error + f32_value" where
  "example_stof s = Inr (Finite (if s = ''1e-06'' then 1 / 10 ^ 6 else 10000000))"

definition example_config :: model_config where
  "example_config = (ModelConfig id)\<lparr>cfg_quant_scheme := ''INT4-G128-SYM'', is_int8_kv := False, full_attention_interval := 4\<rparr>"

lemma stoll_text: "- (2 ^ 63) \<le> i \<Longrightarrow> i < 2 ^ 63 \<Longrightarrow> stoll (to_string_int i) = Inr i"
  using sto_signed_to_string [of 64 i] by (simp add: stoll_def)

lemma to_string_int_ne [simp]: "to_string_int i \<noteq> []"
  using nat_digits_digits by (simp add: to_string_int_def)

lemma example_scheme: "scheme_group_size ''INT4-G128-SYM'' = Some (Inr 128)"
  by code_simp

lemma example_configured: "configure example_stof id example_meta = Inr example_config"
proof -
  have no_int8: "\<not> contains ''INT4-G128-SYM'' ''INT8-KV''" by code_simp
  show ?thesis
    by (simp add: configure_def example_meta_def scheme_check_def example_scheme int8_kv_scheme_def no_int8
        ModelConfig_def required_props_def optional_props_def validate_int_prop_def validate_optional_int_prop_def
        validate_float_prop_def first_error_def example_stof_def example_config_def stoll_text)
qed

lemma example_meta_ok: "metadata_ok example_meta"
  by (simp add: metadata_ok_def map_ok_def example_meta_def)

lemma example_types: "meta_types example_meta = []" "types_usable example_config []"
  by (simp_all add: meta_types_def example_meta_def types_usable_def)


section \<open>Sections\<close>

definition example_tokenizer_json :: string where
  "example_tokenizer_json = tokenizer_json [(''<|endoftext|>'', 3), (''<|im_start|>'', 4), (''<|im_end|>'', 5)]
     [(''a'', 0), (''b'', 1)] [''a b'']"

definition zero_section :: "string \<times> nat \<Rightarrow> pending_section" where
  "zero_section = (\<lambda>(name, n). \<lparr>sec_name = name, sec_type = TensorWeights, sec_flags = 0, sec_data = replicate n 0\<rparr>)"

definition tokenizer_section :: pending_section where
  "tokenizer_section = \<lparr>sec_name = ''tokenizer.data'', sec_type = TokenizerData, sec_flags = 0,
     sec_data = bytes_of_string example_tokenizer_json\<rparr>"

definition example_writer :: artifact_writer where
  "example_writer = \<lparr>metadata_json = to_json example_meta,
     pending = tokenizer_section # map zero_section (model_sections example_config [])\<rparr>"


section \<open>Names\<close>

definition linear_names :: "string \<Rightarrow> string list" where
  "linear_names s = [s, s @ ''.scales'']"

definition common_names :: "string list" where
  "common_names = [''.input_layernorm.weight'', ''.post_attention_layernorm.weight'']
     @ linear_names ''.mlp.gate_proj.weight'' @ linear_names ''.mlp.up_proj.weight'' @ linear_names ''.mlp.down_proj.weight''"

definition full_names :: "string list" where
  "full_names = common_names @ linear_names ''.self_attn.q_proj.weight'' @ linear_names ''.self_attn.k_proj.weight''
     @ linear_names ''.self_attn.v_proj.weight'' @ linear_names ''.self_attn.o_proj.weight''
     @ [''.self_attn.q_norm.weight'', ''.self_attn.k_norm.weight'']"

definition recurrent_names :: "string list" where
  "recurrent_names = common_names @ linear_names ''.linear_attn.in_proj_qkv.weight'' @ linear_names ''.linear_attn.in_proj_z.weight''
     @ linear_names ''.linear_attn.in_proj_b.weight'' @ linear_names ''.linear_attn.in_proj_a.weight''
     @ linear_names ''.linear_attn.out_proj.weight''
     @ [''.linear_attn.conv1d.weight'', ''.linear_attn.A_log'', ''.linear_attn.dt_bias'', ''.linear_attn.norm.weight'']"

definition layer_names :: "model_config \<Rightarrow> nat \<Rightarrow> string list" where
  "layer_names c l = (if layer_kind c [] l = ''full_attention'' then full_names else recurrent_names)"

lemma layer_section_names: "map fst (layer_sections c [] l) = map ((@) (layer_prefix l)) (layer_names c l)"
  by (simp add: layer_sections_def common_sections_def full_sections_def recurrent_sections_def layer_names_def
      full_names_def recurrent_names_def common_names_def linear_names_def linear_sections_def vector_section_def Let_def)

definition suffix_ok :: "string \<Rightarrow> bool" where
  "suffix_ok s \<longleftrightarrow> (case s of [] \<Rightarrow> False | c # _ \<Rightarrow> c = CHR ''.'') \<and> length s < 64 \<and> \<not> List.member s (CHR 0x00)"

lemma suffixes: "distinct full_names" "distinct recurrent_names" "list_all suffix_ok full_names" "list_all suffix_ok recurrent_names"
  by code_simp+

lemma layer_suffixes: "distinct (layer_names c l)" "s \<in> set (layer_names c l) \<Longrightarrow> suffix_ok s" "length (layer_names c l) \<le> 30"
proof -
  have "length full_names \<le> 30" "length recurrent_names \<le> 30"
    by (simp_all add: full_names_def recurrent_names_def common_names_def linear_names_def)
  then show "length (layer_names c l) \<le> 30" by (simp add: layer_names_def)
  show "distinct (layer_names c l)" "s \<in> set (layer_names c l) \<Longrightarrow> suffix_ok s"
    using suffixes by (auto simp: layer_names_def list_all_iff split: if_splits)
qed

text \<open>The layer number can be read off a name.\<close>

definition layer_of :: "string \<Rightarrow> string" where
  "layer_of name = takeWhile isdigit (drop 28 name)"

lemma layer_prefix_parts: "take 28 (layer_prefix l @ s) = ''model.language_model.layers.''"
  "drop 28 (layer_prefix l @ s) = to_string l @ s"
  by (simp_all add: layer_prefix_def)

lemma layer_of_name:
  assumes "suffix_ok s"
  shows "layer_of (layer_prefix l @ s) = to_string l"
proof -
  obtain s' where s: "s = CHR ''.'' # s'" using assms by (auto simp: suffix_ok_def split: list.splits)
  have "takeWhile isdigit (to_string l @ s) = to_string l @ takeWhile isdigit s"
    by (rule takeWhile_append2) (use nat_digits_digits [of l] in \<open>auto simp: to_string_def list_all_iff\<close>)
  then show ?thesis unfolding layer_of_def layer_prefix_parts(2) by (simp add: s isdigit_def)
qed

lemma to_string_inject: "to_string i = to_string j \<longleftrightarrow> i = j"
  using dec_value_nat_digits unfolding to_string_def by metis

lemma distinct_layer_names:
  "distinct ls \<Longrightarrow> distinct (concat (map (\<lambda>l. map ((@) (layer_prefix l)) (layer_names c l)) ls))"
proof (induction ls)
  case (Cons l ls)
  have "distinct (map ((@) (layer_prefix l)) (layer_names c l))"
    using layer_suffixes(1) by (simp add: distinct_map inj_on_def)
  moreover have "layer_prefix l @ s \<noteq> layer_prefix k @ t"
    if "s \<in> set (layer_names c l)" "t \<in> set (layer_names c k)" "k \<in> set ls" for s t k
    using layer_of_name [OF layer_suffixes(2) [OF that(1)], of l] layer_of_name [OF layer_suffixes(2) [OF that(2)], of k]
      that(3) Cons.prems to_string_inject by (metis distinct.simps(2))
  ultimately show ?case using Cons by auto
qed simp

lemma section_names:
  "map fst (model_sections c []) = [''model.language_model.embed_tokens.weight'', ''model.language_model.norm.weight'',
     ''lm_head.weight'', ''lm_head.weight.scales'']
     @ concat (map (\<lambda>l. map ((@) (layer_prefix l)) (layer_names c l)) [0..<nat (num_hidden_layers c)])"
  by (simp add: model_sections_def vector_section_def linear_sections_def map_concat comp_def layer_section_names)

lemma distinct_section_names: "distinct (map fst (model_sections c []))"
proof -
  let ?top = "[''model.language_model.embed_tokens.weight'', ''model.language_model.norm.weight'',
     ''lm_head.weight'', ''lm_head.weight.scales'']"
  let ?layers = "concat (map (\<lambda>l. map ((@) (layer_prefix l)) (layer_names c l)) [0..<nat (num_hidden_layers c)])"
  have "take 28 x = ''model.language_model.layers.''" if "x \<in> set ?layers" for x
    using that by (auto simp only: set_concat set_map layer_prefix_parts(1))
  moreover have "take 28 x \<noteq> ''model.language_model.layers.''" if "x \<in> set ?top" for x using that by auto
  ultimately have "set ?top \<inter> set ?layers = {}" by blast
  moreover have "distinct ?layers" by (rule distinct_layer_names) simp
  moreover have "distinct ?top" by simp
  ultimately show ?thesis unfolding section_names distinct_append by blast
qed

lemma short_digits: "l < 100 \<Longrightarrow> length (nat_digits l) \<le> 2"
  by (subst nat_digits.simps, subst nat_digits.simps) auto

lemma layer_name_ok:
  assumes "suffix_ok s" "l < 100"
  shows "layer_prefix l @ s \<noteq> []" "length (layer_prefix l @ s) < 96" "CHR 0x00 \<notin> set (layer_prefix l @ s)"
proof -
  have "c \<noteq> CHR 0x00" if "c \<in> set (nat_digits l)" for c
    using nat_digits_digits [of l] that by (auto simp: list_all_iff isdigit_def)
  then show "layer_prefix l @ s \<noteq> []" "length (layer_prefix l @ s) < 96" "CHR 0x00 \<notin> set (layer_prefix l @ s)"
    using assms short_digits [of l] by (auto simp: layer_prefix_def to_string_def suffix_ok_def)
qed

lemma example_dims:
  "vocab_size example_config = 248320" "hidden_size example_config = 5120" "intermediate_size example_config = 17408"
  "num_hidden_layers example_config = 64" "num_attention_heads example_config = 24" "num_key_value_heads example_config = 4"
  "cfg_head_dim example_config = 256" "group_size example_config = 128" "cfg_linear_conv_channels example_config = 10240"
  "cfg_linear_conv_kernel_dim example_config = 4" "cfg_linear_num_v_heads example_config = 48" "linear_z_dim example_config = 6144"
  "linear_b_dim example_config = 48" "linear_a_dim example_config = 48" "linear_norm_dim example_config = 128"
  by (simp_all add: example_config_def ModelConfig_def)

definition size_ok :: "nat \<Rightarrow> bool" where
  "size_ok n \<longleftrightarrow> 0 < n \<and> n < 2 ^ 32"

lemma layer_sizes: "list_all (\<lambda>x. size_ok (snd x)) (layer_sections example_config [] l)"
  by (simp add: layer_sections_def common_sections_def full_sections_def recurrent_sections_def linear_sections_def
      vector_section_def Let_def size_ok_def example_dims full_q_gate_dim_def full_k_dim_def full_v_dim_def full_out_dim_def)

lemma section_sizes: "x \<in> set (model_sections example_config []) \<Longrightarrow> size_ok (snd x)"
  using layer_sizes
  by (auto simp: model_sections_def vector_section_def linear_sections_def list_all_iff size_ok_def example_dims)

lemma section_name_ok:
  assumes "name \<in> set (map fst (model_sections example_config []))"
  shows "name \<noteq> [] \<and> length name < 96 \<and> CHR 0x00 \<notin> set name \<and> name \<noteq> ''tokenizer.data''"
proof (cases "name \<in> {''model.language_model.embed_tokens.weight'', ''model.language_model.norm.weight'',
     ''lm_head.weight'', ''lm_head.weight.scales''}")
  case True
  then show ?thesis by auto
next
  case False
  then obtain l s where l: "l < 64" "s \<in> set (layer_names example_config l)" "name = layer_prefix l @ s"
    using assms unfolding section_names by (auto simp: example_dims)
  have "take 28 name = ''model.language_model.layers.''" unfolding l(3) by (rule layer_prefix_parts)
  then have "name \<noteq> ''tokenizer.data''" by auto
  then show ?thesis using layer_name_ok [OF layer_suffixes(2) [OF l(2)], of l] l(1,3) by simp
qed

lemma section_count: "length (model_sections example_config []) \<le> 1924"
proof -
  have "length (layer_sections example_config [] l) \<le> 30" for l
    using layer_suffixes(3) [of example_config l] arg_cong [OF layer_section_names [of example_config l], of length] by simp
  then have "sum_list (map (\<lambda>l. length (layer_sections example_config [] l)) ls) \<le> 30 * length ls" for ls :: "nat list"
    by (induction ls) (auto simp: add_mono)
  from this [of "[0..<64]"] show ?thesis
    by (simp add: model_sections_def vector_section_def linear_sections_def length_concat comp_def example_dims)
qed


section \<open>The written file\<close>

lemma layout_length:
  "length (fst (layout off secs)) \<le> sum_list (map (\<lambda>s. 64 + length (sec_data s)) secs)"
proof (induction secs arbitrary: off)
  case (Cons s secs)
  obtain bs es where l: "layout (off + pad_len off + length (sec_data s)) secs = (bs, es)" by fastforce
  have pad: "pad_len off \<le> 64" by (simp add: pad_len_def)
  have "length bs \<le> sum_list (map (\<lambda>s. 64 + length (sec_data s)) secs)"
    using Cons.IH [of "off + pad_len off + length (sec_data s)"] l by simp
  then show ?case using pad l by (simp add: Let_def)
qed simp

text \<open>Crude bounds on the printed texts are enough.\<close>

lemma length_nat_digits: "length (nat_digits n) \<le> Suc n"
proof (induction n rule: nat_digits.induct)
  case (1 n)
  show ?case
  proof (cases "n < 10")
    case True
    then show ?thesis by (subst nat_digits.simps) simp
  next
    case False
    then have "n div 10 < n" by simp
    then show ?thesis using 1 [OF False] False by (subst nat_digits.simps) simp
  qed
qed

lemma length_escape: "length (escape_json_string s) \<le> 6 * length s + 2"
proof -
  have "length (escape_char c) \<le> 6" for c by (simp add: escape_char_def unicode4_def Let_def)
  then have "length (concat (map escape_char s)) \<le> 6 * length s"
    by (induction s) (auto intro: add_mono)
  then show ?thesis by (simp add: escape_json_string_def)
qed

lemma length_properties:
  "length (properties_json b ps) \<le> sum_list (map (\<lambda>(k, v). 12 + 6 * length k + 6 * length v) ps)"
proof (induction b ps rule: properties_json.induct)
  case (2 first k v ps)
  then show ?case using length_escape [of k] length_escape [of v] by simp
qed simp

lemma example_texts: "length (to_json example_meta) < 2 ^ 40" "length example_tokenizer_json < 2 ^ 40"
proof -
  have i: "length (to_string_int i) \<le> Suc (nat i)" if "0 \<le> i" for i
    using length_nat_digits [of "nat i"] that by (simp add: to_string_int_def)
  have "length (properties_json True (properties example_meta)) \<le> 2 ^ 30"
    using length_properties [of True "properties example_meta"] i [of 4] i [of 256] i [of 5120] i [of 17408] i [of 24]
      i [of 64] i [of 248320] by (simp add: example_meta_def)
  then show "length (to_json example_meta) < 2 ^ 40"
    using length_escape [of "model_name example_meta"] length_escape [of "quant_scheme example_meta"]
      length_escape [of "tokenizer_type example_meta"] by (simp add: to_json_def example_meta_def)
  show "length example_tokenizer_json < 2 ^ 40"
    by (simp add: example_tokenizer_json_def tokenizer_json_def before_merges_def before_vocab_def added_entry_def
        vocab_entry_def quote_def tok_escape_char_def nat_digits.simps key_added_tokens_def key_vocab_def key_merges_def)
qed

lemma example_writer_ok: "writer_ok example_writer"
  using distinct_section_names [of example_config] section_name_ok
  by (auto simp: writer_ok_def example_writer_def tokenizer_section_def zero_section_def comp_def case_prod_unfold)

lemma example_offset: "final_offset example_writer + FOOTER_SIZE < 2 ^ 62"
proof -
  let ?secs = "model_sections example_config []"
  have "sum_list (map (\<lambda>x. 64 + snd x) xs) \<le> 2 ^ 33 * length xs" if "list_all (\<lambda>x. size_ok (snd x)) xs" for xs :: "(string \<times> nat) list"
    using that by (induction xs) (auto simp: size_ok_def)
  from this [of ?secs] have sum: "sum_list (map (\<lambda>x. 64 + snd x) ?secs) \<le> 2 ^ 33 * 1924"
    using section_sizes section_count by (fastforce simp: list_all_iff)
  have "length (body_bytes example_writer) \<le> 64 + length example_tokenizer_json + sum_list (map (\<lambda>x. 64 + snd x) ?secs)"
    using layout_length [of _ "pending example_writer"]
    by (simp add: body_bytes_def example_writer_def tokenizer_section_def zero_section_def comp_def case_prod_unfold)
  moreover have "length (body_entries example_writer) \<le> 1925"
    using section_count by (simp add: example_writer_def)
  moreover have "pad_len (64 + length (metadata_json example_writer) + length (body_bytes example_writer)) \<le> 64"
    by (simp add: pad_len_def)
  moreover have "length (metadata_json example_writer) < 2 ^ 40" using example_texts(1) by (simp add: example_writer_def)
  ultimately show ?thesis
    using sum example_texts(2) unfolding final_offset_def table_offset_def Let_def by simp
qed

definition example_max_alloc :: nat where
  "example_max_alloc = 2 ^ 62"

lemma example_writable: "writable example_max_alloc example_writer"
proof -
  have "length (pending example_writer) < 2 ^ 32"
    using section_count by (simp add: example_writer_def)
  moreover have "\<forall>s \<in> set (pending example_writer). CHR 0x00 \<notin> set (sec_name s)"
    using section_name_ok by (force simp: example_writer_def tokenizer_section_def zero_section_def)
  ultimately show ?thesis
    using example_writer_ok example_offset by (simp add: writable_def example_max_alloc_def)
qed

lemma example_provides: "list_all (provides example_writer) (model_sections example_config [])"
proof -
  have "provides example_writer (name, n)" if "(name, n) \<in> set (model_sections example_config [])" for name n
  proof -
    have "zero_section (name, n) \<in> set (pending example_writer)" using that by (simp add: example_writer_def)
    moreover have "size_ok n" using section_sizes [OF that] by simp
    ultimately show ?thesis
      by (auto simp: provides_def size_ok_def list_ex_iff zero_section_def intro!: bexI [of _ "zero_section (name, n)"])
  qed
  then show ?thesis by (auto simp: list_all_iff)
qed

lemma example_tokenizer:
  "fst (load_from_json_buffer t example_tokenizer_json) = None"
  "list_all (\<lambda>(c, i). c \<noteq> []) (special_tokens (snd (load_from_json_buffer t example_tokenizer_json)))"
proof -
  let ?toks = "[(''<|endoftext|>'', 3), (''<|im_start|>'', 4), (''<|im_end|>'', 5)] :: (string \<times> int) list"
  let ?voc = "[(''a'', 0), (''b'', 1)] :: (string \<times> int) list"
  have nul: "CHR 0x00 \<notin> set (tokenizer_json ?toks ?voc [''a b''])" by code_simp
  have voc: "find_sub key_vocab (tokenizer_json ?toks ?voc [''a b'']) = Some (length (before_vocab ?toks))" by code_simp
  have mer: "find_sub key_merges (tokenizer_json ?toks ?voc [''a b'']) = Some (length (before_merges ?toks ?voc))" by code_simp
  have ids: "list_all id_ok ?toks" "list_all id_ok ?voc" by (simp_all add: id_ok_def)
  have "parse_sections example_tokenizer_json u = (let t2 = fold put_vocab ?voc (fold put_added ?toks u) in
      t2\<lparr>bpe_ranks := put_merges 0 [''a b''] (bpe_ranks t2)\<rparr>)" for u
    unfolding example_tokenizer_json_def by (rule parse_sections_file [OF refl nul voc mer ids])
  moreover have "example_tokenizer_json \<noteq> []" by (simp add: example_tokenizer_json_def tokenizer_json_def before_merges_def before_vocab_def)
  ultimately show "fst (load_from_json_buffer t example_tokenizer_json) = None"
    "list_all (\<lambda>(c, i). c \<noteq> []) (special_tokens (snd (load_from_json_buffer t example_tokenizer_json)))"
    by (simp_all add: load_from_json_buffer_def sort_specials_def resolve_specials_def resolve_id_def check_loaded_def
        put_vocab_def put_added_def register_added_def clear_tables_def Let_def list_all_iff)
qed


section \<open>The world\<close>

text \<open>The device of the small examples, with memory for everything.\<close>

definition example_world :: "int list load_world" where
  "example_world = \<lparr>lw_ctx = (\<lambda>_. True), lw_files = [''model.xinfer'' \<mapsto> written_file example_writer],
     lw_is_dir = (\<lambda>_. False), lw_join = (\<lambda>d f. d @ ''/'' @ f), lw_parent = (\<lambda>_. ''.''),
     lw_max_alloc = example_max_alloc,
     lw_weights = \<lparr>env_max_alloc = example_max_alloc, env_usm = (\<lambda>k _ _. 0x1000), env_add_one = id\<rparr>,
     lw_stof = example_stof, lw_f32 = id, lw_kv_malloc = (\<lambda>_. 0x10000), lw_rec_malloc = (\<lambda>_. 0x20000),
     lw_graph_mem = replicate 20 0x30000, lw_draft_mem = replicate 20 0x40000, lw_has_graph = True,
     lw_graph_ok = True, lw_draft_ok = True, lw_device = toy_device 5\<rparr>"

definition example_engine_config :: engine_config where
  "example_engine_config = \<lparr>artifact_path = ''model.xinfer'', tokenizer_path = [], chat_template_path = [], prefer_b60 = True,
     arena_capacity_bytes = 268435456, cfg_max_seq_len = 8192, prefill_chunk_size = 512, cfg_validate_checksum = True,
     use_int8_kv = False, enable_speculative = True, cfg_draft_tokens_num = 4\<rparr>"

lemma toy_exec_ok: "exec_ok (toy_device v)"
proof -
  have "length (snd (toy_exec k (d, r))) = length r" for k d r by (cases k) simp_all
  then show ?thesis by (simp add: exec_ok_def toy_device_def)
qed

end
