(* ===== verification/Engine_Start.thy ===== *)
theory Engine_Start
  imports Engine_Load Example_Model
begin

text \<open>
  The composition of the components, from an artifact on disk to an answer: a model that was
  written with every tensor it needs and a tokenizer opens, validates and loads, the engine comes
  up, and generation on it returns within its limits. The example at the end is a complete model of
  64 layers.
\<close>


section \<open>A device with enough memory\<close>

definition enough_memory :: "'d load_world \<Rightarrow> bool" where
  "enough_memory w \<longleftrightarrow> allocates (lw_weights w) \<and> (\<forall>al n. arena_usm (lw_device w) al n \<noteq> 0)
     \<and> (\<forall>n. lw_kv_malloc w n \<noteq> 0) \<and> (\<forall>n. lw_rec_malloc w n \<noteq> 0)"

lemma arena_succeeds: "(\<forall>al n. usm al n \<noteq> 0) \<Longrightarrow> \<exists>a. DeviceArena usm True cap al = Inr a"
  by (simp add: DeviceArena_def allocate_device_def Let_def)

text \<open>The INT8 cache needs the scheme in the metadata.\<close>

definition kv_scheme_ok :: "engine_config \<Rightarrow> model_config \<Rightarrow> bool" where
  "kv_scheme_ok cfg c \<longleftrightarrow> (use_int8_kv cfg \<or> is_int8_kv c \<longrightarrow> contains (cfg_quant_scheme c) ''INT8-KV'')"

lemma init_succeeds:
  assumes "default_dims_ok c" "kv_scheme_ok cfg c"
  shows "init (create_kv_cache_config c len (use_int8_kv cfg)) = Inr True"
  using assms by (auto simp: init_def create_kv_cache_config_def default_dims_ok_def kv_scheme_ok_def Let_def)

lemma cache_succeeds:
  assumes "default_dims_ok c" "kv_scheme_ok cfg c" "\<forall>n. kvm n \<noteq> 0" "\<forall>n. recm n \<noteq> 0"
  shows "\<exists>kv. kv_allocate kvm recm (KVCache True (create_kv_cache_config c len (use_int8_kv cfg))) = (Inr True, kv)"
proof -
  let ?kv0 = "KVCache True (create_kv_cache_config c len (use_int8_kv cfg))"
  obtain kv1 where kv1: "allocate_kv kvm ?kv0 = (True, kv1)"
    using assms(3) by (cases "kv_dtype (config ?kv0)") (simp_all add: allocate_kv_def Let_def)
  obtain kv2 where kv2: "allocate_recurrent recm kv1 = (True, kv2)"
    using assms(4) by (cases "allocate_recurrent recm kv1") (auto simp: allocate_recurrent_def Let_def split: if_splits)
  show ?thesis
    using kv1 kv2 init_succeeds [OF assms(1,2), of len] by (simp add: kv_allocate_def KVCache_def)
qed

lemma same_scheme_ok: "same_scheme c c' \<Longrightarrow> kv_scheme_ok cfg c' = kv_scheme_ok cfg c"
  by (simp add: same_scheme_def kv_scheme_ok_def)

lemma memory_stages_succeed:
  assumes "exec_ok (lw_device w)" "enough_memory w" "kv_scheme_ok cfg (lm_config m)" "model_loaded env r s m"
  shows "\<exists>e'. stages (memory_stages w cfg m @ [set_loaded]) e = (None, e')"
proof -
  have mem: "\<forall>al n. arena_usm (lw_device w) al n \<noteq> 0" "\<forall>n. lw_kv_malloc w n \<noteq> 0" "\<forall>n. lw_rec_malloc w n \<noteq> 0"
    using assms(2) by (simp_all add: enough_memory_def)
  have dims: "default_dims_ok (lm_config m)" using assms(4) by (simp add: model_loaded_def Let_def)
  obtain a where a: "DeviceArena (arena_usm (lw_device w)) True (arena_capacity_bytes cfg) 64 = Inr a"
    using arena_succeeds [OF mem(1)] by blast
  obtain e1 where e1: "init_arena w cfg e = (None, e1)" by (simp add: init_arena_def a)
  obtain kv where "kv_allocate (lw_kv_malloc w) (lw_rec_malloc w)
      (KVCache True (create_kv_cache_config (lm_config m) (cfg_max_seq_len cfg) (use_int8_kv cfg))) = (Inr True, kv)"
    using cache_succeeds [OF dims assms(3) mem(2,3)] by blast
  then obtain e2 where e2: "init_cache w cfg m e1 = (None, e2)" by (simp add: init_cache_def)
  note c2 = init_cache_ready [OF model_loaded_consistent [OF assms(4)] e2]
  obtain err3 e3 where e3: "init_graph w m e2 = (err3, e3)" by fastforce
  note c3 = init_graph_ready [OF assms(1) conjunct1 [OF c2] e3]
  have "\<exists>e4. init_draft w cfg m e3 = (None, e4)"
  proof -
    obtain res dg g where c: "capture (lw_device w) (lw_has_graph w) (lw_draft_ok w) m (DecodeGraph (lw_draft_mem w)) (eng_gpu e3)
      = (res, dg, g)" by (cases "capture (lw_device w) (lw_has_graph w) (lw_draft_ok w) m (DecodeGraph (lw_draft_mem w)) (eng_gpu e3)")
    show ?thesis
      using capture_ready [OF assms(1) _ c] c3 by (auto simp: init_draft_def a c engine_kv_def)
  qed
  then show ?thesis using e1 e2 e3 c3 by (auto simp: memory_stages_def set_loaded_def)
qed


section \<open>A written artifact\<close>

lemma embedded_present:
  assumes "writable (lw_max_alloc w) aw" "sec \<in> set (pending aw)"
  shows "load_embedded w (sec_name sec) loader x (opened_reader aw md path)
    = (Inr (loader (string_of_bytes (sec_data sec)) x), opened_reader aw md path)"
proof -
  obtain i where i: "i < length (pending aw)" "sec = pending aw ! i" using assms(2) by (auto simp: in_set_conv_nth)
  note read = opened_reader_section [OF assms(1) i(1), of md path, folded i(2)]
  then have "has_section (opened_reader aw md path) (sec_name sec)"
    by (auto simp: has_section_def read_section_def get_section_info_def split: option.splits)
  then show ?thesis using read by (simp add: load_embedded_def)
qed

lemma embedded_returns:
  assumes "writable (lw_max_alloc w) aw"
  shows "\<exists>x'. load_embedded w name loader x (opened_reader aw md path) = (Inr x', opened_reader aw md path)"
proof (cases "has_section (opened_reader aw md path) name")
  case True
  then have "name \<in> set (map sec_name (pending aw))"
    by (auto simp: has_section_def opened_reader_def dest!: map_of_SomeD in_set_zipE)
  then obtain sec where "sec \<in> set (pending aw)" "sec_name sec = name" by auto
  then show ?thesis using embedded_present [OF assms, of sec loader x md path] by auto
qed (simp add: load_embedded_def)

lemma open_written:
  assumes "writable (lw_max_alloc w) aw" "metadata_json aw = to_json md" "metadata_ok md"
    and "lw_files w (artifact_path cfg) = Some (written_file aw)"
  shows "open_and_validate w cfg = Inr (opened_reader aw md (artifact_path cfg))"
  using open_written_file [where fs = "lw_files w", OF assms] validate_written_checksum [OF assms(1)]
  by (simp add: open_and_validate_def outcome_result_def)

text \<open>An embedded tokenizer that loads is the one the engine uses.\<close>

lemma tokenizer_from_artifact:
  assumes "writable (lw_max_alloc w) aw" "sec \<in> set (pending aw)" "sec_name sec = ''tokenizer.data''"
    and "load_from_json_buffer (eng_tokenizer e) (string_of_bytes (sec_data sec)) = (None, t)"
  shows "\<exists>e'. load_tokenizers w cfg (opened_reader aw md path) e = Some (Inr (opened_reader aw md path), e')
    \<and> eng_tokenizer e' = t"
proof -
  let ?r = "opened_reader aw md path"
  obtain x where x: "load_embedded w ''chat_template.jinja'' (\<lambda>s x. snd (load_from_string x s)) (eng_template e) ?r = (Inr x, ?r)"
    using embedded_returns [OF assms(1), of "''chat_template.jinja''" "\<lambda>s x. snd (load_from_string x s)" "eng_template e" md path]
    by blast
  have parts: "embedded_parts w ?r e = (Inr ?r, e\<lparr>eng_tokenizer := t, eng_template := x\<rparr>)"
    using embedded_present [OF assms(1,2), of "\<lambda>s t. snd (load_from_json_buffer t s)" "eng_tokenizer e" md path] assms(3,4) x
    by (simp add: embedded_parts_def)
  have t: "is_loaded t" "required_tokens t = None"
    using assms(4) by (auto simp: load_from_json_buffer_def check_loaded_def is_loaded_def required_tokens_def Let_def
        split: if_splits)
  then show ?thesis
    by (simp add: load_tokenizers_def parts external_tokenizer_def external_template_def Let_def)
qed


text \<open>An artifact on disk that holds a whole supported model.\<close>

definition whole_model :: "'d load_world \<Rightarrow> engine_config \<Rightarrow> artifact_writer \<Rightarrow> artifact_metadata \<Rightarrow> bool" where
  "whole_model w cfg aw md \<longleftrightarrow> env_max_alloc (lw_weights w) = lw_max_alloc w
     \<and> writable (lw_max_alloc w) aw \<and> metadata_json aw = to_json md \<and> metadata_ok md
     \<and> lw_files w (artifact_path cfg) = Some (written_file aw)
     \<and> (case configure (lw_stof w) (lw_f32 w) md of
          Inl e \<Rightarrow> False
        | Inr c \<Rightarrow> types_usable c (meta_types md) \<and> kv_scheme_ok cfg c
            \<and> list_all (provides aw) (model_sections c (meta_types md)))"

lemma whole_model_loads:
  assumes "exec_ok (lw_device w)" "enough_memory w" "lw_ctx w (prefer_b60 cfg)" "whole_model w cfg aw md"
    and "sec \<in> set (pending aw)" "sec_name sec = ''tokenizer.data''"
    and "load_from_json_buffer (eng_tokenizer e0) (string_of_bytes (sec_data sec)) = (None, t)"
  shows "\<exists>e. engine_load w cfg e0 = Some (None, e) \<and> eng_tokenizer e = t"
proof -
  note whole = assms(4) [unfolded whole_model_def]
  obtain c where c: "configure (lw_stof w) (lw_f32 w) md = Inr c" "types_usable c (meta_types md)" "kv_scheme_ok cfg c"
    "list_all (provides aw) (model_sections c (meta_types md))"
    using whole by (cases "configure (lw_stof w) (lw_f32 w) md") auto
  let ?r = "opened_reader aw md (artifact_path cfg)"
  have wr: "writable (env_max_alloc (lw_weights w)) aw" "writable (lw_max_alloc w) aw" using whole by simp_all
  have open': "open_and_validate w cfg = Inr ?r" by (rule open_written) (use whole in simp_all)
  obtain e1 where e1: "load_tokenizers w cfg ?r (e0\<lparr>eng_config := cfg\<rparr>) = Some (Inr ?r, e1)" "eng_tokenizer e1 = t"
    using tokenizer_from_artifact [OF wr(2) assms(5,6), of "e0\<lparr>eng_config := cfg\<rparr>"] assms(7) by fastforce
  have "allocates (lw_weights w)" using assms(2) by (simp add: enough_memory_def)
  from written_model_loads [OF this wr(1) c(1,2,4), of "artifact_path cfg"] obtain m s where
    m: "load_from_artifact (lw_weights w) (lw_stof w) (lw_f32 w) True ?r = (Inr m, s, [])"
      "model_loaded (lw_weights w) ?r s m" "same_scheme c (lm_config m)" by blast
  have mat: "materialize_model w ?r e1 = (Inr m, e1\<lparr>eng_model := Some m\<rparr>)" by (simp add: materialize_model_def m(1))
  have "kv_scheme_ok cfg (lm_config m)" using c(3) same_scheme_ok [OF m(3)] by simp
  from memory_stages_succeed [OF assms(1,2) this m(2)] obtain e where
    e: "stages (memory_stages w cfg m @ [set_loaded]) (e1\<lparr>eng_model := Some m\<rparr>) = (None, e)" by blast
  have "same_parts (e1\<lparr>eng_model := Some m\<rparr>) (snd (stages (memory_stages w cfg m) (e1\<lparr>eng_model := Some m\<rparr>)))"
    by (rule stages_keep [OF memory_stages_keep])
  then have "eng_tokenizer e = t"
    using e e1(2) by (auto simp: stages_append set_loaded_def same_parts_def split: prod.splits option.splits)
  moreover have "engine_load w cfg e0 = Some (None, e)"
    using e by (simp add: engine_load_def assms(3) open' e1(1) mat memory_stages_def)
  ultimately show ?thesis by blast
qed


section \<open>Loading and serving\<close>

text \<open>
  C8. \<^verbatim>\<open>load\<close> succeeds completely or leaves the engine not loaded: for every file system, artifact,
  allocator and device, when it reports success the engine has a tokenizer with the tokens that
  generation needs, a model whose tensors are the checked sections of the artifact, an empty KV
  cache of the configured size with a slice for each layer of the model and its invariant, an
  arena of the configured capacity, a decode graph that is captured exactly when the device
  can, and the draft context when speculation is on. When it reports an error, it has not set the
  loaded flag.
\<close>

theorem engine_load_correct:
  assumes "exec_ok (lw_device w)" "engine_load w cfg e0 = Some (err, e)"
  shows "eng_config e = cfg \<and> (if err = None then engine_ready w cfg e else eng_loaded e = eng_loaded e0)"
  by (rule engine_load_ready [OF assms])



section \<open>The example\<close>

lemma example_scheme_ok: "kv_scheme_ok example_engine_config example_config"
  by (simp add: kv_scheme_ok_def example_engine_config_def example_config_def)

lemma example_metadata [simp]: "metadata_json example_writer = to_json example_meta"
  by (simp add: example_writer_def)

lemma example_device: "exec_ok (lw_device example_world)" "device_ok (lw_device example_world)"
  "lw_ctx example_world b" "lw_weights example_world = \<lparr>env_max_alloc = example_max_alloc, env_usm = (\<lambda>k _ _. 0x1000), env_add_one = id\<rparr>"
  by (simp_all add: example_world_def toy_exec_ok toy_device_ok)

lemma example_memory: "enough_memory example_world"
  by (simp add: enough_memory_def example_world_def allocates_def toy_device_def)

lemma example_whole: "whole_model example_world example_engine_config example_writer example_meta"
proof -
  have "lw_max_alloc example_world = example_max_alloc" "lw_stof example_world = example_stof" "lw_f32 example_world = id"
    "lw_files example_world (artifact_path example_engine_config) = Some (written_file example_writer)"
    by (simp_all add: example_world_def example_engine_config_def)
  then show ?thesis
    using example_writable example_meta_ok example_configured example_types example_provides example_scheme_ok
    by (simp add: whole_model_def example_device)
qed

lemma example_tokenizer_section:
  "tokenizer_section \<in> set (pending example_writer)" "sec_name tokenizer_section = ''tokenizer.data''"
  "string_of_bytes (sec_data tokenizer_section) = example_tokenizer_json"
  by (simp_all add: example_writer_def tokenizer_section_def)

lemma example_tokenizer_loads:
  obtains t where "load_from_json_buffer u (string_of_bytes (sec_data tokenizer_section)) = (None, t)"
    "list_all (\<lambda>(c, i). c \<noteq> []) (special_tokens t)"
  using example_tokenizer [of u] unfolding example_tokenizer_section by (metis prod.collapse)

text \<open>The load of the example succeeds, so its result is the engine that generation needs.\<close>

theorem engine_load_correct_witness:
  "\<exists>e. engine_load example_world example_engine_config toy_engine = Some (None, e)
    \<and> eng_config e = example_engine_config \<and> engine_ready example_world example_engine_config e"
proof -
  obtain t where "load_from_json_buffer (eng_tokenizer toy_engine) (string_of_bytes (sec_data tokenizer_section)) = (None, t)"
    using example_tokenizer_loads by blast
  from whole_model_loads [OF example_device(1) example_memory example_device(3) example_whole example_tokenizer_section(1,2) this]
  obtain e where e: "engine_load example_world example_engine_config toy_engine = Some (None, e)" by blast
  from engine_load_correct [OF example_device(1) e] e show ?thesis by simp
qed


end
