(* ===== verification/Server.thy ===== *)
theory Server
  imports Http Engine Image_Header
begin

text \<open>
  \<^verbatim>\<open>HttpServer::handle_client\<close> of \<^verbatim>\<open>src/serve/server.cpp\<close>: from the first byte of a connection to its
  close, with every error answer, the JSON answer and the event stream. The engine is the model of
  Engine.thy; its exceptions never leave \<^verbatim>\<open>generate\<close>, so the handlers around it are not reached.
  The request id and the time are arguments. \<open>None\<close> means that handling does not end in a defined
  way: the tokenizer does not return, or an image header is read past its end.
\<close>


record server_config =
  srv_host :: string
  srv_port :: int
  max_request_size :: u64
  model_id :: string
  num_workers :: nat
  max_queued_requests :: nat
  recv_timeout_sec :: int

definition ServerConfig :: server_config where
  "ServerConfig = \<lparr>srv_host = ''0.0.0.0'', srv_port = 8080, max_request_size = 10 * 1024 * 1024,
     model_id = ''qwen3.8-27b'', num_workers = 8, max_queued_requests = 32, recv_timeout_sec = 15\<rparr>"

text \<open>The engine's parameters, the socket, and the number conversions of the library.\<close>

record 'd server_env =
  srv_engine :: "'d engine_env"
  srv_send :: send_fn
  srv_stod :: "string \<Rightarrow> rat option"
  srv_f32 :: "rat \<Rightarrow> rat"
  print_float :: "rat \<Rightarrow> string"
  print_ratio :: "rat \<Rightarrow> string"


section \<open>Answers before the body is read\<close>

definition error_answer :: "string \<Rightarrow> api_error \<Rightarrow> string" where
  "error_answer status err = http_response status (error_to_json err)"

definition bad_request :: "api_error \<Rightarrow> string" where
  "bad_request = error_answer ''400 Bad Request''"

definition header_too_large :: string where
  "header_too_large = ''HTTP/1.1 431 Request Header Fields Too Large'' @ CRLF @ ''Connection: close'' @ CRLF @ CRLF"

definition cors_answer :: string where
  "cors_answer = ''HTTP/1.1 204 No Content'' @ CRLF @ ''Access-Control-Allow-Origin: *'' @ CRLF
     @ ''Access-Control-Allow-Methods: GET, POST, OPTIONS'' @ CRLF
     @ ''Access-Control-Allow-Headers: Content-Type, Authorization'' @ CRLF @ ''Connection: close'' @ CRLF @ CRLF"

definition health_answer :: string where
  "health_answer = http_response ''200 OK'' (''{'' @ key_text ''status'' @ [QUOTE] @ ''ok'' @ [QUOTE] @ ''}'')"

definition models_answer :: "string \<Rightarrow> int \<Rightarrow> string" where
  "models_answer name now =
     http_response ''200 OK''
       (''{'' @ key_text ''object'' @ [QUOTE] @ ''list'' @ [QUOTE] @ '','' @ key_text ''data'' @ ''[{''
        @ key_text ''id'' @ [QUOTE] @ name @ [QUOTE] @ '','' @ key_text ''object'' @ [QUOTE] @ ''model'' @ [QUOTE]
        @ '','' @ key_text ''created'' @ to_string_int now
        @ '','' @ key_text ''owned_by'' @ [QUOTE] @ ''xinfer'' @ [QUOTE] @ ''}]}'')"

definition not_found :: "string \<Rightarrow> string" where
  "not_found path = error_answer ''404 Not Found''
     ((api_err ''not_found'' (''The requested endpoint '' @ [APOS] @ path @ [APOS]
         @ '' does not exist. Use POST /v1/chat/completions.''))\<lparr>status_code := 404\<rparr>)"

definition chunked_unsupported :: string where
  "chunked_unsupported = bad_request
     ((api_err ''unsupported_parameter''
         ''Chunked transfer encoding is not supported. Please provide a Content-Length header.'')
        \<lparr>err_param := ''Transfer-Encoding''\<rparr>)"

definition too_large :: string where
  "too_large =
     (let body = error_to_json ((api_err ''request_entity_too_large'' ''Request body exceeds max configured size.'')
                   \<lparr>status_code := 413\<rparr>)
      in ''HTTP/1.1 413 Payload Too Large'' @ CRLF @ ''Content-Type: application/json'' @ CRLF
         @ ''Content-Length: '' @ to_string (length body) @ CRLF @ ''Connection: close'' @ CRLF @ CRLF @ body)"

definition request_timeout :: string where
  "request_timeout = error_answer ''408 Request Timeout''
     ((api_err ''request_timeout'' ''Client timed out or disconnected before complete request body was received.'')
        \<lparr>status_code := 408\<rparr>)"

definition chat_path :: "string \<Rightarrow> bool" where
  "chat_path p \<longleftrightarrow> p = ''/v1/chat/completions'' \<or> p = ''/chat/completions''"

text \<open>The answer to a request that is not to be read further.\<close>

definition early_answer :: "server_config \<Rightarrow> int \<Rightarrow> http_head \<Rightarrow> string option" where
  "early_answer cfg now h =
     (if head_method h = ''OPTIONS'' then Some cors_answer
      else if head_method h = ''GET'' \<and> (head_path h = ''/health'' \<or> head_path h = ''/v1/health'') then Some health_answer
      else if head_method h = ''GET'' \<and> (head_path h = ''/v1/models'' \<or> head_path h = ''/models'')
      then Some (models_answer (model_id cfg) now)
      else if head_method h \<noteq> ''POST'' \<or> \<not> chat_path (head_path h) then Some (not_found (head_path h))
      else if head_chunked h then Some chunked_unsupported
      else if max_request_size cfg < head_content_length h then Some too_large
      else None)"


section \<open>Checks of the request\<close>

definition parse_request :: "'d server_env \<Rightarrow> http_head \<Rightarrow> string \<Rightarrow> api_error + chat_completion_request" where
  "parse_request srv h body =
     (if contains (head_content_type h) ''multipart/form-data'' then
        parse_multipart_chat_completion_request (srv_stod srv) (srv_f32 srv) body
          (multipart_boundary (head_content_type h)) default_request
      else parse_chat_completion_request (srv_stod srv) (srv_f32 srv) body default_request)"

datatype image_check = Images_ok | Images_bad api_error | Images_undefined

definition image_invalid_text :: "(rat \<Rightarrow> string) \<Rightarrow> image_invalid \<Rightarrow> string" where
  "image_invalid_text print e =
     (case e of
        Not_positive \<Rightarrow> ''Invalid image dimensions: width and height must be positive''
      | Resolution_exceeded w h m \<Rightarrow>
          ''Image resolution ('' @ to_string_int w @ ''x'' @ to_string_int h @ '') exceeds maximum allowed resolution (''
          @ to_string_int m @ ''x'' @ to_string_int m @ '')''
      | Aspect_ratio_exceeded r \<Rightarrow>
          ''Image aspect ratio ('' @ print r @ '':1) exceeds maximum allowed aspect ratio (4:1)'')"

definition check_dimensions :: "'d server_env \<Rightarrow> int \<Rightarrow> int \<Rightarrow> image_check" where
  "check_dimensions srv w h =
     (case validate_image_dimensions (srv_f32 srv) w h 1024 4 of
        Inr _ \<Rightarrow> Images_ok
      | Inl e \<Rightarrow> Images_bad (api_err
          (if 1024 < w \<or> 1024 < h then ''image_resolution_exceeded'' else ''image_aspect_ratio_exceeded'')
          (image_invalid_text (print_ratio srv) e)))"

definition check_image :: "'d server_env \<Rightarrow> image_payload \<Rightarrow> image_check" where
  "check_image srv img =
     (if img_width img \<le> 0 \<or> img_height img \<le> 0 then
        (case parse_image_dimensions (Some (raw_bytes img)) default_dims of
           Parsed d \<Rightarrow> check_dimensions srv (width d) (height d)
         | Unrecognized \<Rightarrow> Images_bad (api_err ''invalid_image_format'' (''Failed to parse image headers: ''
             @ ''Unrecognized image format or missing valid image header (supported: PNG, BMP, JPEG)''))
         | Empty_buffer \<Rightarrow> Images_bad (api_err ''invalid_image_format'' (''Failed to parse image headers: ''
             @ ''Image data buffer is empty''))
         | Over_read \<Rightarrow> Images_undefined)
      else check_dimensions srv (img_width img) (img_height img))"

fun check_images :: "'d server_env \<Rightarrow> image_payload list \<Rightarrow> image_check" where
  "check_images srv [] = Images_ok"
| "check_images srv (img # imgs) =
     (case check_image srv img of Images_ok \<Rightarrow> check_images srv imgs | bad \<Rightarrow> bad)"

definition parameter_error :: "'d server_env \<Rightarrow> chat_completion_request \<Rightarrow> api_error option" where
  "parameter_error srv req =
     (if req_max_tokens req \<le> 0 then Some invalid_max_tokens
      else if req_temperature req < 0 then
        Some ((api_err ''invalid_parameter'' ''Invalid temperature: must be >= 0.0'')\<lparr>err_param := ''temperature''\<rparr>)
      else if req_temperature req \<noteq> 0 then
        Some ((api_err ''unsupported_parameter''
          (''Currently only greedy decoding (temperature=0.0) is supported. Received temperature=''
           @ print_float srv (req_temperature req) @ ''. Non-zero temperature sampling is not yet supported.''))
          \<lparr>err_param := ''temperature''\<rparr>)
      else if req_top_p req \<noteq> 1 then
        Some ((api_err ''unsupported_parameter''
          (''Currently only greedy decoding (top_p=1.0) is supported. Received top_p=''
           @ print_float srv (req_top_p req) @ ''. Nucleus (top-p) sampling is not yet supported.''))
          \<lparr>err_param := ''top_p''\<rparr>)
      else None)"

text \<open>The checks in their order; the prompt text if all pass. Counting fills the tokenizer's cache.\<close>

definition prepare_request ::
    "'d server_env \<Rightarrow> 'd engine \<Rightarrow> chat_completion_request \<Rightarrow> ((api_error + string) \<times> 'd engine) option" where
  "prepare_request srv e req =
     (case check_images srv (req_images req) of
        Images_undefined \<Rightarrow> None
      | Images_bad err \<Rightarrow> Some (Inl err, e)
      | Images_ok \<Rightarrow>
          (case parameter_error srv req of
             Some err \<Rightarrow> Some (Inl err, e)
           | None \<Rightarrow>
               (case render_chat (eng_template e) (req_messages req) default_options of
                  Inl x \<Rightarrow> Some (Inl (api_err ''chat_template_error''
                     (''Failed to format prompt with chat template: '' @ what (srv_engine srv) (Exn_template x))), e)
                | Inr prompt \<Rightarrow>
                    (case count_tokens e prompt of
                       None \<Rightarrow> None
                     | Some (n, e1) \<Rightarrow>
                         (case validate_tokens (eng_max_seq_len e1) (word_of_nat n) (req_max_tokens req) of
                            Some msg \<Rightarrow> Some (Inl (make_context_length_exceeded_error (unat (eng_max_seq_len e1)) n
                                                   (req_max_tokens req)), e1)
                          | None \<Rightarrow> Some (Inr prompt, e1))))))"


section \<open>Generation\<close>

definition generation_request :: "chat_completion_request \<Rightarrow> generation_config" where
  "generation_request req = GenerationConfig\<lparr>max_new_tokens := req_max_tokens req,
     temperature := req_temperature req, top_p := req_top_p req, gen_apply_chat_template := False\<rparr>"

definition failure_answer :: "generation_result \<Rightarrow> string" where
  "failure_answer res =
     (let status_500 = error_code res \<in> {''bad_alloc'', ''sycl_exception'', ''internal_error''};
          err = (api_err (if error_code res = [] then ''bad_request'' else error_code res) (error_msg res))
                  \<lparr>status_code := (if status_500 then 500 else 400),
                   err_type := (if status_500 then ''server_error'' else ''invalid_request_error'')\<rparr>
      in error_answer (if status_500 then ''500 Internal Server Error'' else ''400 Bad Request'') err)"

definition completion_response :: "server_config \<Rightarrow> string \<Rightarrow> int \<Rightarrow> generation_result \<Rightarrow> chat_completion_response" where
  "completion_response cfg req_id now res =
     \<lparr>resp_id = req_id, resp_created = now, resp_model = model_id cfg,
      resp_choices = [\<lparr>choice_index = 0,
         choice_message = \<lparr>role = ''assistant'', content = gen_text res, reasoning_content = gen_reasoning res\<rparr>,
         choice_finish_reason = finish_reason res\<rparr>],
      resp_usage = \<lparr>prompt_tokens = gen_prompt_tokens res, completion_tokens = generated_tokens res,
         total_tokens = gen_prompt_tokens res + generated_tokens res\<rparr>\<rparr>"

definition completion_answer :: "server_config \<Rightarrow> string \<Rightarrow> int \<Rightarrow> generation_result \<Rightarrow> string" where
  "completion_answer cfg req_id now res =
     (if success res then http_response ''200 OK'' (response_to_json (completion_response cfg req_id now res))
      else failure_answer res)"

definition sse_headers :: string where
  "sse_headers = ''HTTP/1.1 200 OK'' @ CRLF @ ''Content-Type: text/event-stream'' @ CRLF
     @ ''Cache-Control: no-cache'' @ CRLF @ ''Connection: close'' @ CRLF @ ''Access-Control-Allow-Origin: *'' @ CRLF @ CRLF"

definition no_delta :: chunk_choice where
  "no_delta = \<lparr>chunk_index = 0, delta_role = None, delta_content = None, delta_reasoning = None, chunk_finish_reason = None\<rparr>"

definition sse_chunk :: "server_config \<Rightarrow> string \<Rightarrow> int \<Rightarrow> chunk_choice \<Rightarrow> string" where
  "sse_chunk cfg req_id now ch =
     to_sse_event \<lparr>chunk_id = req_id, chunk_created = now, chunk_model = model_id cfg, chunk_choices = [ch]\<rparr>"

definition role_chunk :: chunk_choice where
  "role_chunk = no_delta\<lparr>delta_role := Some ''assistant'', delta_content := Some []\<rparr>"

definition piece_chunk :: "bool \<Rightarrow> string \<Rightarrow> chunk_choice" where
  "piece_chunk thinking piece =
     (if thinking then no_delta\<lparr>delta_reasoning := Some piece\<rparr> else no_delta\<lparr>delta_content := Some piece\<rparr>)"

definition finish_chunk :: "string \<Rightarrow> chunk_choice" where
  "finish_chunk why = no_delta\<lparr>chunk_finish_reason := Some why\<rparr>"

definition done_event :: string where
  "done_event = ''data: [DONE]'' @ [NEWLINE, NEWLINE]"

text \<open>The callback of a stream: its state is the socket and the flag \<^verbatim>\<open>stream_in_thinking\<close>.\<close>

definition stream_callback ::
    "'d server_env \<Rightarrow> server_config \<Rightarrow> string \<Rightarrow> int \<Rightarrow> tokenizer \<Rightarrow> conn \<times> bool \<Rightarrow> string \<Rightarrow> int \<Rightarrow> bool \<times> (conn \<times> bool)" where
  "stream_callback srv cfg req_id now tk st piece tok =
     (case st of (c, thinking) \<Rightarrow>
        if tok = think_start_token_id tk \<or> piece = ''<think>'' then (True, (c, True))
        else if tok = think_end_token_id tk \<or> piece = ''</think>'' then (True, (c, False))
        else
          (case send_all (srv_send srv) (sse_chunk cfg req_id now (piece_chunk thinking piece)) c of
             (ok, c') \<Rightarrow> (ok, (c', thinking))))"

text \<open>Send, whether or not it gets through, and go on.\<close>

definition send_on :: "'d server_env \<Rightarrow> string \<Rightarrow> conn \<Rightarrow> conn" where
  "send_on srv s c = snd (send_all (srv_send srv) s c)"

definition stream_completion ::
    "'d server_env \<Rightarrow> server_config \<Rightarrow> string \<Rightarrow> int \<Rightarrow> chat_completion_request \<Rightarrow> string \<Rightarrow> 'd engine \<Rightarrow> conn
     \<Rightarrow> (conn \<times> 'd engine) option" where
  "stream_completion srv cfg req_id now req prompt e c =
     (let c1 = send_on srv (sse_chunk cfg req_id now role_chunk) (send_on srv sse_headers c) in
      case generate (srv_engine srv) (print_float srv) e prompt (generation_request req)
             (Some (stream_callback srv cfg req_id now (eng_tokenizer e))) (c1, False) of
        None \<Rightarrow> None
      | Some (res, e', (c2, _)) \<Rightarrow>
          Some (send_on srv done_event (send_on srv (sse_chunk cfg req_id now (finish_chunk (finish_reason res))) c2), e'))"

definition complete ::
    "'d server_env \<Rightarrow> server_config \<Rightarrow> string \<Rightarrow> int \<Rightarrow> chat_completion_request \<Rightarrow> string \<Rightarrow> 'd engine \<Rightarrow> conn
     \<Rightarrow> (conn \<times> 'd engine) option" where
  "complete srv cfg req_id now req prompt e c =
     (if req_stream req then stream_completion srv cfg req_id now req prompt e c
      else
        case generate (srv_engine srv) (print_float srv) e prompt (generation_request req) None () of
          None \<Rightarrow> None
        | Some (res, e', _) \<Rightarrow> Some (send_on srv (completion_answer cfg req_id now res) c, e'))"


section \<open>The handler\<close>

text \<open>With the whole body read.\<close>

definition serve_body ::
    "'d server_env \<Rightarrow> server_config \<Rightarrow> string \<Rightarrow> int \<Rightarrow> http_head \<Rightarrow> string \<Rightarrow> 'd engine \<Rightarrow> conn \<Rightarrow> (conn \<times> 'd engine) option" where
  "serve_body srv cfg req_id now h body e c =
     (case parse_request srv h body of
        Inl err \<Rightarrow> Some (reply (srv_send srv)
            (error_answer (to_string_int (status_code err) @ '' Bad Request'') err) c, e)
      | Inr req \<Rightarrow>
          (case prepare_request srv e req of
             None \<Rightarrow> None
           | Some (Inl err, e1) \<Rightarrow> Some (reply (srv_send srv) (bad_request err) c, e1)
           | Some (Inr prompt, e1) \<Rightarrow>
               (case complete srv cfg req_id now req prompt e1 c of
                  None \<Rightarrow> None
                | Some (c1, e2) \<Rightarrow> Some (close_socket c1, e2))))"

definition handle_client ::
    "'d server_env \<Rightarrow> server_config \<Rightarrow> string \<Rightarrow> int \<Rightarrow> 'd engine \<Rightarrow> conn \<Rightarrow> (conn \<times> 'd engine) option" where
  "handle_client srv cfg req_id now e c =
     (case read_head [] c of
        (Head_closed, c1) \<Rightarrow> Some (close_socket c1, e)
      | (Head_too_large, c1) \<Rightarrow> Some (reply (srv_send srv) header_too_large c1, e)
      | (Head headers body_prefix, c1) \<Rightarrow>
          let h = parse_head headers in
          (case early_answer cfg now h of
             Some answer \<Rightarrow> Some (reply (srv_send srv) answer c1, e)
           | None \<Rightarrow>
               (case read_body (head_content_length h) body_prefix c1 of
                  (body, c2) \<Rightarrow>
                    if length body < unat (head_content_length h)
                    then Some (reply (srv_send srv) request_timeout c2, e)
                    else serve_body srv cfg req_id now h body e c2)))"

end
