(* ===== verification/Http_Correct.thy ===== *)
theory Http_Correct
  imports Http
begin

text \<open>
  Reading a request gives back exactly what the client sent, for every way the bytes are split
  into segments; and a printed head is parsed back.
\<close>


section \<open>Reassembly\<close>

lemma starts_with_extend: "starts_with s pat \<Longrightarrow> starts_with (s @ t) pat"
  by (auto simp: starts_with_iff)

lemma find_sub_append: "find_sub pat s = Some i \<Longrightarrow> find_sub pat (s @ t) = Some i"
proof (induction s arbitrary: i)
  case Nil
  then show ?case by (cases t) (auto split: if_splits)
next
  case (Cons c s)
  show ?case
  proof (cases "starts_with (c # s) pat")
    case True
    then show ?thesis using Cons.prems starts_with_extend [OF True, of t] by simp
  next
    case False
    then obtain j where j: "find_sub pat s = Some j" "i = Suc j" using Cons.prems by auto
    have "\<not> starts_with ((c # s) @ t) pat"
    proof
      assume "starts_with ((c # s) @ t) pat"
      moreover have "length pat \<le> length (c # s)" using find_sub_Some_D [OF j(1)] by simp
      ultimately have "starts_with (c # s) pat"
        by (auto simp: starts_with_iff append_eq_append_conv_if simp del: append_Cons split: if_splits)
          (metis append_take_drop_id append_Nil2 take_all_iff order_refl)+
      with False show False ..
    qed
    then show ?thesis using Cons.IH [OF j(1)] j(2) by simp
  qed
qed

text \<open>The end of the head is found as soon as it has arrived, and not before.\<close>

lemma find_head_end:
  assumes "find_sub HEAD_END (hd_text @ HEAD_END) = Some (length hd_text)"
    and "raw @ rest = hd_text @ HEAD_END @ body"
  shows "find_sub HEAD_END raw = (if length hd_text + 4 \<le> length raw then Some (length hd_text) else None)"
proof (cases "length hd_text + 4 \<le> length raw")
  case True
  have len: "length HEAD_END = 4" by (simp add: HEAD_END_def CRLF_def)
  have "hd_text @ HEAD_END = take (length hd_text + 4) (raw @ rest)"
    using assms(2) len by simp
  then have "raw = (hd_text @ HEAD_END) @ drop (length hd_text + 4) raw" using True by simp
  then show ?thesis using find_sub_append [OF assms(1)] True by (metis (no_types, lifting))
next
  case False
  have "find_sub HEAD_END raw = None"
  proof (rule ccontr)
    assume "find_sub HEAD_END raw \<noteq> None"
    then obtain j where j: "find_sub HEAD_END raw = Some j" by blast
    have "find_sub HEAD_END (raw @ rest) = Some j" by (rule find_sub_append [OF j])
    moreover have "find_sub HEAD_END ((hd_text @ HEAD_END) @ body) = Some (length hd_text)"
      by (rule find_sub_append [OF assms(1)])
    ultimately have "j = length hd_text" using assms(2) by simp
    then show False using find_sub_Some_D [OF j] False by (simp add: HEAD_END_def CRLF_def)
  qed
  then show ?thesis using False by simp
qed

definition segments_ok :: "conn \<Rightarrow> bool" where
  "segments_ok c \<longleftrightarrow> [] \<notin> set (rx c)"

lemma read_head_reassembles:
  assumes "find_sub HEAD_END (hd_text @ HEAD_END) = Some (length hd_text)" "length hd_text \<le> 61437"
    and "segments_ok c" "raw @ concat (rx c) = hd_text @ HEAD_END @ body" "length raw < length hd_text + 4"
  shows "\<exists>pre c'. read_head raw c = (Head hd_text pre, c') \<and> pre @ concat (rx c') = body
    \<and> segments_ok c' \<and> wire c' = wire c \<and> closes c' = closes c \<and> sends c' = sends c"
  using assms(3-)
proof (induction raw c rule: read_head.induct)
  case (1 raw c)
  have ne: "rx c \<noteq> []"
  proof
    assume "rx c = []"
    then have "raw = hd_text @ HEAD_END @ body" using "1.prems"(2) by simp
    then show False using "1.prems"(3) by (simp add: HEAD_END_def CRLF_def)
  qed
  obtain bs c1 where r: "recv 4096 c = (bs, c1)" by fastforce
  note d = recv_data [OF r]
  have s: "bs \<noteq> []" "segments_ok c1"
    using recv_segments [OF r _ _ ne] "1.prems"(1) by (auto simp: segments_ok_def)
  have raw1: "(raw @ bs) @ concat (rx c1) = hd_text @ HEAD_END @ body" using d(1) "1.prems"(2) by simp
  have len: "\<not> 65536 < length (raw @ bs)" using d(2) "1.prems"(3) assms(2) by simp
  note f = find_head_end [OF assms(1) raw1]
  show ?case
  proof (cases "length hd_text + 4 \<le> length (raw @ bs)")
    case True
    have t: "take (length hd_text) (raw @ bs) = hd_text"
      using arg_cong [OF raw1, of "take (length hd_text)"] True by simp
    have "drop (length hd_text + 4) ((raw @ bs) @ concat (rx c1)) = body"
      unfolding raw1 by (simp add: HEAD_END_def CRLF_def)
    then have p: "drop (length hd_text + 4) (raw @ bs) @ concat (rx c1) = body" using True by simp
    have "read_head raw c = (Head hd_text (drop (length hd_text + 4) (raw @ bs)), c1)"
      using r s(1) len f True t by (subst read_head.simps) (simp add: Let_def)
    then show ?thesis using p s(2) d by blast
  next
    case False
    have e: "read_head raw c = read_head (raw @ bs) c1"
      using r s(1) len f False by (subst read_head.simps) (simp add: Let_def)
    have "length (raw @ bs) < length hd_text + 4" using False by simp
    then show ?thesis
      unfolding e using "1.IH" [OF r [symmetric] s(1) refl len _ s(2) raw1] f False d by simp
  qed
qed

lemma read_body_reassembles:
  assumes "segments_ok c" "body @ concat (rx c) = full" "length full = unat n"
  shows "\<exists>c'. read_body n body c = (full, c') \<and> rx c' = [] \<and> wire c' = wire c \<and> closes c' = closes c \<and> sends c' = sends c"
  using assms
proof (induction n body c rule: read_body.induct)
  case (1 n body c)
  show ?case
  proof (cases "length body < unat n")
    case False
    moreover have "length body + length (concat (rx c)) = unat n" using "1.prems"(2,3) by (metis length_append)
    ultimately have "length (concat (rx c)) = 0" by linarith
    then have "concat (rx c) = []" by (simp only: length_0_conv)
    then have "rx c = []" using "1.prems"(1) by (cases "rx c") (auto simp: segments_ok_def simp del: concat_eq_Nil_conv)
    then show ?thesis using False "1.prems" by (subst read_body.simps) simp
  next
    case True
    let ?m = "min (unat n - length body) 4096"
    have "rx c \<noteq> []" using True "1.prems"(2,3) by auto
    obtain bs c1 where r: "recv ?m c = (bs, c1)" by fastforce
    note d = recv_data [OF r]
    have s: "bs \<noteq> []" "segments_ok c1"
      using recv_segments [OF r _ _ \<open>rx c \<noteq> []\<close>] "1.prems"(1) True by (auto simp: segments_ok_def)
    have "(body @ bs) @ concat (rx c1) = full" using d(1) "1.prems"(2) by simp
    from "1.IH" [OF True r [symmetric] s(1) s(2) this "1.prems"(3)] show ?thesis
      using True r s(1) d by (subst read_body.simps) simp
  qed
qed


section \<open>Printing and parsing a head\<close>

definition CR :: char where "CR = CHR 0x0D"

text \<open>A line of text: not empty, no carriage return, no newline.\<close>

definition line_text :: "string \<Rightarrow> bool" where
  "line_text l \<longleftrightarrow> l \<noteq> [] \<and> CR \<notin> set l \<and> NEWLINE \<notin> set l"

definition trimmed :: "string \<Rightarrow> bool" where
  "trimmed v \<longleftrightarrow> v \<noteq> [] \<and> \<not> blank (hd v) \<and> \<not> blank (last v)"

definition word_text :: "string \<Rightarrow> bool" where
  "word_text w \<longleftrightarrow> w \<noteq> [] \<and> list_all (\<lambda>c. \<not> isspace c) w"

definition header_text :: "string \<times> string \<Rightarrow> string" where
  "header_text h = fst h @ '': '' @ snd h"

definition lines_text :: "string list \<Rightarrow> string" where
  "lines_text ls = concat (map (\<lambda>l. CRLF @ l) ls)"

lemma lines_text_simps [simp]: "lines_text [] = []" "lines_text (l # ls) = CRLF @ l @ lines_text ls"
  by (simp_all add: lines_text_def)

lemma find_sub_skip: "CR \<notin> set l \<Longrightarrow> find_sub HEAD_END (l @ s) = map_option ((+) (length l)) (find_sub HEAD_END s)"
proof (induction l)
  case (Cons c l)
  then have "\<not> starts_with (c # l @ s) HEAD_END" by (auto simp: HEAD_END_def CRLF_def CR_def)
  then show ?case using Cons by (cases "find_sub HEAD_END s") auto
qed (cases "find_sub HEAD_END s", simp_all)

lemma find_head_end_lines:
  assumes "CR \<notin> set l" "list_all line_text ls"
  shows "find_sub HEAD_END ((l @ lines_text ls) @ HEAD_END) = Some (length (l @ lines_text ls))"
  using assms
proof (induction ls arbitrary: l)
  case Nil
  have "find_sub HEAD_END HEAD_END = Some 0" by (simp add: HEAD_END_def CRLF_def)
  then show ?case using find_sub_skip [OF Nil(1), of HEAD_END] by simp
next
  case (Cons x xs)
  obtain c x' where x: "x = c # x'" "c \<noteq> CR" using Cons.prems(2) by (cases x) (auto simp: line_text_def)
  have "find_sub HEAD_END (CRLF @ x @ r) = map_option ((+) 2) (find_sub HEAD_END (x @ r))" for r
    using x(2) by (cases "find_sub HEAD_END (x @ r)") (auto simp: x(1) HEAD_END_def CRLF_def CR_def)
  then show ?case
    using Cons.IH [of x] Cons.prems find_sub_skip [OF Cons.prems(1)]
    by (simp add: line_text_def CRLF_def)
qed

lemma until_newline:
  assumes "NEWLINE \<notin> set l"
  shows "takeWhile (\<lambda>c. c \<noteq> NEWLINE) (l @ NEWLINE # s) = l" "dropWhile (\<lambda>c. c \<noteq> NEWLINE) (l @ NEWLINE # s) = NEWLINE # s"
    "dropWhile (\<lambda>c. c \<noteq> NEWLINE) l = []"
  using assms by (induction l) auto

lemma lines_of_line:
  assumes "NEWLINE \<notin> set l"
  shows "lines_of (l @ NEWLINE # s) = l # lines_of s"
  unfolding lines_of.simps [of "l @ NEWLINE # s"] until_newline [OF assms] by simp

lemma lines_of_last:
  assumes "NEWLINE \<notin> set l" "l \<noteq> []"
  shows "lines_of l = [l]"
  unfolding lines_of.simps [of l] until_newline [OF assms(1)] using assms(2) by simp

lemma head_line_cr: "CR \<notin> set l \<Longrightarrow> head_line h (l @ [CR]) = head_line h l"
  by (auto simp: head_line_def drop_cr_def CR_def dest: last_in_set)

text \<open>The header lines, whether or not a carriage return is left at their end.\<close>

lemma foldl_head_lines:
  "list_all line_text (l # ls) \<Longrightarrow> foldl head_line h (lines_of (l @ lines_text ls)) = foldl head_line h (l # ls)"
proof (induction ls arbitrary: l h)
  case Nil
  then show ?case using lines_of_last [of l] by (simp add: line_text_def)
next
  case (Cons x xs)
  have "NEWLINE \<notin> set (l @ [CR])" using Cons.prems by (simp add: line_text_def CR_def)
  from lines_of_line [OF this, of "x @ lines_text xs"]
  have "lines_of (l @ lines_text (x # xs)) = (l @ [CR]) # lines_of (x @ lines_text xs)"
    by (simp add: CRLF_def CR_def)
  then show ?case using Cons head_line_cr [of l h] by (simp add: line_text_def)
qed

lemma next_word_word:
  assumes "word_text w" "s = [] \<or> isspace (hd s)"
  shows "next_word (w @ s) = (w, s)" "next_word (CHR '' '' # w @ s) = (w, s)"
proof -
  obtain c w' where w: "w = c # w'" "\<not> isspace c" using assms(1) by (cases w) (auto simp: word_text_def)
  have "takeWhile (\<lambda>c. \<not> isspace c) (w @ s) = w" "dropWhile (\<lambda>c. \<not> isspace c) (w @ s) = s"
    using assms by (cases s; auto simp: word_text_def list_all_iff takeWhile_append2 dropWhile_append2)+
  moreover have "isspace (CHR '' '')" by (simp add: isspace_def)
  ultimately show "next_word (w @ s) = (w, s)" "next_word (CHR '' '' # w @ s) = (w, s)"
    using w by (auto simp: next_word_def Let_def)
qed

text \<open>What one header sets.\<close>

definition set_header :: "http_head \<Rightarrow> string \<times> string \<Rightarrow> http_head" where
  "set_header h kv =
     (let k = map tolower (fst kv); v = snd kv in
      if k = ''content-type'' then h\<lparr>head_content_type := v\<rparr>
      else if k = ''content-length'' then h\<lparr>head_content_length := (case stoull v of Inl e \<Rightarrow> 0 | Inr n \<Rightarrow> n)\<rparr>
      else if k = ''transfer-encoding'' \<and> contains (map tolower v) ''chunked'' then h\<lparr>head_chunked := True\<rparr>
      else h)"

definition header_ok :: "string \<times> string \<Rightarrow> bool" where
  "header_ok kv \<longleftrightarrow> line_text (fst kv) \<and> CHR '':'' \<notin> set (fst kv) \<and> line_text (snd kv) \<and> trimmed (snd kv)"

lemma find_colon: "CHR '':'' \<notin> set k \<Longrightarrow> find_sub '':'' (k @ CHR '':'' # s) = Some (length k)"
  by (induction k) auto

lemma trim_blank_trimmed: "trimmed v \<Longrightarrow> trim_blank (CHR '' '' # v) = v"
proof -
  assume t: "trimmed v"
  then obtain c v' where v: "v = c # v'" "\<not> blank c" by (cases v) (auto simp: trimmed_def)
  have "blank (CHR '' '')" by (simp add: blank_def)
  then have "dropWhile blank (CHR '' '' # v) = v" using v by simp
  moreover have "dropWhile blank (rev v) = rev v"
    using t by (cases v rule: rev_cases) (auto simp: trimmed_def)
  ultimately show ?thesis by (simp add: trim_blank_def)
qed

lemma head_line_header: "header_ok kv \<Longrightarrow> head_line h (header_text kv) = set_header h kv"
proof -
  assume ok: "header_ok kv"
  have "snd kv \<noteq> []" "CHR 0x0D \<notin> set (snd kv)" using ok by (simp_all add: header_ok_def line_text_def CR_def)
  moreover from this(1) have "last (header_text kv) = last (snd kv)" by (simp add: header_text_def)
  ultimately have "last (header_text kv) \<noteq> CHR 0x0D" by (metis last_in_set)
  then have d: "drop_cr (header_text kv) = header_text kv" by (simp add: drop_cr_def)
  have f: "find_sub '':'' (header_text kv) = Some (length (fst kv))"
    using find_colon [of "fst kv"] ok by (simp add: header_text_def header_ok_def)
  have v: "trim_blank (drop (length (fst kv) + 1) (header_text kv)) = snd kv"
    "take (length (fst kv)) (header_text kv) = fst kv"
    using trim_blank_trimmed ok by (simp_all add: header_text_def header_ok_def)
  show ?thesis unfolding head_line_def set_header_def Let_def d f using v by simp
qed

lemma header_line_text: "header_ok kv \<Longrightarrow> line_text (header_text kv)"
  by (auto simp: header_ok_def header_text_def line_text_def CR_def)

text \<open>The head a client prints.\<close>

definition request_head :: "string \<Rightarrow> string \<Rightarrow> (string \<times> string) list \<Rightarrow> string" where
  "request_head method path headers =
     (method @ '' '' @ path @ '' HTTP/1.1'') @ lines_text (map header_text headers)"

definition head_of :: "string \<Rightarrow> string \<Rightarrow> (string \<times> string) list \<Rightarrow> http_head" where
  "head_of method path headers = foldl set_header
     \<lparr>head_method = method, head_path = path, head_content_length = 0, head_chunked = False, head_content_type = []\<rparr>
     headers"

lemma foldl_head_headers:
  "list_all header_ok hs \<Longrightarrow> foldl head_line h (map header_text hs) = foldl set_header h hs"
  by (induction hs arbitrary: h) (auto simp: head_line_header)

lemma parse_request_head:
  assumes "word_text method" "word_text path" "list_all header_ok headers"
  shows "parse_head (request_head method path headers) = head_of method path headers"
proof -
  let ?r = "lines_text (map header_text headers)"
  have sp: "isspace (CHR '' '')" "isspace (CHR 0x0D)" by (simp_all add: isspace_def)
  have w: "next_word (request_head method path headers) = (method, '' '' @ path @ '' HTTP/1.1'' @ ?r)"
    "next_word ('' '' @ path @ '' HTTP/1.1'' @ ?r) = (path, '' HTTP/1.1'' @ ?r)"
    using next_word_word assms sp by (simp_all add: request_head_def)
  have "word_text ''HTTP/1.1''" by (simp add: word_text_def isspace_def)
  from next_word_word(2) [OF this, of ?r] have w3: "next_word ('' HTTP/1.1'' @ ?r) = (''HTTP/1.1'', ?r)"
    using sp by (cases headers) (simp_all add: CRLF_def)
  have "foldl head_line h (lines_of (skip_line ?r)) = foldl set_header h headers" for h
  proof (cases headers)
    case Nil
    then show ?thesis by (simp add: skip_line_def lines_of.simps)
  next
    case (Cons kv hs)
    have "list_all line_text (map header_text headers)"
      using assms(3) header_line_text by (auto simp: list_all_iff)
    then have "foldl head_line h (lines_of (header_text kv @ lines_text (map header_text hs)))
        = foldl head_line h (map header_text headers)"
      using foldl_head_lines [of "header_text kv" "map header_text hs"] Cons by simp
    moreover have "skip_line ?r = header_text kv @ lines_text (map header_text hs)"
      by (simp add: Cons skip_line_def CRLF_def)
    ultimately show ?thesis using foldl_head_headers [OF assms(3)] by simp
  qed
  then show ?thesis using w w3 by (simp add: parse_head_def head_of_def)
qed

end
