(* ===== verification/Engine_Transcript.thy ===== *)
theory Engine_Transcript
  imports Engine_Correct
begin

text \<open>
  What a generation says is a function of the tokens it emits: the text, the reasoning and the calls
  of the callback are those of a transcript that goes through the emitted tokens once, in order,
  whatever mixture of single steps and speculative rounds produced them.
\<close>


section \<open>Transcripts\<close>

text \<open>Tokens, text, reasoning, the \<^verbatim>\<open>in_thinking\<close> flag and the state of the callback.\<close>

type_synonym 'c transcript = "int list \<times> string \<times> string \<times> bool \<times> 'c"

definition transcript_step :: "tokenizer \<Rightarrow> 'c token_callback \<Rightarrow> 'c transcript \<Rightarrow> int \<Rightarrow> 'c transcript" where
  "transcript_step tk callback v tok =
     (case v of (ts, t, reasoning, thinking, c) \<Rightarrow>
        let piece = decode_token tk tok; c' = (case callback of None \<Rightarrow> c | Some cb \<Rightarrow> snd (cb c piece tok)) in
        if tok = think_start_token_id tk \<or> piece = ''<think>'' then (ts @ [tok], t, reasoning, True, c)
        else if tok = think_end_token_id tk \<or> piece = ''</think>'' then (ts @ [tok], t, reasoning, False, c)
        else if thinking then (ts @ [tok], t, reasoning @ piece, thinking, c')
        else (ts @ [tok], t @ piece, reasoning, thinking, c'))"

definition transcript :: "tokenizer \<Rightarrow> 'c token_callback \<Rightarrow> 'c \<Rightarrow> int list \<Rightarrow> 'c transcript" where
  "transcript tk callback c toks = foldl (transcript_step tk callback) ([], [], [], False, c) toks"

definition view :: "('d, 'c) run \<Rightarrow> 'c transcript" where
  "view r = (token_ids (run_res r), gen_text (run_res r), gen_reasoning (run_res r), run_thinking r, run_cb r)"

definition base :: "generation_result \<Rightarrow> bool \<times> string \<times> string \<times> nat" where
  "base res = (success res, error_code res, error_msg res, gen_prompt_tokens res)"

definition follows :: "('d, 'c) run_env \<Rightarrow> ('d, 'c) run \<Rightarrow> ('d, 'c) run \<Rightarrow> bool" where
  "follows re r r' \<longleftrightarrow> base (run_res r') = base (run_res r)
     \<and> (\<exists>toks. view r' = foldl (transcript_step (re_tokenizer re) (re_callback re)) (view r) toks)"

lemma follows_trans: "follows re r r' \<Longrightarrow> follows re r' r'' \<Longrightarrow> follows re r r''"
  unfolding follows_def by (metis foldl_append)

lemma follows_frame [intro]: "view r' = view r \<Longrightarrow> base (run_res r') = base (run_res r) \<Longrightarrow> follows re r r'"
  by (auto simp: follows_def intro: exI [of _ "[]"])

lemma view_simps [simp]:
  "view (r\<lparr>run_gpu := g\<rparr>) = view r" "view (r\<lparr>run_draft := d\<rparr>) = view r" "view (r\<lparr>run_tok := t\<rparr>) = view r"
  "view (finish why r) = view r" "base (run_res (finish why r)) = base (run_res r)"
  by (simp_all add: view_def base_def finish_def)

lemma process_token_view:
  "view (snd (process_token re tok r)) = transcript_step (re_tokenizer re) (re_callback re) (view r) tok"
  "base (run_res (snd (process_token re tok r))) = base (run_res r)"
  by (cases "re_callback re"; simp add: process_token_def view_def base_def transcript_step_def Let_def case_prod_unfold)+

lemma process_token_follows: "process_token re tok r = (go, r') \<Longrightarrow> follows re r r'"
  using process_token_view [of re tok r] by (auto simp: follows_def intro: exI [of _ "[tok]"])

lemma follows_finish: "follows re r r' \<Longrightarrow> follows re r (finish why r')"
  by (auto simp: follows_def)

lemma emit_tokens_follows: "emit_tokens re toks r = (stopped, r') \<Longrightarrow> follows re r r'"
proof (induction toks arbitrary: r)
  case (Cons t ts)
  then show ?case
    by (auto split: if_splits prod.splits bool.splits dest!: process_token_follows intro: follows_trans follows_finish)
qed auto

lemma follows_fields:
  "follows re r r' \<Longrightarrow> follows re r (r'\<lparr>run_gpu := g\<rparr>)" "follows re r r' \<Longrightarrow> follows re r (r'\<lparr>run_tok := t\<rparr>)"
  "follows re r r' \<Longrightarrow> follows re r (r'\<lparr>run_gpu := g, run_tok := t\<rparr>)"
  "follows re (r\<lparr>run_gpu := g\<rparr>) r' \<Longrightarrow> follows re r r'"
  "follows re (r\<lparr>run_gpu := g, run_draft := d\<rparr>) r' \<Longrightarrow> follows re r r'"
  "follows re (r\<lparr>run_draft := d, run_gpu := g\<rparr>) r' \<Longrightarrow> follows re r r'"
  by (auto simp: follows_def)

lemma emit_and_advance_follows: "emit_and_advance re tok r = (it, r') \<Longrightarrow> follows re r r'"
  by (auto simp: emit_and_advance_def split: if_splits prod.splits bool.splits
      dest!: process_token_follows intro: follows_finish follows_fields)

lemma after_verify_follows:
  assumes "after_verify re n acc r = (it, r')"
  shows "follows re r r'"
  using assms
  by (auto simp: after_verify_def split: if_splits prod.splits bool.splits sum.splits
      dest!: emit_tokens_follows emit_and_advance_follows intro: follows_trans follows_fields)

lemma single_step_follows:
  assumes "single_step re r = (it, r')"
  shows "follows re r r'"
proof -
  let ?dv = "env_dv (re_env re)" and ?m = "re_model re" and ?g = "run_gpu r"
  obtain a g1 where st: "(case re_graph re of
       Some dg \<Rightarrow>
         if is_captured dg then
           (case graph_decode_step ?dv ?m dg (run_tok r) (current_seq_len (gpu_kv ?g)) ?g of
              (Inl e, g1) \<Rightarrow> (Inl e, g1)
            | (Inr next_tok, g1) \<Rightarrow>
                if next_tok < 0 then (Inr (- 1), g1)
                else (case advance (gpu_kv g1) 1 of
                        (False, kv) \<Rightarrow> (Inr (- 1), g1\<lparr>gpu_kv := kv\<rparr>)
                      | (True, kv) \<Rightarrow> (Inr next_tok, g1\<lparr>gpu_kv := kv\<rparr>)))
         else decode_step ?dv ?m (run_tok r) 0 ?g
     | None \<Rightarrow> decode_step ?dv ?m (run_tok r) 0 ?g) = (a, g1)" by fastforce
  show ?thesis
    using assms unfolding single_step_def Let_def st
    by (auto split: sum.splits if_splits prod.splits bool.splits
        dest!: process_token_follows intro: follows_finish follows_fields)
qed

lemma speculative_round_follows:
  assumes "speculative_round re dc n r = (it, r')"
  shows "follows re r r'"
  using assms unfolding speculative_round_def Let_def
  by (auto split: sum.splits if_splits prod.splits
      dest!: single_step_follows after_verify_follows intro: follows_fields)

lemma decode_iteration_follows:
  "decode_iteration re r = (it, r') \<Longrightarrow> follows re r r'"
  unfolding decode_iteration_def Let_def
  by (auto split: if_splits option.splits dest: single_step_follows speculative_round_follows)

lemma decode_loop_follows: "decode_loop fuel re r = Some (x, r') \<Longrightarrow> follows re r r'"
proof (induction fuel arbitrary: r)
  case 0
  then show ?case by (subst (asm) decode_loop.simps) (auto split: if_splits)
next
  case (Suc fuel)
  then show ?case
    by (subst (asm) decode_loop.simps)
      (auto split: if_splits prod.splits iteration.splits dest!: decode_iteration_follows intro: follows_trans)
qed


section \<open>Results\<close>

definition transcribed :: "tokenizer \<Rightarrow> 'c token_callback \<Rightarrow> 'c \<Rightarrow> generation_result \<Rightarrow> 'c \<Rightarrow> bool" where
  "transcribed tk callback c res c' \<longleftrightarrow>
     (case transcript tk callback c (token_ids res) of (ts, t, reasoning, thinking, s) \<Rightarrow>
        c' = s \<and> ts = token_ids res
        \<and> (success res \<longrightarrow> generated_tokens res = length (token_ids res)
             \<and> (gen_text res, gen_reasoning res) \<in> {(t, reasoning), post_process t reasoning}))"

lemma transcript_step_tokens: "fst (transcript_step tk callback v tok) = fst v @ [tok]"
  by (auto simp: transcript_step_def Let_def split: prod.splits)

lemma foldl_transcript_tokens: "fst (foldl (transcript_step tk callback) v toks) = fst v @ toks"
  by (induction toks arbitrary: v) (auto simp: transcript_step_tokens)

text \<open>A run that started empty is at the transcript of its tokens.\<close>

lemma follows_transcript:
  assumes "follows re r r'" "view r = ([], [], [], False, c)"
  shows "view r' = transcript (re_tokenizer re) (re_callback re) c (token_ids (run_res r'))"
proof -
  obtain toks where v: "view r' = foldl (transcript_step (re_tokenizer re) (re_callback re)) (view r) toks"
    using assms(1) by (auto simp: follows_def)
  have "toks = fst (view r')" using v assms(2) by (simp add: foldl_transcript_tokens)
  then show ?thesis using v assms(2) by (simp add: transcript_def view_def)
qed

lemma finish_result_fields:
  "(gen_text (finish_result res), gen_reasoning (finish_result res)) = post_process (gen_text res) (gen_reasoning res)"
  by (auto simp: finish_result_def split: prod.splits)

lemma transcribed_nothing: "token_ids res = [] \<Longrightarrow> success res = False \<Longrightarrow> transcribed tk callback c res c"
  by (simp add: transcribed_def transcript_def)

lemma generate_from_transcribed:
  assumes "generate_from re e (GenerationResult\<lparr>gen_prompt_tokens := n\<rparr>) tok c = Some (res, e', c')"
    and "re_tokenizer re = eng_tokenizer e"
  shows "transcribed (eng_tokenizer e') (re_callback re) c res c'"
proof -
  let ?res = "GenerationResult\<lparr>gen_prompt_tokens := n\<rparr>"
  let ?r0 = "\<lparr>run_gpu = eng_gpu e, run_draft = eng_draft e, run_tok = tok, run_res = ?res, run_thinking = False, run_cb = c\<rparr>"
  have v0: "view ?r0 = ([], [], [], False, c)" by (simp add: view_def GenerationResult_def)
  obtain go r1 where p: "process_token re tok ?r0 = (go, r1)" by fastforce
  note f1 = process_token_follows [OF p]
  have tr: "transcribed (re_tokenizer re) (re_callback re) c res (run_cb r)"
    if "follows re ?r0 r" "token_ids res = token_ids (run_res r)"
      "success res \<longrightarrow> generated_tokens res = length (token_ids res) \<and>
        (gen_text res, gen_reasoning res)
          \<in> {(gen_text (run_res r), gen_reasoning (run_res r)), post_process (gen_text (run_res r)) (gen_reasoning (run_res r))}"
    for r res
    using follows_transcript [OF that(1) v0] that(2,3) by (auto simp: transcribed_def view_def split: prod.splits)
  have len1: "length (token_ids (run_res r1)) = 1"
    using process_token_res [OF p] by (simp add: GenerationResult_def)
  show ?thesis
  proof (cases "re_eos re < 0 \<or> is_stop re tok")
    case True
    then show ?thesis
      using assms by (auto simp: generate_from_def Let_def GenerationResult_def fail_result_def transcribed_def transcript_def
          split: if_splits)
  next
    case False
    note run = assms(1) [unfolded generate_from_def Let_def p]
    show ?thesis
    proof (cases go)
      case no: False
      then have "res = (run_res r1)\<lparr>generated_tokens := 1, finish_reason := ''stop''\<rparr>" "e' = e" "c' = run_cb r1"
        using run False by auto
      then show ?thesis using tr [OF f1, of res] len1 assms(2) by simp
    next
      case True
      then obtain x r2 where l: "decode_loop (nat (re_max_new re)) re (finish ''length'' r1) = Some (x, r2)"
        using run False by (auto split: option.splits)
      have f2: "follows re ?r0 r2"
        using follows_trans [OF follows_finish [OF f1] decode_loop_follows [OF l]] .
      show ?thesis
        using run False True l assms(2) tr [OF f2, of res] finish_result_fields [of "run_res r2"]
        by (cases x) (auto simp: catch_exn_def Let_def)
    qed
  qed
qed

lemma generate_from_tokenizer:
  "generate_from re e res tok c = Some (res', e', c') \<Longrightarrow> eng_tokenizer e' = eng_tokenizer e"
  by (auto simp: generate_from_def Let_def catch_exn_def split: if_splits prod.splits bool.splits option.splits)

lemma generate_transcribed:
  assumes "generate env print_float e prompt cfg callback c = Some (res, e', c')"
  shows "transcribed (eng_tokenizer e') callback c res c' \<and> same_tokens (eng_tokenizer e) (eng_tokenizer e')"
proof (cases rule: generate_cases [of env print_float e prompt cfg callback c])
  case (hangs input)
  then show ?thesis using assms by simp
next
  case (fails res e')
  then show ?thesis using assms by (simp add: transcribed_nothing)
next
  case (runs e2 m n tok)
  let ?re = "make_run_env env e2 m cfg callback"
  have "re_tokenizer ?re = eng_tokenizer e2" "re_callback ?re = callback" by (simp_all add: make_run_env_def Let_def)
  moreover have g: "generate_from ?re e2 (GenerationResult\<lparr>gen_prompt_tokens := n\<rparr>) tok c = Some (res, e', c')"
    using runs(1) assms by simp
  ultimately show ?thesis
    using generate_from_transcribed [OF g] generate_from_tokenizer [OF g] runs(5) by simp
qed


end
