(* ===== verification/Server_Correct.thy ===== *)
theory Server_Correct
  imports Server Http_Correct Engine_Transcript
begin

text \<open>
  Properties of \<^verbatim>\<open>handle_client\<close>: every connection is closed exactly once, every answer is one framed
  HTTP message or one event stream, a request is handled the same however it is split into
  segments, and a stream carries the piece of every emitted token once, in order.
\<close>


section \<open>What sending does to a connection\<close>

definition extends :: "conn \<Rightarrow> conn \<Rightarrow> bool" where
  "extends c c' \<longleftrightarrow> (\<exists>s. wire c' = wire c @ s) \<and> closes c' = closes c"

lemma extends_refl [simp]: "extends c c"
  by (simp add: extends_def)

lemma extends_trans: "extends c c' \<Longrightarrow> extends c' c'' \<Longrightarrow> extends c c''"
  by (auto simp: extends_def)

lemma send_all_extends: "extends c (snd (send_all send s c))"
  using send_all_wire [of send s c] by (cases "send_all send s c") (auto simp: extends_def)

lemma send_on_extends: "extends c (send_on srv s c)"
  by (simp add: send_on_def send_all_extends)

lemma recv_extends: "recv n c = (bs, c') \<Longrightarrow> extends c c'"
  using recv_data [of n c bs c'] by (auto simp: extends_def)

lemma read_head_extends: "read_head raw c = (r, c') \<Longrightarrow> wire c' = wire c \<and> closes c' = closes c"
proof (induction raw c rule: read_head.induct)
  case (1 raw c)
  obtain bs c1 where r: "recv 4096 c = (bs, c1)" by fastforce
  show ?case
    using "1.prems" "1.IH" [OF r [symmetric]] recv_data(3,4) [OF r] r
    by (subst (asm) read_head.simps) (auto simp: Let_def split: if_splits option.splits)
qed

lemma read_body_extends: "read_body n body c = (r, c') \<Longrightarrow> wire c' = wire c \<and> closes c' = closes c"
proof (induction n body c rule: read_body.induct)
  case (1 n body c)
  obtain bs c1 where r: "recv (min (unat n - length body) 4096) c = (bs, c1)" by fastforce
  show ?case
    using "1.prems" "1.IH" [OF _ r [symmetric]] recv_data(3,4) [OF r] r
    by (subst (asm) read_body.simps) (auto split: if_splits)
qed

lemma reply_closes: "closes (reply send s c) = Suc (closes c)"
  using send_all_extends [of c send s] by (simp add: reply_def close_socket_def extends_def)

lemma stream_callback_extends:
  "extends (fst st) (fst (snd (stream_callback srv cfg req_id now tk st piece tok)))"
  using send_all_extends [of "fst st"] by (auto simp: stream_callback_def split: prod.splits) (metis snd_conv)

definition cb_of :: "'c transcript \<Rightarrow> 'c" where
  "cb_of v = snd (snd (snd (snd v)))"

lemma transcribed_callback: "transcribed tk callback c res c' \<Longrightarrow> c' = cb_of (transcript tk callback c (token_ids res))"
  by (auto simp: transcribed_def cb_of_def split: prod.splits)

lemma transcript_extends:
  assumes "\<And>st piece tok. extends (f st) (f (snd (cb st piece tok)))"
  shows "extends (f (cb_of v)) (f (cb_of (foldl (transcript_step tk (Some cb)) v toks)))"
proof (induction toks arbitrary: v)
  case (Cons t ts)
  have step: "extends (f (cb_of v)) (f (cb_of (transcript_step tk (Some cb) v t)))"
    using assms by (cases v) (simp add: transcript_step_def cb_of_def Let_def)
  show ?case unfolding foldl_Cons by (rule extends_trans [OF step Cons.IH])
qed simp

lemma stream_extends:
  assumes "generate env pf e prompt gcfg (Some (stream_callback srv cfg req_id now tk)) st = Some (res, e', st')"
  shows "extends (fst st) (fst st')"
proof -
  have "st' = cb_of (transcript (eng_tokenizer e') (Some (stream_callback srv cfg req_id now tk)) st (token_ids res))"
    using generate_transcribed [OF assms] by (simp add: transcribed_callback)
  moreover have "cb_of ([], [], [], False, st) = st" by (simp add: cb_of_def)
  ultimately show ?thesis
    using transcript_extends [where f = fst and cb = "stream_callback srv cfg req_id now tk" and v = "([], [], [], False, st)"]
      stream_callback_extends [of _ srv cfg req_id now tk]
    by (simp add: transcript_def)
qed

lemma complete_extends:
  assumes "complete srv cfg req_id now req prompt e c = Some (c', e')"
  shows "extends c c'"
proof (cases "req_stream req")
  case False
  then show ?thesis using assms send_on_extends by (auto simp: complete_def split: option.splits)
next
  case True
  let ?c1 = "send_on srv (sse_chunk cfg req_id now role_chunk) (send_on srv sse_headers c)"
  obtain res c2 th where g: "generate (srv_engine srv) (print_float srv) e prompt (generation_request req)
      (Some (stream_callback srv cfg req_id now (eng_tokenizer e))) (?c1, False) = Some (res, e', (c2, th))"
    and c': "c' = send_on srv done_event (send_on srv (sse_chunk cfg req_id now (finish_chunk (finish_reason res))) c2)"
    using assms True by (auto simp: complete_def stream_completion_def Let_def split: option.splits)
  have "extends c ?c1" by (rule extends_trans [OF send_on_extends send_on_extends])
  moreover have "extends ?c1 c2" using stream_extends [OF g] by simp
  moreover have "extends c2 c'" unfolding c' by (rule extends_trans [OF send_on_extends send_on_extends])
  ultimately show ?thesis using extends_trans by blast
qed



section \<open>When everything gets through\<close>

text \<open>A connection on which every \<^verbatim>\<open>send\<close> makes progress.\<close>

definition delivers :: "send_fn \<Rightarrow> bool" where
  "delivers send \<longleftrightarrow> (\<forall>n data. data \<noteq> [] \<longrightarrow> 0 < send n data)"

lemma send_all_delivers:
  "delivers send \<Longrightarrow> \<exists>c'. send_all send data c = (True, c') \<and> wire c' = wire c @ data"
proof (induction send data c rule: send_all.induct)
  case (1 send data c)
  show ?case
  proof (cases "data = []")
    case False
    let ?sent = "send (sends c) data" and ?c1 = "c\<lparr>sends := Suc (sends c)\<rparr>"
    let ?k = "min (nat ?sent) (length data)"
    have pos: "\<not> ?sent \<le> 0" using "1.prems" False by (simp add: delivers_def not_le)
    from "1.IH" [OF False refl refl pos refl "1.prems"] obtain c' where
      "send_all send (drop ?k data) (?c1\<lparr>wire := wire ?c1 @ take ?k data\<rparr>) = (True, c')"
      "wire c' = (wire c @ take ?k data) @ drop ?k data" by auto
    then show ?thesis using False pos by (subst send_all.simps) (auto simp: Let_def)
  qed (simp add: send_all.simps)
qed

lemma wire_send_on: "delivers (srv_send srv) \<Longrightarrow> wire (send_on srv s c) = wire c @ s"
  using send_all_delivers [of "srv_send srv" s c] by (auto simp: send_on_def)

lemma wire_reply: "delivers send \<Longrightarrow> wire (reply send s c) = wire c @ s"
  using send_all_delivers [of send s c] by (auto simp: reply_def close_socket_def)


section \<open>Framed answers\<close>

text \<open>
  A complete HTTP message: a head that ends at the first empty line, and a body whose length is the
  one the head announces, read with the server's own header parser.
\<close>

definition no_head :: http_head where
  "no_head = \<lparr>head_method = [], head_path = [], head_content_length = 0, head_chunked = False, head_content_type = []\<rparr>"

definition announced_length :: "string \<Rightarrow> u64" where
  "announced_length head = head_content_length (foldl head_line no_head (lines_of (skip_line head)))"

definition framed :: "string \<Rightarrow> bool" where
  "framed m \<longleftrightarrow> (\<exists>p. find_sub HEAD_END m = Some p
     \<and> (length m < 2 ^ 64 \<longrightarrow> unat (announced_length (take p m)) = length (drop (p + 4) m)))"

lemma framed_message:
  assumes "line_text status" "list_all header_ok headers"
    and "length body < 2 ^ 64 \<Longrightarrow> head_content_length (foldl set_header no_head headers) = word_of_nat (length body)"
  shows "framed ((status @ lines_text (map header_text headers)) @ HEAD_END @ body)"
proof -
  let ?head = "status @ lines_text (map header_text headers)"
  have ls: "list_all line_text (map header_text headers)" using assms(2) header_line_text by (auto simp: list_all_iff)
  have "find_sub HEAD_END (?head @ HEAD_END) = Some (length ?head)"
    using find_head_end_lines [OF _ ls] assms(1) by (simp add: line_text_def)
  from find_sub_append [OF this, of body] have f: "find_sub HEAD_END (?head @ HEAD_END @ body) = Some (length ?head)" by simp
  have "foldl head_line no_head (lines_of (skip_line ?head)) = foldl set_header no_head headers"
  proof (cases headers)
    case Nil
    have "skip_line status = []"
      using assms(1) by (simp add: skip_line_def line_text_def until_newline)
    then show ?thesis using Nil by (simp add: lines_of.simps)
  next
    case (Cons kv hs)
    have "skip_line ?head = header_text kv @ lines_text (map header_text hs)"
      using assms(1) until_newline(2) [of "status @ [CR]"] by (simp add: Cons skip_line_def CRLF_def CR_def line_text_def)
    then show ?thesis
      using foldl_head_lines [of "header_text kv" "map header_text hs" no_head] ls foldl_head_headers [OF assms(2)] Cons
      by simp
  qed
  then have "length body < 2 ^ 64 \<Longrightarrow> announced_length ?head = word_of_nat (length body)"
    using assms(3) by (simp add: announced_length_def)
  then show ?thesis using f by (auto simp: framed_def HEAD_END_def CRLF_def unat_of_nat)
qed

lemma digits_line: "line_text (to_string n) \<and> trimmed (to_string n)"
proof -
  have d: "nat_digits n \<noteq> []" "\<forall>c \<in> set (nat_digits n). isdigit c" using nat_digits_digits by (auto simp: list_all_iff)
  have "\<not> isdigit CR" "\<not> isdigit NEWLINE" "\<And>c. isdigit c \<Longrightarrow> \<not> blank c"
    by (auto simp: isdigit_def CR_def blank_def)
  then show ?thesis using d hd_in_set last_in_set by (fastforce simp: line_text_def trimmed_def to_string_def)
qed

lemma lower_names:
  "map tolower ''Content-Type'' = ''content-type''" "map tolower ''Content-Length'' = ''content-length''"
  "map tolower ''Connection'' = ''connection''" "map tolower ''Access-Control-Allow-Origin'' = ''access-control-allow-origin''"
  "map tolower ''Access-Control-Allow-Methods'' = ''access-control-allow-methods''"
  "map tolower ''Access-Control-Allow-Headers'' = ''access-control-allow-headers''"
  by code_simp+

lemma header_ok_to_string: "header_ok (''Content-Length'', to_string n)"
  using digits_line [of n] by (simp add: header_ok_def line_text_def CR_def)

lemma answer_headers_ok:
  "header_ok (''Content-Type'', ''application/json'')" "header_ok (''Access-Control-Allow-Origin'', ''*'')"
  "header_ok (''Connection'', ''close'')" "header_ok (''Access-Control-Allow-Methods'', ''GET, POST, OPTIONS'')"
  "header_ok (''Access-Control-Allow-Headers'', ''Content-Type, Authorization'')"
  by (simp_all add: header_ok_def line_text_def trimmed_def blank_def CR_def)

lemma set_header_named:
  "set_header h (''Content-Type'', v) = h\<lparr>head_content_type := v\<rparr>"
  "set_header h (''Content-Length'', v) = h\<lparr>head_content_length := (case stoull v of Inl e \<Rightarrow> 0 | Inr n \<Rightarrow> n)\<rparr>"
  "set_header h (''Connection'', v) = h" "set_header h (''Access-Control-Allow-Origin'', v) = h"
  "set_header h (''Access-Control-Allow-Methods'', v) = h" "set_header h (''Access-Control-Allow-Headers'', v) = h"
  unfolding set_header_def Let_def fst_conv snd_conv lower_names by simp_all

lemmas set_header_simps = set_header_named stoull_to_string no_head_def

lemma json_response_framed:
  assumes "line_text (''HTTP/1.1 '' @ status)"
  shows "framed (http_response status body)"
proof -
  let ?hs = "[(''Content-Type'', ''application/json''), (''Access-Control-Allow-Origin'', ''*''),
      (''Content-Length'', to_string (length body)), (''Connection'', ''close'')]"
  have e: "http_response status body = ((''HTTP/1.1 '' @ status) @ lines_text (map header_text ?hs)) @ HEAD_END @ body"
    by (simp add: http_response_def header_text_def HEAD_END_def)
  show ?thesis
    unfolding e by (rule framed_message [OF assms])
      (simp_all add: set_header_simps answer_headers_ok header_ok_to_string)
qed

lemma bare_answers_framed: "framed header_too_large" "framed cors_answer" "framed too_large"
proof -
  have st: "line_text ''HTTP/1.1 431 Request Header Fields Too Large''" "line_text ''HTTP/1.1 204 No Content''"
    "line_text ''HTTP/1.1 413 Payload Too Large''" by (simp_all add: line_text_def CR_def)
  have e1: "header_too_large = (''HTTP/1.1 431 Request Header Fields Too Large''
      @ lines_text (map header_text [(''Connection'', ''close'')])) @ HEAD_END @ []"
    by (simp add: header_too_large_def header_text_def HEAD_END_def)
  show "framed header_too_large"
    unfolding e1 by (rule framed_message [OF st(1)]) (simp_all add: set_header_simps answer_headers_ok)
  let ?hs = "[(''Access-Control-Allow-Origin'', ''*''), (''Access-Control-Allow-Methods'', ''GET, POST, OPTIONS''),
      (''Access-Control-Allow-Headers'', ''Content-Type, Authorization''), (''Connection'', ''close'')]"
  have e2: "cors_answer = (''HTTP/1.1 204 No Content'' @ lines_text (map header_text ?hs)) @ HEAD_END @ []"
    by (simp add: cors_answer_def header_text_def HEAD_END_def)
  show "framed cors_answer"
    unfolding e2 by (rule framed_message [OF st(2)]) (simp_all add: set_header_simps answer_headers_ok)
  obtain body where b: "too_large = ''HTTP/1.1 413 Payload Too Large'' @ CRLF @ ''Content-Type: application/json'' @ CRLF
      @ ''Content-Length: '' @ to_string (length body) @ CRLF @ ''Connection: close'' @ CRLF @ CRLF @ body"
    by (auto simp: too_large_def Let_def)
  let ?hs = "[(''Content-Type'', ''application/json''), (''Content-Length'', to_string (length body)), (''Connection'', ''close'')]"
  have e3: "too_large = (''HTTP/1.1 413 Payload Too Large'' @ lines_text (map header_text ?hs)) @ HEAD_END @ body"
    unfolding b by (simp add: header_text_def HEAD_END_def)
  show "framed too_large"
    unfolding e3 by (rule framed_message [OF st(3)])
      (simp_all add: set_header_simps answer_headers_ok header_ok_to_string)
qed


section \<open>Streams\<close>

text \<open>The emitted tokens that are not think markers.\<close>

definition think_marker :: "tokenizer \<Rightarrow> int \<Rightarrow> bool" where
  "think_marker tk tok \<longleftrightarrow> tok = think_start_token_id tk \<or> decode_token tk tok = ''<think>''
     \<or> tok = think_end_token_id tk \<or> decode_token tk tok = ''</think>''"

definition content_chunks :: "server_config \<Rightarrow> string \<Rightarrow> int \<Rightarrow> tokenizer \<Rightarrow> int list \<Rightarrow> string" where
  "content_chunks cfg req_id now tk toks =
     concat (map (\<lambda>tok. sse_chunk cfg req_id now (piece_chunk False (decode_token tk tok)))
       (filter (\<lambda>tok. \<not> think_marker tk tok) toks))"

lemma same_tokens_decode:
  "same_tokens tk tk' \<Longrightarrow> decode_token tk' tok = decode_token tk tok
     \<and> think_start_token_id tk' = think_start_token_id tk \<and> think_end_token_id tk' = think_end_token_id tk"
proof -
  have "decode_symbol (tk\<lparr>bpe_cache := x\<rparr>) = decode_symbol tk" for x by (simp add: fun_eq_iff decode_symbol_def)
  then show "same_tokens tk tk' \<Longrightarrow> ?thesis"
    by (auto simp: same_tokens_def decode_token_def cong: option.case_cong if_cong)
qed

lemma transcript_stream:
  assumes "delivers (srv_send srv)" "same_tokens tk tk'"
  shows "cb_of v = (c, False) \<Longrightarrow>
    \<exists>c'. cb_of (foldl (transcript_step tk' (Some (stream_callback srv cfg req_id now tk))) v toks) = (c', False)
      \<and> wire c' = wire c @ content_chunks cfg req_id now tk toks"
proof (induction toks arbitrary: v c)
  case (Cons t ts)
  let ?step = "transcript_step tk' (Some (stream_callback srv cfg req_id now tk))"
  note same = same_tokens_decode [OF assms(2)]
  obtain ts0 tx rs th where v: "v = (ts0, tx, rs, th, (c, False))" using Cons.prems by (cases v) (auto simp: cb_of_def)
  show ?case
  proof (cases "think_marker tk t")
    case True
    then have "cb_of (?step v t) = (c, False)"
      using same [of t] by (auto simp: v transcript_step_def Let_def think_marker_def cb_of_def)
    from Cons.IH [OF this] True show ?thesis by (simp add: content_chunks_def)
  next
    case False
    obtain c1 where s: "send_all (srv_send srv) (sse_chunk cfg req_id now (piece_chunk False (decode_token tk t))) c = (True, c1)"
      "wire c1 = wire c @ sse_chunk cfg req_id now (piece_chunk False (decode_token tk t))"
      using send_all_delivers [OF assms(1)] by blast
    have "cb_of (?step v t) = (c1, False)"
      using False same [of t] s(1)
      by (auto simp: v transcript_step_def Let_def think_marker_def cb_of_def stream_callback_def)
    from Cons.IH [OF this] False s(2) show ?thesis by (simp add: content_chunks_def)
  qed
qed (simp add: content_chunks_def)

definition stream_text :: "server_config \<Rightarrow> string \<Rightarrow> int \<Rightarrow> tokenizer \<Rightarrow> generation_result \<Rightarrow> string" where
  "stream_text cfg req_id now tk res =
     sse_headers @ sse_chunk cfg req_id now role_chunk @ content_chunks cfg req_id now tk (token_ids res)
     @ sse_chunk cfg req_id now (finish_chunk (finish_reason res)) @ done_event"

lemma stream_completion_wire:
  assumes "delivers (srv_send srv)" "stream_completion srv cfg req_id now req prompt e c = Some (c', e')"
  shows "\<exists>c1 res st. generate (srv_engine srv) (print_float srv) e prompt (generation_request req)
      (Some (stream_callback srv cfg req_id now (eng_tokenizer e))) (c1, False) = Some (res, e', st)
    \<and> wire c' = wire c @ stream_text cfg req_id now (eng_tokenizer e) res"
proof -
  let ?c1 = "send_on srv (sse_chunk cfg req_id now role_chunk) (send_on srv sse_headers c)"
  let ?cb = "stream_callback srv cfg req_id now (eng_tokenizer e)"
  obtain res c2 th where g: "generate (srv_engine srv) (print_float srv) e prompt (generation_request req)
      (Some ?cb) (?c1, False) = Some (res, e', (c2, th))"
    and c': "c' = send_on srv done_event (send_on srv (sse_chunk cfg req_id now (finish_chunk (finish_reason res))) c2)"
    using assms(2) by (auto simp: stream_completion_def Let_def split: option.splits)
  have t: "transcribed (eng_tokenizer e') (Some ?cb) (?c1, False) res (c2, th)"
    and same: "same_tokens (eng_tokenizer e) (eng_tokenizer e')" using generate_transcribed [OF g] by auto
  have "cb_of ([], [], [], False, (?c1, False)) = (?c1, False)" by (simp add: cb_of_def)
  from transcript_stream [OF assms(1) same this, of cfg req_id now "token_ids res"] transcribed_callback [OF t]
  have "wire c2 = wire ?c1 @ content_chunks cfg req_id now (eng_tokenizer e) (token_ids res)"
    by (auto simp: transcript_def)
  then have "wire c' = wire c @ stream_text cfg req_id now (eng_tokenizer e) res"
    by (simp add: c' wire_send_on [OF assms(1)] stream_text_def)
  then show ?thesis using g by blast
qed

text \<open>
  C13. A stream carries every piece: when the peer takes the bytes, a streamed completion is the
  event-stream head, the role event, one content event with the decoded piece for each emitted
  token that is not a think marker, in the order of emission, the event with the finish reason, and
  the end marker. Every piece goes out as \<^verbatim>\<open>content\<close>, also those between the think markers: the
  flag \<^verbatim>\<open>stream_in_thinking\<close> of the callback is never set, because the engine does not call it for the
  markers.
\<close>

theorem stream_carries_every_piece:
  assumes "delivers (srv_send srv)" "stream_completion srv cfg req_id now req prompt e c = Some (c', e')"
  shows "\<exists>c1 res st. generate (srv_engine srv) (print_float srv) e prompt (generation_request req)
      (Some (stream_callback srv cfg req_id now (eng_tokenizer e))) (c1, False) = Some (res, e', st)
    \<and> wire c' = wire c @ stream_text cfg req_id now (eng_tokenizer e) res"
  by (rule stream_completion_wire [OF assms])

text \<open>A server for the examples: the small engine and a peer that takes everything.\<close>

definition toy_server :: "int list server_env" where
  "toy_server = \<lparr>srv_engine = toy_env, srv_send = (\<lambda>n data. int (length data)), srv_stod = (\<lambda>_. None), srv_f32 = id,
     print_float = (\<lambda>_. ''0.5''), print_ratio = (\<lambda>_. ''4.00'')\<rparr>"

lemma toy_server_delivers: "delivers (srv_send toy_server)"
  by (simp add: delivers_def toy_server_def)

theorem stream_carries_every_piece_witness:
  "\<exists>c' res. wire c' = stream_text ServerConfig ''chatcmpl-1'' 7 toy_tokenizer res
     \<and> length (token_ids res) \<le> 256
     \<and> (\<exists>e'. stream_completion toy_server ServerConfig ''chatcmpl-1'' 7 default_request ''aa'' toy_engine
           \<lparr>rx = [], wire = [], sends = 0, closes = 0\<rparr> = Some (c', e'))"
proof -
  let ?c = "\<lparr>rx = [], wire = [], sends = 0, closes = 0\<rparr>"
  let ?gen = "\<lambda>c. generate (srv_engine toy_server) (print_float toy_server) toy_engine ''aa'' (generation_request default_request)
      (Some (stream_callback toy_server ServerConfig ''chatcmpl-1'' 7 (eng_tokenizer toy_engine))) (c, False)"
  have tk: "eng_tokenizer toy_engine = toy_tokenizer" "srv_engine toy_server = toy_env"
    by (simp_all add: toy_engine_def toy_server_def)
  have g: "\<exists>res e' st. ?gen c = Some (res, e', st) \<and> length (token_ids res) \<le> 256" for c
    using generate_steps [OF toy_engine_ok(1), where print_float = "print_float toy_server" and prompt = "''aa''"
        and cfg = "generation_request default_request" and c = "(c, False)"
        and callback = "Some (stream_callback toy_server ServerConfig ''chatcmpl-1'' 7 (eng_tokenizer toy_engine))"]
    by (auto simp: tk(2) generation_request_def default_request_def)
  obtain res e' st where "?gen (send_on toy_server (sse_chunk ServerConfig ''chatcmpl-1'' 7 role_chunk)
      (send_on toy_server sse_headers ?c)) = Some (res, e', st)" using g by blast
  then obtain c' where s: "stream_completion toy_server ServerConfig ''chatcmpl-1'' 7 default_request ''aa'' toy_engine ?c
      = Some (c', e')"
    by (cases st) (simp add: stream_completion_def Let_def)
  from stream_carries_every_piece [OF toy_server_delivers s] obtain c1 res st where
    "?gen c1 = Some (res, e', st)" "wire c' = stream_text ServerConfig ''chatcmpl-1'' 7 toy_tokenizer res"
    by (auto simp: tk(1))
  then show ?thesis using g [of c1] s by auto
qed


section \<open>Every answer\<close>

definition answer_ok :: "server_config \<Rightarrow> string \<Rightarrow> int \<Rightarrow> string \<Rightarrow> bool" where
  "answer_ok cfg req_id now m \<longleftrightarrow> m = [] \<or> framed m \<or> (\<exists>tk res. m = stream_text cfg req_id now tk res)"

lemma status_lines:
  "line_text (''HTTP/1.1 '' @ ''200 OK'')" "line_text (''HTTP/1.1 '' @ ''400 Bad Request'')"
  "line_text (''HTTP/1.1 '' @ ''404 Not Found'')" "line_text (''HTTP/1.1 '' @ ''408 Request Timeout'')"
  "line_text (''HTTP/1.1 '' @ ''500 Internal Server Error'')"
  by (simp_all add: line_text_def CR_def)

lemma to_string_int_line: "line_text (''HTTP/1.1 '' @ to_string_int i @ '' Bad Request'')"
proof -
  have "CR \<notin> set (nat_digits n)" "NEWLINE \<notin> set (nat_digits n)" for n
    using digits_line [of n] by (simp_all add: to_string_def line_text_def)
  then show ?thesis by (simp add: line_text_def to_string_int_def CR_def)
qed

lemmas json_answers_framed = status_lines [THEN json_response_framed]

lemma early_answer_framed: "early_answer cfg now h = Some m \<Longrightarrow> framed m"
  by (auto simp: early_answer_def health_answer_def models_answer_def not_found_def chunked_unsupported_def
      bad_request_def error_answer_def bare_answers_framed json_answers_framed split: if_splits)

lemma complete_answer:
  assumes "delivers (srv_send srv)" "complete srv cfg req_id now req prompt e c = Some (c', e')"
  shows "\<exists>m. wire c' = wire c @ m \<and> answer_ok cfg req_id now m"
proof (cases "req_stream req")
  case True
  then show ?thesis using assms stream_completion_wire [OF assms(1)] by (fastforce simp: complete_def answer_ok_def)
next
  case False
  then obtain res where "wire c' = wire c @ completion_answer cfg req_id now res"
    using assms wire_send_on [OF assms(1)] by (auto simp: complete_def split: option.splits)
  moreover have "framed (completion_answer cfg req_id now res)"
    by (simp add: completion_answer_def failure_answer_def error_answer_def json_answers_framed Let_def)
  ultimately show ?thesis by (auto simp: answer_ok_def)
qed

lemma serve_body_answer:
  assumes "delivers (srv_send srv)" "serve_body srv cfg req_id now h body e c = Some (c', e')"
  shows "\<exists>m. wire c' = wire c @ m \<and> answer_ok cfg req_id now m"
proof (cases "parse_request srv h body")
  case (Inl err)
  then show ?thesis
    using assms wire_reply [OF assms(1)] to_string_int_line [THEN json_response_framed]
    by (auto simp: serve_body_def error_answer_def answer_ok_def)
next
  case (Inr req)
  then show ?thesis
    using assms wire_reply [OF assms(1)] json_answers_framed(2)
    by (auto simp: serve_body_def bad_request_def error_answer_def answer_ok_def close_socket_def split: option.splits sum.splits
        dest!: complete_answer [OF assms(1)])
qed

text \<open>
  C12. Every answer is whole: when the peer takes the bytes, what the handler writes on a connection
  is nothing (the client closed or timed out before its head was complete), or one framed HTTP
  message, with the length of its body announced as the server itself would read it, or one event
  stream with its end marker. This covers every limit, routing, parse, image, parameter, template,
  context and generation error.
\<close>

theorem every_answer_is_whole:
  assumes "delivers (srv_send srv)" "handle_client srv cfg req_id now e c = Some (c', e')"
  shows "\<exists>m. wire c' = wire c @ m \<and> (m = [] \<or> framed m \<or> (\<exists>tk res. m = stream_text cfg req_id now tk res))"
proof -
  obtain r c1 where rh: "read_head [] c = (r, c1)" by fastforce
  note h = read_head_extends [OF rh] and run = assms(2) [unfolded handle_client_def rh]
  note w = wire_reply [OF assms(1)]
  have "\<exists>m. wire c' = wire c @ m \<and> answer_ok cfg req_id now m"
  proof (cases r)
    case Head_closed
    then show ?thesis using run h by (auto simp: close_socket_def answer_ok_def)
  next
    case Head_too_large
    then show ?thesis using run h w bare_answers_framed by (auto simp: answer_ok_def)
  next
    case (Head headers pre)
    let ?h = "parse_head headers"
    obtain body c2 where rb: "read_body (head_content_length ?h) pre c1 = (body, c2)" by fastforce
    have w2: "wire c2 = wire c" using read_body_extends [OF rb] h by simp
    show ?thesis
    proof (cases "early_answer cfg now ?h")
      case (Some m)
      then show ?thesis using run Head h w early_answer_framed [OF Some] by (auto simp: answer_ok_def)
    next
      case None
      show ?thesis
      proof (cases "length body < unat (head_content_length ?h)")
        case True
        then have "c' = reply (srv_send srv) request_timeout c2" using run Head None rb by simp
        moreover have "framed request_timeout" by (simp add: request_timeout_def error_answer_def json_answers_framed)
        ultimately show ?thesis using w w2 by (auto simp: answer_ok_def)
      next
        case False
        then have "serve_body srv cfg req_id now ?h body e c2 = Some (c', e')" using run Head None rb by simp
        from serve_body_answer [OF assms(1) this] show ?thesis using w2 by simp
      qed
    qed
  qed
  then show ?thesis by (simp add: answer_ok_def)
qed

text \<open>A request for the health of the server, in three segments.\<close>

definition health_segments :: "string list" where
  "health_segments = [''GET /hea'', ''lth HTTP/1.1'' @ [CR], NEWLINE # CRLF]"

lemma health_request:
  "read_head [] \<lparr>rx = health_segments, wire = [], sends = 0, closes = 0\<rparr>
     = (Head ''GET /health HTTP/1.1'' [], \<lparr>rx = [], wire = [], sends = 0, closes = 0\<rparr>)"
  "head_method (parse_head ''GET /health HTTP/1.1'') = ''GET''" "head_path (parse_head ''GET /health HTTP/1.1'') = ''/health''"
  subgoal by (simp add: health_segments_def read_head.simps recv_def HEAD_END_def CRLF_def CR_def)
  by code_simp+

theorem every_answer_is_whole_witness:
  "\<exists>c' m. handle_client toy_server ServerConfig ''chatcmpl-1'' 7 toy_engine
      \<lparr>rx = health_segments, wire = [], sends = 0, closes = 0\<rparr> = Some (c', toy_engine)
    \<and> wire c' = m \<and> (m = [] \<or> framed m \<or> (\<exists>tk res. m = stream_text ServerConfig ''chatcmpl-1'' 7 tk res))"
proof -
  obtain c' where h: "handle_client toy_server ServerConfig ''chatcmpl-1'' 7 toy_engine
      \<lparr>rx = health_segments, wire = [], sends = 0, closes = 0\<rparr> = Some (c', toy_engine)"
    using health_request by (simp add: handle_client_def early_answer_def Let_def)
  from every_answer_is_whole [OF toy_server_delivers h] h show ?thesis by auto
qed


section \<open>Segments\<close>

text \<open>A fresh connection, and what can be observed of a handled one.\<close>

definition fresh_conn :: "string list \<Rightarrow> conn" where
  "fresh_conn segs = \<lparr>rx = segs, wire = [], sends = 0, closes = 0\<rparr>"

definition observed :: "(conn \<times> 'd engine) option \<Rightarrow> (string \<times> nat \<times> nat \<times> 'd engine) option" where
  "observed r = map_option (\<lambda>(c, e). (wire c, sends c, closes c, e)) r"

text \<open>What the handler does with a request whose head and body are known.\<close>

definition served ::
    "'d server_env \<Rightarrow> server_config \<Rightarrow> string \<Rightarrow> int \<Rightarrow> http_head \<Rightarrow> string \<Rightarrow> 'd engine \<Rightarrow> (conn \<times> 'd engine) option" where
  "served srv cfg req_id now h body e =
     (case early_answer cfg now h of
        Some m \<Rightarrow> Some (reply (srv_send srv) m (fresh_conn []), e)
      | None \<Rightarrow> serve_body srv cfg req_id now h body e (fresh_conn []))"

lemma send_all_rx: "send_all send s (c\<lparr>rx := x\<rparr>) = (case send_all send s c of (ok, c') \<Rightarrow> (ok, c'\<lparr>rx := x\<rparr>))"
proof (induction send s c rule: send_all.induct)
  case (1 send data c)
  show ?case
  proof (cases "data = [] \<or> send (sends c) data \<le> 0")
    case True
    then show ?thesis by (auto simp: send_all.simps)
  next
    case False
    let ?sent = "send (sends c) data" and ?c1 = "c\<lparr>sends := Suc (sends c)\<rparr>"
    let ?k = "min (nat ?sent) (length data)"
    from False "1.IH" [OF _ refl refl _ refl] have
      "send_all send (drop ?k data) (?c1\<lparr>wire := wire ?c1 @ take ?k data\<rparr>\<lparr>rx := x\<rparr>)
        = (case send_all send (drop ?k data) (?c1\<lparr>wire := wire ?c1 @ take ?k data\<rparr>) of (ok, c') \<Rightarrow> (ok, c'\<lparr>rx := x\<rparr>))"
      by blast
    then show ?thesis using False by (cases c) (simp add: send_all.simps [of send data] Let_def)
  qed
qed

text \<open>
  C10. A request is handled the same however it is split into segments. For every printed request
  with well-formed words and headers, a head within the limit and a body of the announced length,
  and every way its bytes arrive, the handler does what it does with the parsed head and the
  body: same bytes sent, same calls, same engine afterwards. In particular the head is read back
  exactly, names of headers without regard to case.
\<close>

theorem segmentation_does_not_matter:
  assumes "word_text method" "word_text path" "list_all header_ok headers"
    and "length (request_head method path headers) \<le> 61437"
    and "unat (head_content_length (head_of method path headers)) = length body"
    and "[] \<notin> set segs" "concat segs = request_head method path headers @ HEAD_END @ body"
  shows "observed (handle_client srv cfg req_id now e (fresh_conn segs))
    = observed (served srv cfg req_id now (head_of method path headers) body e)"
proof -
  let ?hd = "request_head method path headers" and ?h = "head_of method path headers"
  have ls: "list_all line_text (map header_text headers)" using assms(3) header_line_text by (auto simp: list_all_iff)
  have nocr: "CR \<notin> set (method @ '' '' @ path @ '' HTTP/1.1'')"
    using assms(1,2) by (auto simp: word_text_def list_all_iff CR_def isspace_def)
  have f: "find_sub HEAD_END (?hd @ HEAD_END) = Some (length ?hd)"
    using find_head_end_lines [OF nocr ls] by (simp add: request_head_def)
  have "segments_ok (fresh_conn segs)" "[] @ concat (rx (fresh_conn segs)) = ?hd @ HEAD_END @ body"
    using assms(6,7) by (simp_all add: segments_ok_def fresh_conn_def)
  from read_head_reassembles [OF f assms(4) this] obtain pre c1 where
    rh: "read_head [] (fresh_conn segs) = (Head ?hd pre, c1)" "pre @ concat (rx c1) = body" "segments_ok c1"
    and c1: "wire c1 = []" "closes c1 = 0" "sends c1 = 0" by (auto simp: fresh_conn_def)
  from read_body_reassembles [OF rh(3,2) assms(5) [symmetric]] obtain c2 where
    rb: "read_body (head_content_length ?h) pre c1 = (body, c2)" "rx c2 = []" "wire c2 = wire c1"
      "closes c2 = closes c1" "sends c2 = sends c1" by blast
  have c2: "c2 = fresh_conn []" using rb c1 by (simp add: fresh_conn_def)
  have e1: "c1 = (fresh_conn [])\<lparr>rx := rx c1\<rparr>" using c1 by (simp add: fresh_conn_def)
  have r: "reply (srv_send srv) m c1 = (reply (srv_send srv) m (fresh_conn []))\<lparr>rx := rx c1\<rparr>" for m
    by (subst e1) (simp add: reply_def close_socket_def send_all_rx case_prod_unfold)
  show ?thesis
    using rh(1) rb(1) r assms(5) parse_request_head [OF assms(1-3)]
    by (simp add: handle_client_def served_def observed_def c2 Let_def split: option.splits)
qed

theorem segmentation_does_not_matter_witness:
  "observed (handle_client toy_server ServerConfig ''chatcmpl-1'' 7 toy_engine
       (fresh_conn [''POST /v1/chat/comp'', ''letions HTTP/1.1'' @ CRLF @ ''CONTENT-length'', '': 2'' @ CRLF @ [CR], NEWLINE # ''{'', ''}'']))
   = observed (served toy_server ServerConfig ''chatcmpl-1'' 7
       \<lparr>head_method = ''POST'', head_path = ''/v1/chat/completions'', head_content_length = 2, head_chunked = False,
         head_content_type = []\<rparr> ''{}'' toy_engine)"
proof -
  have low: "map tolower ''CONTENT-length'' = ''content-length''" by code_simp
  have "to_string 2 = ''2''" by code_simp
  then have two: "stoull ''2'' = Inr 2" using stoull_to_string [of 2] by simp
  have h: "head_of ''POST'' ''/v1/chat/completions'' [(''CONTENT-length'', ''2'')]
      = \<lparr>head_method = ''POST'', head_path = ''/v1/chat/completions'', head_content_length = 2, head_chunked = False,
         head_content_type = []\<rparr>"
    unfolding head_of_def foldl.simps set_header_def Let_def fst_conv snd_conv low two by simp
  have w: "word_text ''POST''" "word_text ''/v1/chat/completions''" "list_all header_ok [(''CONTENT-length'', ''2'')]"
    by code_simp+
  have l: "length (request_head ''POST'' ''/v1/chat/completions'' [(''CONTENT-length'', ''2'')]) \<le> 61437"
    by (simp add: request_head_def header_text_def CRLF_def)
  show ?thesis
    using segmentation_does_not_matter [OF w l, of "''{}''" "[''POST /v1/chat/comp'', ''letions HTTP/1.1'' @ CRLF @ ''CONTENT-length'',
        '': 2'' @ CRLF @ [CR], NEWLINE # ''{'', ''}'']"]
    by (simp add: h request_head_def header_text_def HEAD_END_def CRLF_def CR_def)
qed

end
