(* ===== verification/Server_Pool.thy ===== *)
theory Server_Pool
  imports Server "HOL-Library.Multiset"
begin

text \<open>
  The threads of \<^verbatim>\<open>src/serve/server.cpp\<close>: the accept loop, the bounded queue, the worker pool, the
  engine mutex and \<^verbatim>\<open>stop\<close>, as a transition system. Sockets are numbers, a worker's handling of a
  connection is cut at the points where it takes and releases the engine mutex. Condition variables
  only decide when a worker looks at the queue; a worker may look at any time.
\<close>


section \<open>The client queue\<close>

text \<open>What the threads rely on: a queue that never grows beyond its capacity and loses nothing.\<close>

locale bounded_queue =
  fixes empty :: 'q and push :: "'a \<Rightarrow> 'q \<Rightarrow> 'q option" and pop :: "'q \<Rightarrow> ('a \<times> 'q) option"
    and items :: "'q \<Rightarrow> 'a list" and capacity :: nat
  assumes items_empty: "items empty = []"
    and push_items: "push x q = Some q' \<Longrightarrow> items q' = items q @ [x]"
    and push_bounded: "push x q = Some q' \<Longrightarrow> length (items q) < capacity"
    and push_full: "push x q = None \<Longrightarrow> capacity \<le> length (items q)"
    and pop_items: "pop q = Some (x, q') \<Longrightarrow> items q = x # items q'"
    and pop_none: "pop q = None \<Longrightarrow> items q = []"
begin

fun serve_queue :: "'a option list \<Rightarrow> 'q \<Rightarrow> 'a list \<times> 'a list \<times> 'q" where
  "serve_queue [] q = ([], [], q)"
| "serve_queue (Some x # ops) q =
     (case push x q of
        None \<Rightarrow> serve_queue ops q
      | Some q' \<Rightarrow> (case serve_queue ops q' of (ins, outs, r) \<Rightarrow> (x # ins, outs, r)))"
| "serve_queue (None # ops) q =
     (case pop q of
        None \<Rightarrow> serve_queue ops q
      | Some (x, q') \<Rightarrow> (case serve_queue ops q' of (ins, outs, r) \<Rightarrow> (ins, x # outs, r)))"

lemma fifo: "serve_queue ops q = (ins, outs, r) \<Longrightarrow> items q @ ins = outs @ items r"
proof (induction ops q arbitrary: ins outs r rule: serve_queue.induct)
  case (2 x ops q)
  then show ?case by (fastforce split: option.splits prod.splits dest: push_items)
next
  case (3 ops q)
  then show ?case by (fastforce split: option.splits prod.splits dest: pop_items)
qed simp

lemma never_over_capacity:
  "serve_queue ops q = (ins, outs, r) \<Longrightarrow> length (items q) \<le> capacity \<Longrightarrow> length (items r) \<le> capacity"
proof (induction ops q arbitrary: ins outs r rule: serve_queue.induct)
  case (2 x ops q)
  show ?case
  proof (cases "push x q")
    case (Some q')
    then show ?thesis
      using "2.IH"(2) [OF Some] "2.prems" push_items [OF Some] push_bounded [OF Some] by (auto split: prod.splits)
  qed (use 2 in auto)
next
  case (3 ops q)
  show ?case
  proof (cases "pop q")
    case (Some a)
    obtain y q' where a: "a = (y, q')" by (cases a)
    have "length (items q') \<le> capacity" using pop_items [of q y q'] Some a "3.prems"(2) by simp
    then show ?thesis using "3.IH"(2) [OF Some a [symmetric]] "3.prems"(1) Some a by (auto split: prod.splits)
  qed (use 3 in auto)
qed simp

end

text \<open>\<^verbatim>\<open>client_queue_\<close> under its mutex.\<close>

definition try_enqueue :: "nat \<Rightarrow> nat \<Rightarrow> nat list \<Rightarrow> nat list option" where
  "try_enqueue max_queued s q = (if length q < max_queued then Some (q @ [s]) else None)"

definition dequeue :: "nat list \<Rightarrow> (nat \<times> nat list) option" where
  "dequeue q = (case q of [] \<Rightarrow> None | s # q' \<Rightarrow> Some (s, q'))"

interpretation client_queue: bounded_queue "[]" "try_enqueue max_queued" dequeue "\<lambda>q. q" max_queued for max_queued
  by unfold_locales (auto simp: try_enqueue_def dequeue_def split: if_splits list.splits)


section \<open>Threads\<close>

text \<open>
  A worker checks the flag, waits, reads and parses, counts tokens (without the engine mutex), waits
  for the mutex, generates, or has ended. The accepting thread and the thread in \<^verbatim>\<open>stop\<close> alike.
\<close>

datatype worker = W_check | W_wait | W_read nat | W_count nat | W_lock nat | W_generate nat | W_ended

datatype acceptor = A_check | A_accept | A_ended

datatype stopper = S_none | S_join_accept | S_join_workers | S_drain | S_done

record pool =
  is_running :: bool
  acc :: acceptor
  clients :: "nat list"
  workers :: "worker list"
  engine_mutex :: "nat option"
  stopping :: stopper
  taken :: "nat list"
  closed :: "nat list"
  leaked :: "nat list"

text \<open>\<^verbatim>\<open>start\<close>: between one and eight workers.\<close>

definition worker_count :: "server_config \<Rightarrow> nat" where
  "worker_count cfg = max 1 (min (num_workers cfg) 8)"

definition start_pool :: "server_config \<Rightarrow> pool" where
  "start_pool cfg = \<lparr>is_running = True, acc = A_check, clients = [], workers = replicate (worker_count cfg) W_check,
     engine_mutex = None, stopping = S_none, taken = [], closed = [], leaked = []\<rparr>"

definition set_worker :: "nat \<Rightarrow> worker \<Rightarrow> pool \<Rightarrow> pool" where
  "set_worker i w p = p\<lparr>workers := (workers p)[i := w]\<rparr>"

definition close_client :: "nat \<Rightarrow> pool \<Rightarrow> pool" where
  "close_client s p = p\<lparr>closed := closed p @ [s]\<rparr>"

inductive pool_step :: "server_config \<Rightarrow> pool \<Rightarrow> pool \<Rightarrow> bool" for cfg where
  accept_check: "acc p = A_check \<Longrightarrow>
    pool_step cfg p (p\<lparr>acc := (if is_running p then A_accept else A_ended)\<rparr>)"
| accept_fails: "acc p = A_accept \<Longrightarrow>
    pool_step cfg p (p\<lparr>acc := (if is_running p then A_check else A_ended)\<rparr>)"
| accept_enqueue: "acc p = A_accept \<Longrightarrow> s \<notin> set (taken p) \<Longrightarrow>
    try_enqueue (max_queued_requests cfg) s (clients p) = Some q \<Longrightarrow>
    pool_step cfg p (p\<lparr>acc := A_check, taken := taken p @ [s], clients := q\<rparr>)"
| accept_busy: "acc p = A_accept \<Longrightarrow> s \<notin> set (taken p) \<Longrightarrow>
    try_enqueue (max_queued_requests cfg) s (clients p) = None \<Longrightarrow>
    pool_step cfg p (close_client s (p\<lparr>acc := A_check, taken := taken p @ [s]\<rparr>))"
| work_check: "i < length (workers p) \<Longrightarrow> workers p ! i = W_check \<Longrightarrow>
    pool_step cfg p (set_worker i (if is_running p then W_wait else W_ended) p)"
| work_take: "i < length (workers p) \<Longrightarrow> workers p ! i = W_wait \<Longrightarrow> dequeue (clients p) = Some (s, q) \<Longrightarrow>
    pool_step cfg p (set_worker i (W_read s) (p\<lparr>clients := q\<rparr>))"
| work_end: "i < length (workers p) \<Longrightarrow> workers p ! i = W_wait \<Longrightarrow> dequeue (clients p) = None \<Longrightarrow> \<not> is_running p \<Longrightarrow>
    pool_step cfg p (set_worker i W_ended p)"
| work_answer: "i < length (workers p) \<Longrightarrow> workers p ! i = W_read s \<or> workers p ! i = W_count s \<Longrightarrow>
    pool_step cfg p (set_worker i W_check (close_client s p))"
| work_escape: "i < length (workers p) \<Longrightarrow> workers p ! i = W_read s \<or> workers p ! i = W_count s \<Longrightarrow>
    pool_step cfg p (set_worker i W_check (p\<lparr>leaked := leaked p @ [s]\<rparr>))"
| work_count: "i < length (workers p) \<Longrightarrow> workers p ! i = W_read s \<Longrightarrow>
    pool_step cfg p (set_worker i (W_count s) p)"
| work_ready: "i < length (workers p) \<Longrightarrow> workers p ! i = W_count s \<Longrightarrow>
    pool_step cfg p (set_worker i (W_lock s) p)"
| work_lock: "i < length (workers p) \<Longrightarrow> workers p ! i = W_lock s \<Longrightarrow> engine_mutex p = None \<Longrightarrow>
    pool_step cfg p (set_worker i (W_generate s) (p\<lparr>engine_mutex := Some i\<rparr>))"
| work_finish: "i < length (workers p) \<Longrightarrow> workers p ! i = W_generate s \<Longrightarrow>
    pool_step cfg p (set_worker i W_check (close_client s (p\<lparr>engine_mutex := None\<rparr>)))"
| stop_begin: "is_running p \<Longrightarrow> stopping p = S_none \<Longrightarrow>
    pool_step cfg p (p\<lparr>is_running := False, stopping := S_join_accept\<rparr>)"
| stop_accept: "stopping p = S_join_accept \<Longrightarrow> acc p = A_ended \<Longrightarrow>
    pool_step cfg p (p\<lparr>stopping := S_join_workers\<rparr>)"
| stop_workers: "stopping p = S_join_workers \<Longrightarrow> list_all (\<lambda>w. w = W_ended) (workers p) \<Longrightarrow>
    pool_step cfg p (p\<lparr>stopping := S_drain\<rparr>)"
| stop_drain: "stopping p = S_drain \<Longrightarrow> dequeue (clients p) = Some (s, q) \<Longrightarrow>
    pool_step cfg p (close_client s (p\<lparr>clients := q\<rparr>))"
| stop_done: "stopping p = S_drain \<Longrightarrow> dequeue (clients p) = None \<Longrightarrow>
    pool_step cfg p (p\<lparr>stopping := S_done\<rparr>)"

text \<open>\<^verbatim>\<open>work_escape\<close> is an exception that leaves \<^verbatim>\<open>handle_client\<close>: the worker loop catches it, but the socket stays open.\<close>

inductive_cases pool_stepE: "pool_step cfg p p'"


section \<open>Invariants\<close>

fun worker_sockets :: "worker \<Rightarrow> nat multiset" where
  "worker_sockets (W_read s) = {#s#}"
| "worker_sockets (W_count s) = {#s#}"
| "worker_sockets (W_lock s) = {#s#}"
| "worker_sockets (W_generate s) = {#s#}"
| "worker_sockets w = {#}"

definition held :: "worker list \<Rightarrow> nat multiset" where
  "held ws = sum_list (map worker_sockets ws)"

fun generating :: "worker \<Rightarrow> bool" where
  "generating (W_generate s) = True"
| "generating w = False"

definition sockets_accounted :: "pool \<Rightarrow> bool" where
  "sockets_accounted p \<longleftrightarrow> distinct (taken p)
     \<and> mset (taken p) = mset (closed p) + mset (leaked p) + mset (clients p) + held (workers p)"

definition mutex_exclusive :: "pool \<Rightarrow> bool" where
  "mutex_exclusive p \<longleftrightarrow> (\<forall>i < length (workers p). generating (workers p ! i) \<longleftrightarrow> engine_mutex p = Some i)
     \<and> (\<forall>i. engine_mutex p = Some i \<longrightarrow> i < length (workers p))"

definition stop_order :: "pool \<Rightarrow> bool" where
  "stop_order p \<longleftrightarrow> (is_running p \<longleftrightarrow> stopping p = S_none)
     \<and> (acc p = A_ended \<longrightarrow> \<not> is_running p)
     \<and> (stopping p \<in> {S_join_workers, S_drain, S_done} \<longrightarrow> acc p = A_ended)
     \<and> (stopping p \<in> {S_drain, S_done} \<longrightarrow> list_all (\<lambda>w. w = W_ended) (workers p))
     \<and> (stopping p = S_done \<longrightarrow> clients p = [])"

definition pool_inv :: "server_config \<Rightarrow> pool \<Rightarrow> bool" where
  "pool_inv cfg p \<longleftrightarrow> length (clients p) \<le> max_queued_requests cfg \<and> length (workers p) = worker_count cfg
     \<and> sockets_accounted p \<and> mutex_exclusive p \<and> stop_order p"

lemma sum_list_map_update:
  fixes f :: "'a \<Rightarrow> 'b :: comm_monoid_add"
  shows "i < length ws \<Longrightarrow> sum_list (map f (ws[i := w])) + f (ws ! i) = sum_list (map f ws) + f w"
proof (induction ws arbitrary: i)
  case (Cons a ws)
  then show ?case by (cases i) (auto simp: algebra_simps)
qed simp

lemma held_update: "i < length ws \<Longrightarrow> held (ws[i := w]) + worker_sockets (ws ! i) = held ws + worker_sockets w"
  unfolding held_def by (rule sum_list_map_update)

lemma pool_fields [simp]:
  "is_running (set_worker i w p) = is_running p" "acc (set_worker i w p) = acc p" "clients (set_worker i w p) = clients p"
  "workers (set_worker i w p) = (workers p)[i := w]" "engine_mutex (set_worker i w p) = engine_mutex p"
  "stopping (set_worker i w p) = stopping p" "taken (set_worker i w p) = taken p" "closed (set_worker i w p) = closed p"
  "leaked (set_worker i w p) = leaked p"
  "is_running (close_client s p) = is_running p" "acc (close_client s p) = acc p" "clients (close_client s p) = clients p"
  "workers (close_client s p) = workers p" "engine_mutex (close_client s p) = engine_mutex p"
  "stopping (close_client s p) = stopping p" "taken (close_client s p) = taken p" "closed (close_client s p) = closed p @ [s]"
  "leaked (close_client s p) = leaked p"
  by (simp_all add: set_worker_def close_client_def)

lemma queue_step:
  "try_enqueue n s q = Some q' \<Longrightarrow> q' = q @ [s] \<and> length q < n" "dequeue q = Some (s, q') \<Longrightarrow> q = s # q'"
  "dequeue q = None \<Longrightarrow> q = []"
  using client_queue.push_items client_queue.push_bounded client_queue.pop_items client_queue.pop_none by blast+

lemma accounted_step: "pool_step cfg p p' \<Longrightarrow> sockets_accounted p \<Longrightarrow> sockets_accounted p'"
proof (induction rule: pool_step.induct)
  case (work_check i p)
  then show ?case using held_update [of i "workers p"] by (auto simp: sockets_accounted_def)
next
  case (work_take i p s q)
  then show ?case using held_update [of i "workers p" "W_read s"] by (auto simp: sockets_accounted_def dest!: queue_step)
next
  case (work_end i p)
  then show ?case using held_update [of i "workers p"] by (auto simp: sockets_accounted_def)
next
  case (work_answer i p s)
  then show ?case using held_update [of i "workers p" W_check] by (auto simp: sockets_accounted_def)
next
  case (work_escape i p s)
  then show ?case using held_update [of i "workers p" W_check] by (auto simp: sockets_accounted_def)
next
  case (work_count i p s)
  then show ?case using held_update [of i "workers p" "W_count s"] by (auto simp: sockets_accounted_def)
next
  case (work_ready i p s)
  then show ?case using held_update [of i "workers p" "W_lock s"] by (auto simp: sockets_accounted_def)
next
  case (work_lock i p s)
  then show ?case using held_update [of i "workers p" "W_generate s"] by (auto simp: sockets_accounted_def)
next
  case (work_finish i p s)
  then show ?case using held_update [of i "workers p" W_check] by (auto simp: sockets_accounted_def)
qed (auto simp: sockets_accounted_def dest!: queue_step)

lemma mutex_step: "pool_step cfg p p' \<Longrightarrow> mutex_exclusive p \<Longrightarrow> mutex_exclusive p'"
  by (induction rule: pool_step.induct) (auto simp: mutex_exclusive_def nth_list_update)

lemma stop_order_step: "pool_step cfg p p' \<Longrightarrow> stop_order p \<Longrightarrow> stop_order p'"
  by (induction rule: pool_step.induct)
    (auto simp: stop_order_def list_all_length nth_list_update dest!: queue_step)

lemma pool_step_inv: "pool_step cfg p p' \<Longrightarrow> pool_inv cfg p \<Longrightarrow> pool_inv cfg p'"
proof -
  assume s: "pool_step cfg p p'" and i: "pool_inv cfg p"
  have "length (clients p') \<le> max_queued_requests cfg \<and> length (workers p') = worker_count cfg"
    using s i by (cases rule: pool_step.cases) (auto simp: pool_inv_def dest!: queue_step)
  then show ?thesis
    using accounted_step [OF s] mutex_step [OF s] stop_order_step [OF s] i by (simp add: pool_inv_def)
qed

lemma start_pool_inv: "pool_inv cfg (start_pool cfg)"
proof -
  have "held (replicate n W_check) = {#}" for n by (induction n) (auto simp: held_def)
  then show ?thesis
    by (auto simp: pool_inv_def start_pool_def sockets_accounted_def mutex_exclusive_def stop_order_def)
qed

lemma reachable_inv: "(pool_step cfg)\<^sup>*\<^sup>* (start_pool cfg) p \<Longrightarrow> pool_inv cfg p"
  by (induction rule: rtranclp_induct) (auto intro: start_pool_inv pool_step_inv)


text \<open>
  C11. The pool loses no connection: in every state the server can reach, under every interleaving
  of the accept loop, the workers and \<^verbatim>\<open>stop\<close>, the queue holds at most \<open>max_queued_requests\<close> sockets;
  every accepted socket has been closed once, or is in the queue once, or is with one worker, or has
  been left open by an exception that escaped its handler, and only one of these; at most one worker
  generates; and when \<^verbatim>\<open>stop\<close> has returned, every accepted socket that no exception left open is closed.
\<close>

theorem pool_accounts_for_sockets:
  assumes "(pool_step cfg)\<^sup>*\<^sup>* (start_pool cfg) p"
  shows "length (clients p) \<le> max_queued_requests cfg
    \<and> distinct (taken p) \<and> mset (taken p) = mset (closed p) + mset (leaked p) + mset (clients p) + held (workers p)
    \<and> card {i. i < length (workers p) \<and> generating (workers p ! i)} \<le> 1
    \<and> (if stopping p = S_done then mset (taken p) = mset (closed p) + mset (leaked p) else True)"
proof -
  note inv = reachable_inv [OF assms, unfolded pool_inv_def]
  have m: "mutex_exclusive p" and s: "stop_order p" and a: "sockets_accounted p" using inv by simp_all
  have "{i. i < length (workers p) \<and> generating (workers p ! i)} \<subseteq> {i. engine_mutex p = Some i}"
    using m by (auto simp: mutex_exclusive_def)
  moreover have "card {i. engine_mutex p = Some i} \<le> 1" by (cases "engine_mutex p") auto
  moreover have "finite {i. engine_mutex p = Some i}" by (cases "engine_mutex p") auto
  ultimately have c: "card {i. i < length (workers p) \<and> generating (workers p ! i)} \<le> 1"
    by (meson card_mono le_trans)
  have "held (workers p) = {#}" if "stopping p = S_done"
  proof -
    have "\<forall>w \<in> set (workers p). w = W_ended" using s that by (auto simp: stop_order_def list_all_iff)
    then have "held (workers p) = sum_list (map (\<lambda>w. 0) (workers p))"
      unfolding held_def by (intro arg_cong [where f = sum_list] map_cong) auto
    then show ?thesis by simp
  qed
  then show ?thesis using inv a s c by (auto simp: sockets_accounted_def stop_order_def)
qed

theorem pool_accounts_for_sockets_witness:
  "\<exists>p. (pool_step ServerConfig)\<^sup>*\<^sup>* (start_pool ServerConfig) p \<and> taken p = [7]
    \<and> mset (closed p) + mset (leaked p) + mset (clients p) + held (workers p) = {#7#}"
proof -
  let ?p0 = "start_pool ServerConfig"
  let ?p1 = "?p0\<lparr>acc := A_accept\<rparr>"
  let ?p2 = "?p1\<lparr>acc := A_check, taken := [7], clients := [7]\<rparr>"
  have "pool_step ServerConfig ?p0 ?p1"
    using pool_step.accept_check [of ?p0 ServerConfig] by (simp add: start_pool_def)
  moreover have "pool_step ServerConfig ?p1 ?p2"
    using pool_step.accept_enqueue [of ?p1 7 ServerConfig "[7]"]
    by (simp add: start_pool_def try_enqueue_def ServerConfig_def)
  ultimately have r: "(pool_step ServerConfig)\<^sup>*\<^sup>* ?p0 ?p2" by auto
  have "taken ?p2 = [7]" by simp
  then show ?thesis using pool_accounts_for_sockets [OF r] r by (intro exI [of _ ?p2]) auto
qed


section \<open>Stopping\<close>

text \<open>What is left to do once the flag is cleared.\<close>

fun worker_rank :: "worker \<Rightarrow> nat" where
  "worker_rank W_ended = 0"
| "worker_rank W_check = 1"
| "worker_rank W_wait = 1"
| "worker_rank (W_generate s) = 2"
| "worker_rank (W_lock s) = 3"
| "worker_rank (W_count s) = 4"
| "worker_rank (W_read s) = 5"

fun acceptor_rank :: "acceptor \<Rightarrow> nat" where
  "acceptor_rank A_ended = 0" | "acceptor_rank A_check = 1" | "acceptor_rank A_accept = 7"

fun stopper_rank :: "stopper \<Rightarrow> nat" where
  "stopper_rank S_none = 4" | "stopper_rank S_join_accept = 3" | "stopper_rank S_join_workers = 2"
| "stopper_rank S_drain = 1" | "stopper_rank S_done = 0"

definition work_left :: "pool \<Rightarrow> nat" where
  "work_left p = acceptor_rank (acc p) + 5 * length (clients p) + sum_list (map worker_rank (workers p))
     + stopper_rank (stopping p)"

lemma rank_update: "i < length ws \<Longrightarrow>
    sum_list (map worker_rank (ws[i := w])) + worker_rank (ws ! i) = sum_list (map worker_rank ws) + worker_rank w"
  by (rule sum_list_map_update)

lemma work_left_decreases:
  assumes "pool_step cfg p p'" "\<not> is_running p"
  shows "work_left p' < work_left p \<and> \<not> is_running p'"
  using assms
proof (induction rule: pool_step.induct)
  case (work_check i p)
  then show ?case using rank_update [of i "workers p" W_ended] by (simp add: work_left_def)
next
  case (work_take i p s q)
  then show ?case using rank_update [of i "workers p" "W_read s"] by (auto simp: work_left_def dest!: queue_step)
next
  case (work_end i p)
  then show ?case using rank_update [of i "workers p" W_ended] by (simp add: work_left_def)
next
  case (work_answer i p s)
  then show ?case using rank_update [of i "workers p" W_check] by (auto simp: work_left_def)
next
  case (work_escape i p s)
  then show ?case using rank_update [of i "workers p" W_check] by (auto simp: work_left_def)
next
  case (work_count i p s)
  then show ?case using rank_update [of i "workers p" "W_count s"] by (simp add: work_left_def)
next
  case (work_ready i p s)
  then show ?case using rank_update [of i "workers p" "W_lock s"] by (simp add: work_left_def)
next
  case (work_lock i p s)
  then show ?case using rank_update [of i "workers p" "W_generate s"] by (simp add: work_left_def)
next
  case (work_finish i p s)
  then show ?case using rank_update [of i "workers p" W_check] by (simp add: work_left_def)
qed (auto simp: work_left_def dest!: queue_step)

text \<open>A worker that has not ended can take a step, or the one with the mutex can.\<close>

lemma worker_can_step:
  assumes "mutex_exclusive p" "i < length (workers p)" "workers p ! i \<noteq> W_ended" "\<not> is_running p"
  shows "\<exists>p'. pool_step cfg p p'"
proof (cases "workers p ! i")
  case W_check
  from pool_step.work_check [OF assms(2) this] show ?thesis ..
next
  case W_wait
  show ?thesis
  proof (cases "dequeue (clients p)")
    case None
    from pool_step.work_end [OF assms(2) W_wait None assms(4)] show ?thesis ..
  next
    case (Some x)
    then obtain s q where "dequeue (clients p) = Some (s, q)" by (cases x) auto
    from pool_step.work_take [OF assms(2) W_wait this] show ?thesis ..
  qed
next
  case (W_read s)
  then show ?thesis using pool_step.work_count [OF assms(2)] by blast
next
  case (W_count s)
  then show ?thesis using pool_step.work_ready [OF assms(2)] by blast
next
  case (W_generate s)
  then show ?thesis using pool_step.work_finish [OF assms(2)] by blast
next
  case (W_lock s)
  show ?thesis
  proof (cases "engine_mutex p")
    case None
    from pool_step.work_lock [OF assms(2) W_lock None] show ?thesis ..
  next
    case (Some j)
    then have "j < length (workers p)" "generating (workers p ! j)" using assms(1) by (auto simp: mutex_exclusive_def)
    then show ?thesis using pool_step.work_finish [of j p] by (cases "workers p ! j") auto
  qed
qed (use assms(3) in simp)




section \<open>What the mutex does not cover\<close>

text \<open>
  Two workers can count tokens at the same time, and one can count while another generates: both
  encode, and encoding writes the tokenizer's cache, which is not protected by the mutex.
\<close>

lemma counting_is_not_exclusive:
  "\<exists>p s t. (pool_step ServerConfig)\<^sup>*\<^sup>* (start_pool ServerConfig) p
     \<and> workers p ! 0 = W_count s \<and> workers p ! 1 = W_count t \<and> s \<noteq> t"
proof -
  let ?S = "pool_step ServerConfig" and ?c = ServerConfig
  have n: "max_queued_requests ?c = 32" "worker_count ?c = 8" by (simp_all add: ServerConfig_def worker_count_def)
  define P where "P = (\<lambda>ac q w0 w1 tk. \<lparr>is_running = True, acc = ac, clients = q, workers = w0 # w1 # replicate 6 W_check,
     engine_mutex = None, stopping = S_none, taken = tk, closed = [], leaked = []\<rparr>)"
  have start: "start_pool ?c = P A_check [] W_check W_check []"
    by (simp add: start_pool_def P_def n numeral_eq_Suc)
  have "?S\<^sup>*\<^sup>* (P A_check [] W_check W_check []) (P A_accept [] W_check W_check [])"
    by (rule r_into_rtranclp) (use pool_step.accept_check [of "P A_check [] W_check W_check []" ?c] in \<open>simp add: P_def\<close>)
  also have "?S\<^sup>*\<^sup>* (P A_accept [] W_check W_check []) (P A_check [0] W_check W_check [0])"
    by (rule r_into_rtranclp) (use pool_step.accept_enqueue [of "P A_accept [] W_check W_check []" 0 ?c "[0]"] in \<open>simp add: P_def try_enqueue_def n\<close>)
  also have "?S\<^sup>*\<^sup>* (P A_check [0] W_check W_check [0]) (P A_accept [0] W_check W_check [0])"
    by (rule r_into_rtranclp) (use pool_step.accept_check [of "P A_check [0] W_check W_check [0]" ?c] in \<open>simp add: P_def\<close>)
  also have "?S\<^sup>*\<^sup>* (P A_accept [0] W_check W_check [0]) (P A_check [0, 1] W_check W_check [0, 1])"
    by (rule r_into_rtranclp) (use pool_step.accept_enqueue [of "P A_accept [0] W_check W_check [0]" 1 ?c "[0, 1]"] in \<open>simp add: P_def try_enqueue_def n\<close>)
  also have "?S\<^sup>*\<^sup>* (P A_check [0, 1] W_check W_check [0, 1]) (P A_check [0, 1] W_wait W_check [0, 1])"
    by (rule r_into_rtranclp) (use pool_step.work_check [of 0 "P A_check [0, 1] W_check W_check [0, 1]" ?c] in \<open>simp add: P_def set_worker_def\<close>)
  also have "?S\<^sup>*\<^sup>* (P A_check [0, 1] W_wait W_check [0, 1]) (P A_check [0, 1] W_wait W_wait [0, 1])"
    by (rule r_into_rtranclp) (use pool_step.work_check [of 1 "P A_check [0, 1] W_wait W_check [0, 1]" ?c] in \<open>simp add: P_def set_worker_def\<close>)
  also have "?S\<^sup>*\<^sup>* (P A_check [0, 1] W_wait W_wait [0, 1]) (P A_check [1] (W_read 0) W_wait [0, 1])"
    by (rule r_into_rtranclp) (use pool_step.work_take [of 0 "P A_check [0, 1] W_wait W_wait [0, 1]" 0 "[1]" ?c] in \<open>simp add: P_def set_worker_def dequeue_def\<close>)
  also have "?S\<^sup>*\<^sup>* (P A_check [1] (W_read 0) W_wait [0, 1]) (P A_check [] (W_read 0) (W_read 1) [0, 1])"
    by (rule r_into_rtranclp) (use pool_step.work_take [of 1 "P A_check [1] (W_read 0) W_wait [0, 1]" 1 "[]" ?c] in \<open>simp add: P_def set_worker_def dequeue_def\<close>)
  also have "?S\<^sup>*\<^sup>* (P A_check [] (W_read 0) (W_read 1) [0, 1]) (P A_check [] (W_count 0) (W_read 1) [0, 1])"
    by (rule r_into_rtranclp) (use pool_step.work_count [of 0 "P A_check [] (W_read 0) (W_read 1) [0, 1]" 0 ?c] in \<open>simp add: P_def set_worker_def\<close>)
  also have "?S\<^sup>*\<^sup>* (P A_check [] (W_count 0) (W_read 1) [0, 1]) (P A_check [] (W_count 0) (W_count 1) [0, 1])"
    by (rule r_into_rtranclp) (use pool_step.work_count [of 1 "P A_check [] (W_count 0) (W_read 1) [0, 1]" 1 ?c] in \<open>simp add: P_def set_worker_def\<close>)
  finally have "?S\<^sup>*\<^sup>* (start_pool ?c) (P A_check [] (W_count 0) (W_count 1) [0, 1])" by (simp only: start)
  then show ?thesis by (intro exI [of _ "P A_check [] (W_count 0) (W_count 1) [0, 1]"] exI [of _ 0] exI [of _ 1]) (simp add: P_def)
qed

end
